(* ===== verification/Hev_Prelude.thy ===== *)
theory Hev_Prelude
  imports Main "HOL-Library.Word" "HOL-Library.Monad_Syntax"
begin

unbundle bit_operations_syntax

text \<open>
  Shared vocabulary of the development: the machine integers of the C sources, pointers and
  heaps (one map per struct, \<open>None\<close> for a dereference the C program must not make), the C
  string and memory functions the sources call, and the generic lemmas the components use.
\<close>

section \<open>Machine integers\<close>

type_synonym u8 = "8 word"
type_synonym u16 = "16 word"
type_synonym u32 = "32 word"
type_synonym addr = "64 word"

text \<open>The facts about heap reads and writes, and those about byte buffers.\<close>

named_theorems heap_simps "dereferences and field updates of a heap"
named_theorems byte_simps "byte order, C strings and memory copies"

text \<open>Signed comparison of 32-bit integers that are not negative.\<close>

lemma uint_unat_31: "uint (w :: u32) < 2 ^ 31 \<longleftrightarrow> unat w < 2 ^ 31"
proof -
  have "int (unat w) = uint w" by simp
  then have "uint w < 2147483648 \<longleftrightarrow> unat w < 2147483648" by linarith
  then show ?thesis by simp
qed

lemma sint_small: "unat (w :: u32) < 2 ^ 31 \<Longrightarrow> sint w = int (unat w)"
proof -
  assume "unat w < 2 ^ 31"
  then have "uint w < 2 ^ 31" by (simp only: uint_unat_31)
  moreover have "- (2 ^ 31) \<le> uint w" by (rule order_trans [OF _ uint_ge_0]) simp
  ultimately have "signed_take_bit 31 (uint w) = uint w"
    by (intro signed_take_bit_int_eq_self)
  then show ?thesis by (simp add: sint_uint)
qed

lemma sle_zero_iff: "0 \<le>s (w :: u32) \<longleftrightarrow> unat w < 2 ^ 31"
proof -
  define q where "q = uint w div 2 ^ 31"
  have q: "q < 2" "0 \<le> q" using uint_lt2p [of w] by (auto simp: q_def pos_imp_zdiv_nonneg_iff)
  have "0 \<le>s w \<longleftrightarrow> \<not> bit (uint w) 31" by (simp add: word_sle_eq sint_uint signed_take_bit_nonnegative_iff)
  also have "\<dots> \<longleftrightarrow> even q" by (simp add: bit_iff_odd q_def)
  also have "\<dots> \<longleftrightarrow> q = 0" using q by presburger
  also have "\<dots> \<longleftrightarrow> uint w < 2 ^ 31" by (auto simp: q_def zdiv_eq_0_iff)
  also have "\<dots> \<longleftrightarrow> unat w < 2 ^ 31" by (rule uint_unat_31)
  finally show ?thesis .
qed

lemma sless_unat: "0 \<le>s a \<Longrightarrow> 0 \<le>s b \<Longrightarrow> a <s b \<longleftrightarrow> unat a < unat (b :: u32)"
  unfolding sle_zero_iff word_sless_alt by (simp only: sint_small of_nat_less_iff)

lemma sle_unat: "0 \<le>s a \<Longrightarrow> 0 \<le>s b \<Longrightarrow> a \<le>s b \<longleftrightarrow> unat a \<le> unat (b :: u32)"
  using sless_unat [of b a] by (simp add: word_sless_alt word_sle_eq linorder_not_less [symmetric])
section \<open>Heaps\<close>

text \<open>
  A heap maps the addresses of the allocated structs of one type to their contents. Reading or
  writing through \<open>NULL\<close> or through a pointer to no struct has no result.
\<close>

type_synonym 'n heap = "addr \<rightharpoonup> 'n"

abbreviation NULL :: addr where
  "NULL \<equiv> 0"

definition deref :: "'n heap \<Rightarrow> addr \<Rightarrow> 'n option" where
  "deref h p = (if p = NULL then None else h p)"

definition assign :: "'n heap \<Rightarrow> addr \<Rightarrow> ('n \<Rightarrow> 'n) \<Rightarrow> 'n heap option" where
  "assign h p f = (case deref h p of None \<Rightarrow> None | Some n \<Rightarrow> Some (h(p \<mapsto> f n)))"

lemma deref_Some [heap_simps]: "p \<noteq> NULL \<Longrightarrow> h p = Some n \<Longrightarrow> deref h p = Some n"
  by (simp add: deref_def)

lemma assign_Some [heap_simps]: "p \<noteq> NULL \<Longrightarrow> h p = Some n \<Longrightarrow> assign h p f = Some (h(p \<mapsto> f n))"
  by (simp add: assign_def deref_def)

lemma deref_NULL [simp]: "deref h NULL = None"
  by (simp add: deref_def)

lemma assign_NULL [simp]: "assign h NULL f = None"
  by (simp add: assign_def)

text \<open>Two heaps that differ on the addresses of a set only.\<close>

definition frame :: "addr set \<Rightarrow> 'n heap \<Rightarrow> 'n heap \<Rightarrow> bool" where
  "frame A h h' \<longleftrightarrow> (\<forall>a. a \<notin> A \<longrightarrow> h' a = h a)"

lemma frame_refl [simp, intro]: "frame A h h"
  by (simp add: frame_def)

lemma frame_trans: "frame A h h' \<Longrightarrow> frame A h' h'' \<Longrightarrow> frame A h h''"
  by (simp add: frame_def)

lemma frame_mono: "frame A h h' \<Longrightarrow> A \<subseteq> B \<Longrightarrow> frame B h h'"
  by (auto simp: frame_def)

lemma frame_upd [intro]: "a \<in> A \<Longrightarrow> frame A h h' \<Longrightarrow> frame A h (h'(a := v))"
  by (auto simp: frame_def)

lemma disjoint_Un [simp]:
  "A \<inter> (B \<union> C) = {} \<longleftrightarrow> A \<inter> B = {} \<and> A \<inter> C = {}"
  "(A \<union> B) \<inter> C = {} \<longleftrightarrow> A \<inter> C = {} \<and> B \<inter> C = {}"
  by blast+

section \<open>Byte order\<close>

definition swap16 :: "u16 \<Rightarrow> u16" where
  "swap16 v = push_bit 8 v OR drop_bit 8 v"

text \<open>
  The hosts this program runs on (the Android ABIs) are little-endian: \<open>htons\<close> and
  \<open>ntohs\<close> swap the two bytes, \<open>htonl\<close> and \<open>ntohl\<close> reverse the four.
\<close>

abbreviation htons :: "u16 \<Rightarrow> u16" where
  "htons \<equiv> swap16"

abbreviation ntohs :: "u16 \<Rightarrow> u16" where
  "ntohs \<equiv> swap16"

lemma swap16_swap16 [simp]: "swap16 (swap16 v) = v"
  unfolding swap16_def by (rule bit_word_eqI) (auto simp: bit_simps)

text \<open>A 16-bit integer as the two bytes the host stores for it, and read back.\<close>

definition bytes16 :: "u16 \<Rightarrow> u8 list" where
  "bytes16 v = [ucast v, ucast (drop_bit 8 v)]"

definition load16 :: "u8 \<Rightarrow> u8 \<Rightarrow> u16" where
  "load16 b0 b1 = ucast b0 OR push_bit 8 (ucast b1)"

lemma length_bytes16 [simp]: "length (bytes16 v) = 2"
  by (simp add: bytes16_def)

lemma load16_bytes16 [byte_simps]: "load16 (ucast v) (ucast (drop_bit 8 v)) = v"
  unfolding load16_def by (rule bit_word_eqI) (auto simp: bit_simps)

lemma bytes16_load16 [byte_simps]: "bytes16 (load16 a b) = [a, b]"
  unfolding bytes16_def load16_def
  by (auto intro!: bit_word_eqI simp: bit_simps) (auto dest!: bit_imp_le_length)

section \<open>C strings and memory\<close>

text \<open>A C string is the list of its bytes before the terminating 0.\<close>

type_synonym cstring = "u8 list"

definition cstr :: "u8 list \<Rightarrow> cstring" where
  "cstr bs = takeWhile (\<lambda>b. b \<noteq> 0) bs"

definition is_cstring :: "u8 list \<Rightarrow> bool" where
  "is_cstring s \<longleftrightarrow> 0 \<notin> set s"

lemma cstr_append [byte_simps]: "is_cstring s \<Longrightarrow> cstr (s @ 0 # rest) = s"
  by (induction s) (auto simp: cstr_def is_cstring_def)

lemma is_cstring_cstr [simp]: "is_cstring (cstr bs)"
  by (auto simp: cstr_def is_cstring_def dest: set_takeWhileD)

text \<open>\<open>memcpy (buf + off, bs, length bs)\<close> into a buffer.\<close>

definition memcpy_at :: "u8 list \<Rightarrow> nat \<Rightarrow> u8 list \<Rightarrow> u8 list" where
  "memcpy_at buf off bs = take off buf @ bs @ drop (off + length bs) buf"

lemma length_memcpy_at [simp]:
  "off + length bs \<le> length buf \<Longrightarrow> length (memcpy_at buf off bs) = length buf"
  by (simp add: memcpy_at_def)

lemma nth_memcpy_at [byte_simps]:
  "off + length bs \<le> length buf \<Longrightarrow> i < length buf \<Longrightarrow>
   memcpy_at buf off bs ! i = (if off \<le> i \<and> i < off + length bs then bs ! (i - off) else buf ! i)"
  by (auto simp: memcpy_at_def nth_append)

text \<open>
  \<open>strcmp\<close>: negative, zero or positive as the first differing byte decides, a proper prefix
  being smaller.
\<close>

fun strcmp :: "cstring \<Rightarrow> cstring \<Rightarrow> int" where
  "strcmp [] [] = 0"
| "strcmp [] (b # bs) = -1"
| "strcmp (a # as) [] = 1"
| "strcmp (a # as) (b # bs) = (if a < b then -1 else if b < a then 1 else strcmp as bs)"

lemma strcmp_eq_0 [simp]: "strcmp as bs = 0 \<longleftrightarrow> as = bs"
  by (induction as bs rule: strcmp.induct) auto

lemma strcmp_swap: "strcmp bs as = - strcmp as bs"
  by (induction as bs rule: strcmp.induct) auto

lemma strcmp_trans: "strcmp as bs < 0 \<Longrightarrow> strcmp bs cs < 0 \<Longrightarrow> strcmp as cs < 0"
proof (induction as bs arbitrary: cs rule: strcmp.induct)
  case (4 a as b bs)
  then show ?case by (cases cs) (auto split: if_splits)
next
  case (2 b bs)
  then show ?case by (cases cs) auto
qed auto

end
