(* ===== verification/Hev_List.thy ===== *)
theory Hev_List
  imports Hev_Prelude
begin

text \<open>
  The intrusive doubly linked list of \<open>src/misc/hev-list.[ch]\<close>, at pointer level: a list head
  with its two pointers, a heap of list nodes, and the two operations that rewire them. The
  predicate \<open>list_rep\<close> says which sequence of nodes a head and a heap represent; the locale
  \<open>node_sequence\<close> is the contract the clients of the list use (the mapped DNS cache, the
  session set of the tunnel, the frame queue of a UDP session).
\<close>

section \<open>The data structure and its operations\<close>

record HevListNode =
  ln_next :: addr
  ln_prev :: addr

record HevList =
  list_head :: addr
  list_tail :: addr

type_synonym lheap = "HevListNode heap"

definition hev_list_node_prev :: "lheap \<Rightarrow> addr \<Rightarrow> addr option" where
  "hev_list_node_prev h node = map_option ln_prev (deref h node)"

definition hev_list_node_next :: "lheap \<Rightarrow> addr \<Rightarrow> addr option" where
  "hev_list_node_next h node = map_option ln_next (deref h node)"

definition hev_list_first :: "HevList \<Rightarrow> addr" where
  "hev_list_first self = list_head self"

definition hev_list_last :: "HevList \<Rightarrow> addr" where
  "hev_list_last self = list_tail self"

definition hev_list_add_tail :: "HevList \<Rightarrow> lheap \<Rightarrow> addr \<Rightarrow> (HevList \<times> lheap) option" where
  "hev_list_add_tail self h new = do {
     h \<leftarrow> assign h new (\<lambda>n. n\<lparr>ln_prev := list_tail self\<rparr>);
     h \<leftarrow> assign h new (\<lambda>n. n\<lparr>ln_next := NULL\<rparr>);
     if list_tail self \<noteq> NULL then do {
       h \<leftarrow> assign h (list_tail self) (\<lambda>n. n\<lparr>ln_next := new\<rparr>);
       Some (self\<lparr>list_tail := new\<rparr>, h)
     } else Some (self\<lparr>list_head := new, list_tail := new\<rparr>, h)
   }"

definition hev_list_del :: "HevList \<Rightarrow> lheap \<Rightarrow> addr \<Rightarrow> (HevList \<times> lheap) option" where
  "hev_list_del self h node = do {
     n \<leftarrow> deref h node;
     (self, h) \<leftarrow>
       (if ln_prev n \<noteq> NULL then do {
          h \<leftarrow> assign h (ln_prev n) (\<lambda>m. m\<lparr>ln_next := ln_next n\<rparr>);
          Some (self, h)
        } else Some (self\<lparr>list_head := ln_next n\<rparr>, h));
     n \<leftarrow> deref h node;
     if ln_next n \<noteq> NULL then do {
       h \<leftarrow> assign h (ln_next n) (\<lambda>m. m\<lparr>ln_prev := ln_prev n\<rparr>);
       Some (self, h)
     } else Some (self\<lparr>list_tail := ln_prev n\<rparr>, h)
   }"

section \<open>The sequence a list represents\<close>

fun first_ptr :: "addr list \<Rightarrow> addr \<Rightarrow> addr" where
  "first_ptr [] d = d"
| "first_ptr (x # xs) d = x"

fun last_ptr :: "addr \<Rightarrow> addr list \<Rightarrow> addr" where
  "last_ptr d [] = d"
| "last_ptr d (x # xs) = last_ptr x xs"

text \<open>
  \<open>lseg h p xs n\<close>: the nodes \<open>xs\<close> are linked in both directions, the first one back to
  \<open>p\<close>, the last one on to \<open>n\<close>.
\<close>

fun lseg :: "lheap \<Rightarrow> addr \<Rightarrow> addr list \<Rightarrow> addr \<Rightarrow> bool" where
  "lseg h p [] n = True"
| "lseg h p (x # xs) n \<longleftrightarrow>
     x \<noteq> NULL \<and> h x = Some \<lparr>ln_next = first_ptr xs n, ln_prev = p\<rparr> \<and> lseg h x xs n"

definition list_rep :: "HevList \<Rightarrow> lheap \<Rightarrow> addr list \<Rightarrow> bool" where
  "list_rep l h xs \<longleftrightarrow>
     list_head l = first_ptr xs NULL \<and> list_tail l = last_ptr NULL xs \<and>
     lseg h NULL xs NULL \<and> distinct xs"

lemma first_ptr_append [simp]: "first_ptr (xs @ ys) d = first_ptr xs (first_ptr ys d)"
  by (cases xs) auto

lemma last_ptr_append [simp]: "last_ptr d (xs @ ys) = last_ptr (last_ptr d xs) ys"
  by (induction xs arbitrary: d) auto

lemma last_ptr_in: "xs \<noteq> [] \<Longrightarrow> last_ptr d xs \<in> set xs"
  by (induction xs arbitrary: d) (auto, metis last_ptr.simps(1))

lemma lseg_append [simp]:
  "lseg h p (xs @ ys) n \<longleftrightarrow> lseg h p xs (first_ptr ys n) \<and> lseg h (last_ptr p xs) ys n"
  by (induction xs arbitrary: p) auto

lemma lseg_upd [simp]: "a \<notin> set xs \<Longrightarrow> lseg (h(a := v)) p xs n = lseg h p xs n"
  by (induction xs arbitrary: p) auto

lemma lseg_frame: "frame A h h' \<Longrightarrow> set xs \<inter> A = {} \<Longrightarrow> lseg h' p xs n = lseg h p xs n"
  by (induction xs arbitrary: p) (auto simp: frame_def)

lemma lseg_nonnull: "lseg h p xs n \<Longrightarrow> NULL \<notin> set xs"
  by (induction xs arbitrary: p) auto

lemma lseg_allocated: "lseg h p xs n \<Longrightarrow> x \<in> set xs \<Longrightarrow> h x \<noteq> None"
  by (induction xs arbitrary: p) auto

lemma list_rep_distinct: "list_rep l h xs \<Longrightarrow> distinct xs"
  by (simp add: list_rep_def)

lemma list_rep_nonnull: "list_rep l h xs \<Longrightarrow> NULL \<notin> set xs"
  by (auto simp: list_rep_def dest: lseg_nonnull)

lemma list_rep_allocated: "list_rep l h xs \<Longrightarrow> x \<in> set xs \<Longrightarrow> h x \<noteq> None"
  by (auto simp: list_rep_def dest: lseg_allocated)

lemma list_rep_frame: "frame A h h' \<Longrightarrow> set xs \<inter> A = {} \<Longrightarrow> list_rep l h xs \<Longrightarrow> list_rep l h' xs"
  by (simp add: list_rep_def lseg_frame)

lemma list_rep_first: "list_rep l h xs \<Longrightarrow> hev_list_first l = (case xs of [] \<Rightarrow> NULL | x # _ \<Rightarrow> x)"
  by (cases xs) (auto simp: list_rep_def hev_list_first_def)

lemma list_rep_next:
  "list_rep l h (xs @ x # ys) \<Longrightarrow> hev_list_node_next h x = Some (first_ptr ys NULL)"
  by (auto simp: list_rep_def hev_list_node_next_def deref_def)

text \<open>The link of the last node, and the back link of the first one, can be redirected alone.\<close>

lemma lseg_set_last_next:
  assumes "lseg h p (xs @ [x]) n" and "distinct (xs @ [x])"
  shows "lseg (h(x \<mapsto> the (h x)\<lparr>ln_next := m\<rparr>)) p (xs @ [x]) m"
  using assms by auto

lemma lseg_set_first_prev:
  assumes "lseg h p (x # xs) n" and "x \<notin> set xs"
  shows "lseg (h(x \<mapsto> the (h x)\<lparr>ln_prev := q\<rparr>)) q (x # xs) n"
  using assms by auto

section \<open>The operations on the represented sequence\<close>

lemma hev_list_add_tail_rep:
  assumes rep: "list_rep l h xs" and new: "x \<noteq> NULL" "h x \<noteq> None" "x \<notin> set xs"
  shows "\<exists>l' h'. hev_list_add_tail l h x = Some (l', h') \<and> list_rep l' h' (xs @ [x]) \<and>
           frame (insert x (set xs)) h h' \<and> dom h' = dom h"
proof (cases xs rule: rev_cases)
  case Nil
  then show ?thesis using rep new
    by (auto simp: hev_list_add_tail_def list_rep_def assign_def deref_def frame_def)
next
  case (snoc ys y)
  with rep have y: "y \<noteq> NULL" "h y = Some \<lparr>ln_next = NULL, ln_prev = last_ptr NULL ys\<rparr>" "y \<notin> set ys"
    and tail: "list_tail l = y"
    by (auto simp: list_rep_def)
  from new snoc have "x \<noteq> y" by auto
  then show ?thesis using rep new snoc y tail
    by (auto simp: hev_list_add_tail_def list_rep_def assign_def deref_def frame_def)
qed

lemma hev_list_del_rep:
  assumes rep: "list_rep l h (xs @ x # ys)"
  shows "\<exists>l' h'. hev_list_del l h x = Some (l', h') \<and> list_rep l' h' (xs @ ys) \<and>
           frame (set xs \<union> set ys) h h' \<and> dom h' = dom h"
proof -
  from rep have x: "x \<noteq> NULL" "h x = Some \<lparr>ln_next = first_ptr ys NULL, ln_prev = last_ptr NULL xs\<rparr>"
    and xs: "lseg h NULL xs x" and ys: "lseg h x ys NULL" and d: "distinct (xs @ x # ys)"
    by (auto simp: list_rep_def)
  consider (a) "xs = []" "ys = []" | (b) "xs = []" "ys \<noteq> []" | (c) "xs \<noteq> []" "ys = []"
    | (d) "xs \<noteq> []" "ys \<noteq> []" by blast
  then show ?thesis
  proof cases
    case a
    then show ?thesis using rep x by (auto simp: hev_list_del_def deref_def list_rep_def)
  next
    case b
    then obtain y zs where "ys = y # zs" by (cases ys) auto
    then show ?thesis using rep x b d
      by (auto simp: hev_list_del_def deref_def assign_def list_rep_def frame_def)
  next
    case c
    then obtain w ws where "xs = ws @ [w]" by (cases xs rule: rev_cases) auto
    then show ?thesis using rep x c d
      by (auto simp: hev_list_del_def deref_def assign_def list_rep_def frame_def)
  next
    case d
    then obtain y zs w ws where "ys = y # zs" "xs = ws @ [w]"
      by (cases ys; cases xs rule: rev_cases) auto
    then show ?thesis using rep x \<open>distinct (xs @ x # ys)\<close>
      by (auto simp: hev_list_del_def deref_def assign_def list_rep_def frame_def)
  qed
qed

section \<open>The contract of the list\<close>

text \<open>
  What a client relies on: a sequence of distinct nodes, a node added at the end, a node removed
  from anywhere. The moves the clients make (\<open>del\<close> then \<open>add_tail\<close>: the least recently used
  entry stays at the head) are derived here once.
\<close>

locale node_sequence =
  fixes rep :: "'l \<Rightarrow> 'n heap \<Rightarrow> addr list \<Rightarrow> bool"
    and add_tail :: "'l \<Rightarrow> 'n heap \<Rightarrow> addr \<Rightarrow> ('l \<times> 'n heap) option"
    and del :: "'l \<Rightarrow> 'n heap \<Rightarrow> addr \<Rightarrow> ('l \<times> 'n heap) option"
    and first :: "'l \<Rightarrow> addr"
  assumes rep_distinct: "rep l h xs \<Longrightarrow> distinct xs"
    and rep_nonnull: "rep l h xs \<Longrightarrow> NULL \<notin> set xs"
    and rep_allocated: "rep l h xs \<Longrightarrow> x \<in> set xs \<Longrightarrow> h x \<noteq> None"
    and rep_frame: "frame A h h' \<Longrightarrow> set xs \<inter> A = {} \<Longrightarrow> rep l h xs \<Longrightarrow> rep l h' xs"
    and rep_first: "rep l h xs \<Longrightarrow> first l = (case xs of [] \<Rightarrow> NULL | x # _ \<Rightarrow> x)"
    and add_tail_rep: "rep l h xs \<Longrightarrow> x \<noteq> NULL \<Longrightarrow> h x \<noteq> None \<Longrightarrow> x \<notin> set xs \<Longrightarrow>
      \<exists>l' h'. add_tail l h x = Some (l', h') \<and> rep l' h' (xs @ [x]) \<and>
        frame (insert x (set xs)) h h' \<and> dom h' = dom h"
    and del_rep: "rep l h (xs @ x # ys) \<Longrightarrow>
      \<exists>l' h'. del l h x = Some (l', h') \<and> rep l' h' (xs @ ys) \<and>
        frame (set xs \<union> set ys) h h' \<and> dom h' = dom h"
begin

lemma del_remove1:
  assumes "rep l h xs" and "x \<in> set xs"
  obtains l' h' where "del l h x = Some (l', h')" "rep l' h' (remove1 x xs)"
    "frame (set xs) h h'" "dom h' = dom h"
proof -
  from assms(2) obtain us vs where xs: "xs = us @ x # vs" and "x \<notin> set us"
    by (meson split_list_first)
  then have "remove1 x xs = us @ vs" by (simp add: remove1_append)
  moreover from del_rep [of l h us x vs] assms(1) xs obtain l' h' where
    "del l h x = Some (l', h')" "rep l' h' (us @ vs)" "frame (set us \<union> set vs) h h'" "dom h' = dom h"
    by auto
  moreover from this(3) have "frame (set xs) h h'"
    by (rule frame_mono) (auto simp: xs)
  ultimately show thesis using that by metis
qed

lemma touch:
  assumes "rep l h xs" and "x \<in> set xs"
  obtains l1 h1 l2 h2 where "del l h x = Some (l1, h1)" "add_tail l1 h1 x = Some (l2, h2)"
    "rep l2 h2 (remove1 x xs @ [x])" "frame (set xs) h h2" "dom h2 = dom h"
proof -
  from assms obtain l1 h1 where 1: "del l h x = Some (l1, h1)" "rep l1 h1 (remove1 x xs)"
    "frame (set xs) h h1" "dom h1 = dom h"
    by (rule del_remove1)
  have x: "x \<noteq> NULL" "h1 x \<noteq> None" "x \<notin> set (remove1 x xs)"
    using assms 1(4) rep_nonnull [OF assms(1)] rep_allocated [OF assms] rep_distinct [OF assms(1)]
    by (auto simp: dom_def)
  from add_tail_rep [OF 1(2) x] obtain l2 h2 where
    2: "add_tail l1 h1 x = Some (l2, h2)" "rep l2 h2 (remove1 x xs @ [x])"
       "frame (insert x (set (remove1 x xs))) h1 h2" "dom h2 = dom h1"
    by blast
  have "insert x (set (remove1 x xs)) \<subseteq> set xs"
    using assms(2) set_remove1_subset by fast
  with 2(3) have "frame (set xs) h1 h2" by (rule frame_mono)
  with 1(3) have "frame (set xs) h h2" by (rule frame_trans)
  with 1(1,4) 2(1,2,4) that show thesis by simp
qed

end

interpretation hl: node_sequence list_rep hev_list_add_tail hev_list_del hev_list_first
  by unfold_locales
    (auto simp: list_rep_distinct list_rep_nonnull list_rep_frame list_rep_first
      hev_list_add_tail_rep hev_list_del_rep dest: list_rep_allocated)

end
