(* ===== verification/Hev_Ring_Buffer.thy ===== *)
theory Hev_Ring_Buffer
  imports Hev_Prelude
begin

text \<open>
  The ring buffer of \<open>src/misc/hev-ring-buffer.[ch]\<close>, in which a TCP session keeps the bytes
  received from the SOCKS5 server until the local TCP stack has acknowledged them. The record and
  the operations are those of the C code, at the width of \<open>size_t\<close>. The abstraction is a pair
  of byte sequences: the bytes handed to the TCP stack and not yet acknowledged (\<open>inflight\<close>),
  and the bytes not yet handed over (\<open>unread\<close>). The locale \<open>splice_queue\<close> is the contract
  of such a buffer, and proves that a stream passes through it unchanged.
\<close>

section \<open>The data structure and its operations\<close>

record HevRingBuffer =
  rp :: "64 word"
  wp :: "64 word"
  rda_size :: "64 word"
  use_size :: "64 word"
  max_size :: "64 word"
  rb_data :: "u8 list"

text \<open>An \<open>iovec\<close> into the buffer: the offset of \<open>iov_base\<close> in \<open>data\<close>, and \<open>iov_len\<close>.\<close>

type_synonym iovec = "64 word \<times> 64 word"

definition hev_ring_buffer_alloca :: "64 word \<Rightarrow> u8 list \<Rightarrow> HevRingBuffer" where
  "hev_ring_buffer_alloca s mem =
     \<lparr>rp = 0, wp = 0, rda_size = 0, use_size = 0, max_size = s, rb_data = mem\<rparr>"

definition hev_ring_buffer_get_max_size :: "HevRingBuffer \<Rightarrow> 64 word" where
  "hev_ring_buffer_get_max_size self = max_size self"

definition hev_ring_buffer_get_use_size :: "HevRingBuffer \<Rightarrow> 64 word" where
  "hev_ring_buffer_get_use_size self = use_size self"

definition hev_ring_buffer_reading :: "HevRingBuffer \<Rightarrow> iovec list" where
  "hev_ring_buffer_reading self =
     (if rda_size self = 0 then []
      else let upper_size = max_size self - rp self in
        if rda_size self \<le> upper_size then [(rp self, rda_size self)]
        else [(rp self, upper_size), (0, rda_size self - upper_size)])"

definition hev_ring_buffer_read_finish :: "HevRingBuffer \<Rightarrow> 64 word \<Rightarrow> HevRingBuffer" where
  "hev_ring_buffer_read_finish self sz =
     self\<lparr>rp := (rp self + sz) mod max_size self, rda_size := rda_size self - sz\<rparr>"

definition hev_ring_buffer_read_release :: "HevRingBuffer \<Rightarrow> 64 word \<Rightarrow> HevRingBuffer" where
  "hev_ring_buffer_read_release self sz =
     (let self = self\<lparr>use_size := use_size self - sz\<rparr> in
      if use_size self = 0 then self\<lparr>rp := 0, wp := 0\<rparr> else self)"

definition hev_ring_buffer_writing :: "HevRingBuffer \<Rightarrow> iovec list" where
  "hev_ring_buffer_writing self =
     (if use_size self = max_size self then []
      else let upper_size = max_size self - wp self; spc_size = max_size self - use_size self in
        if spc_size \<le> upper_size then [(wp self, spc_size)]
        else [(wp self, upper_size), (0, spc_size - upper_size)])"

definition hev_ring_buffer_write_finish :: "HevRingBuffer \<Rightarrow> 64 word \<Rightarrow> HevRingBuffer" where
  "hev_ring_buffer_write_finish self sz =
     self\<lparr>wp := (wp self + sz) mod max_size self,
          use_size := use_size self + sz, rda_size := rda_size self + sz\<rparr>"

text \<open>
  What the system calls do through the vectors: \<open>readv\<close> fills the areas in order with the
  bytes it received, \<open>tcp_write\<close> copies the bytes of an area.
\<close>

fun readv_into :: "u8 list \<Rightarrow> iovec list \<Rightarrow> u8 list \<Rightarrow> u8 list" where
  "readv_into mem [] bs = mem"
| "readv_into mem ((off, len) # iov) bs =
     readv_into (memcpy_at mem (unat off) (take (unat len) bs)) iov (drop (unat len) bs)"

definition iov_bytes :: "u8 list \<Rightarrow> iovec \<Rightarrow> u8 list" where
  "iov_bytes mem v = take (unat (snd v)) (drop (unat (fst v)) mem)"

definition iov_total :: "iovec list \<Rightarrow> nat" where
  "iov_total iov = sum_list (map (unat \<circ> snd) iov)"

section \<open>Invariant and abstraction\<close>

abbreviation cap :: "HevRingBuffer \<Rightarrow> nat" where
  "cap b \<equiv> unat (max_size b)"

definition rb_inv :: "HevRingBuffer \<Rightarrow> bool" where
  "rb_inv b \<longleftrightarrow>
     0 < cap b \<and> cap b < 2 ^ 63 \<and> length (rb_data b) = cap b \<and>
     unat (rp b) < cap b \<and> unat (rda_size b) \<le> unat (use_size b) \<and> unat (use_size b) \<le> cap b \<and>
     unat (wp b) = (unat (rp b) + unat (rda_size b)) mod cap b"

text \<open>\<open>window m start n xs\<close>: the \<open>n\<close> elements of the ring \<open>xs\<close> of size \<open>m\<close> from \<open>start\<close> on.\<close>

definition window :: "nat \<Rightarrow> nat \<Rightarrow> nat \<Rightarrow> u8 list \<Rightarrow> u8 list" where
  "window m start n xs = map (\<lambda>i. xs ! ((start + i) mod m)) [0..<n]"

definition unread :: "HevRingBuffer \<Rightarrow> u8 list" where
  "unread b = window (cap b) (unat (rp b)) (unat (rda_size b)) (rb_data b)"

definition inflight :: "HevRingBuffer \<Rightarrow> u8 list" where
  "inflight b =
     (let n = unat (use_size b) - unat (rda_size b) in
      window (cap b) (unat (rp b) + cap b - n) n (rb_data b))"

lemma length_window [simp]: "length (window m s n xs) = n"
  by (simp add: window_def)

lemma window_0 [simp]: "window m s 0 xs = []"
  by (simp add: window_def)

lemma window_append: "window m s n xs @ window m (s + n) k xs = window m s (n + k) xs"
  by (rule nth_equalityI) (auto simp: window_def nth_append add.assoc)

lemma window_cong_start: "s mod m = s' mod m \<Longrightarrow> window m s n xs = window m s' n xs"
  by (auto simp: window_def intro!: arg_cong [where f = "\<lambda>i. xs ! i"]) (metis mod_add_left_eq)

lemma window_take: "k \<le> n \<Longrightarrow> take k (window m s n xs) = window m s k xs"
  by (rule nth_equalityI) (auto simp: window_def)

lemma window_drop: "k \<le> n \<Longrightarrow> drop k (window m s n xs) = window m (s + k) (n - k) xs"
  by (rule nth_equalityI) (auto simp: window_def add.assoc)

lemma window_cong:
  "(\<And>i. i < n \<Longrightarrow> ys ! ((s + i) mod m) = xs ! ((s + i) mod m)) \<Longrightarrow> window m s n ys = window m s n xs"
  by (auto simp: window_def)

lemma window_contiguous: "s + n \<le> m \<Longrightarrow> length xs = m \<Longrightarrow> window m s n xs = take n (drop s xs)"
  by (rule nth_equalityI) (auto simp: window_def)

lemma length_unread [simp]: "length (unread b) = unat (rda_size b)"
  by (simp add: unread_def)

lemma length_inflight [simp]: "length (inflight b) = unat (use_size b) - unat (rda_size b)"
  by (simp add: inflight_def Let_def)

section \<open>Writing into the ring\<close>

lemma ring_offset:
  fixes m :: nat
  assumes "d \<le> m" and "i < d"
  shows "((s + i) mod m + m - (s + d) mod m) mod m = m - d + i"
proof -
  have m: "0 < m" using assms by simp
  have le: "(s + d) mod m \<le> (s + i) mod m + m"
    using mod_less_divisor [OF m, of "s + d"] by simp
  have shift: "(a mod M + M - b mod M) mod M = (a - b) mod M" for a b M :: int
  proof -
    have "(a mod M + M - b mod M) mod M = ((a mod M - b mod M) + M) mod M"
      by (simp add: algebra_simps)
    also have "\<dots> = (a - b) mod M"
      by (simp add: mod_diff_eq)
    finally show ?thesis .
  qed
  have "int (((s + i) mod m + m - (s + d) mod m) mod m) = (int i - int d) mod int m"
    using shift [of "int (s + i)" "int m" "int (s + d)"] le by (simp add: of_nat_mod of_nat_diff)
  also have "\<dots> = (int m - int d + int i) mod int m"
    using mod_add_self2 [of "int i - int d" "int m"] by (simp add: algebra_simps)
  also have "\<dots> = int (m - d + i)"
    using assms by (simp add: of_nat_diff)
  finally show ?thesis by (simp only: of_nat_eq_iff)
qed

lemma ring_offset_self:
  fixes m :: nat
  assumes "i < m" and "w < m"
  shows "((w + i) mod m + m - w) mod m = i"
  using assms by (cases "w + i < m") (auto simp: mod_if)

lemma ring_distance:
  fixes m :: nat
  assumes "j < m" and "w < m"
  shows "(j + m - w) mod m = (if w \<le> j then j - w else j + m - w)"
proof (cases "w \<le> j")
  case True
  then have "(j + m - w) mod m = (j - w + m) mod m" by simp
  with True assms show ?thesis by (simp only: mod_add_self2) simp
qed (use assms in simp)

definition ring_write :: "nat \<Rightarrow> nat \<Rightarrow> u8 list \<Rightarrow> u8 list \<Rightarrow> u8 list \<Rightarrow> bool" where
  "ring_write m w bs mem mem' \<longleftrightarrow>
     length mem' = length mem \<and>
     (\<forall>j < m. mem' ! j = (if (j + m - w) mod m < length bs then bs ! ((j + m - w) mod m) else mem ! j))"

lemma ring_write_window:
  assumes "ring_write m w bs mem mem'" and "w < m" and "length bs \<le> m"
  shows "window m w (length bs) mem' = bs"
proof (rule nth_equalityI)
  fix i assume "i < length (window m w (length bs) mem')"
  then have i: "i < length bs" by simp
  with assms have "(w + i) mod m < m" and "((w + i) mod m + m - w) mod m = i"
    by (auto intro!: ring_offset_self)
  with assms(1) i show "window m w (length bs) mem' ! i = bs ! i"
    by (simp add: window_def ring_write_def)
qed simp

lemma ring_write_other:
  assumes wr: "ring_write m w bs mem mem'" and "(s + d) mod m = w"
    and "n \<le> d" and "d + length bs \<le> m"
  shows "window m s n mem' = window m s n mem"
proof (rule window_cong)
  fix i assume "i < n"
  with assms have i: "i < d" "d \<le> m" "0 < m" by auto
  then have "((s + i) mod m + m - w) mod m = m - d + i"
    using ring_offset [of d m i s] assms(2) by simp
  moreover have "(s + i) mod m < m" using i by simp
  moreover have "\<not> m - d + i < length bs" using i assms(4) by simp
  ultimately show "mem' ! ((s + i) mod m) = mem ! ((s + i) mod m)"
    using wr by (simp add: ring_write_def)
qed

lemma ring_write_memcpy:
  assumes "w + length bs \<le> m" and "w < m" and "length mem = m"
  shows "ring_write m w bs mem (memcpy_at mem w bs)"
  using assms by (auto simp: ring_write_def nth_memcpy_at ring_distance)

lemma ring_write_wrap:
  assumes "length bs \<le> m" and "w < m" and "length mem = m"
  shows "ring_write m w bs mem (memcpy_at (memcpy_at mem w (take (m - w) bs)) 0 (drop (m - w) bs))"
proof -
  let ?mem' = "memcpy_at (memcpy_at mem w (take (m - w) bs)) 0 (drop (m - w) bs)"
  have l: "w + length (take (m - w) bs) \<le> length mem" "0 + length (drop (m - w) bs) \<le> length mem"
    using assms by auto
  then have "?mem' ! j = (if (j + m - w) mod m < length bs then bs ! ((j + m - w) mod m) else mem ! j)"
    if "j < m" for j
    using that assms by (auto simp: nth_memcpy_at ring_distance add.commute)
  with l show ?thesis by (simp add: ring_write_def)
qed

lemma readv_into_writing:
  assumes inv: "rb_inv b" and len: "length bs \<le> cap b - unat (use_size b)"
  shows "ring_write (cap b) (unat (wp b)) bs (rb_data b)
           (readv_into (rb_data b) (hev_ring_buffer_writing b) bs)"
proof -
  let ?m = "cap b" and ?w = "unat (wp b)" and ?mem = "rb_data b"
  from inv have m: "0 < ?m" "?w < ?m" "unat (use_size b) \<le> ?m" "length ?mem = ?m"
    by (auto simp: rb_inv_def)
  have spc: "unat (max_size b - use_size b) = ?m - unat (use_size b)"
    and up: "unat (max_size b - wp b) = ?m - ?w"
    using m by (simp_all add: unat_sub word_le_nat_alt)
  consider (full) "use_size b = max_size b"
    | (one) "use_size b \<noteq> max_size b" "max_size b - use_size b \<le> max_size b - wp b"
    | (two) "use_size b \<noteq> max_size b" "\<not> max_size b - use_size b \<le> max_size b - wp b"
    by blast
  then show ?thesis
  proof cases
    case full
    with len show ?thesis by (simp add: hev_ring_buffer_writing_def ring_write_def)
  next
    case one
    then have "?m - unat (use_size b) \<le> ?m - ?w" using spc up by (simp add: word_le_nat_alt)
    with one len spc m show ?thesis
      by (simp add: hev_ring_buffer_writing_def Let_def ring_write_memcpy)
  next
    case two
    then have "unat (max_size b - use_size b - (max_size b - wp b)) = ?m - unat (use_size b) - (?m - ?w)"
      using m spc up by (simp add: unat_sub word_le_nat_alt)
    with two len m up show ?thesis
      by (simp add: hev_ring_buffer_writing_def Let_def ring_write_wrap)
  qed
qed

section \<open>The operations on the abstraction\<close>

text \<open>Receiving \<open>bs\<close> into the free space: \<open>writing\<close>, \<open>readv\<close>, \<open>write_finish\<close>.\<close>

definition rb_fill :: "HevRingBuffer \<Rightarrow> u8 list \<Rightarrow> HevRingBuffer" where
  "rb_fill b bs =
     hev_ring_buffer_write_finish
       (b\<lparr>rb_data := readv_into (rb_data b) (hev_ring_buffer_writing b) bs\<rparr>) (of_nat (length bs))"

lemma unat_of_nat_cap:
  "rb_inv b \<Longrightarrow> n \<le> cap b \<Longrightarrow> unat (of_nat n :: 64 word) = n"
  by (simp add: unat_of_nat take_bit_nat_eq_self rb_inv_def)

lemma unat_add_cap:
  fixes x y :: "64 word"
  shows "rb_inv b \<Longrightarrow> unat x \<le> cap b \<Longrightarrow> unat y \<le> cap b \<Longrightarrow> unat (x + y) = unat x + unat y"
  by (simp add: unat_word_ariths rb_inv_def)

lemma rb_fill_refines:
  assumes inv: "rb_inv b" and len: "length bs \<le> cap b - unat (use_size b)"
  shows "rb_inv (rb_fill b bs)" and "unread (rb_fill b bs) = unread b @ bs"
    and "inflight (rb_fill b bs) = inflight b"
proof -
  let ?m = "cap b" and ?mem' = "readv_into (rb_data b) (hev_ring_buffer_writing b) bs"
  define n where "n = unat (use_size b) - unat (rda_size b)"
  from inv have m: "0 < ?m" "unat (rp b) < ?m" "unat (rda_size b) \<le> unat (use_size b)"
      "unat (use_size b) \<le> ?m" "length (rb_data b) = ?m" "?m < 2 ^ 63"
    and w: "unat (wp b) = (unat (rp b) + unat (rda_size b)) mod ?m"
    by (auto simp: rb_inv_def)
  have wr: "ring_write ?m (unat (wp b)) bs (rb_data b) ?mem'"
    using assms by (rule readv_into_writing)
  have l: "unat (of_nat (length bs) :: 64 word) = length bs"
    using inv len by (simp add: unat_of_nat_cap)
  have s: "unat (wp b + of_nat (length bs)) = unat (wp b) + length bs"
      "unat (use_size b + of_nat (length bs)) = unat (use_size b) + length bs"
      "unat (rda_size b + of_nat (length bs)) = unat (rda_size b) + length bs"
    using inv len m w l by (subst unat_add_cap [OF inv]; simp)+
  show "rb_inv (rb_fill b bs)"
    using m w l s len wr
    by (simp add: rb_inv_def rb_fill_def hev_ring_buffer_write_finish_def unat_mod_distrib
        ring_write_def mod_simps add.assoc)
  have "unread (rb_fill b bs) =
      window ?m (unat (rp b)) (unat (rda_size b)) ?mem' @ window ?m (unat (wp b)) (length bs) ?mem'"
    using window_append [of ?m "unat (rp b)" "unat (rda_size b)" ?mem' "length bs"]
      window_cong_start [of "unat (wp b)" ?m "unat (rp b) + unat (rda_size b)"] s w
    by (simp add: unread_def rb_fill_def hev_ring_buffer_write_finish_def)
  also have "\<dots> = unread b @ bs"
    using ring_write_window [OF wr] ring_write_other [OF wr w [symmetric]] m w len
    by (simp add: unread_def)
  finally show "unread (rb_fill b bs) = unread b @ bs" .
  have "window ?m (unat (rp b) + ?m - n) n ?mem' = window ?m (unat (rp b) + ?m - n) n (rb_data b)"
  proof (rule ring_write_other [OF wr, of _ "unat (use_size b)"])
    have "unat (rp b) + ?m - n + unat (use_size b) = unat (rp b) + unat (rda_size b) + ?m"
      using m by (simp add: n_def)
    then show "(unat (rp b) + ?m - n + unat (use_size b)) mod ?m = unat (wp b)"
      using w by simp
  qed (use m len in \<open>simp_all add: n_def\<close>)
  then show "inflight (rb_fill b bs) = inflight b"
    using s by (simp add: inflight_def rb_fill_def hev_ring_buffer_write_finish_def n_def Let_def)
qed

lemma reading_unread:
  assumes inv: "rb_inv b"
  shows "concat (map (iov_bytes (rb_data b)) (hev_ring_buffer_reading b)) = unread b"
    and "iov_total (hev_ring_buffer_reading b) = unat (rda_size b)"
proof -
  let ?m = "cap b" and ?r = "unat (rp b)" and ?n = "unat (rda_size b)"
  from inv have m: "0 < ?m" "?r < ?m" "?n \<le> ?m" "length (rb_data b) = ?m"
    by (auto simp: rb_inv_def)
  have up: "unat (max_size b - rp b) = ?m - ?r"
    using m by (simp add: unat_sub word_le_nat_alt)
  have sz: "unat (rda_size b - (max_size b - rp b)) = ?n - (?m - ?r)"
    if "\<not> rda_size b \<le> max_size b - rp b"
    using that up by (simp add: unat_sub word_le_nat_alt)
  have split: "window ?m ?r ?n (rb_data b) =
      window ?m ?r (?m - ?r) (rb_data b) @ window ?m 0 (?n - (?m - ?r)) (rb_data b)"
    if "?m - ?r \<le> ?n"
    using that m window_append [of ?m ?r "?m - ?r" "rb_data b" "?n - (?m - ?r)"]
      window_cong_start [of 0 ?m "?r + (?m - ?r)"] by simp
  show "concat (map (iov_bytes (rb_data b)) (hev_ring_buffer_reading b)) = unread b"
    using m up sz split
    by (auto simp: hev_ring_buffer_reading_def iov_bytes_def unread_def Let_def window_contiguous
        word_le_nat_alt unat_eq_zero)
  show "iov_total (hev_ring_buffer_reading b) = ?n"
    using up sz by (auto simp: hev_ring_buffer_reading_def iov_total_def Let_def word_le_nat_alt)
qed

lemma read_finish_refines:
  assumes inv: "rb_inv b" and n: "unat n \<le> unat (rda_size b)"
  shows "rb_inv (hev_ring_buffer_read_finish b n)"
    and "unread (hev_ring_buffer_read_finish b n) = drop (unat n) (unread b)"
    and "inflight (hev_ring_buffer_read_finish b n) = inflight b @ take (unat n) (unread b)"
proof -
  let ?m = "cap b" and ?r = "unat (rp b)" and ?d = "unat (rda_size b)" and ?u = "unat (use_size b)"
  from inv have m: "0 < ?m" "?r < ?m" "?d \<le> ?u" "?u \<le> ?m" "?m < 2 ^ 63"
    by (auto simp: rb_inv_def)
  have d: "unat (rda_size b - n) = ?d - unat n"
    using n by (simp add: unat_sub word_le_nat_alt)
  have r: "unat ((rp b + n) mod max_size b) = (?r + unat n) mod ?m"
    using m n by (simp add: unat_mod_distrib unat_add_cap [OF inv])
  have "((?r + unat n) mod ?m + (?d - unat n)) mod ?m = (?r + unat n + (?d - unat n)) mod ?m"
    by (rule mod_add_left_eq)
  with inv n d r show "rb_inv (hev_ring_buffer_read_finish b n)"
    by (auto simp: rb_inv_def hev_ring_buffer_read_finish_def)
  show "unread (hev_ring_buffer_read_finish b n) = drop (unat n) (unread b)"
    using n d r by (simp add: unread_def hev_ring_buffer_read_finish_def window_drop)
      (rule window_cong_start, simp)
  have eq: "((?r + unat n) mod ?m + ?m - (?u - (?d - unat n))) mod ?m = (?r + ?m - (?u - ?d)) mod ?m"
  proof -
    have "((?r + unat n) mod ?m + ?m - (?u - (?d - unat n))) mod ?m =
        ((?r + unat n) mod ?m + (?m - (?u - (?d - unat n)))) mod ?m"
      using m n by (simp add: add_diff_assoc add.assoc)
    also have "\<dots> = (?r + unat n + (?m - (?u - (?d - unat n)))) mod ?m"
      by (simp add: mod_simps)
    also have "?r + unat n + (?m - (?u - (?d - unat n))) = ?r + ?m - (?u - ?d)"
      using m n by simp
    finally show ?thesis .
  qed
  have "inflight (hev_ring_buffer_read_finish b n) =
      window ?m (?r + ?m - (?u - ?d)) (?u - ?d + unat n) (rb_data b)"
    using d r m n window_cong_start [OF eq]
    by (simp add: inflight_def hev_ring_buffer_read_finish_def Let_def)
  also have "\<dots> = inflight b @ window ?m (?r + ?m) (unat n) (rb_data b)"
    using m window_append [of ?m "?r + ?m - (?u - ?d)" "?u - ?d" "rb_data b" "unat n"]
    by (simp add: inflight_def Let_def)
  also have "window ?m (?r + ?m) (unat n) (rb_data b) = take (unat n) (unread b)"
    using n by (simp add: unread_def window_take) (rule window_cong_start, simp)
  finally show "inflight (hev_ring_buffer_read_finish b n) = inflight b @ take (unat n) (unread b)" .
qed

lemma read_release_refines:
  assumes inv: "rb_inv b" and n: "unat n \<le> unat (use_size b) - unat (rda_size b)"
  shows "rb_inv (hev_ring_buffer_read_release b n)"
    and "unread (hev_ring_buffer_read_release b n) = unread b"
    and "inflight (hev_ring_buffer_read_release b n) = drop (unat n) (inflight b)"
proof -
  let ?m = "cap b" and ?r = "unat (rp b)" and ?d = "unat (rda_size b)" and ?u = "unat (use_size b)"
  from inv have m: "0 < ?m" "?r < ?m" "?d \<le> ?u" "?u \<le> ?m" by (auto simp: rb_inv_def)
  have u: "unat (use_size b - n) = ?u - unat n"
    using n by (simp add: unat_sub word_le_nat_alt)
  have empty: "use_size b - n = 0 \<Longrightarrow> rda_size b = 0 \<and> ?u - unat n - ?d = 0"
  proof -
    assume "use_size b - n = 0"
    with u have "?u \<le> unat n" by simp
    with n m have "?d = 0" by linarith
    with \<open>?u \<le> unat n\<close> show "rda_size b = 0 \<and> ?u - unat n - ?d = 0" by (simp add: unat_eq_zero)
  qed
  show "rb_inv (hev_ring_buffer_read_release b n)"
    using inv n u empty by (auto simp: rb_inv_def hev_ring_buffer_read_release_def Let_def)
  show "unread (hev_ring_buffer_read_release b n) = unread b"
    using empty by (simp add: unread_def hev_ring_buffer_read_release_def Let_def)
  have "window ?m (?r + ?m - (?u - unat n - ?d)) (?u - unat n - ?d) (rb_data b) = drop (unat n) (inflight b)"
    using n m by (simp add: inflight_def Let_def window_drop) (simp add: algebra_simps)
  then show "inflight (hev_ring_buffer_read_release b n) = drop (unat n) (inflight b)"
    using u empty n by (auto simp: inflight_def hev_ring_buffer_read_release_def Let_def)
qed

section \<open>The contract of the buffer\<close>

text \<open>
  A buffer between a producer and a consumer that acknowledges: what a fill, a hand-over and an
  acknowledgement do to the two byte sequences. From these laws alone, every run of a buffer that
  respects the sizes delivers the stream it was given: what was acknowledged, what is in flight
  and what is unread are, in this order, exactly what was filled in.
\<close>

datatype buf_event = Fill "u8 list" | Hand nat | Ack nat

text \<open>
  A run of a buffer with the three operations given, the condition under which an event is allowed,
  the bytes a run filled in, and the bytes it saw acknowledged.
\<close>

fun buf_step :: "('b \<Rightarrow> u8 list \<Rightarrow> 'b) \<Rightarrow> ('b \<Rightarrow> nat \<Rightarrow> 'b) \<Rightarrow> ('b \<Rightarrow> nat \<Rightarrow> 'b) \<Rightarrow> 'b \<Rightarrow> buf_event \<Rightarrow> 'b" where
  "buf_step fill hand ack b (Fill bs) = fill b bs"
| "buf_step fill hand ack b (Hand n) = hand b n"
| "buf_step fill hand ack b (Ack n) = ack b n"

fun buf_allowed :: "nat \<Rightarrow> u8 list \<Rightarrow> u8 list \<Rightarrow> buf_event \<Rightarrow> bool" where
  "buf_allowed c fly todo (Fill bs) \<longleftrightarrow> length fly + length todo + length bs \<le> c"
| "buf_allowed c fly todo (Hand n) \<longleftrightarrow> n \<le> length todo"
| "buf_allowed c fly todo (Ack n) \<longleftrightarrow> n \<le> length fly"

fun buf_filled :: "buf_event \<Rightarrow> u8 list" where
  "buf_filled (Fill bs) = bs"
| "buf_filled _ = []"

fun buf_acked :: "u8 list \<Rightarrow> buf_event \<Rightarrow> u8 list" where
  "buf_acked fly (Ack n) = take n fly"
| "buf_acked fly _ = []"

locale splice_queue =
  fixes inv :: "'b \<Rightarrow> bool" and cap_of :: "'b \<Rightarrow> nat"
    and fly :: "'b \<Rightarrow> u8 list" and todo :: "'b \<Rightarrow> u8 list"
    and fill :: "'b \<Rightarrow> u8 list \<Rightarrow> 'b" and hand :: "'b \<Rightarrow> nat \<Rightarrow> 'b" and ack :: "'b \<Rightarrow> nat \<Rightarrow> 'b"
  assumes fill_law: "inv b \<Longrightarrow> length (fly b) + length (todo b) + length bs \<le> cap_of b \<Longrightarrow>
      inv (fill b bs) \<and> fly (fill b bs) = fly b \<and> todo (fill b bs) = todo b @ bs \<and>
      cap_of (fill b bs) = cap_of b"
    and hand_law: "inv b \<Longrightarrow> n \<le> length (todo b) \<Longrightarrow>
      inv (hand b n) \<and> fly (hand b n) = fly b @ take n (todo b) \<and> todo (hand b n) = drop n (todo b) \<and>
      cap_of (hand b n) = cap_of b"
    and ack_law: "inv b \<Longrightarrow> n \<le> length (fly b) \<Longrightarrow>
      inv (ack b n) \<and> fly (ack b n) = drop n (fly b) \<and> todo (ack b n) = todo b \<and>
      cap_of (ack b n) = cap_of b"
begin

lemma step_law:
  assumes "inv b" and "buf_allowed (cap_of b) (fly b) (todo b) e"
  defines "b' \<equiv> buf_step fill hand ack b e"
  shows "inv b'" and "cap_of b' = cap_of b"
    and "fly b @ todo b @ buf_filled e = buf_acked (fly b) e @ fly b' @ todo b'"
proof -
  have "inv b' \<and> cap_of b' = cap_of b \<and>
      fly b @ todo b @ buf_filled e = buf_acked (fly b) e @ fly b' @ todo b'"
  proof (cases e)
    case (Fill bs)
    with assms fill_law [of b bs] show ?thesis by simp
  next
    case (Hand n)
    with assms hand_law [of b n] show ?thesis by simp
  next
    case (Ack n)
    have "fly b @ todo b = take n (fly b) @ drop n (fly b) @ todo b"
      by (simp add: append_assoc [symmetric] del: append_assoc)
    with Ack assms ack_law [of b n] show ?thesis by simp
  qed
  then show "inv b'" and "cap_of b' = cap_of b"
    and "fly b @ todo b @ buf_filled e = buf_acked (fly b) e @ fly b' @ todo b'"
    by auto
qed

end

interpretation rb: splice_queue rb_inv cap inflight unread rb_fill
    "\<lambda>b n. hev_ring_buffer_read_finish b (of_nat n)" "\<lambda>b n. hev_ring_buffer_read_release b (of_nat n)"
proof unfold_locales
  fix b and bs :: "u8 list"
  assume a: "rb_inv b" "length (inflight b) + length (unread b) + length bs \<le> cap b"
  then have "length bs \<le> cap b - unat (use_size b)" by (simp add: rb_inv_def)
  with a(1) show "rb_inv (rb_fill b bs) \<and> inflight (rb_fill b bs) = inflight b \<and>
      unread (rb_fill b bs) = unread b @ bs \<and> cap (rb_fill b bs) = cap b"
    by (simp add: rb_fill_refines) (simp add: rb_fill_def hev_ring_buffer_write_finish_def)
next
  fix b and n :: nat assume a: "rb_inv b" "n \<le> length (unread b)"
  then have "n \<le> cap b" by (auto simp: rb_inv_def)
  with a(1) have "unat (of_nat n :: 64 word) = n" by (rule unat_of_nat_cap)
  with a show "rb_inv (hev_ring_buffer_read_finish b (of_nat n)) \<and>
      inflight (hev_ring_buffer_read_finish b (of_nat n)) = inflight b @ take n (unread b) \<and>
      unread (hev_ring_buffer_read_finish b (of_nat n)) = drop n (unread b) \<and>
      cap (hev_ring_buffer_read_finish b (of_nat n)) = cap b"
    by (simp add: read_finish_refines) (simp add: hev_ring_buffer_read_finish_def)
next
  fix b and n :: nat assume a: "rb_inv b" "n \<le> length (inflight b)"
  then have "n \<le> cap b" by (auto simp: rb_inv_def)
  with a(1) have "unat (of_nat n :: 64 word) = n" by (rule unat_of_nat_cap)
  with a show "rb_inv (hev_ring_buffer_read_release b (of_nat n)) \<and>
      inflight (hev_ring_buffer_read_release b (of_nat n)) = drop n (inflight b) \<and>
      unread (hev_ring_buffer_read_release b (of_nat n)) = unread b \<and>
      cap (hev_ring_buffer_read_release b (of_nat n)) = cap b"
    by (simp add: read_release_refines) (simp add: hev_ring_buffer_read_release_def Let_def)
qed

lemma rb_inv_alloca:
  "0 < s \<Longrightarrow> unat s < 2 ^ 63 \<Longrightarrow> length mem = unat s \<Longrightarrow> rb_inv (hev_ring_buffer_alloca s mem)"
  by (simp add: rb_inv_def hev_ring_buffer_alloca_def word_less_nat_alt)

lemma alloca_empty [simp]:
  "unread (hev_ring_buffer_alloca s mem) = []" "inflight (hev_ring_buffer_alloca s mem) = []"
  by (simp_all add: unread_def inflight_def hev_ring_buffer_alloca_def Let_def)

text \<open>The runs of the ring buffer, as the TCP session drives it.\<close>

fun rb_run :: "HevRingBuffer \<Rightarrow> buf_event list \<Rightarrow> HevRingBuffer" where
  "rb_run b [] = b"
| "rb_run b (Fill bs # es) = rb_run (rb_fill b bs) es"
| "rb_run b (Hand n # es) = rb_run (hev_ring_buffer_read_finish b (of_nat n)) es"
| "rb_run b (Ack n # es) = rb_run (hev_ring_buffer_read_release b (of_nat n)) es"

abbreviation rb_step :: "HevRingBuffer \<Rightarrow> buf_event \<Rightarrow> HevRingBuffer" where
  "rb_step \<equiv> buf_step rb_fill (\<lambda>b n. hev_ring_buffer_read_finish b (of_nat n))
     (\<lambda>b n. hev_ring_buffer_read_release b (of_nat n))"

fun rb_allowed :: "HevRingBuffer \<Rightarrow> buf_event list \<Rightarrow> bool" where
  "rb_allowed b [] = True"
| "rb_allowed b (e # es) \<longleftrightarrow>
     buf_allowed (cap b) (inflight b) (unread b) e \<and> rb_allowed (rb_step b e) es"

fun rb_acked :: "HevRingBuffer \<Rightarrow> buf_event list \<Rightarrow> u8 list" where
  "rb_acked b [] = []"
| "rb_acked b (e # es) = buf_acked (inflight b) e @ rb_acked (rb_step b e) es"

definition rb_filled :: "buf_event list \<Rightarrow> u8 list" where
  "rb_filled es = concat (map buf_filled es)"

lemma rb_run_Cons: "rb_run b (e # es) = rb_run (rb_step b e) es"
  by (cases e) auto

lemma rb_run_stream:
  "rb_inv b \<Longrightarrow> rb_allowed b es \<Longrightarrow>
   rb_inv (rb_run b es) \<and> cap (rb_run b es) = cap b \<and>
   inflight b @ unread b @ rb_filled es = rb_acked b es @ inflight (rb_run b es) @ unread (rb_run b es)"
proof (induction es arbitrary: b)
  case (Cons e es)
  then have ok: "buf_allowed (cap b) (inflight b) (unread b) e" by simp
  note s = rb.step_law [OF Cons.prems(1) ok]
  have IH: "rb_inv (rb_run b (e # es)) \<and> cap (rb_run b (e # es)) = cap b \<and>
      inflight (rb_step b e) @ unread (rb_step b e) @ rb_filled es =
      rb_acked (rb_step b e) es @ inflight (rb_run b (e # es)) @ unread (rb_run b (e # es))"
    using Cons.IH [OF s(1)] Cons.prems(2) s(2) by (simp add: rb_run_Cons)
  have "inflight b @ unread b @ rb_filled (e # es) =
      buf_acked (inflight b) e @ inflight (rb_step b e) @ unread (rb_step b e) @ rb_filled es"
    using s(3) by (simp add: rb_filled_def append_assoc [symmetric] del: append_assoc)
  with IH show ?case by simp
qed (simp add: rb_filled_def)

section \<open>Properties\<close>

text \<open>
  C7: Starting from an empty buffer of any size, whatever sequence of receives, hand-overs and
  acknowledgements that respects the announced sizes runs on the ring buffer, the bytes
  acknowledged, then those in flight, then those unread are exactly the bytes received, in order:
  nothing is lost, duplicated or reordered, and never more than the capacity is held.
\<close>

theorem ring_buffer_stream:
  assumes "0 < s" and "unat s < 2 ^ 63" and "length mem = unat s"
    and "rb_allowed (hev_ring_buffer_alloca s mem) es"
  defines "b \<equiv> rb_run (hev_ring_buffer_alloca s mem) es"
  shows "rb_filled es = rb_acked (hev_ring_buffer_alloca s mem) es @ inflight b @ unread b
    \<and> rb_inv b \<and> length (inflight b) + length (unread b) = unat (hev_ring_buffer_get_use_size b)
    \<and> unat (hev_ring_buffer_get_use_size b) \<le> unat s"
proof -
  have inv: "rb_inv (hev_ring_buffer_alloca s mem)"
    using assms(1-3) by (rule rb_inv_alloca)
  have "cap (hev_ring_buffer_alloca s mem) = unat s"
    by (simp add: hev_ring_buffer_alloca_def)
  with rb_run_stream [OF inv assms(4)] show ?thesis
    by (auto simp: b_def rb_inv_def hev_ring_buffer_get_use_size_def)
qed

theorem ring_buffer_stream_witness:
  "rb_allowed (hev_ring_buffer_alloca 4 [9, 9, 9, 9]) [Fill [1, 2, 3], Hand 2, Ack 2, Fill [4, 5, 6], Hand 3]
   \<and> rb_filled [Fill [1, 2, 3], Hand 2, Ack 2, Fill [4, 5, 6], Hand 3] = [1, 2, 3, 4, 5, 6]
   \<and> rb_acked (hev_ring_buffer_alloca 4 [9, 9, 9, 9])
       [Fill [1, 2, 3], Hand 2, Ack 2, Fill [4, 5, 6], Hand 3] = [1, 2]
   \<and> [1, 2, 3, 4, 5, 6] = [1, 2] @
       inflight (rb_run (hev_ring_buffer_alloca 4 [9, 9, 9, 9])
         [Fill [1, 2, 3], Hand 2, Ack 2, Fill [4, 5, 6], Hand 3]) @
       unread (rb_run (hev_ring_buffer_alloca 4 [9, 9, 9, 9])
         [Fill [1, 2, 3], Hand 2, Ack 2, Fill [4, 5, 6], Hand 3])"
proof -
  let ?b = "hev_ring_buffer_alloca 4 [9, 9, 9, 9]"
  let ?es = "[Fill [1, 2, 3], Hand 2, Ack 2, Fill [4, 5, 6], Hand 3]"
  have ok: "rb_allowed ?b ?es" by code_simp
  have f: "rb_filled ?es = [1, 2, 3, 4, 5, 6]" by code_simp
  have a: "rb_acked ?b ?es = [1, 2]" by code_simp
  from ring_buffer_stream [of 4 "[9, 9, 9, 9]" ?es] ok
  have "rb_filled ?es = rb_acked ?b ?es @ inflight (rb_run ?b ?es) @ unread (rb_run ?b ?es)"
    by simp
  with ok f a show ?thesis by metis
qed

text \<open>
  The areas the buffer hands out lie inside its memory: those offered for reading hold exactly
  the unread bytes in order, those offered for writing are exactly as large as the free space, and
  filling them leaves the bytes in flight and the unread bytes as they were.
\<close>

theorem ring_buffer_areas:
  assumes "rb_inv b"
  shows "(\<forall>v \<in> set (hev_ring_buffer_reading b) \<union> set (hev_ring_buffer_writing b).
            unat (fst v) + unat (snd v) \<le> length (rb_data b))
    \<and> concat (map (iov_bytes (rb_data b)) (hev_ring_buffer_reading b)) = unread b
    \<and> iov_total (hev_ring_buffer_writing b) = cap b - unat (use_size b)
    \<and> (\<forall>bs. length bs \<le> iov_total (hev_ring_buffer_writing b) \<longrightarrow>
          inflight (rb_fill b bs) = inflight b \<and> unread (rb_fill b bs) = unread b @ bs)"
proof -
  let ?m = "cap b"
  from assms have m: "0 < ?m" "unat (rp b) < ?m" "unat (wp b) < ?m" "unat (rda_size b) \<le> ?m"
      "unat (use_size b) \<le> ?m" "length (rb_data b) = ?m"
    by (auto simp: rb_inv_def)
  then have u: "unat (max_size b - rp b) = ?m - unat (rp b)" "unat (max_size b - wp b) = ?m - unat (wp b)"
      "unat (max_size b - use_size b) = ?m - unat (use_size b)"
    by (simp_all add: unat_sub word_le_nat_alt)
  have d: "\<not> x \<le> y \<Longrightarrow> unat (x - y) = unat x - unat y" for x y :: "64 word"
    by (simp add: unat_sub word_le_nat_alt)
  have t: "iov_total (hev_ring_buffer_writing b) = ?m - unat (use_size b)"
    using u m by (auto simp: hev_ring_buffer_writing_def iov_total_def Let_def d word_le_nat_alt)
  have "\<forall>v \<in> set (hev_ring_buffer_reading b) \<union> set (hev_ring_buffer_writing b).
      unat (fst v) + unat (snd v) \<le> ?m"
    using m u by (auto simp: hev_ring_buffer_writing_def hev_ring_buffer_reading_def Let_def d
        word_le_nat_alt split: if_splits)
  with t m show ?thesis
    using reading_unread(1) [OF assms] rb_fill_refines [OF assms] by simp
qed

theorem ring_buffer_areas_witness:
  "rb_inv \<lparr>rp = 3, wp = 1, rda_size = 2, use_size = 3, max_size = 4, rb_data = [8, 0, 6, 7]\<rparr>
   \<and> concat (map (iov_bytes [8, 0, 6, 7]) (hev_ring_buffer_reading
       \<lparr>rp = 3, wp = 1, rda_size = 2, use_size = 3, max_size = 4, rb_data = [8, 0, 6, 7]\<rparr>)) = [7, 8]"
proof -
  let ?b = "\<lparr>rp = 3, wp = 1, rda_size = 2, use_size = 3, max_size = 4, rb_data = [8, 0, 6, 7]\<rparr>"
  have inv: "rb_inv ?b" by (simp add: rb_inv_def)
  have u: "unread ?b = [7, 8]" by code_simp
  from ring_buffer_areas [OF inv]
  have "concat (map (iov_bytes (rb_data ?b)) (hev_ring_buffer_reading ?b)) = unread ?b" by blast
  with inv u show ?thesis by simp
qed

end
