(* ===== verification/Hev_RBTree.thy ===== *)
theory Hev_RBTree
  imports Hev_Prelude
begin

text \<open>
  The intrusive red-black tree of \<open>src/core/src/hev-rbtree.[ch]\<close>, at pointer level. A node holds
  one word with its parent pointer and its colour in the low bit, and two child pointers; the tree
  is its root pointer together with the heap of the nodes. Every operation is the C function with
  its assignments in order, and has no result where the C code would dereference a null or foreign
  pointer, or where its loop would not end. The second half relates heaps to trees: \<open>rbt_rep\<close>
  says which tree a root pointer and a heap represent, contexts describe a tree around a position.
\<close>

section \<open>Nodes\<close>

record HevRBTreeNode =
  rn_parent_color :: addr
  rn_right :: addr
  rn_left :: addr

record HevRBTree =
  root :: addr
  nodes :: "HevRBTreeNode heap"

datatype HevRBTreeColor = Red | Black

fun color_bit :: "HevRBTreeColor \<Rightarrow> addr" where
  "color_bit Red = 0"
| "color_bit Black = 1"

declare color_bit.simps [simp del]

definition rb_get :: "HevRBTree \<Rightarrow> addr \<Rightarrow> HevRBTreeNode option" where
  "rb_get self p = deref (nodes self) p"

definition rb_upd :: "HevRBTree \<Rightarrow> addr \<Rightarrow> (HevRBTreeNode \<Rightarrow> HevRBTreeNode) \<Rightarrow> HevRBTree option" where
  "rb_upd self p f = map_option (\<lambda>h. self\<lparr>nodes := h\<rparr>) (assign (nodes self) p f)"

definition rb_set_left :: "HevRBTree \<Rightarrow> addr \<Rightarrow> addr \<Rightarrow> HevRBTree option" where
  "rb_set_left self p v = rb_upd self p (\<lambda>n. n\<lparr>rn_left := v\<rparr>)"

definition rb_set_right :: "HevRBTree \<Rightarrow> addr \<Rightarrow> addr \<Rightarrow> HevRBTree option" where
  "rb_set_right self p v = rb_upd self p (\<lambda>n. n\<lparr>rn_right := v\<rparr>)"

definition rb_set_pc :: "HevRBTree \<Rightarrow> addr \<Rightarrow> addr \<Rightarrow> HevRBTree option" where
  "rb_set_pc self p v = rb_upd self p (\<lambda>n. n\<lparr>rn_parent_color := v\<rparr>)"

definition hev_rbtree_node_empty :: "HevRBTree \<Rightarrow> addr \<Rightarrow> bool option" where
  "hev_rbtree_node_empty self node =
     map_option (\<lambda>n. rn_parent_color n = node) (rb_get self node)"

definition mk_pc :: "addr \<Rightarrow> HevRBTreeColor \<Rightarrow> addr" where
  "mk_pc parent color = parent OR color_bit color"

definition pc_parent :: "addr \<Rightarrow> addr" where
  "pc_parent pc = pc AND NOT 3"

definition pc_color :: "addr \<Rightarrow> addr" where
  "pc_color pc = pc AND 1"

definition pc_is_black :: "addr \<Rightarrow> bool" where
  "pc_is_black pc \<longleftrightarrow> pc AND color_bit Black \<noteq> 0"

definition hev_rbtree_node_parent :: "HevRBTree \<Rightarrow> addr \<Rightarrow> addr option" where
  "hev_rbtree_node_parent self node =
     map_option (\<lambda>n. pc_parent (rn_parent_color n)) (rb_get self node)"

definition hev_rbtree_node_color :: "HevRBTree \<Rightarrow> addr \<Rightarrow> addr option" where
  "hev_rbtree_node_color self node =
     map_option (\<lambda>n. pc_color (rn_parent_color n)) (rb_get self node)"

definition hev_rbtree_node_is_red :: "HevRBTree \<Rightarrow> addr \<Rightarrow> bool option" where
  "hev_rbtree_node_is_red self node =
     map_option (\<lambda>c. c AND color_bit Black = 0) (hev_rbtree_node_color self node)"

definition hev_rbtree_node_is_black :: "HevRBTree \<Rightarrow> addr \<Rightarrow> bool option" where
  "hev_rbtree_node_is_black self node =
     map_option (\<lambda>c. c AND color_bit Black \<noteq> 0) (hev_rbtree_node_color self node)"

definition hev_rbtree_node_red_parent :: "HevRBTree \<Rightarrow> addr \<Rightarrow> addr option" where
  "hev_rbtree_node_red_parent self node = map_option rn_parent_color (rb_get self node)"

definition hev_rbtree_node_set_black :: "HevRBTree \<Rightarrow> addr \<Rightarrow> HevRBTree option" where
  "hev_rbtree_node_set_black self node =
     rb_upd self node (\<lambda>n. n\<lparr>rn_parent_color := rn_parent_color n OR color_bit Black\<rparr>)"

definition hev_rbtree_node_set_parent :: "HevRBTree \<Rightarrow> addr \<Rightarrow> addr \<Rightarrow> HevRBTree option" where
  "hev_rbtree_node_set_parent self node parent =
     rb_upd self node (\<lambda>n. n\<lparr>rn_parent_color := pc_color (rn_parent_color n) OR parent\<rparr>)"

definition hev_rbtree_node_set_parent_color ::
  "HevRBTree \<Rightarrow> addr \<Rightarrow> addr \<Rightarrow> HevRBTreeColor \<Rightarrow> HevRBTree option" where
  "hev_rbtree_node_set_parent_color self node parent color =
     rb_set_pc self node (mk_pc parent color)"

text \<open>
  \<open>hev_rbtree_node_link\<close> writes the new node through the link the descent ended at: the root
  pointer of the tree, or one of the child pointers of a node.
\<close>

datatype link = RootLink | LeftLink addr | RightLink addr

fun write_link :: "HevRBTree \<Rightarrow> link \<Rightarrow> addr \<Rightarrow> HevRBTree option" where
  "write_link self RootLink v = Some (self\<lparr>root := v\<rparr>)"
| "write_link self (LeftLink p) v = rb_set_left self p v"
| "write_link self (RightLink p) v = rb_set_right self p v"

fun read_link :: "HevRBTree \<Rightarrow> link \<Rightarrow> addr option" where
  "read_link self RootLink = Some (root self)"
| "read_link self (LeftLink p) = map_option rn_left (rb_get self p)"
| "read_link self (RightLink p) = map_option rn_right (rb_get self p)"

definition hev_rbtree_node_link :: "HevRBTree \<Rightarrow> addr \<Rightarrow> addr \<Rightarrow> link \<Rightarrow> HevRBTree option" where
  "hev_rbtree_node_link self node parent lnk = do {
     self \<leftarrow> rb_set_pc self node parent;
     self \<leftarrow> rb_set_right self node NULL;
     self \<leftarrow> rb_set_left self node NULL;
     write_link self lnk node
   }"

definition hev_rbtree_change_child :: "HevRBTree \<Rightarrow> addr \<Rightarrow> addr \<Rightarrow> addr \<Rightarrow> HevRBTree option" where
  "hev_rbtree_change_child self old new parent =
     (if parent \<noteq> NULL then do {
        p \<leftarrow> rb_get self parent;
        if rn_left p = old then rb_set_left self parent new
        else rb_set_right self parent new
      } else Some (self\<lparr>root := new\<rparr>))"

definition hev_rbtree_rotate_set_parents ::
  "HevRBTree \<Rightarrow> addr \<Rightarrow> addr \<Rightarrow> HevRBTreeColor \<Rightarrow> HevRBTree option" where
  "hev_rbtree_rotate_set_parents self old new color = do {
     parent \<leftarrow> hev_rbtree_node_parent self old;
     od \<leftarrow> rb_get self old;
     self \<leftarrow> rb_set_pc self new (rn_parent_color od);
     self \<leftarrow> hev_rbtree_node_set_parent_color self old new color;
     hev_rbtree_change_child self old new parent
   }"

section \<open>Traversal\<close>

partial_function (option) leftmost :: "HevRBTree \<Rightarrow> addr \<Rightarrow> addr option" where
  "leftmost self n = do {
     nd \<leftarrow> rb_get self n;
     if rn_left nd \<noteq> NULL then leftmost self (rn_left nd) else Some n
   }"

partial_function (option) rightmost :: "HevRBTree \<Rightarrow> addr \<Rightarrow> addr option" where
  "rightmost self n = do {
     nd \<leftarrow> rb_get self n;
     if rn_right nd \<noteq> NULL then rightmost self (rn_right nd) else Some n
   }"

definition hev_rbtree_first :: "HevRBTree \<Rightarrow> addr option" where
  "hev_rbtree_first self = (if root self = NULL then Some NULL else leftmost self (root self))"

definition hev_rbtree_last :: "HevRBTree \<Rightarrow> addr option" where
  "hev_rbtree_last self = (if root self = NULL then Some NULL else rightmost self (root self))"

text \<open>Up while the node is the right child (\<open>next\<close>) or the left child (\<open>prev\<close>) of its parent.\<close>

partial_function (option) climb_right :: "HevRBTree \<Rightarrow> addr \<Rightarrow> addr option" where
  "climb_right self node = do {
     parent \<leftarrow> hev_rbtree_node_parent self node;
     if parent = NULL then Some parent
     else do {
       p \<leftarrow> rb_get self parent;
       if node = rn_right p then climb_right self parent else Some parent
     }
   }"

partial_function (option) climb_left :: "HevRBTree \<Rightarrow> addr \<Rightarrow> addr option" where
  "climb_left self node = do {
     parent \<leftarrow> hev_rbtree_node_parent self node;
     if parent = NULL then Some parent
     else do {
       p \<leftarrow> rb_get self parent;
       if node = rn_left p then climb_left self parent else Some parent
     }
   }"

definition hev_rbtree_node_next :: "HevRBTree \<Rightarrow> addr \<Rightarrow> addr option" where
  "hev_rbtree_node_next self node = do {
     e \<leftarrow> hev_rbtree_node_empty self node;
     if e then Some NULL
     else do {
       n \<leftarrow> rb_get self node;
       if rn_right n \<noteq> NULL then leftmost self (rn_right n) else climb_right self node
     }
   }"

definition hev_rbtree_node_prev :: "HevRBTree \<Rightarrow> addr \<Rightarrow> addr option" where
  "hev_rbtree_node_prev self node = do {
     e \<leftarrow> hev_rbtree_node_empty self node;
     if e then Some NULL
     else do {
       n \<leftarrow> rb_get self node;
       if rn_left n \<noteq> NULL then rightmost self (rn_left n) else climb_left self node
     }
   }"

section \<open>Replacing a node\<close>

definition hev_rbtree_replace :: "HevRBTree \<Rightarrow> addr \<Rightarrow> addr \<Rightarrow> HevRBTree option" where
  "hev_rbtree_replace self victim new = do {
     parent \<leftarrow> hev_rbtree_node_parent self victim;
     v \<leftarrow> rb_get self victim;
     self \<leftarrow> rb_upd self new (\<lambda>_. v);
     v \<leftarrow> rb_get self victim;
     self \<leftarrow> (if rn_left v \<noteq> NULL then hev_rbtree_node_set_parent self (rn_left v) new else Some self);
     v \<leftarrow> rb_get self victim;
     self \<leftarrow> (if rn_right v \<noteq> NULL then hev_rbtree_node_set_parent self (rn_right v) new else Some self);
     hev_rbtree_change_child self victim new parent
   }"

section \<open>Trees and contexts\<close>

datatype rbt = Leaf | Node HevRBTreeColor rbt addr rbt

fun inorder :: "rbt \<Rightarrow> addr list" where
  "inorder Leaf = []"
| "inorder (Node c l a r) = inorder l @ a # inorder r"

abbreviation tree_set :: "rbt \<Rightarrow> addr set" where
  "tree_set t \<equiv> set (inorder t)"

fun ptr :: "rbt \<Rightarrow> addr" where
  "ptr Leaf = NULL"
| "ptr (Node c l a r) = a"

definition aligned :: "addr \<Rightarrow> bool" where
  "aligned a \<longleftrightarrow> a \<noteq> NULL \<and> a AND 3 = 0"

abbreviation node_of :: "addr \<Rightarrow> HevRBTreeColor \<Rightarrow> addr \<Rightarrow> addr \<Rightarrow> HevRBTreeNode" where
  "node_of p c l r \<equiv> \<lparr>rn_parent_color = mk_pc p c, rn_right = r, rn_left = l\<rparr>"

text \<open>\<open>tree_rep h p t\<close>: the nodes of \<open>t\<close> are in \<open>h\<close>, linked as in \<open>t\<close>, the topmost one under \<open>p\<close>.\<close>

fun tree_rep :: "HevRBTreeNode heap \<Rightarrow> addr \<Rightarrow> rbt \<Rightarrow> bool" where
  "tree_rep h p Leaf = True"
| "tree_rep h p (Node c l a r) \<longleftrightarrow>
     aligned a \<and> h a = Some (node_of p c (ptr l) (ptr r)) \<and> tree_rep h a l \<and> tree_rep h a r"

definition rbt_rep :: "HevRBTree \<Rightarrow> rbt \<Rightarrow> bool" where
  "rbt_rep self t \<longleftrightarrow>
     root self = ptr t \<and> tree_rep (nodes self) NULL t \<and> distinct (inorder t)"

text \<open>
  A context is the path from a position up to the root, innermost step first: the position is the
  left, or the right, subtree of a node.
\<close>

datatype step = LeftOf HevRBTreeColor addr rbt | RightOf HevRBTreeColor rbt addr

fun plug :: "step list \<Rightarrow> rbt \<Rightarrow> rbt" where
  "plug [] t = t"
| "plug (LeftOf c a r # k) t = plug k (Node c t a r)"
| "plug (RightOf c l a # k) t = plug k (Node c l a t)"

fun ctx_parent :: "addr \<Rightarrow> step list \<Rightarrow> addr" where
  "ctx_parent p [] = p"
| "ctx_parent p (LeftOf c a r # k) = a"
| "ctx_parent p (RightOf c l a # k) = a"

fun ctx_root :: "addr \<Rightarrow> step list \<Rightarrow> addr" where
  "ctx_root x [] = x"
| "ctx_root x (LeftOf c a r # k) = ctx_root a k"
| "ctx_root x (RightOf c l a # k) = ctx_root a k"

fun ctx_left :: "step list \<Rightarrow> addr list" where
  "ctx_left [] = []"
| "ctx_left (LeftOf c a r # k) = ctx_left k"
| "ctx_left (RightOf c l a # k) = ctx_left k @ inorder l @ [a]"

fun ctx_right :: "step list \<Rightarrow> addr list" where
  "ctx_right [] = []"
| "ctx_right (LeftOf c a r # k) = a # inorder r @ ctx_right k"
| "ctx_right (RightOf c l a # k) = ctx_right k"

abbreviation ctx_set :: "step list \<Rightarrow> addr set" where
  "ctx_set k \<equiv> set (ctx_left k) \<union> set (ctx_right k)"

text \<open>\<open>ctx_rep h p x k\<close>: the nodes of \<open>k\<close> are in \<open>h\<close>, the topmost one under \<open>p\<close>, the position holding the pointer \<open>x\<close>.\<close>

fun ctx_rep :: "HevRBTreeNode heap \<Rightarrow> addr \<Rightarrow> addr \<Rightarrow> step list \<Rightarrow> bool" where
  "ctx_rep h p x [] = True"
| "ctx_rep h p x (LeftOf c a r # k) \<longleftrightarrow>
     aligned a \<and> h a = Some (node_of (ctx_parent p k) c x (ptr r)) \<and> tree_rep h a r \<and> ctx_rep h p a k"
| "ctx_rep h p x (RightOf c l a # k) \<longleftrightarrow>
     aligned a \<and> h a = Some (node_of (ctx_parent p k) c (ptr l) x) \<and> tree_rep h a l \<and> ctx_rep h p a k"

text \<open>The heap after the pointer at the position of a context has been replaced.\<close>

fun ctx_upd :: "HevRBTreeNode heap \<Rightarrow> addr \<Rightarrow> step list \<Rightarrow> HevRBTreeNode heap" where
  "ctx_upd h x [] = h"
| "ctx_upd h x (LeftOf c a r # k) = h(a \<mapsto> node_of (ctx_parent NULL k) c x (ptr r))"
| "ctx_upd h x (RightOf c l a # k) = h(a \<mapsto> node_of (ctx_parent NULL k) c (ptr l) x)"

lemma inorder_plug [simp]: "inorder (plug k t) = ctx_left k @ inorder t @ ctx_right k"
  by (induction k t rule: plug.induct) auto

lemma plug_append [simp]: "plug (k @ k') t = plug k' (plug k t)"
  by (induction k t rule: plug.induct) auto

lemma ptr_plug [simp]: "ptr (plug k t) = ctx_root (ptr t) k"
  by (induction k t rule: plug.induct) auto

lemma ctx_parent_append [simp]: "ctx_parent p (k @ k') = ctx_parent (ctx_parent p k') k"
  by (cases "(p, k)" rule: ctx_parent.cases) auto

lemma ctx_root_append [simp]: "ctx_root x (k @ k') = ctx_root (ctx_root x k) k'"
  by (induction x k rule: ctx_root.induct) auto

lemma ctx_rep_append [simp]:
  "ctx_rep h p x (k @ k') \<longleftrightarrow> ctx_rep h (ctx_parent p k') x k \<and> ctx_rep h p (ctx_root x k) k'"
  by (induction h p x k rule: ctx_rep.induct) auto

lemma ctx_left_append [simp]: "ctx_left (k @ k') = ctx_left k' @ ctx_left k"
  by (induction k rule: ctx_left.induct) auto

lemma ctx_right_append [simp]: "ctx_right (k @ k') = ctx_right k @ ctx_right k'"
  by (induction k rule: ctx_right.induct) auto

lemma tree_rep_plug:
  "tree_rep h p (plug k t) \<longleftrightarrow> ctx_rep h p (ptr t) k \<and> tree_rep h (ctx_parent p k) t"
  by (induction k t rule: plug.induct) auto

lemma plug_decomp: "a \<in> tree_set t \<Longrightarrow> \<exists>k c l r. t = plug k (Node c l a r)"
proof (induction t)
  case (Node c l x r)
  then consider "a = x" | "a \<in> tree_set l" | "a \<in> tree_set r" by auto
  then show ?case
  proof cases
    case 1
    then have "Node c l x r = plug [] (Node c l a r)" by simp
    then show ?thesis by blast
  next
    case 2
    with Node obtain k c' l' r' where "l = plug k (Node c' l' a r')" by blast
    then have "Node c l x r = plug (k @ [LeftOf c x r]) (Node c' l' a r')" by simp
    then show ?thesis by blast
  next
    case 3
    with Node obtain k c' l' r' where "r = plug k (Node c' l' a r')" by blast
    then have "Node c l x r = plug (k @ [RightOf c l x]) (Node c' l' a r')" by simp
    then show ?thesis by blast
  qed
qed simp

text \<open>Nodes outside a tree, or outside a context, do not matter to it.\<close>

lemma tree_rep_upd [simp]: "a \<notin> tree_set t \<Longrightarrow> tree_rep (h(a := v)) p t = tree_rep h p t"
  by (induction t arbitrary: p) auto

lemma ctx_rep_upd [simp]: "a \<notin> ctx_set k \<Longrightarrow> ctx_rep (h(a := v)) p x k = ctx_rep h p x k"
  by (induction h p x k rule: ctx_rep.induct) auto

lemma tree_rep_frame: "frame A h h' \<Longrightarrow> tree_set t \<inter> A = {} \<Longrightarrow> tree_rep h' p t = tree_rep h p t"
  by (induction t arbitrary: p) (auto simp: frame_def)

lemma ptr_in: "t \<noteq> Leaf \<Longrightarrow> ptr t \<in> tree_set t"
  by (cases t) auto

lemma ptr_notin: "tree_rep h p t \<Longrightarrow> a \<notin> tree_set t \<Longrightarrow> a \<noteq> NULL \<Longrightarrow> ptr t \<noteq> a"
  by (cases t) auto

lemma ptr_NULL: "tree_rep h p t \<Longrightarrow> ptr t = NULL \<longleftrightarrow> t = Leaf"
  by (cases t) (auto simp: aligned_def)

lemma tree_rep_aligned: "tree_rep h p t \<Longrightarrow> a \<in> tree_set t \<Longrightarrow> aligned a"
  by (induction t arbitrary: p) auto

lemma tree_rep_allocated: "tree_rep h p t \<Longrightarrow> a \<in> tree_set t \<Longrightarrow> h a \<noteq> None"
  by (induction t arbitrary: p) auto

lemma ctx_parent_in: "k \<noteq> [] \<Longrightarrow> ctx_parent p k \<in> ctx_set k"
  by (cases "(p, k)" rule: ctx_parent.cases) auto

lemma ctx_parent_aligned: "ctx_rep h NULL x k \<Longrightarrow> ctx_parent NULL k = NULL \<or> aligned (ctx_parent NULL k)"
  by (cases "(NULL :: addr, k)" rule: ctx_parent.cases) auto

lemma ctx_parent_NULL: "ctx_rep h NULL x k \<Longrightarrow> ctx_parent NULL k = NULL \<longleftrightarrow> k = []"
  by (cases "(NULL :: addr, k)" rule: ctx_parent.cases) (auto simp: aligned_def)

section \<open>The parent and colour word\<close>

lemma aligned_nonnull [simp]: "aligned a \<Longrightarrow> a \<noteq> NULL"
  by (simp add: aligned_def)

lemma aligned_NULL [simp]: "\<not> aligned NULL"
  by (simp add: aligned_def)

lemma bit_three: "bit (3 :: addr) n \<longleftrightarrow> n < 2"
proof -
  have m: "(3 :: addr) = mask 2" by (simp add: mask_eq_exp_minus_1)
  show ?thesis unfolding m by (simp only: bit_mask_iff) auto
qed

lemma aligned_bits: "aligned p \<Longrightarrow> n < 2 \<Longrightarrow> \<not> bit p n"
proof -
  assume "aligned p" and n: "n < 2"
  then have "p AND 3 = 0" unfolding aligned_def by blast
  then have "bit (p AND 3) n = bit (0 :: addr) n" by (rule arg_cong [where f = "\<lambda>x. bit x n"])
  with n show ?thesis by (simp only: bit_and_iff bit_three) simp
qed

lemma bit_color: "bit (color_bit c) n \<longleftrightarrow> n = 0 \<and> c = Black"
  by (cases c) (auto simp: bit_1_iff color_bit.simps)

lemma pc_parent_mk [heap_simps]: "p = NULL \<or> aligned p \<Longrightarrow> pc_parent (mk_pc p c) = p"
  unfolding pc_parent_def mk_pc_def
  by (rule bit_word_eqI, simp only: bit_and_iff bit_or_iff bit_not_iff bit_three bit_color)
    (auto simp: aligned_bits)

lemma pc_color_mk [heap_simps]: "p = NULL \<or> aligned p \<Longrightarrow> pc_color (mk_pc p c) = color_bit c"
  unfolding pc_color_def mk_pc_def
  by (rule bit_word_eqI, simp only: bit_and_iff bit_or_iff bit_1_iff bit_color)
    (auto simp: aligned_bits)

lemma pc_is_black_mk [heap_simps]: "p = NULL \<or> aligned p \<Longrightarrow> pc_is_black (mk_pc p c) \<longleftrightarrow> c = Black"
  using pc_color_mk [of p c] by (cases c) (simp_all add: pc_is_black_def pc_color_def color_bit.simps)

lemma color_and_Black: "color_bit c AND color_bit Black = 0 \<longleftrightarrow> c = Red" "color_bit Black \<noteq> 0"
  by (cases c) (simp_all add: color_bit.simps)

lemma color_or_mk [heap_simps]: "color_bit c OR p = mk_pc p c"
  by (simp add: or.commute mk_pc_def)

lemma mk_or_Black [heap_simps]: "mk_pc p c OR color_bit Black = mk_pc p Black"
  by (cases c) (simp_all add: mk_pc_def or.assoc color_bit.simps)

lemma mk_pc_Red: "mk_pc p Red = p"
  by (simp add: mk_pc_def color_bit.simps)

section \<open>Field access in a represented heap\<close>

lemma rb_get_node [heap_simps]: "p \<noteq> NULL \<Longrightarrow> nodes self p = Some n \<Longrightarrow> rb_get self p = Some n"
  by (simp add: rb_get_def deref_def)

lemma rb_upd_node [heap_simps]:
  "p \<noteq> NULL \<Longrightarrow> nodes self p = Some n \<Longrightarrow>
   rb_upd self p f = Some (self\<lparr>nodes := (nodes self)(p \<mapsto> f n)\<rparr>)"
  by (simp add: rb_upd_def assign_def deref_def)

lemmas rb_set_defs [heap_simps] = rb_set_left_def rb_set_right_def rb_set_pc_def
  hev_rbtree_node_set_parent_color_def hev_rbtree_node_set_parent_def hev_rbtree_node_set_black_def

lemma node_parent_rep [heap_simps]:
  "x \<noteq> NULL \<Longrightarrow> nodes self x = Some (node_of p c l r) \<Longrightarrow> p = NULL \<or> aligned p \<Longrightarrow>
   hev_rbtree_node_parent self x = Some p"
  by (simp add: hev_rbtree_node_parent_def heap_simps)

lemma node_is_red_rep [heap_simps]:
  "x \<noteq> NULL \<Longrightarrow> nodes self x = Some (node_of p c l r) \<Longrightarrow> p = NULL \<or> aligned p \<Longrightarrow>
   hev_rbtree_node_is_red self x = Some (c = Red)"
  by (cases c) (simp_all add: hev_rbtree_node_is_red_def hev_rbtree_node_color_def heap_simps color_and_Black)

lemma node_is_black_rep [heap_simps]:
  "x \<noteq> NULL \<Longrightarrow> nodes self x = Some (node_of p c l r) \<Longrightarrow> p = NULL \<or> aligned p \<Longrightarrow>
   hev_rbtree_node_is_black self x = Some (c = Black)"
  by (cases c) (simp_all add: hev_rbtree_node_is_black_def hev_rbtree_node_color_def heap_simps color_and_Black)

lemma node_red_parent_rep [heap_simps]:
  "x \<noteq> NULL \<Longrightarrow> nodes self x = Some (node_of p Red l r) \<Longrightarrow>
   hev_rbtree_node_red_parent self x = Some p"
  by (simp add: hev_rbtree_node_red_parent_def heap_simps mk_pc_Red)

text \<open>Replacing the pointer at the position of a context, through its parent or the root pointer.\<close>

lemma change_child_ctx:
  assumes "ctx_rep (nodes self) NULL old k" and "old \<noteq> NULL" and "old \<notin> ctx_set k"
  shows "hev_rbtree_change_child self old new (ctx_parent NULL k) =
    Some (case k of [] \<Rightarrow> self\<lparr>root := new\<rparr> | _ \<Rightarrow> self\<lparr>nodes := ctx_upd (nodes self) new k\<rparr>)"
proof (cases "(NULL :: addr, k)" rule: ctx_parent.cases)
  case (3 p c l a k')
  then have "ptr l \<noteq> old" using assms ptr_notin [of "nodes self" a l old] by auto
  with 3 assms show ?thesis
    by (simp add: hev_rbtree_change_child_def heap_simps)
qed (use assms in \<open>simp_all add: hev_rbtree_change_child_def heap_simps\<close>)

lemma ctx_upd_rep:
  "ctx_rep h NULL x k \<Longrightarrow> distinct (ctx_left k @ ctx_right k) \<Longrightarrow> ctx_rep (ctx_upd h y k) NULL y k"
  by (cases "(h, y, k)" rule: ctx_upd.cases) auto

lemma ctx_upd_other [simp]: "a \<notin> ctx_set k \<Longrightarrow> ctx_upd h x k a = h a"
  by (cases "(h, x, k)" rule: ctx_upd.cases) auto

lemma ctx_upd_tree [simp]: "tree_set t \<inter> ctx_set k = {} \<Longrightarrow> tree_rep (ctx_upd h x k) p t = tree_rep h p t"
  by (cases "(h, x, k)" rule: ctx_upd.cases) auto

lemma ctx_upd_frame: "frame A h h' \<Longrightarrow> ctx_set k \<subseteq> A \<Longrightarrow> frame A h (ctx_upd h' x k)"
  by (cases "(h', x, k)" rule: ctx_upd.cases) (auto simp: frame_def)

lemma ctx_upd_dom: "ctx_rep h NULL y k \<Longrightarrow> dom (ctx_upd h x k) = dom h"
  by (cases "(h, x, k)" rule: ctx_upd.cases) auto

section \<open>Traversal follows the in-order sequence\<close>

definition head_ptr :: "addr list \<Rightarrow> addr" where
  "head_ptr xs = (case xs of [] \<Rightarrow> NULL | x # _ \<Rightarrow> x)"

lemma head_ptr_append: "head_ptr (xs @ ys) = (if xs = [] then head_ptr ys else head_ptr xs)"
  by (cases xs) (auto simp: head_ptr_def)

lemma head_ptr_simps [simp]: "head_ptr [] = NULL" "head_ptr (x # xs) = x"
  by (simp_all add: head_ptr_def)

lemma inorder_Nil [simp]: "inorder t = [] \<longleftrightarrow> t = Leaf"
  by (cases t) auto

lemma leftmost_rep:
  "tree_rep (nodes self) p t \<Longrightarrow> t \<noteq> Leaf \<Longrightarrow> leftmost self (ptr t) = Some (head_ptr (inorder t))"
proof (induction t arbitrary: p)
  case (Node c l a r)
  then show ?case
    by (cases "l = Leaf") (auto simp: leftmost.simps [of self a] heap_simps head_ptr_append ptr_NULL)
qed simp

lemma rightmost_rep:
  "tree_rep (nodes self) p t \<Longrightarrow> t \<noteq> Leaf \<Longrightarrow> rightmost self (ptr t) = Some (head_ptr (rev (inorder t)))"
proof (induction t arbitrary: p)
  case (Node c l a r)
  then show ?case
    by (cases "r = Leaf") (auto simp: rightmost.simps [of self a] heap_simps head_ptr_append ptr_NULL)
qed simp

lemma climb_right_rep:
  assumes "ctx_rep (nodes self) NULL x k" and "x \<noteq> NULL" and "x \<notin> ctx_set k"
    and "distinct (ctx_left k @ ctx_right k)" and "nodes self x = Some (node_of (ctx_parent NULL k) c l r)"
  shows "climb_right self x = Some (head_ptr (ctx_right k))"
  using assms
proof (induction k arbitrary: x c l r rule: ctx_left.induct)
  case 1
  then show ?case by (simp add: climb_right.simps [of self x] heap_simps)
next
  case (2 c' a r' k)
  then have "ptr r' \<noteq> x" using ptr_notin [of "nodes self" a r' x] by auto
  with 2 show ?case by (simp add: climb_right.simps [of self x] heap_simps)
next
  case (3 c' l' a k)
  then have "climb_right self a = Some (head_ptr (ctx_right k))"
    by (intro "3.IH" [where c = c' and l = "ptr l'" and r = x]) auto
  with 3 show ?case by (simp add: climb_right.simps [of self x] heap_simps)
qed

lemma climb_left_rep:
  assumes "ctx_rep (nodes self) NULL x k" and "x \<noteq> NULL" and "x \<notin> ctx_set k"
    and "distinct (ctx_left k @ ctx_right k)" and "nodes self x = Some (node_of (ctx_parent NULL k) c l r)"
  shows "climb_left self x = Some (head_ptr (rev (ctx_left k)))"
  using assms
proof (induction k arbitrary: x c l r rule: ctx_left.induct)
  case 1
  then show ?case by (simp add: climb_left.simps [of self x] heap_simps)
next
  case (2 c' a r' k)
  then have "climb_left self a = Some (head_ptr (rev (ctx_left k)))"
    by (intro "2.IH" [where c = c' and l = x and r = "ptr r'"]) auto
  with 2 show ?case by (simp add: climb_left.simps [of self x] heap_simps)
next
  case (3 c' l' a k)
  then have "ptr l' \<noteq> x" using ptr_notin [of "nodes self" a l' x] by auto
  with 3 show ?case by (simp add: climb_left.simps [of self x] heap_simps)
qed

lemma node_empty_rep:
  assumes "nodes self a = Some (node_of p c l r)" and "aligned a" and "p = NULL \<or> aligned p" and "p \<noteq> a"
  shows "hev_rbtree_node_empty self a = Some False"
proof -
  have "mk_pc p c \<noteq> a"
  proof
    assume "mk_pc p c = a"
    then have "pc_parent (mk_pc p c) = pc_parent (mk_pc a Red)" by (simp add: mk_pc_Red)
    with assms show False by (simp add: pc_parent_mk)
  qed
  with assms show ?thesis by (simp add: hev_rbtree_node_empty_def heap_simps)
qed

text \<open>A represented tree, split at one of its nodes.\<close>

lemma rbt_rep_split:
  assumes "rbt_rep self t" and "a \<in> tree_set t"
  obtains k c l r where "t = plug k (Node c l a r)" "ctx_rep (nodes self) NULL a k"
    "nodes self a = Some (node_of (ctx_parent NULL k) c (ptr l) (ptr r))" "aligned a"
    "tree_rep (nodes self) a l" "tree_rep (nodes self) a r" "ctx_parent NULL k \<noteq> a"
    "ctx_parent NULL k = NULL \<or> aligned (ctx_parent NULL k)" "root self = ctx_root a k"
    "distinct (ctx_left k @ inorder l @ a # inorder r @ ctx_right k)"
proof -
  from assms(2) obtain k c l r where t: "t = plug k (Node c l a r)" using plug_decomp by blast
  with assms(1) have "ctx_rep (nodes self) NULL a k" "tree_rep (nodes self) (ctx_parent NULL k) (Node c l a r)"
    and d: "distinct (ctx_left k @ inorder l @ a # inorder r @ ctx_right k)"
    by (auto simp: rbt_rep_def tree_rep_plug)
  moreover from d this(1,2) have "ctx_parent NULL k \<noteq> a"
    using ctx_parent_in [of k NULL] by (cases k) auto
  ultimately show thesis
    using that [of k c l r] t assms(1) ctx_parent_aligned by (auto simp: rbt_rep_def)
qed

lemma node_next_rep:
  assumes rep: "rbt_rep self t" and io: "inorder t = xs @ a # ys"
  shows "hev_rbtree_node_next self a = Some (head_ptr ys)"
proof -
  have "a \<in> tree_set t" using io by simp
  with rep obtain k c l r where s: "t = plug k (Node c l a r)" "ctx_rep (nodes self) NULL a k"
    "nodes self a = Some (node_of (ctx_parent NULL k) c (ptr l) (ptr r))" "aligned a"
    "tree_rep (nodes self) a l" "tree_rep (nodes self) a r" "ctx_parent NULL k \<noteq> a"
    "ctx_parent NULL k = NULL \<or> aligned (ctx_parent NULL k)"
    "distinct (ctx_left k @ inorder l @ a # inorder r @ ctx_right k)"
    by (rule rbt_rep_split)
  from s(1) io have "(ctx_left k @ inorder l) @ a # (inorder r @ ctx_right k) = xs @ a # ys" by simp
  with s(9) have ys: "ys = inorder r @ ctx_right k"
    by (subst (asm) append_Cons_eq_iff) auto
  have e: "hev_rbtree_node_empty self a = Some False"
    using s(3,4,7,8) by (intro node_empty_rep) auto
  show ?thesis
  proof (cases r)
    case Leaf
    with s climb_right_rep [OF s(2) _ _ _ s(3)] e ys show ?thesis
      by (auto simp: hev_rbtree_node_next_def heap_simps)
  next
    case (Node c' l' a' r')
    with s leftmost_rep [OF s(6)] e ys show ?thesis
      by (auto simp: hev_rbtree_node_next_def heap_simps head_ptr_append)
  qed
qed

lemma node_prev_rep:
  assumes rep: "rbt_rep self t" and io: "inorder t = xs @ a # ys"
  shows "hev_rbtree_node_prev self a = Some (head_ptr (rev xs))"
proof -
  have "a \<in> tree_set t" using io by simp
  with rep obtain k c l r where s: "t = plug k (Node c l a r)" "ctx_rep (nodes self) NULL a k"
    "nodes self a = Some (node_of (ctx_parent NULL k) c (ptr l) (ptr r))" "aligned a"
    "tree_rep (nodes self) a l" "tree_rep (nodes self) a r" "ctx_parent NULL k \<noteq> a"
    "ctx_parent NULL k = NULL \<or> aligned (ctx_parent NULL k)"
    "distinct (ctx_left k @ inorder l @ a # inorder r @ ctx_right k)"
    by (rule rbt_rep_split)
  from s(1) io have "(ctx_left k @ inorder l) @ a # (inorder r @ ctx_right k) = xs @ a # ys" by simp
  with s(9) have xs: "xs = ctx_left k @ inorder l"
    by (subst (asm) append_Cons_eq_iff) auto
  have e: "hev_rbtree_node_empty self a = Some False"
    using s(3,4,7,8) by (intro node_empty_rep) auto
  show ?thesis
  proof (cases l)
    case Leaf
    with s climb_left_rep [OF s(2) _ _ _ s(3)] e xs show ?thesis
      by (auto simp: hev_rbtree_node_prev_def heap_simps)
  next
    case (Node c' l' a' r')
    with s rightmost_rep [OF s(5)] e xs show ?thesis
      by (auto simp: hev_rbtree_node_prev_def heap_simps head_ptr_append)
  qed
qed

lemma first_rep: "rbt_rep self t \<Longrightarrow> hev_rbtree_first self = Some (head_ptr (inorder t))"
  using leftmost_rep [of self NULL t]
  by (cases t) (auto simp: rbt_rep_def hev_rbtree_first_def head_ptr_def)

lemma last_rep: "rbt_rep self t \<Longrightarrow> hev_rbtree_last self = Some (head_ptr (rev (inorder t)))"
  using rightmost_rep [of self NULL t]
  by (cases t) (auto simp: rbt_rep_def hev_rbtree_last_def head_ptr_def)


section \<open>Rewiring the parent of a subtree\<close>

text \<open>
  What an operation on a represented tree achieves: it ends without an invalid access, the heap
  then represents the tree \<open>t\<close>, and only nodes of \<open>A\<close> have changed.
\<close>

definition rb_gives :: "HevRBTree \<Rightarrow> HevRBTree option \<Rightarrow> addr set \<Rightarrow> rbt \<Rightarrow> bool" where
  "rb_gives self res A t \<longleftrightarrow> (\<exists>self'. res = Some self' \<and> rbt_rep self' t \<and>
     frame A (nodes self) (nodes self') \<and> dom (nodes self') = dom (nodes self))"

lemma rb_gives_trans:
  "rb_gives self1 res A1 t \<Longrightarrow> frame A2 (nodes self) (nodes self1) \<Longrightarrow>
   dom (nodes self1) = dom (nodes self) \<Longrightarrow> A1 \<subseteq> A \<Longrightarrow> A2 \<subseteq> A \<Longrightarrow> rb_gives self res A t"
  unfolding rb_gives_def frame_def by (metis subsetD)

lemma change_child_rep:
  assumes ctx: "ctx_rep (nodes self) NULL old k" and old: "old \<noteq> NULL" "old \<notin> ctx_set k"
    and rt: "root self = ctx_root old k" and t: "tree_rep (nodes self) (ctx_parent NULL k) t"
    and d: "distinct (ctx_left k @ inorder t @ ctx_right k)"
  shows "rb_gives self (hev_rbtree_change_child self old (ptr t) (ctx_parent NULL k)) (ctx_set k) (plug k t)"
proof (cases k)
  case Nil
  with assms change_child_ctx [OF ctx old, of "ptr t"] show ?thesis
    by (simp add: rbt_rep_def rb_gives_def)
next
  case (Cons s k')
  have "distinct (ctx_left k @ ctx_right k)" "tree_set t \<inter> ctx_set k = {}"
    using d by auto
  moreover have "root self = ctx_root (ptr t) k"
    using rt Cons by (cases s) auto
  ultimately show ?thesis
    using Cons assms change_child_ctx [OF ctx old, of "ptr t"] ctx_upd_rep [OF ctx, of "ptr t"]
      ctx_upd_frame [of "ctx_set k" "nodes self" "nodes self" k "ptr t"] ctx_upd_dom [OF ctx]
    by (simp add: rbt_rep_def tree_rep_plug rb_gives_def)
qed

lemma rotate_set_parents_rep:
  assumes ctx: "ctx_rep (nodes self) NULL old k" and rt: "root self = ctx_root old k"
    and old: "nodes self old = Some (node_of (ctx_parent NULL k) c lo ro)" "old \<noteq> NULL" "old \<notin> ctx_set k"
    and new: "nodes self new = Some n" "new \<noteq> NULL" "new \<notin> ctx_set k" "new \<noteq> old" "ptr t = new"
    and t: "tree_rep ((nodes self)(new \<mapsto> n\<lparr>rn_parent_color := mk_pc (ctx_parent NULL k) c\<rparr>,
      old \<mapsto> node_of new color lo ro)) (ctx_parent NULL k) t"
    and d: "distinct (ctx_left k @ inorder t @ ctx_right k)"
  shows "rb_gives self (hev_rbtree_rotate_set_parents self old new color)
    (insert old (insert new (ctx_set k))) (plug k t)"
proof -
  let ?h = "(nodes self)(new \<mapsto> n\<lparr>rn_parent_color := mk_pc (ctx_parent NULL k) c\<rparr>, old \<mapsto> node_of new color lo ro)"
  let ?self = "self\<lparr>nodes := ?h\<rparr>"
  have "ctx_rep ?h NULL old k" using ctx old new by simp
  then have g: "rb_gives ?self (hev_rbtree_change_child ?self old (ptr t) (ctx_parent NULL k)) (ctx_set k) (plug k t)"
    using change_child_rep [of ?self old k t] old rt t d by auto
  have "hev_rbtree_node_parent self old = Some (ctx_parent NULL k)"
    using old ctx_parent_aligned [OF ctx] by (simp add: heap_simps)
  then have eq: "hev_rbtree_rotate_set_parents self old new color =
      hev_rbtree_change_child ?self old (ptr t) (ctx_parent NULL k)"
    using old new by (simp add: hev_rbtree_rotate_set_parents_def heap_simps)
  have d: "dom (nodes ?self) = dom (nodes self)" using old new by auto
  have f: "frame {old, new} (nodes self) (nodes ?self)" by (auto simp: frame_def)
  show ?thesis unfolding eq by (rule rb_gives_trans [OF g f d]) auto
qed

text \<open>A subtree hung under another parent: only its topmost node changes.\<close>

definition reparent :: "HevRBTreeNode heap \<Rightarrow> rbt \<Rightarrow> addr \<Rightarrow> HevRBTreeNode heap" where
  "reparent h t p = (case t of Leaf \<Rightarrow> h | Node c l a r \<Rightarrow> h(a \<mapsto> node_of p c (ptr l) (ptr r)))"

lemma set_parent_rep:
  assumes "tree_rep (nodes self) q t" and "q = NULL \<or> aligned q"
  shows "(if ptr t \<noteq> NULL then hev_rbtree_node_set_parent self (ptr t) p else Some self) =
    Some (self\<lparr>nodes := reparent (nodes self) t p\<rparr>)"
  using assms by (cases t) (auto simp: reparent_def heap_simps)

lemma tree_rep_reparent: "tree_rep h q t \<Longrightarrow> distinct (inorder t) \<Longrightarrow> tree_rep (reparent h t p) p t"
  by (cases t) (auto simp: reparent_def)

lemma reparent_tree [simp]: "tree_set t \<inter> tree_set u = {} \<Longrightarrow> tree_rep (reparent h t p) q u = tree_rep h q u"
  by (cases t) (auto simp: reparent_def)

lemma reparent_ctx [simp]: "tree_set t \<inter> ctx_set k = {} \<Longrightarrow> ctx_rep (reparent h t p) q x k = ctx_rep h q x k"
  by (cases t) (auto simp: reparent_def)

lemma reparent_other [simp]: "a \<notin> tree_set t \<Longrightarrow> reparent h t p a = h a"
  by (cases t) (auto simp: reparent_def)

lemma replace_rep:
  assumes rep: "rbt_rep self (plug k (Node c l v r))"
    and new: "aligned new" "new \<notin> tree_set (plug k (Node c l v r))" "nodes self new \<noteq> None"
  shows "\<exists>self'. hev_rbtree_replace self v new = Some self' \<and> rbt_rep self' (plug k (Node c l new r))"
proof -
  from rep have s: "ctx_rep (nodes self) NULL v k" "aligned v"
    "nodes self v = Some (node_of (ctx_parent NULL k) c (ptr l) (ptr r))"
    "tree_rep (nodes self) v l" "tree_rep (nodes self) v r"
    "root self = ctx_root v k" "distinct (ctx_left k @ inorder l @ v # inorder r @ ctx_right k)"
    by (auto simp: rbt_rep_def tree_rep_plug)
  let ?n = "node_of (ctx_parent NULL k) c (ptr l) (ptr r)"
  let ?h = "(nodes self)(new \<mapsto> ?n)"
  let ?h' = "reparent (reparent ?h l new) r new"
  have v: "hev_rbtree_node_parent self v = Some (ctx_parent NULL k)" "rb_get self v = Some ?n"
    "rb_get (self\<lparr>nodes := ?h\<rparr>) v = Some ?n" "rb_get (self\<lparr>nodes := reparent ?h l new\<rparr>) v = Some ?n"
    using s new ctx_parent_aligned [OF s(1)] by (auto simp: heap_simps)
  have upd: "rb_upd self new (\<lambda>_. ?n) = Some (self\<lparr>nodes := ?h\<rparr>)"
    using new by (auto simp: heap_simps)
  have l: "(if ptr l \<noteq> NULL then hev_rbtree_node_set_parent (self\<lparr>nodes := ?h\<rparr>) (ptr l) new
      else Some (self\<lparr>nodes := ?h\<rparr>)) = Some (self\<lparr>nodes := reparent ?h l new\<rparr>)"
    using set_parent_rep [of "self\<lparr>nodes := ?h\<rparr>" v l new] s new by simp
  have r: "(if ptr r \<noteq> NULL then hev_rbtree_node_set_parent (self\<lparr>nodes := reparent ?h l new\<rparr>) (ptr r) new
      else Some (self\<lparr>nodes := reparent ?h l new\<rparr>)) = Some (self\<lparr>nodes := ?h'\<rparr>)"
    using set_parent_rep [of "self\<lparr>nodes := reparent ?h l new\<rparr>" v r new] s new by auto
  have "tree_rep ?h' new l" "tree_rep ?h' new r"
    using s new tree_rep_reparent [of ?h v l new] tree_rep_reparent [of "reparent ?h l new" v r new]
    by (auto simp: Int_commute)
  then have "tree_rep ?h' (ctx_parent NULL k) (Node c l new r)"
    using s new by auto
  moreover have "ctx_rep ?h' NULL v k" using s new by (auto simp: Int_commute)
  ultimately show ?thesis
    using change_child_rep [of "self\<lparr>nodes := ?h'\<rparr>" v k "Node c l new r"] s new v upd l r
    by (auto simp: hev_rbtree_replace_def rb_gives_def)
qed
end
