(* ===== verification/Hev_RBTree_Insert.thy ===== *)
theory Hev_RBTree_Insert
  imports Hev_RBTree
begin

text \<open>
  Insertion into the red-black tree: \<open>hev_rbtree_insert_color\<close>, which rebalances after a new red
  node has been linked in. The loop is translated step by step (one iteration is
  \<open>insert_color_step\<close>). It always ends, never touches an invalid pointer, and turns the tree with
  the linked node into a red-black tree with the same in-order sequence.
\<close>

section \<open>The rebalancing loop\<close>

text \<open>The recurring \<open>if (child) hev_rbtree_node_set_parent_color (child, parent, HEV_RBTREE_BLACK)\<close>.\<close>

definition set_child_black :: "HevRBTree \<Rightarrow> addr \<Rightarrow> addr \<Rightarrow> HevRBTree option" where
  "set_child_black self child parent =
     (if child \<noteq> NULL then hev_rbtree_node_set_parent_color self child parent Black else Some self)"

text \<open>
  The rotations of an iteration whose uncle is black: the parent is the left child of the
  grandparent, or the right child.
\<close>

definition insert_rotate_left :: "HevRBTree \<Rightarrow> addr \<Rightarrow> addr \<Rightarrow> addr \<Rightarrow> HevRBTree option" where
  "insert_rotate_left self node parent gparent = do {
     p \<leftarrow> rb_get self parent;
     (self, parent, tmp) \<leftarrow>
       (if node = rn_right p then do {
          n \<leftarrow> rb_get self node;
          self \<leftarrow> rb_set_right self parent (rn_left n);
          self \<leftarrow> rb_set_left self node parent;
          self \<leftarrow> set_child_black self (rn_left n) parent;
          self \<leftarrow> hev_rbtree_node_set_parent_color self parent node Red;
          n \<leftarrow> rb_get self node;
          Some (self, node, rn_right n)
        } else Some (self, parent, rn_right p));
     self \<leftarrow> rb_set_left self gparent tmp;
     self \<leftarrow> rb_set_right self parent gparent;
     self \<leftarrow> set_child_black self tmp gparent;
     hev_rbtree_rotate_set_parents self gparent parent Red
   }"

definition insert_rotate_right :: "HevRBTree \<Rightarrow> addr \<Rightarrow> addr \<Rightarrow> addr \<Rightarrow> HevRBTree option" where
  "insert_rotate_right self node parent gparent = do {
     p \<leftarrow> rb_get self parent;
     (self, parent, tmp) \<leftarrow>
       (if node = rn_left p then do {
          n \<leftarrow> rb_get self node;
          self \<leftarrow> rb_set_left self parent (rn_right n);
          self \<leftarrow> rb_set_right self node parent;
          self \<leftarrow> set_child_black self (rn_right n) parent;
          self \<leftarrow> hev_rbtree_node_set_parent_color self parent node Red;
          n \<leftarrow> rb_get self node;
          Some (self, node, rn_left n)
        } else Some (self, parent, rn_left p));
     self \<leftarrow> rb_set_right self gparent tmp;
     self \<leftarrow> rb_set_left self parent gparent;
     self \<leftarrow> set_child_black self tmp gparent;
     hev_rbtree_rotate_set_parents self gparent parent Red
   }"

text \<open>The colour flip of Case 1, after which the loop continues at the grandparent.\<close>

definition insert_flip :: "HevRBTree \<Rightarrow> addr \<Rightarrow> addr \<Rightarrow> addr \<Rightarrow> (HevRBTree \<times> addr \<times> addr) option" where
  "insert_flip self tmp parent gparent = do {
     self \<leftarrow> hev_rbtree_node_set_parent_color self tmp gparent Black;
     self \<leftarrow> hev_rbtree_node_set_parent_color self parent gparent Black;
     parent \<leftarrow> hev_rbtree_node_parent self gparent;
     self \<leftarrow> hev_rbtree_node_set_parent_color self gparent parent Red;
     Some (self, gparent, parent)
   }"

text \<open>One iteration: the finished tree, or the tree with the node and parent to continue with.\<close>

definition insert_color_step ::
  "HevRBTree \<Rightarrow> addr \<Rightarrow> addr \<Rightarrow> (HevRBTree + HevRBTree \<times> addr \<times> addr) option" where
  "insert_color_step self node parent =
     (if parent = NULL then map_option Inl (hev_rbtree_node_set_parent_color self node NULL Black)
      else do {
        b \<leftarrow> hev_rbtree_node_is_black self parent;
        if b then Some (Inl self)
        else do {
          gparent \<leftarrow> hev_rbtree_node_red_parent self parent;
          g \<leftarrow> rb_get self gparent;
          if parent \<noteq> rn_right g then do {
            red \<leftarrow> (if rn_right g \<noteq> NULL then hev_rbtree_node_is_red self (rn_right g) else Some False);
            if red then map_option Inr (insert_flip self (rn_right g) parent gparent)
            else map_option Inl (insert_rotate_left self node parent gparent)
          } else do {
            red \<leftarrow> (if rn_left g \<noteq> NULL then hev_rbtree_node_is_red self (rn_left g) else Some False);
            if red then map_option Inr (insert_flip self (rn_left g) parent gparent)
            else map_option Inl (insert_rotate_right self node parent gparent)
          }
        }
      })"

partial_function (option) insert_color_loop :: "HevRBTree \<Rightarrow> addr \<Rightarrow> addr \<Rightarrow> HevRBTree option" where
  "insert_color_loop self node parent = do {
     res \<leftarrow> insert_color_step self node parent;
     case res of Inl self' \<Rightarrow> Some self'
     | Inr (self', node', parent') \<Rightarrow> insert_color_loop self' node' parent'
   }"

definition hev_rbtree_insert_color :: "HevRBTree \<Rightarrow> addr \<Rightarrow> HevRBTree option" where
  "hev_rbtree_insert_color self node = do {
     parent \<leftarrow> hev_rbtree_node_red_parent self node;
     insert_color_loop self node parent
   }"

section \<open>Red-black trees\<close>

fun color :: "rbt \<Rightarrow> HevRBTreeColor" where
  "color Leaf = Black"
| "color (Node c l a r) = c"

fun bheight :: "rbt \<Rightarrow> nat" where
  "bheight Leaf = 0"
| "bheight (Node c l a r) = bheight l + (if c = Black then 1 else 0)"

fun invc :: "rbt \<Rightarrow> bool" where
  "invc Leaf = True"
| "invc (Node c l a r) \<longleftrightarrow> (c = Red \<longrightarrow> color l = Black \<and> color r = Black) \<and> invc l \<and> invc r"

fun invh :: "rbt \<Rightarrow> bool" where
  "invh Leaf = True"
| "invh (Node c l a r) \<longleftrightarrow> bheight l = bheight r \<and> invh l \<and> invh r"

definition rbt_ok :: "rbt \<Rightarrow> bool" where
  "rbt_ok t \<longleftrightarrow> invc t \<and> invh t \<and> color t = Black"

text \<open>
  A context in which a subtree of black height \<open>n\<close> makes a red-black tree, up to the colours of
  the subtree and of the step above it. The missing parent of a root counts as red, so that the
  root of a correct tree is black.
\<close>

fun ctx_color :: "step list \<Rightarrow> HevRBTreeColor" where
  "ctx_color [] = Red"
| "ctx_color (LeftOf c a r # k) = c"
| "ctx_color (RightOf c l a # k) = c"

fun ctx_ok :: "step list \<Rightarrow> nat \<Rightarrow> bool" where
  "ctx_ok [] n = True"
| "ctx_ok (LeftOf c a r # k) n \<longleftrightarrow> invc r \<and> invh r \<and> bheight r = n \<and>
     (c = Red \<longrightarrow> color r = Black \<and> ctx_color k = Black) \<and> ctx_ok k (n + (if c = Black then 1 else 0))"
| "ctx_ok (RightOf c l a # k) n \<longleftrightarrow> invc l \<and> invh l \<and> bheight l = n \<and>
     (c = Red \<longrightarrow> color l = Black \<and> ctx_color k = Black) \<and> ctx_ok k (n + (if c = Black then 1 else 0))"

lemma neq_Black [simp]: "c \<noteq> Black \<longleftrightarrow> c = Red"
  by (cases c) auto

lemma neq_Red [simp]: "c \<noteq> Red \<longleftrightarrow> c = Black"
  by (cases c) auto

lemma rbt_ok_plug:
  "rbt_ok (plug k t) \<longleftrightarrow>
     ctx_ok k (bheight t) \<and> invc t \<and> invh t \<and> (color t = Red \<longrightarrow> ctx_color k = Black)"
proof (induction k t rule: plug.induct)
  case (1 t)
  show ?case by (cases "color t") (auto simp: rbt_ok_def)
qed auto

lemma ctx_ok_RedD: "ctx_ok k n \<Longrightarrow> k \<noteq> [] \<Longrightarrow> ctx_color k = Red \<Longrightarrow> ctx_color (tl k) = Black"
  by (cases k rule: ctx_color.cases) auto

lemma ctx_color_BlackD: "ctx_color k = Black \<Longrightarrow> k \<noteq> []"
  by auto

section \<open>Rotations and colour flips\<close>

lemma set_black_rep:
  assumes "tree_rep (nodes self) q t" and "color t = Black"
  shows "set_child_black self (ptr t) p =
    Some (self\<lparr>nodes := reparent (nodes self) t p\<rparr>)"
  using assms by (cases t) (auto simp: reparent_def heap_simps set_child_black_def)

lemma reparent_upd:
  "a \<notin> tree_set t \<Longrightarrow> reparent (h(a := v)) t p = (reparent h t p)(a := v)"
  by (cases t) (auto simp: reparent_def fun_upd_twist)

lemma rotate_left_outer:
  assumes rep: "rbt_rep self (plug k (Node Black (Node Red N p s) g u))" and N: "ptr N = n" "N \<noteq> Leaf"
    and s: "color s = Black"
  shows "rb_gives self (insert_rotate_left self n p g) (tree_set (plug k (Node Black (Node Red N p s) g u)))
    (plug k (Node Black N p (Node Red s g u)))"
proof -
  from rep have r: "ctx_rep (nodes self) NULL g k" "aligned g" "aligned p" "root self = ctx_root g k"
    "nodes self g = Some (node_of (ctx_parent NULL k) Black p (ptr u))"
    "nodes self p = Some (node_of g Red (ptr N) (ptr s))"
    "tree_rep (nodes self) p N" "tree_rep (nodes self) p s" "tree_rep (nodes self) g u"
    "distinct (ctx_left k @ inorder N @ p # inorder s @ g # inorder u @ ctx_right k)"
    by (auto simp: rbt_rep_def tree_rep_plug)
  from N r(10) have "n \<notin> tree_set s" using ptr_in [of N] by auto
  with r N have ns: "n \<noteq> ptr s" "g \<noteq> p" "p \<noteq> g" by (cases s; cases N, auto)+
  let ?h = "(nodes self)(g \<mapsto> node_of (ctx_parent NULL k) Black (ptr s) (ptr u), p \<mapsto> node_of g Red (ptr N) g)"
  have ts: "tree_rep ?h p s" using r by auto
  let ?self = "self\<lparr>nodes := reparent ?h s g\<rparr>"
  have "set_child_black (self\<lparr>nodes := ?h\<rparr>) (ptr s) g = Some ?self"
    using set_black_rep [of "self\<lparr>nodes := ?h\<rparr>" p s g] ts s by simp
  then have eq: "insert_rotate_left self n p g = hev_rbtree_rotate_set_parents ?self g p Red"
    using r ns by (simp add: insert_rotate_left_def heap_simps)
  have g: "rb_gives ?self (hev_rbtree_rotate_set_parents ?self g p Red) (insert g (insert p (ctx_set k)))
      (plug k (Node Black N p (Node Red s g u)))"
    using r tree_rep_reparent [OF ts, of g]
    by (intro rotate_set_parents_rep [where c = Black and n = "node_of g Red (ptr N) g"])
      (auto simp: Int_commute)
  have f: "frame (insert g (insert p (tree_set s))) (nodes self) (nodes ?self)"
    by (auto simp: frame_def)
  have d: "dom (nodes ?self) = dom (nodes self)"
    using r by (cases s) (auto simp: reparent_def)
  show ?thesis unfolding eq by (rule rb_gives_trans [OF g f d]) auto
qed

lemma rotate_right_outer:
  assumes rep: "rbt_rep self (plug k (Node Black u g (Node Red s p N)))" and N: "ptr N = n" "N \<noteq> Leaf"
    and s: "color s = Black"
  shows "rb_gives self (insert_rotate_right self n p g) (tree_set (plug k (Node Black u g (Node Red s p N))))
    (plug k (Node Black (Node Red u g s) p N))"
proof -
  from rep have r: "ctx_rep (nodes self) NULL g k" "aligned g" "aligned p" "root self = ctx_root g k"
    "nodes self g = Some (node_of (ctx_parent NULL k) Black (ptr u) p)"
    "nodes self p = Some (node_of g Red (ptr s) (ptr N))"
    "tree_rep (nodes self) p N" "tree_rep (nodes self) p s" "tree_rep (nodes self) g u"
    "distinct (ctx_left k @ inorder u @ g # inorder s @ p # inorder N @ ctx_right k)"
    by (auto simp: rbt_rep_def tree_rep_plug)
  from N r(10) have "n \<notin> tree_set s" using ptr_in [of N] by auto
  with r N have ns: "n \<noteq> ptr s" "g \<noteq> p" "p \<noteq> g" by (cases s; cases N, auto)+
  let ?h = "(nodes self)(g \<mapsto> node_of (ctx_parent NULL k) Black (ptr u) (ptr s), p \<mapsto> node_of g Red g (ptr N))"
  have ts: "tree_rep ?h p s" using r by auto
  let ?self = "self\<lparr>nodes := reparent ?h s g\<rparr>"
  have "set_child_black (self\<lparr>nodes := ?h\<rparr>) (ptr s) g = Some ?self"
    using set_black_rep [of "self\<lparr>nodes := ?h\<rparr>" p s g] ts s by simp
  then have eq: "insert_rotate_right self n p g = hev_rbtree_rotate_set_parents ?self g p Red"
    using r ns by (simp add: insert_rotate_right_def heap_simps)
  have g: "rb_gives ?self (hev_rbtree_rotate_set_parents ?self g p Red) (insert g (insert p (ctx_set k)))
      (plug k (Node Black (Node Red u g s) p N))"
    using r tree_rep_reparent [OF ts, of g]
    by (intro rotate_set_parents_rep [where c = Black and n = "node_of g Red g (ptr N)"])
      (auto simp: Int_commute)
  have f: "frame (insert g (insert p (tree_set s))) (nodes self) (nodes ?self)"
    by (auto simp: frame_def)
  have d: "dom (nodes ?self) = dom (nodes self)"
    using r by (cases s) (auto simp: reparent_def)
  show ?thesis unfolding eq by (rule rb_gives_trans [OF g f d]) auto
qed

lemma rotate_left_inner:
  assumes rep: "rbt_rep self (plug k (Node Black (Node Red s p (Node Red a n b)) g u))"
    and ab: "color a = Black" "color b = Black"
  shows "rb_gives self (insert_rotate_left self n p g)
    (tree_set (plug k (Node Black (Node Red s p (Node Red a n b)) g u)))
    (plug k (Node Black (Node Red s p a) n (Node Red b g u)))"
proof -
  from rep have r: "ctx_rep (nodes self) NULL g k" "aligned g" "aligned p" "aligned n" "root self = ctx_root g k"
    "nodes self g = Some (node_of (ctx_parent NULL k) Black p (ptr u))"
    "nodes self p = Some (node_of g Red (ptr s) n)"
    "nodes self n = Some (node_of p Red (ptr a) (ptr b))"
    "tree_rep (nodes self) n a" "tree_rep (nodes self) n b" "tree_rep (nodes self) p s" "tree_rep (nodes self) g u"
    "distinct (ctx_left k @ inorder s @ p # inorder a @ n # inorder b @ g # inorder u @ ctx_right k)"
    by (auto simp: rbt_rep_def tree_rep_plug)
  from r have ns: "p \<noteq> n" "n \<noteq> p" "g \<noteq> p" "p \<noteq> g" "g \<noteq> n" "n \<noteq> g" by auto
  let ?h = "(nodes self)(p \<mapsto> node_of g Red (ptr s) (ptr a), n \<mapsto> node_of p Red p (ptr b))"
  let ?h1 = "(reparent ?h a p)(p \<mapsto> node_of n Red (ptr s) (ptr a))"
  let ?h2 = "?h1(g \<mapsto> node_of (ctx_parent NULL k) Black (ptr b) (ptr u), n \<mapsto> node_of p Red p g)"
  let ?self = "self\<lparr>nodes := reparent ?h2 b g\<rparr>"
  have ta: "tree_rep ?h n a" and tb: "tree_rep ?h2 n b" using r by (auto simp: Int_commute)
  have "set_child_black (self\<lparr>nodes := ?h\<rparr>) (ptr a) p = Some (self\<lparr>nodes := reparent ?h a p\<rparr>)"
    using set_black_rep [of "self\<lparr>nodes := ?h\<rparr>" n a p] ta ab by simp
  moreover have "set_child_black (self\<lparr>nodes := ?h2\<rparr>) (ptr b) g = Some ?self"
    using set_black_rep [of "self\<lparr>nodes := ?h2\<rparr>" n b g] tb ab by simp
  ultimately have eq: "insert_rotate_left self n p g = hev_rbtree_rotate_set_parents ?self g n Red"
    using r ns by (simp add: insert_rotate_left_def heap_simps)
  have "tree_rep (reparent ?h2 b g) p a"
    using r tree_rep_reparent [OF ta, of p] by (auto simp: Int_commute)
  then have g: "rb_gives ?self (hev_rbtree_rotate_set_parents ?self g n Red) (insert g (insert n (ctx_set k)))
      (plug k (Node Black (Node Red s p a) n (Node Red b g u)))"
    using r tree_rep_reparent [OF tb, of g]
    by (intro rotate_set_parents_rep [where c = Black and n = "node_of p Red p g"])
      (auto simp: Int_commute)
  have f: "frame (insert g (insert p (insert n (tree_set a \<union> tree_set b)))) (nodes self) (nodes ?self)"
    by (auto simp: frame_def)
  have d: "dom (nodes ?self) = dom (nodes self)"
    using r by (cases a; cases b) (auto simp: reparent_def)
  show ?thesis unfolding eq by (rule rb_gives_trans [OF g f d]) auto
qed

lemma rotate_right_inner:
  assumes rep: "rbt_rep self (plug k (Node Black u g (Node Red (Node Red a n b) p s)))"
    and ab: "color a = Black" "color b = Black"
  shows "rb_gives self (insert_rotate_right self n p g)
    (tree_set (plug k (Node Black u g (Node Red (Node Red a n b) p s))))
    (plug k (Node Black (Node Red u g a) n (Node Red b p s)))"
proof -
  from rep have r: "ctx_rep (nodes self) NULL g k" "aligned g" "aligned p" "aligned n" "root self = ctx_root g k"
    "nodes self g = Some (node_of (ctx_parent NULL k) Black (ptr u) p)"
    "nodes self p = Some (node_of g Red n (ptr s))"
    "nodes self n = Some (node_of p Red (ptr a) (ptr b))"
    "tree_rep (nodes self) n a" "tree_rep (nodes self) n b" "tree_rep (nodes self) p s" "tree_rep (nodes self) g u"
    "distinct (ctx_left k @ inorder u @ g # inorder a @ n # inorder b @ p # inorder s @ ctx_right k)"
    by (auto simp: rbt_rep_def tree_rep_plug)
  from r have ns: "p \<noteq> n" "n \<noteq> p" "g \<noteq> p" "p \<noteq> g" "g \<noteq> n" "n \<noteq> g" by auto
  let ?h = "(nodes self)(p \<mapsto> node_of g Red (ptr b) (ptr s), n \<mapsto> node_of p Red (ptr a) p)"
  let ?h1 = "(reparent ?h b p)(p \<mapsto> node_of n Red (ptr b) (ptr s))"
  let ?h2 = "?h1(g \<mapsto> node_of (ctx_parent NULL k) Black (ptr u) (ptr a), n \<mapsto> node_of p Red g p)"
  let ?self = "self\<lparr>nodes := reparent ?h2 a g\<rparr>"
  have ta: "tree_rep ?h n b" and tb: "tree_rep ?h2 n a" using r by (auto simp: Int_commute)
  have "set_child_black (self\<lparr>nodes := ?h\<rparr>) (ptr b) p = Some (self\<lparr>nodes := reparent ?h b p\<rparr>)"
    using set_black_rep [of "self\<lparr>nodes := ?h\<rparr>" n b p] ta ab by simp
  moreover have "set_child_black (self\<lparr>nodes := ?h2\<rparr>) (ptr a) g = Some ?self"
    using set_black_rep [of "self\<lparr>nodes := ?h2\<rparr>" n a g] tb ab by simp
  ultimately have eq: "insert_rotate_right self n p g = hev_rbtree_rotate_set_parents ?self g n Red"
    using r ns by (simp add: insert_rotate_right_def heap_simps)
  have "tree_rep (reparent ?h2 a g) p b"
    using r tree_rep_reparent [OF ta, of p] by (auto simp: Int_commute)
  then have g: "rb_gives ?self (hev_rbtree_rotate_set_parents ?self g n Red) (insert g (insert n (ctx_set k)))
      (plug k (Node Black (Node Red u g a) n (Node Red b p s)))"
    using r tree_rep_reparent [OF tb, of g]
    by (intro rotate_set_parents_rep [where c = Black and n = "node_of p Red g p"])
      (auto simp: Int_commute)
  have f: "frame (insert g (insert p (insert n (tree_set a \<union> tree_set b)))) (nodes self) (nodes ?self)"
    by (auto simp: frame_def)
  have d: "dom (nodes ?self) = dom (nodes self)"
    using r by (cases a; cases b) (auto simp: reparent_def)
  show ?thesis unfolding eq by (rule rb_gives_trans [OF g f d]) auto
qed

lemma flip_rep:
  assumes rep: "rbt_rep self (plug k (Node Black (Node Red a x b) g (Node Red c y d)))"
    and xy: "v = x \<and> w = y \<or> v = y \<and> w = x"
  shows "\<exists>self'. insert_flip self v w g = Some (self', g, ctx_parent NULL k) \<and>
    rb_gives self (Some self') {x, y, g} (plug k (Node Red (Node Black a x b) g (Node Black c y d)))"
proof -
  from rep have r: "ctx_rep (nodes self) NULL g k" "aligned g" "aligned x" "aligned y" "root self = ctx_root g k"
    "nodes self g = Some (node_of (ctx_parent NULL k) Black x y)"
    "nodes self x = Some (node_of g Red (ptr a) (ptr b))" "nodes self y = Some (node_of g Red (ptr c) (ptr d))"
    "tree_rep (nodes self) x a" "tree_rep (nodes self) x b" "tree_rep (nodes self) y c" "tree_rep (nodes self) y d"
    "distinct (ctx_left k @ inorder a @ x # inorder b @ g # inorder c @ y # inorder d @ ctx_right k)"
    by (auto simp: rbt_rep_def tree_rep_plug)
  let ?h = "(nodes self)(x \<mapsto> node_of g Black (ptr a) (ptr b), y \<mapsto> node_of g Black (ptr c) (ptr d),
      g \<mapsto> node_of (ctx_parent NULL k) Red x y)"
  from r have n: "x \<noteq> y" "y \<noteq> x" "x \<noteq> g" "g \<noteq> x" "y \<noteq> g" "g \<noteq> y" by auto
  from r(1) have "ctx_parent NULL k = NULL \<or> aligned (ctx_parent NULL k)" by (rule ctx_parent_aligned)
  with xy r n have "insert_flip self v w g = Some (self\<lparr>nodes := ?h\<rparr>, g, ctx_parent NULL k)"
    by (auto simp: insert_flip_def heap_simps fun_upd_twist)
  moreover have "rbt_rep (self\<lparr>nodes := ?h\<rparr>) (plug k (Node Red (Node Black a x b) g (Node Black c y d)))"
    using r by (auto simp: rbt_rep_def tree_rep_plug)
  moreover have "dom ?h = dom (nodes self)" using r by auto
  ultimately show ?thesis by (auto simp: rb_gives_def frame_def)
qed

section \<open>Correctness of the loop\<close>

lemma step_left:
  assumes "rbt_rep self (plug k (Node Black (Node Red a p b) g u))"
  shows "insert_color_step self n p =
    (if color u = Red then map_option Inr (insert_flip self (ptr u) p g)
     else map_option Inl (insert_rotate_left self n p g))"
proof -
  from assms have "p \<noteq> ptr u" by (cases u) (auto simp: rbt_rep_def tree_rep_plug)
  moreover from assms have "ptr u \<noteq> NULL \<longrightarrow> hev_rbtree_node_is_red self (ptr u) = Some (color u = Red)"
    by (cases u) (auto simp: rbt_rep_def tree_rep_plug heap_simps)
  moreover from assms have "ptr u = NULL \<Longrightarrow> color u = Black"
    by (cases u) (auto simp: rbt_rep_def tree_rep_plug)
  ultimately show ?thesis
    using assms by (auto simp: insert_color_step_def rbt_rep_def tree_rep_plug heap_simps)
qed

lemma step_right:
  assumes "rbt_rep self (plug k (Node Black u g (Node Red a p b)))"
  shows "insert_color_step self n p =
    (if color u = Red then map_option Inr (insert_flip self (ptr u) p g)
     else map_option Inl (insert_rotate_right self n p g))"
proof -
  from assms have "ptr u \<noteq> NULL \<longrightarrow> hev_rbtree_node_is_red self (ptr u) = Some (color u = Red)"
    by (cases u) (auto simp: rbt_rep_def tree_rep_plug heap_simps)
  moreover from assms have "ptr u = NULL \<Longrightarrow> color u = Black"
    by (cases u) (auto simp: rbt_rep_def tree_rep_plug)
  ultimately show ?thesis
    using assms by (auto simp: insert_color_step_def rbt_rep_def tree_rep_plug heap_simps)
qed

text \<open>What a rebalancing loop promises: it ends, and leaves a red-black tree with the in-order sequence \<open>xs\<close>.\<close>

definition rb_fixes :: "HevRBTree \<Rightarrow> HevRBTree option \<Rightarrow> addr list \<Rightarrow> bool" where
  "rb_fixes self res xs \<longleftrightarrow> (\<exists>t'. rb_gives self res (set xs) t' \<and> inorder t' = xs \<and> rbt_ok t')"

lemma rb_fixes_trans:
  assumes "rb_gives self (Some self1) A t" and "A \<subseteq> set xs" and "rb_fixes self1 res xs"
  shows "rb_fixes self res xs"
proof -
  have "frame A (nodes self) (nodes self1)" "dom (nodes self1) = dom (nodes self)"
    using assms(1) by (auto simp: rb_gives_def)
  with assms(2,3) show ?thesis
    by (auto simp: rb_fixes_def intro: rb_gives_trans)
qed

lemma loop_flip:
  assumes rep: "rbt_rep self (plug k (Node Black (Node Red a x b) g (Node Red c y d)))"
    and xy: "v = x \<and> w = y \<or> v = y \<and> w = x"
    and st: "insert_color_step self n w = map_option Inr (insert_flip self v w g)"
    and IH: "\<And>self'. rbt_rep self' (plug k (Node Red (Node Black a x b) g (Node Black c y d))) \<Longrightarrow>
      rb_fixes self' (insert_color_loop self' g (ctx_parent NULL k))
        (inorder (plug k (Node Red (Node Black a x b) g (Node Black c y d))))"
  shows "rb_fixes self (insert_color_loop self n w) (inorder (plug k (Node Black (Node Red a x b) g (Node Red c y d))))"
proof -
  obtain self' where s: "insert_flip self v w g = Some (self', g, ctx_parent NULL k)"
    "rb_gives self (Some self') {x, y, g} (plug k (Node Red (Node Black a x b) g (Node Black c y d)))"
    using flip_rep [OF rep xy] by blast
  then have "insert_color_loop self n w = insert_color_loop self' g (ctx_parent NULL k)"
    using st by (simp add: insert_color_loop.simps [of self n w])
  moreover have "rb_fixes self' (insert_color_loop self' g (ctx_parent NULL k))
      (inorder (plug k (Node Red (Node Black a x b) g (Node Black c y d))))"
    using s(2) by (intro IH) (simp add: rb_gives_def)
  ultimately show ?thesis
    using rb_fixes_trans [OF s(2)] by auto
qed

lemma loop_rotate:
  assumes "insert_color_step self n p = map_option Inl res"
    and "rb_gives self res (set xs) t'" and "inorder t' = xs" and "rbt_ok t'"
  shows "rb_fixes self (insert_color_loop self n p) xs"
  using assms by (auto simp: rb_fixes_def rb_gives_def insert_color_loop.simps [of self n p])


lemma loop_root:
  assumes "rbt_rep self (Node Red l n r)" and "invc (Node Red l n r)" and "invh (Node Red l n r)"
  shows "rb_fixes self (insert_color_loop self n NULL) (inorder (Node Red l n r))"
proof -
  let ?self = "self\<lparr>nodes := (nodes self)(n \<mapsto> node_of NULL Black (ptr l) (ptr r))\<rparr>"
  have "insert_color_step self n NULL = map_option Inl (Some ?self)"
    using assms by (auto simp: insert_color_step_def rbt_rep_def heap_simps)
  moreover have "rb_gives self (Some ?self) (set (inorder (Node Red l n r))) (Node Black l n r)"
    using assms by (auto simp: rb_gives_def rbt_rep_def frame_def)
  ultimately show ?thesis
    using assms(2,3) by (auto intro!: loop_rotate simp: rbt_ok_def)
qed

lemma loop_black:
  assumes rep: "rbt_rep self (plug k t)" and k: "k \<noteq> []" "ctx_color k = Black" and "rbt_ok (plug k t)"
  shows "rb_fixes self (insert_color_loop self n (ctx_parent NULL k)) (inorder (plug k t))"
proof -
  have "insert_color_step self n (ctx_parent NULL k) = map_option Inl (Some self)"
    using rep k by (cases k rule: ctx_color.cases)
      (auto simp: insert_color_step_def rbt_rep_def tree_rep_plug heap_simps dest: ctx_parent_aligned)
  moreover have "rb_gives self (Some self) (set (inorder (plug k t))) (plug k t)"
    using rep by (auto simp: rb_gives_def)
  ultimately show ?thesis using assms(4) by (rule loop_rotate [OF _ _ refl])
qed

lemma ctx_cases:
  assumes "ctx_ok k n"
  obtains (root) "k = []" | (black) "k \<noteq> []" "ctx_color k = Black"
    | (left) p s g u k' where "k = LeftOf Red p s # LeftOf Black g u # k'"
    | (inner_left) p s g u k' where "k = RightOf Red s p # LeftOf Black g u # k'"
    | (right) p s g u k' where "k = RightOf Red s p # RightOf Black u g # k'"
    | (inner_right) p s g u k' where "k = LeftOf Red p s # RightOf Black u g # k'"
proof (cases k rule: ctx_color.cases)
  case (2 c a r k')
  with assms that show ?thesis by (cases c; cases k' rule: ctx_color.cases) auto
next
  case (3 c l a k')
  with assms that show ?thesis by (cases c; cases k' rule: ctx_color.cases) auto
qed (use that in auto)

lemma insert_loop_rep:
  assumes "rbt_rep self (plug k (Node Red l n r))" and "ctx_ok k (bheight l)"
    and "invc (Node Red l n r)" and "invh (Node Red l n r)"
  shows "rb_fixes self (insert_color_loop self n (ctx_parent NULL k)) (inorder (plug k (Node Red l n r)))"
  using assms
proof (induction "length k" arbitrary: self k l n r rule: less_induct)
  case less
  note rep = less.prems(1)
  let ?n = "Node Red l n r"
  have flip: "rb_fixes self' (insert_color_loop self' g (ctx_parent NULL k')) (inorder (plug k' (Node Red a g b)))"
    if "rbt_rep self' (plug k' (Node Red a g b))" "ctx_ok k' (bheight a)" "invc (Node Red a g b)"
      "invh (Node Red a g b)" "length k' < length k" for self' k' a g b
    using that less.hyps by blast
  from less.prems(2) show ?case
  proof (cases rule: ctx_cases)
    case root
    with less.prems show ?thesis using loop_root [of self l n r] by simp
  next
    case black
    with less.prems show ?thesis by (intro loop_black) (auto simp: rbt_ok_plug)
  next
    case (left p s g u k')
    with rep have rep': "rbt_rep self (plug k' (Node Black (Node Red ?n p s) g u))" by simp
    show ?thesis
    proof (cases "color u")
      case Red
      then obtain c y d where u: "u = Node Red c y d" by (cases u) auto
      have "rb_fixes self (insert_color_loop self n p) (inorder (plug k' (Node Black (Node Red ?n p s) g (Node Red c y d))))"
        using left u less.prems(2-4) step_left [OF rep', of n]
        by (intro loop_flip [OF rep' [unfolded u], of y] flip) auto
      then show ?thesis using left u by simp
    next
      case Black
      then show ?thesis
        using left less.prems loop_rotate [OF _ rotate_left_outer [OF rep', of n]] step_left [OF rep', of n]
        by (auto simp: rbt_ok_plug)
    qed
  next
    case (inner_left p s g u k')
    with rep have rep': "rbt_rep self (plug k' (Node Black (Node Red s p ?n) g u))" by simp
    show ?thesis
    proof (cases "color u")
      case Red
      then obtain c y d where u: "u = Node Red c y d" by (cases u) auto
      have "rb_fixes self (insert_color_loop self n p) (inorder (plug k' (Node Black (Node Red s p ?n) g (Node Red c y d))))"
        using inner_left u less.prems(2-4) step_left [OF rep', of n]
        by (intro loop_flip [OF rep' [unfolded u], of y] flip) auto
      then show ?thesis using inner_left u by simp
    next
      case Black
      then show ?thesis
        using inner_left less.prems loop_rotate [OF _ rotate_left_inner [OF rep']] step_left [OF rep', of n]
        by (auto simp: rbt_ok_plug)
    qed
  next
    case (right p s g u k')
    with rep have rep': "rbt_rep self (plug k' (Node Black u g (Node Red s p ?n)))" by simp
    show ?thesis
    proof (cases "color u")
      case Red
      then obtain c y d where u: "u = Node Red c y d" by (cases u) auto
      have "rb_fixes self (insert_color_loop self n p) (inorder (plug k' (Node Black (Node Red c y d) g (Node Red s p ?n))))"
        using right u less.prems(2-4) step_right [OF rep', of n]
        by (intro loop_flip [OF rep' [unfolded u], of y] flip) auto
      then show ?thesis using right u by simp
    next
      case Black
      then show ?thesis
        using right less.prems loop_rotate [OF _ rotate_right_outer [OF rep', of n]] step_right [OF rep', of n]
        by (auto simp: rbt_ok_plug)
    qed
  next
    case (inner_right p s g u k')
    with rep have rep': "rbt_rep self (plug k' (Node Black u g (Node Red ?n p s)))" by simp
    show ?thesis
    proof (cases "color u")
      case Red
      then obtain c y d where u: "u = Node Red c y d" by (cases u) auto
      have "rb_fixes self (insert_color_loop self n p) (inorder (plug k' (Node Black (Node Red c y d) g (Node Red ?n p s))))"
        using inner_right u less.prems(2-4) step_right [OF rep', of n]
        by (intro loop_flip [OF rep' [unfolded u], of y] flip) auto
      then show ?thesis using inner_right u by simp
    next
      case Black
      then show ?thesis
        using inner_right less.prems loop_rotate [OF _ rotate_right_inner [OF rep']] step_right [OF rep', of n]
        by (auto simp: rbt_ok_plug)
    qed
  qed
qed

section \<open>Linking and inserting a node\<close>

text \<open>The link a context ends at.\<close>

fun ctx_link :: "step list \<Rightarrow> link" where
  "ctx_link [] = RootLink"
| "ctx_link (LeftOf c a r # k) = LeftLink a"
| "ctx_link (RightOf c l a # k) = RightLink a"

lemma node_link_rep:
  assumes rep: "rbt_rep self (plug k Leaf)" and n: "aligned n" "n \<notin> ctx_set k" "nodes self n \<noteq> None"
  shows "\<exists>self'. hev_rbtree_node_link self n (ctx_parent NULL k) (ctx_link k) = Some self' \<and>
    rb_gives self (Some self') (insert n (ctx_set k)) (plug k (Node Red Leaf n Leaf))"
proof (cases k rule: ctx_link.cases)
  case 1
  with assms show ?thesis
    by (auto simp: hev_rbtree_node_link_def rbt_rep_def rb_gives_def frame_def heap_simps mk_pc_Red)
next
  case (2 c a r k')
  with assms show ?thesis
    by (auto simp: hev_rbtree_node_link_def rbt_rep_def tree_rep_plug rb_gives_def frame_def heap_simps mk_pc_Red)
next
  case (3 c l a k')
  with assms show ?thesis
    by (auto simp: hev_rbtree_node_link_def rbt_rep_def tree_rep_plug rb_gives_def frame_def heap_simps mk_pc_Red)
qed

lemma insert_rep:
  assumes "rbt_rep self (plug k Leaf)" and "rbt_ok (plug k Leaf)"
    and "aligned n" and "n \<notin> ctx_set k" and "nodes self n \<noteq> None"
  shows "rb_fixes self (hev_rbtree_node_link self n (ctx_parent NULL k) (ctx_link k) \<bind>
    (\<lambda>self. hev_rbtree_insert_color self n)) (ctx_left k @ n # ctx_right k)"
proof -
  let ?t = "plug k (Node Red Leaf n Leaf)"
  obtain self' where s: "hev_rbtree_node_link self n (ctx_parent NULL k) (ctx_link k) = Some self'"
    "rb_gives self (Some self') (insert n (ctx_set k)) ?t"
    using node_link_rep assms by blast
  then have rep: "rbt_rep self' ?t" by (simp add: rb_gives_def)
  have "rb_fixes self' (insert_color_loop self' n (ctx_parent NULL k)) (inorder ?t)"
    using rep assms(2) by (intro insert_loop_rep) (auto simp: rbt_ok_plug)
  moreover have "hev_rbtree_insert_color self' n = insert_color_loop self' n (ctx_parent NULL k)"
    using rep by (auto simp: hev_rbtree_insert_color_def rbt_rep_def tree_rep_plug heap_simps)
  ultimately have "rb_fixes self' (hev_rbtree_insert_color self' n) (inorder ?t)" by simp
  then have "rb_fixes self (hev_rbtree_insert_color self' n) (inorder ?t)"
    by (intro rb_fixes_trans [OF s(2)]) auto
  then show ?thesis using s(1) by simp
qed

end
