(* ===== verification/Hev_RBTree_Erase.thy ===== *)
theory Hev_RBTree_Erase
  imports Hev_RBTree_Insert
begin

text \<open>
  Deletion from the red-black tree: \<open>_hev_rbtree_erase\<close> unlinks a node (a node with two children
  is replaced by its successor) and tells where the black height is one too low, and
  \<open>_hev_rbtree_erase_color\<close> repairs it, walking towards the root. Both are shown to end, to
  touch only nodes of the tree, and to leave a red-black tree whose in-order sequence has lost
  the erased node and nothing else.
\<close>

section \<open>Unlinking a node\<close>

text \<open>The descent to the successor: its parent and the node itself.\<close>

partial_function (option) successor_loop :: "HevRBTree \<Rightarrow> addr \<Rightarrow> addr \<Rightarrow> (addr \<times> addr) option" where
  "successor_loop self parent successor = do {
     s \<leftarrow> rb_get self successor;
     if rn_left s \<noteq> NULL then successor_loop self successor (rn_left s) else Some (parent, successor)
   }"

text \<open>
  A node with two children: the successor is unlinked from its place, with its parent and its
  right child as the results.
\<close>

definition unlink_successor :: "HevRBTree \<Rightarrow> addr \<Rightarrow> (HevRBTree \<times> addr \<times> addr \<times> addr) option" where
  "unlink_successor self child = do {
     c \<leftarrow> rb_get self child;
     if rn_left c = NULL then Some (self, child, child, rn_right c)
     else do {
       (parent, successor) \<leftarrow> successor_loop self child (rn_left c);
       s \<leftarrow> rb_get self successor;
       self \<leftarrow> rb_set_left self parent (rn_right s);
       self \<leftarrow> rb_set_right self successor child;
       self \<leftarrow> hev_rbtree_node_set_parent self child successor;
       Some (self, parent, successor, rn_right s)
     }
   }"

text \<open>The successor takes over the left child and the position of the node, then its parent and colour.\<close>

definition move_successor :: "HevRBTree \<Rightarrow> addr \<Rightarrow> addr \<Rightarrow> (HevRBTree \<times> addr \<times> addr \<times> addr \<times> addr) option" where
  "move_successor self node child = do {
     (self, parent, successor, child2) \<leftarrow> unlink_successor self child;
     n \<leftarrow> rb_get self node;
     self \<leftarrow> rb_set_left self successor (rn_left n);
     self \<leftarrow> hev_rbtree_node_set_parent self (rn_left n) successor;
     n \<leftarrow> rb_get self node;
     self \<leftarrow> hev_rbtree_change_child self node successor (pc_parent (rn_parent_color n));
     Some (self, parent, successor, child2, rn_parent_color n)
   }"

definition color_successor :: "HevRBTree \<Rightarrow> addr \<Rightarrow> addr \<Rightarrow> addr \<Rightarrow> addr \<Rightarrow> (HevRBTree \<times> addr) option" where
  "color_successor self parent successor child2 pc = do {
     (self, rebalance) \<leftarrow>
       (if child2 \<noteq> NULL then do {
          self \<leftarrow> hev_rbtree_node_set_parent_color self child2 parent Black;
          Some (self, NULL)
        } else do {
          b \<leftarrow> hev_rbtree_node_is_black self successor;
          Some (self, if b then parent else NULL)
        });
     self \<leftarrow> rb_set_pc self successor pc;
     Some (self, rebalance)
   }"

text \<open>The tree after the node has been unlinked, and the parent to rebalance from, if any.\<close>

definition erase_unlink :: "HevRBTree \<Rightarrow> addr \<Rightarrow> (HevRBTree \<times> addr) option" where
  "erase_unlink self node = do {
     n \<leftarrow> rb_get self node;
     let child = rn_right n; tmp = rn_left n; pc = rn_parent_color n in
     if tmp = NULL then do {
       self \<leftarrow> hev_rbtree_change_child self node child (pc_parent pc);
       if child \<noteq> NULL then do {
         self \<leftarrow> rb_set_pc self child pc;
         Some (self, NULL)
       } else Some (self, if pc_is_black pc then pc_parent pc else NULL)
     } else if child = NULL then do {
       self \<leftarrow> rb_set_pc self tmp pc;
       self \<leftarrow> hev_rbtree_change_child self node tmp (pc_parent pc);
       Some (self, NULL)
     } else do {
       (self, parent, successor, child2, pc) \<leftarrow> move_successor self node child;
       color_successor self parent successor child2 pc
     }
   }"

section \<open>Repairing the black height\<close>

text \<open>\<open>!tmp || hev_rbtree_node_is_black (tmp)\<close>\<close>

definition null_or_black :: "HevRBTree \<Rightarrow> addr \<Rightarrow> bool option" where
  "null_or_black self p = (if p = NULL then Some True else hev_rbtree_node_is_black self p)"

text \<open>\<open>if (tmp2) hev_rbtree_node_set_parent (tmp2, parent)\<close>\<close>

definition set_child_parent :: "HevRBTree \<Rightarrow> addr \<Rightarrow> addr \<Rightarrow> HevRBTree option" where
  "set_child_parent self child parent =
     (if child \<noteq> NULL then hev_rbtree_node_set_parent self child parent else Some self)"

text \<open>
  The cases of the loop body, for a node that is the left child of its parent and then, mirrored,
  for a right child: a red sibling is rotated above the parent (case 1); a red inner nephew is
  rotated above the sibling (case 3); a red outer nephew lets a last rotation finish (case 4).
\<close>

definition erase_case1_left :: "HevRBTree \<Rightarrow> addr \<Rightarrow> addr \<Rightarrow> (HevRBTree \<times> addr) option" where
  "erase_case1_left self parent sibling = do {
     red \<leftarrow> hev_rbtree_node_is_red self sibling;
     if red then do {
       s \<leftarrow> rb_get self sibling;
       self \<leftarrow> rb_set_right self parent (rn_left s);
       self \<leftarrow> rb_set_left self sibling parent;
       self \<leftarrow> hev_rbtree_node_set_parent_color self (rn_left s) parent Black;
       self \<leftarrow> hev_rbtree_rotate_set_parents self parent sibling Red;
       Some (self, rn_left s)
     } else Some (self, sibling)
   }"

definition erase_case3_left :: "HevRBTree \<Rightarrow> addr \<Rightarrow> addr \<Rightarrow> addr \<Rightarrow> HevRBTree option" where
  "erase_case3_left self parent sibling tmp2 = do {
     t2 \<leftarrow> rb_get self tmp2;
     self \<leftarrow> rb_set_left self sibling (rn_right t2);
     self \<leftarrow> rb_set_right self tmp2 sibling;
     self \<leftarrow> rb_set_right self parent tmp2;
     set_child_black self (rn_right t2) sibling
   }"

definition erase_case4_left :: "HevRBTree \<Rightarrow> addr \<Rightarrow> addr \<Rightarrow> addr \<Rightarrow> HevRBTree option" where
  "erase_case4_left self parent sibling tmp1 = do {
     s \<leftarrow> rb_get self sibling;
     self \<leftarrow> rb_set_right self parent (rn_left s);
     self \<leftarrow> rb_set_left self sibling parent;
     self \<leftarrow> hev_rbtree_node_set_parent_color self tmp1 sibling Black;
     self \<leftarrow> set_child_parent self (rn_left s) parent;
     hev_rbtree_rotate_set_parents self parent sibling Black
   }"

definition erase_case1_right :: "HevRBTree \<Rightarrow> addr \<Rightarrow> addr \<Rightarrow> (HevRBTree \<times> addr) option" where
  "erase_case1_right self parent sibling = do {
     red \<leftarrow> hev_rbtree_node_is_red self sibling;
     if red then do {
       s \<leftarrow> rb_get self sibling;
       self \<leftarrow> rb_set_left self parent (rn_right s);
       self \<leftarrow> rb_set_right self sibling parent;
       self \<leftarrow> hev_rbtree_node_set_parent_color self (rn_right s) parent Black;
       self \<leftarrow> hev_rbtree_rotate_set_parents self parent sibling Red;
       Some (self, rn_right s)
     } else Some (self, sibling)
   }"

definition erase_case3_right :: "HevRBTree \<Rightarrow> addr \<Rightarrow> addr \<Rightarrow> addr \<Rightarrow> HevRBTree option" where
  "erase_case3_right self parent sibling tmp2 = do {
     t2 \<leftarrow> rb_get self tmp2;
     self \<leftarrow> rb_set_right self sibling (rn_left t2);
     self \<leftarrow> rb_set_left self tmp2 sibling;
     self \<leftarrow> rb_set_left self parent tmp2;
     set_child_black self (rn_left t2) sibling
   }"

definition erase_case4_right :: "HevRBTree \<Rightarrow> addr \<Rightarrow> addr \<Rightarrow> addr \<Rightarrow> HevRBTree option" where
  "erase_case4_right self parent sibling tmp1 = do {
     s \<leftarrow> rb_get self sibling;
     self \<leftarrow> rb_set_left self parent (rn_right s);
     self \<leftarrow> rb_set_right self sibling parent;
     self \<leftarrow> hev_rbtree_node_set_parent_color self tmp1 sibling Black;
     self \<leftarrow> set_child_parent self (rn_right s) parent;
     hev_rbtree_rotate_set_parents self parent sibling Black
   }"

text \<open>
  Case 2, the same on both sides: the sibling turns red; a red parent turns black and the loop
  ends, a black one is the next node unless it is the root.
\<close>

definition erase_flip ::
  "HevRBTree \<Rightarrow> addr \<Rightarrow> addr \<Rightarrow> (HevRBTree + HevRBTree \<times> addr \<times> addr) option" where
  "erase_flip self parent sibling = do {
     self \<leftarrow> hev_rbtree_node_set_parent_color self sibling parent Red;
     red \<leftarrow> hev_rbtree_node_is_red self parent;
     if red then map_option Inl (hev_rbtree_node_set_black self parent)
     else do {
       parent' \<leftarrow> hev_rbtree_node_parent self parent;
       if parent' \<noteq> NULL then Some (Inr (self, parent, parent')) else Some (Inl self)
     }
   }"

definition erase_black_left ::
  "HevRBTree \<Rightarrow> addr \<Rightarrow> addr \<Rightarrow> (HevRBTree + HevRBTree \<times> addr \<times> addr) option" where
  "erase_black_left self parent sibling = do {
     s \<leftarrow> rb_get self sibling;
     b1 \<leftarrow> null_or_black self (rn_right s);
     if b1 then do {
       b2 \<leftarrow> null_or_black self (rn_left s);
       if b2 then erase_flip self parent sibling
       else do {
         self \<leftarrow> erase_case3_left self parent sibling (rn_left s);
         map_option Inl (erase_case4_left self parent (rn_left s) sibling)
       }
     } else map_option Inl (erase_case4_left self parent sibling (rn_right s))
   }"

definition erase_color_step_left ::
  "HevRBTree \<Rightarrow> addr \<Rightarrow> addr \<Rightarrow> (HevRBTree + HevRBTree \<times> addr \<times> addr) option" where
  "erase_color_step_left self parent sibling = do {
     (self, sibling) \<leftarrow> erase_case1_left self parent sibling;
     erase_black_left self parent sibling
   }"

definition erase_black_right ::
  "HevRBTree \<Rightarrow> addr \<Rightarrow> addr \<Rightarrow> (HevRBTree + HevRBTree \<times> addr \<times> addr) option" where
  "erase_black_right self parent sibling = do {
     s \<leftarrow> rb_get self sibling;
     b1 \<leftarrow> null_or_black self (rn_left s);
     if b1 then do {
       b2 \<leftarrow> null_or_black self (rn_right s);
       if b2 then erase_flip self parent sibling
       else do {
         self \<leftarrow> erase_case3_right self parent sibling (rn_right s);
         map_option Inl (erase_case4_right self parent (rn_right s) sibling)
       }
     } else map_option Inl (erase_case4_right self parent sibling (rn_left s))
   }"

definition erase_color_step_right ::
  "HevRBTree \<Rightarrow> addr \<Rightarrow> addr \<Rightarrow> (HevRBTree + HevRBTree \<times> addr \<times> addr) option" where
  "erase_color_step_right self parent sibling = do {
     (self, sibling) \<leftarrow> erase_case1_right self parent sibling;
     erase_black_right self parent sibling
   }"

text \<open>One iteration: the finished tree, or the tree with the node and parent to continue with.\<close>

definition erase_color_step ::
  "HevRBTree \<Rightarrow> addr \<Rightarrow> addr \<Rightarrow> (HevRBTree + HevRBTree \<times> addr \<times> addr) option" where
  "erase_color_step self node parent = do {
     p \<leftarrow> rb_get self parent;
     if node \<noteq> rn_right p then erase_color_step_left self parent (rn_right p)
     else erase_color_step_right self parent (rn_left p)
   }"

partial_function (option) erase_color_loop :: "HevRBTree \<Rightarrow> addr \<Rightarrow> addr \<Rightarrow> HevRBTree option" where
  "erase_color_loop self node parent = do {
     res \<leftarrow> erase_color_step self node parent;
     case res of Inl self' \<Rightarrow> Some self'
     | Inr (self', node', parent') \<Rightarrow> erase_color_loop self' node' parent'
   }"

definition erase_color :: "HevRBTree \<Rightarrow> addr \<Rightarrow> HevRBTree option" where
  "erase_color self parent = erase_color_loop self NULL parent"

definition hev_rbtree_erase :: "HevRBTree \<Rightarrow> addr \<Rightarrow> HevRBTree option" where
  "hev_rbtree_erase self node = do {
     (self, rebalance) \<leftarrow> erase_unlink self node;
     if rebalance \<noteq> NULL then erase_color self rebalance else Some self
   }"

section \<open>The cases of the repair\<close>

lemma map_option_bind_Some: "(res \<bind> (\<lambda>y. Some (f y))) = map_option f res"
  by (cases res) auto

lemma set_child_parent_rep:
  assumes "tree_rep (nodes self) q t" and "q = NULL \<or> aligned q"
  shows "set_child_parent self (ptr t) p = Some (self\<lparr>nodes := reparent (nodes self) t p\<rparr>)"
  unfolding set_child_parent_def using assms by (rule set_parent_rep)

lemma case1_left:
  assumes rep: "rbt_rep self (plug k (Node Black N p (Node Red (Node Black a x b) s c)))" (is "rbt_rep self (plug k ?t)")
  shows "\<exists>self'. erase_case1_left self p s = Some (self', x) \<and> rb_gives self (Some self') (tree_set (plug k ?t))
    (plug k (Node Black (Node Red N p (Node Black a x b)) s c))"
proof -
  from rep have r: "ctx_rep (nodes self) NULL p k" "aligned p" "aligned s" "aligned x" "root self = ctx_root p k"
    "nodes self p = Some (node_of (ctx_parent NULL k) Black (ptr N) s)"
    "nodes self s = Some (node_of p Red x (ptr c))"
    "nodes self x = Some (node_of s Black (ptr a) (ptr b))"
    "tree_rep (nodes self) p N" "tree_rep (nodes self) x a" "tree_rep (nodes self) x b" "tree_rep (nodes self) s c"
    "distinct (ctx_left k @ inorder ?t @ ctx_right k)"
    by (auto simp: rbt_rep_def tree_rep_plug)
  from r have ns: "p \<noteq> s" "s \<noteq> p" "p \<noteq> x" "x \<noteq> p" "s \<noteq> x" "x \<noteq> s" by auto
  let ?h = "(nodes self)(p \<mapsto> node_of (ctx_parent NULL k) Black (ptr N) x, s \<mapsto> node_of p Red p (ptr c),
    x \<mapsto> node_of p Black (ptr a) (ptr b))"
  let ?self = "self\<lparr>nodes := ?h\<rparr>"
  have g: "rb_gives ?self (hev_rbtree_rotate_set_parents ?self p s Red) (insert p (insert s (ctx_set k)))
      (plug k (Node Black (Node Red N p (Node Black a x b)) s c))"
    using r ns
    by (intro rotate_set_parents_rep [where c = Black and n = "node_of p Red p (ptr c)"]) (auto simp: Int_commute)
  have f: "frame {p, s, x} (nodes self) (nodes ?self)" by (auto simp: frame_def)
  have d: "dom (nodes ?self) = dom (nodes self)" using r by auto
  have "rb_gives self (hev_rbtree_rotate_set_parents ?self p s Red) (tree_set (plug k ?t))
      (plug k (Node Black (Node Red N p (Node Black a x b)) s c))"
    by (rule rb_gives_trans [OF g f d]) auto
  moreover have "erase_case1_left self p s = map_option (\<lambda>self. (self, x)) (hev_rbtree_rotate_set_parents ?self p s Red)"
    using r ns by (simp add: erase_case1_left_def heap_simps map_option_bind_Some)
  ultimately show ?thesis by (auto simp: rb_gives_def)
qed

lemma case1_right:
  assumes rep: "rbt_rep self (plug k (Node Black (Node Red c s (Node Black a x b)) p N))" (is "rbt_rep self (plug k ?t)")
  shows "\<exists>self'. erase_case1_right self p s = Some (self', x) \<and> rb_gives self (Some self') (tree_set (plug k ?t))
    (plug k (Node Black c s (Node Red (Node Black a x b) p N)))"
proof -
  from rep have r: "ctx_rep (nodes self) NULL p k" "aligned p" "aligned s" "aligned x" "root self = ctx_root p k"
    "nodes self p = Some (node_of (ctx_parent NULL k) Black s (ptr N))"
    "nodes self s = Some (node_of p Red (ptr c) x)"
    "nodes self x = Some (node_of s Black (ptr a) (ptr b))"
    "tree_rep (nodes self) p N" "tree_rep (nodes self) x a" "tree_rep (nodes self) x b" "tree_rep (nodes self) s c"
    "distinct (ctx_left k @ inorder ?t @ ctx_right k)"
    by (auto simp: rbt_rep_def tree_rep_plug)
  from r have ns: "p \<noteq> s" "s \<noteq> p" "p \<noteq> x" "x \<noteq> p" "s \<noteq> x" "x \<noteq> s" by auto
  let ?h = "(nodes self)(p \<mapsto> node_of (ctx_parent NULL k) Black x (ptr N), s \<mapsto> node_of p Red (ptr c) p,
    x \<mapsto> node_of p Black (ptr a) (ptr b))"
  let ?self = "self\<lparr>nodes := ?h\<rparr>"
  have g: "rb_gives ?self (hev_rbtree_rotate_set_parents ?self p s Red) (insert p (insert s (ctx_set k)))
      (plug k (Node Black c s (Node Red (Node Black a x b) p N)))"
    using r ns
    by (intro rotate_set_parents_rep [where c = Black and n = "node_of p Red (ptr c) p"]) (auto simp: Int_commute)
  have f: "frame {p, s, x} (nodes self) (nodes ?self)" by (auto simp: frame_def)
  have d: "dom (nodes ?self) = dom (nodes self)" using r by auto
  have "rb_gives self (hev_rbtree_rotate_set_parents ?self p s Red) (tree_set (plug k ?t))
      (plug k (Node Black c s (Node Red (Node Black a x b) p N)))"
    by (rule rb_gives_trans [OF g f d]) auto
  moreover have "erase_case1_right self p s = map_option (\<lambda>self. (self, x)) (hev_rbtree_rotate_set_parents ?self p s Red)"
    using r ns by (simp add: erase_case1_right_def heap_simps map_option_bind_Some)
  ultimately show ?thesis by (auto simp: rb_gives_def)
qed

lemma case4_left:
  assumes rep: "rbt_rep self (plug k (Node c N p (Node cs u s (Node Red a x b))))" (is "rbt_rep self (plug k ?t)")
  shows "rb_gives self (erase_case4_left self p s x) (tree_set (plug k ?t))
    (plug k (Node c (Node Black N p u) s (Node Black a x b)))"
proof -
  from rep have r: "ctx_rep (nodes self) NULL p k" "aligned p" "aligned s" "aligned x" "root self = ctx_root p k"
    "nodes self p = Some (node_of (ctx_parent NULL k) c (ptr N) s)"
    "nodes self s = Some (node_of p cs (ptr u) x)"
    "nodes self x = Some (node_of s Red (ptr a) (ptr b))"
    "tree_rep (nodes self) p N" "tree_rep (nodes self) x a" "tree_rep (nodes self) x b" "tree_rep (nodes self) s u"
    "distinct (ctx_left k @ inorder ?t @ ctx_right k)"
    by (auto simp: rbt_rep_def tree_rep_plug)
  from r have ns: "p \<noteq> s" "s \<noteq> p" "p \<noteq> x" "x \<noteq> p" "s \<noteq> x" "x \<noteq> s" by auto
  let ?h = "(nodes self)(p \<mapsto> node_of (ctx_parent NULL k) c (ptr N) (ptr u), s \<mapsto> node_of p cs p x,
    x \<mapsto> node_of s Black (ptr a) (ptr b))"
  let ?self = "self\<lparr>nodes := reparent ?h u p\<rparr>"
  have tu: "tree_rep ?h s u" using r by auto
  then have "set_child_parent (self\<lparr>nodes := ?h\<rparr>) (ptr u) p = Some ?self"
    using set_child_parent_rep [of "self\<lparr>nodes := ?h\<rparr>" s u p] r by simp
  then have eq: "erase_case4_left self p s x = hev_rbtree_rotate_set_parents ?self p s Black"
    using r ns by (simp add: erase_case4_left_def heap_simps)
  have g: "rb_gives ?self (hev_rbtree_rotate_set_parents ?self p s Black) (insert p (insert s (ctx_set k)))
      (plug k (Node c (Node Black N p u) s (Node Black a x b)))"
    using r ns tree_rep_reparent [OF tu, of p]
    by (intro rotate_set_parents_rep [where c = c and n = "node_of p cs p x"]) (auto simp: Int_commute)
  have f: "frame (insert p (insert s (insert x (tree_set u)))) (nodes self) (nodes ?self)"
    by (auto simp: frame_def)
  have d: "dom (nodes ?self) = dom (nodes self)" using r by (cases u) (auto simp: reparent_def)
  show ?thesis unfolding eq by (rule rb_gives_trans [OF g f d]) auto
qed

lemma case4_right:
  assumes rep: "rbt_rep self (plug k (Node c (Node cs (Node Red a x b) s u) p N))" (is "rbt_rep self (plug k ?t)")
  shows "rb_gives self (erase_case4_right self p s x) (tree_set (plug k ?t))
    (plug k (Node c (Node Black a x b) s (Node Black u p N)))"
proof -
  from rep have r: "ctx_rep (nodes self) NULL p k" "aligned p" "aligned s" "aligned x" "root self = ctx_root p k"
    "nodes self p = Some (node_of (ctx_parent NULL k) c s (ptr N))"
    "nodes self s = Some (node_of p cs x (ptr u))"
    "nodes self x = Some (node_of s Red (ptr a) (ptr b))"
    "tree_rep (nodes self) p N" "tree_rep (nodes self) x a" "tree_rep (nodes self) x b" "tree_rep (nodes self) s u"
    "distinct (ctx_left k @ inorder ?t @ ctx_right k)"
    by (auto simp: rbt_rep_def tree_rep_plug)
  from r have ns: "p \<noteq> s" "s \<noteq> p" "p \<noteq> x" "x \<noteq> p" "s \<noteq> x" "x \<noteq> s" by auto
  let ?h = "(nodes self)(p \<mapsto> node_of (ctx_parent NULL k) c (ptr u) (ptr N), s \<mapsto> node_of p cs x p,
    x \<mapsto> node_of s Black (ptr a) (ptr b))"
  let ?self = "self\<lparr>nodes := reparent ?h u p\<rparr>"
  have tu: "tree_rep ?h s u" using r by auto
  then have "set_child_parent (self\<lparr>nodes := ?h\<rparr>) (ptr u) p = Some ?self"
    using set_child_parent_rep [of "self\<lparr>nodes := ?h\<rparr>" s u p] r by simp
  then have eq: "erase_case4_right self p s x = hev_rbtree_rotate_set_parents ?self p s Black"
    using r ns by (simp add: erase_case4_right_def heap_simps)
  have g: "rb_gives ?self (hev_rbtree_rotate_set_parents ?self p s Black) (insert p (insert s (ctx_set k)))
      (plug k (Node c (Node Black a x b) s (Node Black u p N)))"
    using r ns tree_rep_reparent [OF tu, of p]
    by (intro rotate_set_parents_rep [where c = c and n = "node_of p cs x p"]) (auto simp: Int_commute)
  have f: "frame (insert p (insert s (insert x (tree_set u)))) (nodes self) (nodes ?self)"
    by (auto simp: frame_def)
  have d: "dom (nodes ?self) = dom (nodes self)" using r by (cases u) (auto simp: reparent_def)
  show ?thesis unfolding eq by (rule rb_gives_trans [OF g f d]) auto
qed

lemma case3_left:
  assumes rep: "rbt_rep self (plug k (Node c N p (Node Black (Node Red a x b) s u)))" (is "rbt_rep self (plug k ?t)")
    and b: "color b = Black"
  shows "rb_gives self (erase_case3_left self p s x \<bind> (\<lambda>self. erase_case4_left self p x s)) (tree_set (plug k ?t))
    (plug k (Node c (Node Black N p a) x (Node Black b s u)))"
proof -
  from rep have r: "ctx_rep (nodes self) NULL p k" "aligned p" "aligned s" "aligned x" "root self = ctx_root p k"
    "nodes self p = Some (node_of (ctx_parent NULL k) c (ptr N) s)"
    "nodes self s = Some (node_of p Black x (ptr u))"
    "nodes self x = Some (node_of s Red (ptr a) (ptr b))"
    "tree_rep (nodes self) p N" "tree_rep (nodes self) x a" "tree_rep (nodes self) x b" "tree_rep (nodes self) s u"
    "distinct (ctx_left k @ inorder ?t @ ctx_right k)"
    by (auto simp: rbt_rep_def tree_rep_plug)
  from r have ns: "p \<noteq> s" "s \<noteq> p" "p \<noteq> x" "x \<noteq> p" "s \<noteq> x" "x \<noteq> s" by auto
  let ?h = "(nodes self)(s \<mapsto> node_of p Black (ptr b) (ptr u), x \<mapsto> node_of s Red (ptr a) s,
    p \<mapsto> node_of (ctx_parent NULL k) c (ptr N) x)"
  let ?h1 = "(reparent ?h b s)(p \<mapsto> node_of (ctx_parent NULL k) c (ptr N) (ptr a), x \<mapsto> node_of s Red p s,
    s \<mapsto> node_of x Black (ptr b) (ptr u))"
  let ?self = "self\<lparr>nodes := reparent ?h1 a p\<rparr>"
  have tb: "tree_rep ?h x b" and ta: "tree_rep ?h1 x a" using r by (auto simp: Int_commute)
  have "set_child_black (self\<lparr>nodes := ?h\<rparr>) (ptr b) s = Some (self\<lparr>nodes := reparent ?h b s\<rparr>)"
    using set_black_rep [of "self\<lparr>nodes := ?h\<rparr>" x b s] tb b by simp
  moreover have "set_child_parent (self\<lparr>nodes := ?h1\<rparr>) (ptr a) p = Some ?self"
    using set_child_parent_rep [of "self\<lparr>nodes := ?h1\<rparr>" x a p] ta r by simp
  ultimately have eq: "(erase_case3_left self p s x \<bind> (\<lambda>self. erase_case4_left self p x s)) =
      hev_rbtree_rotate_set_parents ?self p x Black"
    using r ns by (simp add: erase_case3_left_def erase_case4_left_def heap_simps)
  have "tree_rep (reparent ?h1 a p) s b"
    using r tree_rep_reparent [OF tb, of s] by (auto simp: Int_commute)
  then have g: "rb_gives ?self (hev_rbtree_rotate_set_parents ?self p x Black) (insert p (insert x (ctx_set k)))
      (plug k (Node c (Node Black N p a) x (Node Black b s u)))"
    using r ns tree_rep_reparent [OF ta, of p]
    by (intro rotate_set_parents_rep [where c = c and n = "node_of s Red p s"]) (auto simp: Int_commute)
  have f: "frame (insert p (insert s (insert x (tree_set a \<union> tree_set b)))) (nodes self) (nodes ?self)"
    by (auto simp: frame_def)
  have d: "dom (nodes ?self) = dom (nodes self)" using r by (cases a; cases b) (auto simp: reparent_def)
  show ?thesis unfolding eq by (rule rb_gives_trans [OF g f d]) auto
qed

lemma case3_right:
  assumes rep: "rbt_rep self (plug k (Node c (Node Black u s (Node Red a x b)) p N))" (is "rbt_rep self (plug k ?t)")
    and b: "color a = Black"
  shows "rb_gives self (erase_case3_right self p s x \<bind> (\<lambda>self. erase_case4_right self p x s)) (tree_set (plug k ?t))
    (plug k (Node c (Node Black u s a) x (Node Black b p N)))"
proof -
  from rep have r: "ctx_rep (nodes self) NULL p k" "aligned p" "aligned s" "aligned x" "root self = ctx_root p k"
    "nodes self p = Some (node_of (ctx_parent NULL k) c s (ptr N))"
    "nodes self s = Some (node_of p Black (ptr u) x)"
    "nodes self x = Some (node_of s Red (ptr a) (ptr b))"
    "tree_rep (nodes self) p N" "tree_rep (nodes self) x a" "tree_rep (nodes self) x b" "tree_rep (nodes self) s u"
    "distinct (ctx_left k @ inorder ?t @ ctx_right k)"
    by (auto simp: rbt_rep_def tree_rep_plug)
  from r have ns: "p \<noteq> s" "s \<noteq> p" "p \<noteq> x" "x \<noteq> p" "s \<noteq> x" "x \<noteq> s" by auto
  let ?h = "(nodes self)(s \<mapsto> node_of p Black (ptr u) (ptr a), x \<mapsto> node_of s Red s (ptr b),
    p \<mapsto> node_of (ctx_parent NULL k) c x (ptr N))"
  let ?h1 = "(reparent ?h a s)(p \<mapsto> node_of (ctx_parent NULL k) c (ptr b) (ptr N), x \<mapsto> node_of s Red s p,
    s \<mapsto> node_of x Black (ptr u) (ptr a))"
  let ?self = "self\<lparr>nodes := reparent ?h1 b p\<rparr>"
  have tb: "tree_rep ?h x a" and ta: "tree_rep ?h1 x b" using r by (auto simp: Int_commute)
  have "set_child_black (self\<lparr>nodes := ?h\<rparr>) (ptr a) s = Some (self\<lparr>nodes := reparent ?h a s\<rparr>)"
    using set_black_rep [of "self\<lparr>nodes := ?h\<rparr>" x a s] tb b by simp
  moreover have "set_child_parent (self\<lparr>nodes := ?h1\<rparr>) (ptr b) p = Some ?self"
    using set_child_parent_rep [of "self\<lparr>nodes := ?h1\<rparr>" x b p] ta r by simp
  ultimately have eq: "(erase_case3_right self p s x \<bind> (\<lambda>self. erase_case4_right self p x s)) =
      hev_rbtree_rotate_set_parents ?self p x Black"
    using r ns by (simp add: erase_case3_right_def erase_case4_right_def heap_simps)
  have "tree_rep (reparent ?h1 b p) s a"
    using r tree_rep_reparent [OF tb, of s] by (auto simp: Int_commute)
  then have g: "rb_gives ?self (hev_rbtree_rotate_set_parents ?self p x Black) (insert p (insert x (ctx_set k)))
      (plug k (Node c (Node Black u s a) x (Node Black b p N)))"
    using r ns tree_rep_reparent [OF ta, of p]
    by (intro rotate_set_parents_rep [where c = c and n = "node_of s Red s p"]) (auto simp: Int_commute)
  have f: "frame (insert p (insert s (insert x (tree_set a \<union> tree_set b)))) (nodes self) (nodes ?self)"
    by (auto simp: frame_def)
  have d: "dom (nodes ?self) = dom (nodes self)" using r by (cases a; cases b) (auto simp: reparent_def)
  show ?thesis unfolding eq by (rule rb_gives_trans [OF g f d]) auto
qed

lemma erase_flip_rep:
  assumes rep: "rbt_rep self (plug k t)"
    and t: "t = Node c N p (Node Black a s b) \<and> t' = Node Black N p (Node Red a s b) \<or>
      t = Node c (Node Black a s b) p N \<and> t' = Node Black (Node Red a s b) p N"
  shows "\<exists>self'. erase_flip self p s =
      Some (if c = Red \<or> k = [] then Inl self' else Inr (self', p, ctx_parent NULL k)) \<and>
    rb_gives self (Some self') (tree_set (plug k t)) (plug k t')"
proof -
  define x y where "x = (if t = Node c N p (Node Black a s b) then ptr N else s)"
    and "y = (if t = Node c N p (Node Black a s b) then s else ptr N)"
  from rep t have r: "ctx_rep (nodes self) NULL p k" "aligned p" "aligned s" "p \<noteq> s" "s \<noteq> p"
    "nodes self p = Some (node_of (ctx_parent NULL k) c x y)"
    "nodes self s = Some (node_of p Black (ptr a) (ptr b))"
    by (auto simp: rbt_rep_def tree_rep_plug x_def y_def)
  let ?self = "self\<lparr>nodes := (nodes self)(s \<mapsto> node_of p Red (ptr a) (ptr b),
    p \<mapsto> node_of (ctx_parent NULL k) Black x y)\<rparr>"
  have k: "ctx_parent NULL k = NULL \<or> aligned (ctx_parent NULL k)" "ctx_parent NULL k = NULL \<longleftrightarrow> k = []"
    using ctx_parent_aligned [OF r(1)] ctx_parent_NULL [OF r(1)] by auto
  have "erase_flip self p s = Some (if c = Red \<or> k = [] then Inl ?self else Inr (?self, p, ctx_parent NULL k))"
    using r k by (cases c) (auto simp: erase_flip_def heap_simps fun_upd_idem)
  moreover have "rb_gives self (Some ?self) (tree_set (plug k t)) (plug k t')"
    using rep t r by (auto simp: rb_gives_def rbt_rep_def tree_rep_plug frame_def x_def y_def)
  ultimately show ?thesis by blast
qed

section \<open>Correctness of the repair\<close>

lemma null_or_black_rep:
  "tree_rep (nodes self) q t \<Longrightarrow> q = NULL \<or> aligned q \<Longrightarrow> null_or_black self (ptr t) = Some (color t = Black)"
  by (cases t) (auto simp: null_or_black_def heap_simps)

text \<open>What the loop does with the outcome of an iteration.\<close>

definition erase_continue :: "(HevRBTree + HevRBTree \<times> addr \<times> addr) option \<Rightarrow> HevRBTree option" where
  "erase_continue res = res \<bind> (\<lambda>r. case r of Inl self' \<Rightarrow> Some self'
     | Inr (self', node', parent') \<Rightarrow> erase_color_loop self' node' parent')"

lemma erase_continue_Inl [simp]: "erase_continue (map_option Inl res) = res"
  by (cases res) (auto simp: erase_continue_def)

lemma erase_continue_None [simp]: "erase_continue None = None"
  by (simp add: erase_continue_def)

lemma erase_continue_bind [simp]: "erase_continue (res \<bind> (\<lambda>self. map_option Inl (f self))) = res \<bind> f"
  by (cases res) auto

lemma erase_loop_step: "erase_color_loop self node parent = erase_continue (erase_color_step self node parent)"
  by (subst erase_color_loop.simps) (simp add: erase_continue_def)

lemma rb_fixesI: "rb_gives self res A t' \<Longrightarrow> inorder t' = xs \<Longrightarrow> A = set xs \<Longrightarrow> rbt_ok t' \<Longrightarrow> rb_fixes self res xs"
  by (auto simp: rb_fixes_def)

lemma erase_black_left_fixes:
  assumes rep: "rbt_rep self (plug k (Node c N p (Node Black a s b)))" (is "rbt_rep self (plug k ?t)")
    and N: "invc N" "invh N" "color N = Black" and ok: "ctx_ok (LeftOf c p (Node Black a s b) # k) (Suc (bheight N))"
    and IH: "\<And>self'. c = Black \<Longrightarrow> k \<noteq> [] \<Longrightarrow> color a = Black \<Longrightarrow> color b = Black \<Longrightarrow>
      rbt_rep self' (plug k (Node Black N p (Node Red a s b))) \<Longrightarrow>
      rb_fixes self' (erase_color_loop self' p (ctx_parent NULL k)) (inorder (plug k (Node c N p (Node Black a s b))))"
  shows "rb_fixes self (erase_continue (erase_black_left self p s)) (inorder (plug k ?t))"
proof -
  from rep have s: "rb_get self s = Some (node_of p Black (ptr a) (ptr b))"
    "null_or_black self (ptr a) = Some (color a = Black)" "null_or_black self (ptr b) = Some (color b = Black)"
    by (auto simp: rbt_rep_def tree_rep_plug heap_simps null_or_black_rep [where q = s])
  consider (outer) "color b = Red" | (inner) "color b = Black" "color a = Red" | (flip) "color b = Black" "color a = Black"
    by (metis neq_Black)
  then show ?thesis
  proof cases
    case outer
    then obtain a' x b' where b: "b = Node Red a' x b'" by (cases b) auto
    show ?thesis
      using rb_fixesI [OF case4_left [OF rep [unfolded b]]] ok N s b
      by (auto simp: erase_black_left_def rbt_ok_plug)
  next
    case inner
    then obtain a' x b' where a: "a = Node Red a' x b'" by (cases a) auto
    with ok have "color a' = Black" "color b' = Black" by auto
    then show ?thesis
      using rb_fixesI [OF case3_left [OF rep [unfolded a]]] ok N s a inner
      by (auto simp: erase_black_left_def rbt_ok_plug)
  next
    case flip
    obtain self' where f: "erase_flip self p s =
        Some (if c = Red \<or> k = [] then Inl self' else Inr (self', p, ctx_parent NULL k))"
      "rb_gives self (Some self') (tree_set (plug k ?t)) (plug k (Node Black N p (Node Red a s b)))"
      using erase_flip_rep [OF rep, of c N p a s b "(Node Black N p (Node Red a s b))"] by blast
    have eq: "erase_black_left self p s = erase_flip self p s"
      using s flip by (simp add: erase_black_left_def)
    have rep': "rbt_rep self' (plug k (Node Black N p (Node Red a s b)))" using f(2) by (simp add: rb_gives_def)
    show ?thesis
    proof (cases "c = Red \<or> k = []")
      case True
      have "rbt_ok (plug k (Node Black N p (Node Red a s b)))"
        using ok N flip True by (auto simp: rbt_ok_plug)
      then show ?thesis
        using f True by (auto simp: eq erase_continue_def intro!: rb_fixesI)
    next
      case False
      then have "rb_fixes self' (erase_color_loop self' p (ctx_parent NULL k)) (inorder (plug k (Node c N p (Node Black a s b))))"
        using rep' flip by (intro IH) auto
      then have "rb_fixes self (erase_color_loop self' p (ctx_parent NULL k)) (inorder (plug k ?t))"
        by (rule rb_fixes_trans [OF f(2), rotated]) auto
      then show ?thesis
        using f(1) False by (simp add: eq erase_continue_def)
    qed
  qed
qed

lemma erase_black_right_fixes:
  assumes rep: "rbt_rep self (plug k (Node c (Node Black a s b) p N))" (is "rbt_rep self (plug k ?t)")
    and N: "invc N" "invh N" "color N = Black" and ok: "ctx_ok (RightOf c (Node Black a s b) p # k) (Suc (bheight N))"
    and IH: "\<And>self'. c = Black \<Longrightarrow> k \<noteq> [] \<Longrightarrow> color a = Black \<Longrightarrow> color b = Black \<Longrightarrow>
      rbt_rep self' (plug k (Node Black (Node Red a s b) p N)) \<Longrightarrow>
      rb_fixes self' (erase_color_loop self' p (ctx_parent NULL k)) (inorder (plug k (Node c (Node Black a s b) p N)))"
  shows "rb_fixes self (erase_continue (erase_black_right self p s)) (inorder (plug k ?t))"
proof -
  from rep have s: "rb_get self s = Some (node_of p Black (ptr a) (ptr b))"
    "null_or_black self (ptr a) = Some (color a = Black)" "null_or_black self (ptr b) = Some (color b = Black)"
    by (auto simp: rbt_rep_def tree_rep_plug heap_simps null_or_black_rep [where q = s])
  consider (outer) "color a = Red" | (inner) "color a = Black" "color b = Red" | (flip) "color a = Black" "color b = Black"
    by (metis neq_Black)
  then show ?thesis
  proof cases
    case outer
    then obtain a' x b' where b: "a = Node Red a' x b'" by (cases a) auto
    show ?thesis
      using rb_fixesI [OF case4_right [OF rep [unfolded b]]] ok N s b
      by (auto simp: erase_black_right_def rbt_ok_plug)
  next
    case inner
    then obtain a' x b' where a: "b = Node Red a' x b'" by (cases b) auto
    with ok have "color a' = Black" "color b' = Black" by auto
    then show ?thesis
      using rb_fixesI [OF case3_right [OF rep [unfolded a]]] ok N s a inner
      by (auto simp: erase_black_right_def rbt_ok_plug)
  next
    case flip
    obtain self' where f: "erase_flip self p s =
        Some (if c = Red \<or> k = [] then Inl self' else Inr (self', p, ctx_parent NULL k))"
      "rb_gives self (Some self') (tree_set (plug k ?t)) (plug k (Node Black (Node Red a s b) p N))"
      using erase_flip_rep [OF rep, of c N p a s b "(Node Black (Node Red a s b) p N)"] by blast
    have eq: "erase_black_right self p s = erase_flip self p s"
      using s flip by (simp add: erase_black_right_def)
    have rep': "rbt_rep self' (plug k (Node Black (Node Red a s b) p N))" using f(2) by (simp add: rb_gives_def)
    show ?thesis
    proof (cases "c = Red \<or> k = []")
      case True
      have "rbt_ok (plug k (Node Black (Node Red a s b) p N))"
        using ok N flip True by (auto simp: rbt_ok_plug)
      then show ?thesis
        using f True by (auto simp: eq erase_continue_def intro!: rb_fixesI)
    next
      case False
      then have "rb_fixes self' (erase_color_loop self' p (ctx_parent NULL k)) (inorder (plug k (Node c (Node Black a s b) p N)))"
        using rep' flip by (intro IH) auto
      then have "rb_fixes self (erase_color_loop self' p (ctx_parent NULL k)) (inorder (plug k ?t))"
        by (rule rb_fixes_trans [OF f(2), rotated]) auto
      then show ?thesis
        using f(1) False by (simp add: eq erase_continue_def)
    qed
  qed
qed

lemma erase_loop_left:
  assumes rep: "rbt_rep self (plug (LeftOf c p S # k) N)"
    and N: "invc N" "invh N" "color N = Black" and ok: "ctx_ok (LeftOf c p S # k) (Suc (bheight N))"
    and IH: "\<And>self' N'. k \<noteq> [] \<Longrightarrow> rbt_rep self' (plug k N') \<Longrightarrow> ctx_ok k (Suc (bheight N')) \<Longrightarrow>
      invc N' \<Longrightarrow> invh N' \<Longrightarrow> color N' = Black \<Longrightarrow>
      rb_fixes self' (erase_color_loop self' (ptr N') (ctx_parent NULL k)) (inorder (plug k N'))"
  shows "rb_fixes self (erase_color_loop self (ptr N) p) (inorder (plug (LeftOf c p S # k) N))"
proof -
  from ok obtain cs a s b where S: "S = Node cs a s b" by (cases S) auto
  from rep S have p: "rb_get self p = Some (node_of (ctx_parent NULL k) c (ptr N) s)" "aligned p" "aligned s"
    "nodes self s = Some (node_of p cs (ptr a) (ptr b))" "ptr N \<noteq> s"
    by (cases N; auto simp: rbt_rep_def tree_rep_plug heap_simps)+
  then have step: "erase_color_loop self (ptr N) p = erase_continue (erase_color_step_left self p s)"
    by (simp add: erase_loop_step erase_color_step_def)
  show ?thesis
  proof (cases cs)
    case Black
    have "erase_color_step_left self p s = erase_black_left self p s"
      using p Black by (simp add: erase_color_step_left_def erase_case1_left_def heap_simps)
    moreover have "rb_fixes self (erase_continue (erase_black_left self p s)) (inorder (plug k (Node c N p (Node Black a s b))))"
      using rep N ok S Black IH [of _ "Node Black N p (Node Red a s b)"]
      by (intro erase_black_left_fixes) auto
    ultimately show ?thesis using step S Black by simp
  next
    case Red
    with ok S have c: "c = Black" by (cases c) auto
    from ok S Red obtain a1 x a2 where a: "a = Node Black a1 x a2" by (cases a) (auto split: if_splits)
    obtain self' where s': "erase_case1_left self p s = Some (self', x)"
      "rb_gives self (Some self') (set (inorder (plug k (Node Black N p (Node Red (Node Black a1 x a2) s b))))) (plug k (Node Black (Node Red N p (Node Black a1 x a2)) s b))"
      using case1_left [of self k N p a1 x a2 s b] rep S a c Red by auto
    have "rb_fixes self' (erase_continue (erase_black_left self' p x)) (inorder (plug (LeftOf Black s b # k) (Node Red N p (Node Black a1 x a2))))"
      using s'(2) N ok S a c Red by (intro erase_black_left_fixes) (auto simp: rb_gives_def)
    then have "rb_fixes self (erase_continue (erase_black_left self' p x)) (inorder (plug (LeftOf Black s b # k) (Node Red N p (Node Black a1 x a2))))"
      by (rule rb_fixes_trans [OF s'(2), rotated]) (auto simp: a)
    then show ?thesis using step S a c Red s'(1) by (simp add: erase_color_step_left_def)
  qed
qed

lemma erase_loop_right:
  assumes rep: "rbt_rep self (plug (RightOf c S p # k) N)"
    and N: "invc N" "invh N" "color N = Black" and ok: "ctx_ok (RightOf c S p # k) (Suc (bheight N))"
    and IH: "\<And>self' N'. k \<noteq> [] \<Longrightarrow> rbt_rep self' (plug k N') \<Longrightarrow> ctx_ok k (Suc (bheight N')) \<Longrightarrow>
      invc N' \<Longrightarrow> invh N' \<Longrightarrow> color N' = Black \<Longrightarrow>
      rb_fixes self' (erase_color_loop self' (ptr N') (ctx_parent NULL k)) (inorder (plug k N'))"
  shows "rb_fixes self (erase_color_loop self (ptr N) p) (inorder (plug (RightOf c S p # k) N))"
proof -
  from ok obtain cs a s b where S: "S = Node cs a s b" by (cases S) auto
  from rep S have p: "rb_get self p = Some (node_of (ctx_parent NULL k) c s (ptr N))" "aligned p" "aligned s"
    "nodes self s = Some (node_of p cs (ptr a) (ptr b))" "ptr N \<noteq> s"
    by (cases N; auto simp: rbt_rep_def tree_rep_plug heap_simps)+
  then have step: "erase_color_loop self (ptr N) p = erase_continue (erase_color_step_right self p s)"
    by (simp add: erase_loop_step erase_color_step_def)
  show ?thesis
  proof (cases cs)
    case Black
    have "erase_color_step_right self p s = erase_black_right self p s"
      using p Black by (simp add: erase_color_step_right_def erase_case1_right_def heap_simps)
    moreover have "rb_fixes self (erase_continue (erase_black_right self p s)) (inorder (plug k (Node c (Node Black a s b) p N)))"
      using rep N ok S Black IH [of _ "Node Black (Node Red a s b) p N"]
      by (intro erase_black_right_fixes) auto
    ultimately show ?thesis using step S Black by simp
  next
    case Red
    with ok S have c: "c = Black" by (cases c) auto
    from ok S Red obtain a1 x a2 where a: "b = Node Black a1 x a2" by (cases b) (auto split: if_splits)
    obtain self' where s': "erase_case1_right self p s = Some (self', x)"
      "rb_gives self (Some self') (set (inorder (plug k (Node Black (Node Red a s (Node Black a1 x a2)) p N)))) (plug k (Node Black a s (Node Red (Node Black a1 x a2) p N)))"
      using case1_right [of self k a s a1 x a2 p N] rep S a c Red by auto
    have "rb_fixes self' (erase_continue (erase_black_right self' p x)) (inorder (plug (RightOf Black a s # k) (Node Red (Node Black a1 x a2) p N)))"
      using s'(2) N ok S a c Red by (intro erase_black_right_fixes) (auto simp: rb_gives_def)
    then have "rb_fixes self (erase_continue (erase_black_right self' p x)) (inorder (plug (RightOf Black a s # k) (Node Red (Node Black a1 x a2) p N)))"
      by (rule rb_fixes_trans [OF s'(2), rotated]) (auto simp: a)
    then show ?thesis using step S a c Red s'(1) by (simp add: erase_color_step_right_def)
  qed
qed

lemma erase_loop_fixes:
  assumes "rbt_rep self (plug k N)" and "k \<noteq> []" and "ctx_ok k (Suc (bheight N))"
    and "invc N" and "invh N" and "color N = Black"
  shows "rb_fixes self (erase_color_loop self (ptr N) (ctx_parent NULL k)) (inorder (plug k N))"
  using assms
proof (induction "length k" arbitrary: self k N rule: less_induct)
  case less
  show ?case
  proof (cases k rule: ctx_color.cases)
    case (2 c p S k')
    with less show ?thesis using erase_loop_left [of self c p S k' N] by simp
  next
    case (3 c S p k')
    with less show ?thesis using erase_loop_right [of self c S p k' N] by simp
  qed (use less.prems in simp)
qed

section \<open>Correctness of unlinking\<close>

text \<open>Replacing the pointer at a position when the subtree that will be there is not yet linked below it.\<close>

lemma change_child_pos:
  assumes ctx: "ctx_rep (nodes self) NULL old k" and old: "old \<noteq> NULL" "old \<notin> ctx_set k"
    and rt: "root self = ctx_root old k" and d: "distinct (ctx_left k @ ctx_right k)"
  shows "\<exists>self'. hev_rbtree_change_child self old new (ctx_parent NULL k) = Some self' \<and>
    root self' = ctx_root new k \<and> ctx_rep (nodes self') NULL new k \<and>
    frame (ctx_set k) (nodes self) (nodes self') \<and> dom (nodes self') = dom (nodes self)"
proof (cases k)
  case Nil
  with assms change_child_ctx [OF ctx old, of new] show ?thesis by simp
next
  case (Cons s k')
  moreover from this have "ctx_root new k = ctx_root old k" by (cases s) auto
  ultimately show ?thesis
    using assms change_child_ctx [OF ctx old, of new] ctx_upd_rep [OF ctx d, of new]
      ctx_upd_frame [of "ctx_set k" "nodes self" "nodes self" k new] ctx_upd_dom [OF ctx]
    by simp
qed

text \<open>
  The state after unlinking: either a red-black tree, or one whose black height is one too low
  at an empty position below the node to rebalance from.
\<close>

definition unlink_fixes :: "HevRBTree \<Rightarrow> (HevRBTree \<times> addr) option \<Rightarrow> addr list \<Rightarrow> bool" where
  "unlink_fixes self res xs \<longleftrightarrow> (\<exists>self' rebalance. res = Some (self', rebalance) \<and>
     (rebalance = NULL \<and> rb_fixes self (Some self') xs \<or>
      (\<exists>k. k \<noteq> [] \<and> rebalance = ctx_parent NULL k \<and> ctx_ok k 1 \<and> inorder (plug k Leaf) = xs \<and>
        rb_gives self (Some self') (set xs) (plug k Leaf))))"

lemma bheight_Black: "bheight t = 0 \<Longrightarrow> color t = Black \<Longrightarrow> t = Leaf"
  by (cases t) auto

lemma bheight_0: "bheight t = 0 \<Longrightarrow> invc t \<Longrightarrow> invh t \<Longrightarrow> t = Leaf \<or> (\<exists>x. t = Node Red Leaf x Leaf)"
proof (cases t)
  case (Node c l x r)
  assume a: "bheight t = 0" "invc t" "invh t"
  with Node have c: "c = Red" "bheight l = 0" "bheight r = 0" by (auto split: if_splits)
  with a Node have "l = Leaf" "r = Leaf" by (auto intro: bheight_Black)
  with Node c show ?thesis by simp
qed simp

lemma plug_Leaf [simp]: "plug k t = Leaf \<longleftrightarrow> k = [] \<and> t = Leaf"
  by (induction k t rule: plug.induct) auto

lemma rbt_rep_posI:
  "root self = ctx_root (ptr t) k \<Longrightarrow> ctx_rep (nodes self) NULL (ptr t) k \<Longrightarrow>
   tree_rep (nodes self) (ctx_parent NULL k) t \<Longrightarrow> distinct (ctx_left k @ inorder t @ ctx_right k) \<Longrightarrow>
   rbt_rep self (plug k t)"
  by (simp add: rbt_rep_def tree_rep_plug)

lemma unlink_leaf:
  assumes rep: "rbt_rep self (plug k (Node c Leaf n Leaf))" and ok: "rbt_ok (plug k (Node c Leaf n Leaf))"
  shows "unlink_fixes self (erase_unlink self n) (inorder (plug k Leaf))"
proof -
  from rep have r: "ctx_rep (nodes self) NULL n k" "aligned n" "root self = ctx_root n k"
    "nodes self n = Some (node_of (ctx_parent NULL k) c NULL NULL)" "n \<notin> ctx_set k"
    "distinct (ctx_left k @ ctx_right k)"
    by (auto simp: rbt_rep_def tree_rep_plug)
  have "rb_gives self (hev_rbtree_change_child self n (ptr Leaf) (ctx_parent NULL k)) (ctx_set k) (plug k Leaf)"
    using r by (intro change_child_rep) auto
  then obtain self' where s: "hev_rbtree_change_child self n NULL (ctx_parent NULL k) = Some self'"
    "rb_gives self (Some self') (ctx_set k) (plug k Leaf)"
    by (auto simp: rb_gives_def)
  have "erase_unlink self n = Some (self', if c = Black then ctx_parent NULL k else NULL)"
    using r s(1) ctx_parent_aligned [OF r(1)] by (auto simp: erase_unlink_def heap_simps)
  moreover have "rb_fixes self (Some self') (inorder (plug k Leaf))" if "c = Red \<or> k = []"
    using s(2) ok that by (intro rb_fixesI) (auto simp: rbt_ok_plug, simp add: rbt_ok_def)
  ultimately show ?thesis
    using ok s(2) ctx_parent_NULL [OF r(1)] unfolding unlink_fixes_def
    by (cases "c = Red \<or> k = []") (auto simp: rbt_ok_plug)
qed

lemma unlink_one:
  assumes rep: "rbt_rep self (plug k t)" and ok: "rbt_ok (plug k t)"
    and t: "t = Node c Leaf n (Node Red Leaf x Leaf) \<or> t = Node c (Node Red Leaf x Leaf) n Leaf"
  shows "unlink_fixes self (erase_unlink self n) (inorder (plug k (Node c Leaf x Leaf)))"
proof -
  from rep t have r: "ctx_rep (nodes self) NULL n k" "aligned n" "aligned x" "root self = ctx_root n k"
    "nodes self x = Some (node_of n Red NULL NULL)" "n \<notin> ctx_set k" "x \<notin> ctx_set k" "n \<noteq> x" "x \<noteq> n"
    "distinct (ctx_left k @ x # ctx_right k)"
    by (auto simp: rbt_rep_def tree_rep_plug)
  let ?n = "node_of (ctx_parent NULL k) c NULL NULL"
  have par: "ctx_parent NULL k = NULL \<or> aligned (ctx_parent NULL k)" by (rule ctx_parent_aligned [OF r(1)])
  have "\<exists>self'. erase_unlink self n = Some (self', NULL) \<and> root self' = ctx_root x k \<and>
    ctx_rep (nodes self') NULL x k \<and> nodes self' x = Some ?n \<and>
    frame (insert x (ctx_set k)) (nodes self) (nodes self') \<and> dom (nodes self') = dom (nodes self)"
    using t
  proof
    assume t: "t = Node c Leaf n (Node Red Leaf x Leaf)"
    with rep have n: "nodes self n = Some (node_of (ctx_parent NULL k) c NULL x)"
      by (auto simp: rbt_rep_def tree_rep_plug)
    obtain self' where s: "hev_rbtree_change_child self n x (ctx_parent NULL k) = Some self'"
      "root self' = ctx_root x k" "ctx_rep (nodes self') NULL x k"
      "frame (ctx_set k) (nodes self) (nodes self')" "dom (nodes self') = dom (nodes self)"
      using change_child_pos [of self n k x] r by auto
    have x: "nodes self' x = Some (node_of n Red NULL NULL)" using s(4) r by (simp add: frame_def)
    have "erase_unlink self n = Some (self'\<lparr>nodes := (nodes self')(x \<mapsto> ?n)\<rparr>, NULL)"
      using n r x s(1) par by (auto simp: erase_unlink_def heap_simps)
    then show ?thesis using s r x by (auto simp: frame_def)
  next
    assume t: "t = Node c (Node Red Leaf x Leaf) n Leaf"
    with rep have n: "nodes self n = Some (node_of (ctx_parent NULL k) c x NULL)"
      by (auto simp: rbt_rep_def tree_rep_plug)
    let ?self = "self\<lparr>nodes := (nodes self)(x \<mapsto> ?n)\<rparr>"
    obtain self' where s: "hev_rbtree_change_child ?self n x (ctx_parent NULL k) = Some self'"
      "root self' = ctx_root x k" "ctx_rep (nodes self') NULL x k"
      "frame (ctx_set k) (nodes ?self) (nodes self')" "dom (nodes self') = dom (nodes ?self)"
      using change_child_pos [of ?self n k x] r by auto
    have "erase_unlink self n = Some (self', NULL)"
      using n r s(1) par by (auto simp: erase_unlink_def heap_simps)
    moreover have "nodes self' x = Some ?n" using s(4) r by (simp add: frame_def)
    ultimately show ?thesis using s r by (auto simp: frame_def)
  qed
  then obtain self' where s: "erase_unlink self n = Some (self', NULL)" "root self' = ctx_root x k"
    "ctx_rep (nodes self') NULL x k" "nodes self' x = Some ?n"
    "frame (insert x (ctx_set k)) (nodes self) (nodes self')" "dom (nodes self') = dom (nodes self)"
    by blast
  then have "rb_gives self (Some self') (insert x (ctx_set k)) (plug k (Node c Leaf x Leaf))"
    using r by (auto simp: rb_gives_def intro!: rbt_rep_posI)
  moreover have "rbt_ok (plug k (Node c Leaf x Leaf))" using ok t by (auto simp: rbt_ok_plug)
  ultimately show ?thesis using s(1) by (auto simp: unlink_fixes_def intro!: rb_fixesI)
qed

text \<open>The successor: the last node on the way down to the left.\<close>

lemma leftmost_decomp: "t \<noteq> Leaf \<Longrightarrow> \<exists>k c s b. t = plug k (Node c Leaf s b) \<and> ctx_left k = []"
proof (induction t)
  case (Node c l a r)
  show ?case
  proof (cases "l = Leaf")
    case True
    then have "Node c l a r = plug [] (Node c Leaf a r) \<and> ctx_left [] = []" by simp
    then show ?thesis by blast
  next
    case False
    with Node obtain k c' s b where "l = plug k (Node c' Leaf s b)" "ctx_left k = []" by blast
    then have "Node c l a r = plug (k @ [LeftOf c a r]) (Node c' Leaf s b) \<and> ctx_left (k @ [LeftOf c a r]) = []"
      by simp
    then show ?thesis by blast
  qed
qed simp

lemma successor_loop_rep:
  "tree_rep (nodes self) q (plug k (Node c Leaf s b)) \<Longrightarrow> ctx_left k = [] \<Longrightarrow>
   successor_loop self q (ptr (plug k (Node c Leaf s b))) = Some (ctx_parent q k, s)"
proof (induction k arbitrary: q rule: rev_induct)
  case Nil
  then show ?case by (simp add: successor_loop.simps [of self q s] heap_simps)
next
  case (snoc x k)
  then obtain cy y r where x: "x = LeftOf cy y r" by (cases x) auto
  have "ptr (plug k (Node c Leaf s b)) \<noteq> NULL"
    using snoc.prems x ptr_NULL [of "nodes self" y "plug k (Node c Leaf s b)"] by auto
  with snoc x show ?case
    by (simp add: successor_loop.simps [of self q y] heap_simps)
qed

text \<open>
  The successor unlinked from the right subtree of the erased node: it holds the remaining right
  subtree (still without its own left subtree), whose lowest position holds its old right child.
\<close>

lemma unlink_successor_rep:
  assumes rep: "tree_rep (nodes self) n (plug k (Node c Leaf s b))" and k: "ctx_left k = []"
    and d: "distinct (inorder (plug k (Node c Leaf s b)))" and n: "aligned n"
  shows "\<exists>self' q. unlink_successor self (ptr (plug k (Node c Leaf s b))) = Some (self', ctx_parent s k, s, ptr b) \<and>
    root self' = root self \<and> nodes self' s = Some (node_of q c NULL (ctx_root (ptr b) k)) \<and> aligned q \<and>
    ctx_rep (nodes self') s (ptr b) k \<and>
    frame (insert s (ctx_set k)) (nodes self) (nodes self') \<and> dom (nodes self') = dom (nodes self)"
proof (cases k rule: rev_cases)
  case Nil
  with rep n show ?thesis
    by (auto simp: unlink_successor_def heap_simps)
next
  case (snoc k' x)
  with k obtain cy y r where x: "x = LeftOf cy y r" by (cases x) auto
  have s: "aligned s" "aligned y" "nodes self s = Some (node_of (ctx_parent y k') c NULL (ptr b))"
    "nodes self y = Some (node_of n cy (ctx_root s k') (ptr r))" "ctx_rep (nodes self) y s k'" "tree_rep (nodes self) y r"
    "s \<noteq> y" "y \<noteq> s"
    using rep snoc x d by (auto simp: tree_rep_plug)
  have l: "successor_loop self y (ctx_root s k') = Some (ctx_parent y k', s)" "ctx_root s k' \<noteq> NULL"
    using successor_loop_rep [of self y k' c s b] rep k snoc x
      ptr_NULL [of "nodes self" y "plug k' (Node c Leaf s b)"] by auto
  have "\<exists>self'. unlink_successor self y = Some (self', ctx_parent y k', s, ptr b) \<and>
    root self' = root self \<and> nodes self' s = Some (node_of (ctx_parent y k') c NULL y) \<and>
    ctx_rep (nodes self') s (ptr b) k \<and>
    frame (insert s (ctx_set k)) (nodes self) (nodes self') \<and> dom (nodes self') = dom (nodes self)"
  proof (cases k')
    case Nil
    then show ?thesis using s l snoc x d n
      by (auto simp: unlink_successor_def heap_simps frame_def)
  next
    case (Cons z k'')
    with k snoc obtain cp p rp where z: "z = LeftOf cp p rp" by (cases z) auto
    then show ?thesis using s l snoc x d n Cons
      by (auto simp: unlink_successor_def heap_simps frame_def)
  qed
  moreover have "aligned (ctx_parent y k')"
    using s by (cases k' rule: ctx_color.cases) auto
  ultimately show ?thesis using snoc x by auto
qed

lemma ctx_rep_frame: "frame A h h' \<Longrightarrow> ctx_set k \<inter> A = {} \<Longrightarrow> ctx_rep h' p x k = ctx_rep h p x k"
  by (induction h p x k rule: ctx_rep.induct) (auto simp: frame_def tree_rep_frame [unfolded frame_def])

lemma move_successor_rep:
  assumes rep: "rbt_rep self (plug k (Node c l n (plug K (Node cs Leaf s b))))" (is "rbt_rep self (plug k ?t)")
    and K: "ctx_left K = []" and l: "l \<noteq> Leaf"
  shows "\<exists>self' q. move_successor self n (ctx_root s K) =
      Some (self', ctx_parent s K, s, ptr b, mk_pc (ctx_parent NULL k) c) \<and>
    nodes self' s = Some (node_of q cs (ptr l) (ctx_root (ptr b) K)) \<and> aligned q \<and>
    ctx_rep (nodes self') s (ptr b) K \<and> tree_rep (nodes self') s l \<and> tree_rep (nodes self') s b \<and>
    ctx_rep (nodes self') NULL s k \<and> root self' = ctx_root s k \<and>
    frame (tree_set (plug k ?t) - {n}) (nodes self) (nodes self') \<and> dom (nodes self') = dom (nodes self)"
proof -
  from rep have r: "ctx_rep (nodes self) NULL n k" "aligned n" "aligned s" "root self = ctx_root n k"
    "nodes self n = Some (node_of (ctx_parent NULL k) c (ptr l) (ctx_root s K))"
    "tree_rep (nodes self) n l" "tree_rep (nodes self) n (plug K (Node cs Leaf s b))" "tree_rep (nodes self) s b"
    "distinct (ctx_left k @ inorder ?t @ ctx_right k)"
    by (auto simp: rbt_rep_def tree_rep_plug)
  obtain self1 q where s1: "unlink_successor self (ctx_root s K) = Some (self1, ctx_parent s K, s, ptr b)"
    "root self1 = root self" "nodes self1 s = Some (node_of q cs NULL (ctx_root (ptr b) K))" "aligned q"
    "ctx_rep (nodes self1) s (ptr b) K"
    "frame (insert s (ctx_set K)) (nodes self) (nodes self1)" "dom (nodes self1) = dom (nodes self)"
    using unlink_successor_rep [OF r(7) K] r by auto
  have sep: "tree_set l \<inter> insert s (ctx_set K) = {}" "tree_set b \<inter> insert s (ctx_set K) = {}"
    "ctx_set k \<inter> insert s (ctx_set K) = {}" "n \<notin> insert s (ctx_set K)"
    using r(9) K by auto
  have h1: "nodes self1 n = nodes self n" "tree_rep (nodes self1) n l" "tree_rep (nodes self1) s b"
    "ctx_rep (nodes self1) NULL n k"
    using sep r s1(6) tree_rep_frame [OF s1(6)] ctx_rep_frame [OF s1(6)] by (simp_all add: frame_def)
  let ?h = "(nodes self1)(s \<mapsto> node_of q cs (ptr l) (ctx_root (ptr b) K))"
  let ?self = "self1\<lparr>nodes := reparent ?h l s\<rparr>"
  have tl: "tree_rep ?h n l" using h1 sep by auto
  have l0: "ptr l \<noteq> NULL" using l r(6) ptr_NULL by blast
  have par: "hev_rbtree_node_set_parent (self1\<lparr>nodes := ?h\<rparr>) (ptr l) s = Some ?self"
    using set_parent_rep [of "self1\<lparr>nodes := ?h\<rparr>" n l s] tl r(2) l0 by simp
  have n: "rb_get ?self n = Some (node_of (ctx_parent NULL k) c (ptr l) (ctx_root s K))"
    using h1 r sep by (auto simp: heap_simps)
  obtain self' where s2: "hev_rbtree_change_child ?self n s (ctx_parent NULL k) = Some self'"
    "root self' = ctx_root s k" "ctx_rep (nodes self') NULL s k"
    "frame (ctx_set k) (nodes ?self) (nodes self')" "dom (nodes self') = dom (nodes ?self)"
    using change_child_pos [of ?self n k s] h1 r sep s1(2) K by (auto simp: Int_commute)
  have "move_successor self n (ctx_root s K) = Some (self', ctx_parent s K, s, ptr b, mk_pc (ctx_parent NULL k) c)"
    using s1 s2 h1 par n r ctx_parent_aligned [OF r(1)] by (simp add: move_successor_def heap_simps)
  moreover have "tree_rep (nodes ?self) s l" "tree_rep (nodes ?self) s b" "ctx_rep (nodes ?self) s (ptr b) K"
    using tree_rep_reparent [OF tl] h1 s1 sep r K by (auto simp: Int_commute)
  then have "tree_rep (nodes self') s l" "tree_rep (nodes self') s b" "ctx_rep (nodes self') s (ptr b) K"
    using tree_rep_frame [OF s2(4)] ctx_rep_frame [OF s2(4)] r K by (auto simp: Int_commute)
  moreover have "nodes self' s = Some (node_of q cs (ptr l) (ctx_root (ptr b) K))"
    using s2(4) sep by (simp add: frame_def)
  moreover have "frame (tree_set (plug k ?t) - {n}) (nodes self) (nodes self')"
  proof -
    have "insert s (ctx_set K) \<subseteq> tree_set (plug k ?t) - {n}" "ctx_set k \<subseteq> tree_set (plug k ?t) - {n}"
      "insert s (tree_set l) \<subseteq> tree_set (plug k ?t) - {n}"
      using r(9) K by auto
    moreover have "frame (insert s (tree_set l)) (nodes self1) (nodes ?self)" by (auto simp: frame_def)
    ultimately show ?thesis using s1(6) s2(4) by (meson frame_mono frame_trans)
  qed
  moreover have "dom (nodes self') = dom (nodes self)"
    using s1(3,7) s2(5) r(6) by (cases l) (auto simp: reparent_def)
  ultimately show ?thesis using s2 s1(4) by blast
qed

text \<open>A context does not care which address its node above a right subtree has.\<close>

lemma ctx_ok_rename:
  "ctx_ok (K @ RightOf c l n # k) m = ctx_ok (K @ RightOf c l s # k) m \<and>
   ctx_color (K @ RightOf c l n # k) = ctx_color (K @ RightOf c l s # k)"
  by (induction K arbitrary: m rule: ctx_left.induct) auto

lemma unlink_two:
  assumes rep: "rbt_rep self (plug k (Node c l n (plug K (Node cs Leaf s b))))" (is "rbt_rep self (plug k ?t)")
    and ok: "rbt_ok (plug k (Node c l n (plug K (Node cs Leaf s b))))"
    and K: "ctx_left K = []" and l: "l \<noteq> Leaf"
  shows "unlink_fixes self (erase_unlink self n) (inorder (plug k (Node c l s (plug K b))))"
proof -
  obtain self1 q where s1: "move_successor self n (ctx_root s K) =
      Some (self1, ctx_parent s K, s, ptr b, mk_pc (ctx_parent NULL k) c)"
    "nodes self1 s = Some (node_of q cs (ptr l) (ctx_root (ptr b) K))" "aligned q"
    "ctx_rep (nodes self1) s (ptr b) K" "tree_rep (nodes self1) s l" "tree_rep (nodes self1) s b"
    "ctx_rep (nodes self1) NULL s k" "root self1 = ctx_root s k"
    "frame (tree_set (plug k ?t) - {n}) (nodes self) (nodes self1)" "dom (nodes self1) = dom (nodes self)"
    using move_successor_rep [OF rep K l] by blast
  from rep have r: "aligned n" "aligned s" "nodes self n = Some (node_of (ctx_parent NULL k) c (ptr l) (ctx_root s K))"
    "distinct (ctx_left k @ inorder ?t @ ctx_right k)" "ptr l \<noteq> NULL" "ctx_root s K \<noteq> NULL"
    using l ptr_NULL [of "nodes self" n l] ptr_NULL [of "nodes self" n "plug K (Node cs Leaf s b)"]
    by (auto simp: rbt_rep_def tree_rep_plug)
  have eq: "erase_unlink self n = color_successor self1 (ctx_parent s K) s (ptr b) (mk_pc (ctx_parent NULL k) c)"
    using r s1(1) by (simp add: erase_unlink_def heap_simps)
  have okc: "ctx_ok (K @ RightOf c l s # k) (bheight (Node cs Leaf s b))" "invc (Node cs Leaf s b)" "invh (Node cs Leaf s b)"
    "cs = Red \<longrightarrow> ctx_color (K @ RightOf c l s # k) = Black"
    using ok rbt_ok_plug [of "K @ RightOf c l n # k" "Node cs Leaf s b"] ctx_ok_rename [of K c l n k _ s] by auto
  have sep: "s \<notin> ctx_set K" "s \<notin> ctx_set k" "s \<notin> tree_set l" "s \<notin> tree_set b"
    "s \<in> tree_set (plug k ?t) - {n}" "tree_set b \<subseteq> tree_set (plug k ?t) - {n}"
    using r(4) K by auto
  have xs: "tree_set (plug k ?t) - {n} = set (inorder (plug k (Node c l s (plug K b))))"
    "distinct (inorder (plug k (Node c l s (plug K b))))" "inorder (plug K b) = inorder b @ ctx_right K"
    using r(4) K by auto
  let ?pos = "K @ RightOf c l s # k" and ?n = "node_of (ctx_parent NULL k) c (ptr l) (ctx_root (ptr b) K)"
  from okc consider (leaf) "b = Leaf" | (red) x where "b = Node Red Leaf x Leaf" "cs = Black"
    using bheight_0 [of b] by (cases cs) auto
  then show ?thesis
  proof cases
    case leaf
    let ?self = "self1\<lparr>nodes := (nodes self1)(s \<mapsto> ?n)\<rparr>"
    have res: "erase_unlink self n = Some (?self, if cs = Black then ctx_parent NULL ?pos else NULL)"
      using leaf s1 r by (simp add: eq color_successor_def heap_simps)
    have "rbt_rep ?self (plug k (Node c l s (plug K b)))"
      using s1 r(2) sep leaf xs(2) by (intro rbt_rep_posI) (auto simp: tree_rep_plug)
    moreover have "frame (tree_set (plug k ?t) - {n}) (nodes self) (nodes ?self)"
      using s1(9) sep(5) by (auto simp: frame_def)
    moreover have "dom (nodes ?self) = dom (nodes self)" using s1(2,10) by auto
    ultimately have g: "rb_gives self (Some ?self) (set (inorder (plug ?pos Leaf))) (plug ?pos Leaf)"
      using xs(1) leaf by (simp add: rb_gives_def)
    show ?thesis
    proof (cases cs)
      case Red
      with okc leaf have "rbt_ok (plug ?pos Leaf)" by (simp add: rbt_ok_plug del: plug_append)
      with g res Red leaf show ?thesis by (auto simp: unlink_fixes_def rb_fixes_def)
    next
      case Black
      have "ctx_ok ?pos 1" using okc(1) Black by simp
      with g res Black leaf show ?thesis
        unfolding unlink_fixes_def by (intro exI [of _ ?self] exI [of _ "ctx_parent NULL ?pos"] conjI disjI2 exI [of _ ?pos]) auto
    qed
  next
    case red
    let ?x = "node_of (ctx_parent s K) Black NULL NULL"
    let ?self = "self1\<lparr>nodes := (nodes self1)(x \<mapsto> ?x, s \<mapsto> ?n)\<rparr>"
    have x: "aligned x" "nodes self1 x = Some (node_of s Red NULL NULL)" "x \<noteq> s" "x \<notin> ctx_set K" "x \<notin> ctx_set k"
      "x \<notin> tree_set l" using s1(6) red r(4) K by auto
    have res: "erase_unlink self n = Some (?self, NULL)"
      using red s1 r x by (simp add: eq color_successor_def heap_simps)
    have "rbt_rep ?self (plug k (Node c l s (plug K (Node Black Leaf x Leaf))))"
      using s1 r(2) sep red xs x by (intro rbt_rep_posI) (auto simp: tree_rep_plug)
    moreover have "frame (tree_set (plug k ?t) - {n}) (nodes self) (nodes ?self)"
      using s1(9) sep(5,6) red by (auto simp: frame_def)
    moreover have "dom (nodes ?self) = dom (nodes self)" using s1(2,10) x(2) by auto
    ultimately have "rb_gives self (Some ?self) (set (inorder (plug ?pos (Node Black Leaf x Leaf)))) (plug ?pos (Node Black Leaf x Leaf))"
      using xs(1) red by (simp add: rb_gives_def)
    moreover have "rbt_ok (plug ?pos (Node Black Leaf x Leaf))"
      using okc red by (simp add: rbt_ok_plug del: plug_append)
    ultimately show ?thesis
      using res red by (auto simp: unlink_fixes_def rb_fixes_def)
  qed
qed

section \<open>Correctness of erase\<close>

lemma unlink_rep:
  assumes rep: "rbt_rep self (plug k (Node c l n r))" and ok: "rbt_ok (plug k (Node c l n r))"
  shows "unlink_fixes self (erase_unlink self n) (ctx_left k @ inorder l @ inorder r @ ctx_right k)"
proof -
  from ok have ok': "invc l" "invh l" "invc r" "invh r" "bheight l = bheight r" by (auto simp: rbt_ok_plug)
  consider (leaf) "l = Leaf" "r = Leaf" | (one) x where "l = Leaf \<and> r = Node Red Leaf x Leaf \<or> l = Node Red Leaf x Leaf \<and> r = Leaf"
    | (two) "l \<noteq> Leaf" "r \<noteq> Leaf"
    using ok' bheight_0 [of l] bheight_0 [of r] by (cases "l = Leaf"; cases "r = Leaf") auto
  then show ?thesis
  proof cases
    case leaf
    with unlink_leaf [of self k c n] assms show ?thesis by simp
  next
    case one
    with unlink_one [OF rep ok] show ?thesis by auto
  next
    case two
    with leftmost_decomp obtain K cs s b where "r = plug K (Node cs Leaf s b)" "ctx_left K = []" by blast
    with two unlink_two [of self k c l n K cs s b] assms show ?thesis by simp
  qed
qed

lemma erase_rep:
  assumes rep: "rbt_rep self t" and ok: "rbt_ok t" and io: "inorder t = xs @ n # ys"
  shows "rb_fixes self (hev_rbtree_erase self n) (xs @ ys)"
proof -
  from io have "n \<in> tree_set t" by simp
  with plug_decomp obtain k c l r where t: "t = plug k (Node c l n r)" by blast
  with rep have "distinct (ctx_left k @ inorder l @ n # inorder r @ ctx_right k)" by (simp add: rbt_rep_def)
  moreover from t io have "(ctx_left k @ inorder l) @ n # (inorder r @ ctx_right k) = xs @ n # ys" by simp
  ultimately have xy: "xs @ ys = ctx_left k @ inorder l @ inorder r @ ctx_right k"
    by (subst (asm) append_Cons_eq_iff) auto
  have "unlink_fixes self (erase_unlink self n) (xs @ ys)"
    unfolding xy using unlink_rep rep ok t by blast
  then obtain self' rb where u: "erase_unlink self n = Some (self', rb)"
    "rb = NULL \<and> rb_fixes self (Some self') (xs @ ys) \<or>
     (\<exists>k. k \<noteq> [] \<and> rb = ctx_parent NULL k \<and> ctx_ok k 1 \<and> inorder (plug k Leaf) = xs @ ys \<and>
        rb_gives self (Some self') (set (xs @ ys)) (plug k Leaf))"
    unfolding unlink_fixes_def by blast
  from u(2) show ?thesis
  proof
    assume "rb = NULL \<and> rb_fixes self (Some self') (xs @ ys)"
    with u(1) show ?thesis by (simp add: hev_rbtree_erase_def)
  next
    assume "\<exists>k. k \<noteq> [] \<and> rb = ctx_parent NULL k \<and> ctx_ok k 1 \<and> inorder (plug k Leaf) = xs @ ys \<and>
        rb_gives self (Some self') (set (xs @ ys)) (plug k Leaf)"
    then obtain k where k: "k \<noteq> []" "rb = ctx_parent NULL k" "ctx_ok k 1" "inorder (plug k Leaf) = xs @ ys"
      "rb_gives self (Some self') (set (xs @ ys)) (plug k Leaf)" by blast
    from k(5) have rep': "rbt_rep self' (plug k Leaf)" by (simp add: rb_gives_def)
    then have "rb \<noteq> NULL" using k(1,2) ctx_parent_NULL [of "nodes self'" NULL k] by (auto simp: rbt_rep_def tree_rep_plug)
    moreover have "rb_fixes self' (erase_color_loop self' (ptr Leaf) (ctx_parent NULL k)) (inorder (plug k Leaf))"
      using rep' k(1,3) by (intro erase_loop_fixes) auto
    then have "rb_fixes self (erase_color_loop self' NULL rb) (xs @ ys)"
      using k by (intro rb_fixes_trans [OF k(5)]) auto
    ultimately show ?thesis using u(1) by (simp add: hev_rbtree_erase_def erase_color_def)
  qed
qed

end
