(* ===== verification/Hev_Ordered_Tree.thy ===== *)
theory Hev_Ordered_Tree
  imports Hev_RBTree_Erase
begin

text \<open>
  Searching a red-black tree, and the contract its clients rely on. The mapped DNS cache and the
  authenticator walk the tree themselves, comparing a key with the one of each node they pass,
  and end at the node with the key or at the link where it belongs. \<open>tree_search\<close> is that walk.
  The locale \<open>search_tree\<close> states what the walk, an insertion at the link it ended at, and a
  deletion do to the in-order sequence; \<open>keyed_tree\<close> adds an order on keys and derives the
  lookup. Both are interpreted here, or by the clients, on the code's own operations.
\<close>

section \<open>Walking down to a key\<close>

datatype search = Found addr | Slot addr link

text \<open>
  The \<open>while (*new)\<close> loop: \<open>dir\<close> compares the node reached with the key, a negative result
  leads to the left child, a positive one to the right child.
\<close>

partial_function (option) tree_search ::
  "(addr \<Rightarrow> int option) \<Rightarrow> HevRBTree \<Rightarrow> link \<Rightarrow> addr \<Rightarrow> search option" where
  "tree_search dir self new parent = do {
     this \<leftarrow> read_link self new;
     if this = NULL then Some (Slot parent new)
     else do {
       res \<leftarrow> dir this;
       if res < 0 then tree_search dir self (LeftLink this) this
       else if res > 0 then tree_search dir self (RightLink this) this
       else Some (Found this)
     }
   }"

definition hev_rbtree_insert_at :: "HevRBTree \<Rightarrow> addr \<Rightarrow> addr \<Rightarrow> link \<Rightarrow> HevRBTree option" where
  "hev_rbtree_insert_at self node parent new = do {
     self \<leftarrow> hev_rbtree_node_link self node parent new;
     hev_rbtree_insert_color self node
   }"

text \<open>The memory of a node: zeroed by the allocation of the struct it is embedded in, then released.\<close>

definition rb_alloc :: "HevRBTree \<Rightarrow> addr \<Rightarrow> HevRBTree" where
  "rb_alloc self a = self\<lparr>nodes := (nodes self)(a \<mapsto> \<lparr>rn_parent_color = 0, rn_right = NULL, rn_left = NULL\<rparr>)\<rparr>"

definition rb_free :: "HevRBTree \<Rightarrow> addr \<Rightarrow> HevRBTree" where
  "rb_free self a = self\<lparr>nodes := (nodes self)(a := None)\<rparr>"

definition rb_empty :: HevRBTree where
  "rb_empty = \<lparr>root = NULL, nodes = Map.empty\<rparr>"

text \<open>A root pointer and a heap that represent a red-black tree with the in-order sequence \<open>xs\<close>.\<close>

definition rb_seq :: "HevRBTree \<Rightarrow> addr list \<Rightarrow> bool" where
  "rb_seq self xs \<longleftrightarrow> (\<exists>t. rbt_rep self t \<and> rbt_ok t \<and> inorder t = xs)"

section \<open>Correctness of the walk\<close>

definition goes_right :: "(addr \<Rightarrow> int option) \<Rightarrow> addr \<Rightarrow> bool" where
  "goes_right dir x \<longleftrightarrow> (\<exists>r > 0. dir x = Some r)"

definition goes_left :: "(addr \<Rightarrow> int option) \<Rightarrow> addr \<Rightarrow> bool" where
  "goes_left dir x \<longleftrightarrow> (\<exists>r < 0. dir x = Some r)"

lemma goes_excl: "goes_left dir x \<Longrightarrow> goes_right dir x \<Longrightarrow> False"
  by (auto simp: goes_left_def goes_right_def)

lemma append_pivot:
  "us @ vs = l @ a # r \<Longrightarrow> a \<notin> set us \<Longrightarrow> \<exists>w. vs = w @ a # r \<and> l = us @ w"
  by (induction us arbitrary: l) (auto simp: Cons_eq_append_conv)

lemma append_pivot_rev:
  "us @ vs = l @ a # r \<Longrightarrow> a \<notin> set vs \<Longrightarrow> \<exists>w. us = l @ a # w \<and> r = w @ vs"
  by (induction l arbitrary: us) (auto simp: append_eq_Cons_conv Cons_eq_append_conv)

lemma read_ctx_link:
  "rbt_rep self (plug k t) \<Longrightarrow> read_link self (ctx_link k) = Some (ptr t)"
  by (cases k rule: ctx_link.cases) (auto simp: rbt_rep_def tree_rep_plug heap_simps)

lemma tree_search_Leaf:
  "rbt_rep self (plug k Leaf) \<Longrightarrow> tree_search dir self (ctx_link k) p = Some (Slot p (ctx_link k))"
  by (subst tree_search.simps) (simp add: read_ctx_link)

lemma tree_search_Node:
  assumes rep: "rbt_rep self (plug k (Node c l a r))"
  shows "goes_left dir a \<Longrightarrow> tree_search dir self (ctx_link k) p = tree_search dir self (ctx_link (LeftOf c a r # k)) a"
    and "goes_right dir a \<Longrightarrow> tree_search dir self (ctx_link k) p = tree_search dir self (ctx_link (RightOf c l a # k)) a"
    and "dir a = Some 0 \<Longrightarrow> tree_search dir self (ctx_link k) p = Some (Found a)"
proof -
  have "a \<noteq> NULL" using rep by (auto simp: rbt_rep_def tree_rep_plug)
  then show "goes_left dir a \<Longrightarrow> tree_search dir self (ctx_link k) p = tree_search dir self (ctx_link (LeftOf c a r # k)) a"
    "goes_right dir a \<Longrightarrow> tree_search dir self (ctx_link k) p = tree_search dir self (ctx_link (RightOf c l a # k)) a"
    "dir a = Some 0 \<Longrightarrow> tree_search dir self (ctx_link k) p = Some (Found a)"
    using read_ctx_link [OF rep]
    by (auto simp: goes_left_def goes_right_def tree_search.simps [of dir self "ctx_link k"])
qed

text \<open>The walk ends where the sequence changes from nodes that lead right to nodes that lead left.\<close>

lemma tree_search_slot:
  assumes "inorder t = ls @ rs" and "\<forall>x \<in> set ls. goes_right dir x" and "\<forall>x \<in> set rs. goes_left dir x"
  shows "\<exists>k'. plug k' Leaf = plug k t \<and> ctx_left k' = ctx_left k @ ls \<and> ctx_right k' = rs @ ctx_right k \<and>
    (\<forall>self. rbt_rep self (plug k t) \<longrightarrow>
      tree_search dir self (ctx_link k) (ctx_parent NULL k) = Some (Slot (ctx_parent NULL k') (ctx_link k')))"
  using assms
proof (induction t arbitrary: k ls rs)
  case Leaf
  then show ?case by (intro exI [of _ k]) (auto simp: tree_search_Leaf)
next
  case (Node c l a r)
  then have io: "ls @ rs = inorder l @ a # inorder r" by simp
  then have "a \<in> set ls \<or> a \<in> set rs" by (metis Un_iff in_set_conv_decomp set_append)
  then show ?case
  proof
    assume a: "a \<in> set rs"
    then have n: "a \<notin> set ls" using Node.prems goes_excl by blast
    obtain w where w: "rs = w @ a # inorder r" "inorder l = ls @ w" using append_pivot [OF io n] by blast
    with Node.prems Node.IH(1) [of ls w "LeftOf c a r # k"] obtain k' where
      k': "plug k' Leaf = plug (LeftOf c a r # k) l" "ctx_left k' = ctx_left (LeftOf c a r # k) @ ls"
      "ctx_right k' = w @ ctx_right (LeftOf c a r # k)"
      "\<And>self. rbt_rep self (plug (LeftOf c a r # k) l) \<Longrightarrow>
        tree_search dir self (ctx_link (LeftOf c a r # k)) a = Some (Slot (ctx_parent NULL k') (ctx_link k'))"
      by auto
    moreover have "goes_left dir a" using a Node.prems by blast
    ultimately show ?thesis using w by (intro exI [of _ k']) (auto simp: tree_search_Node(1))
  next
    assume a: "a \<in> set ls"
    then have n: "a \<notin> set rs" using Node.prems goes_excl by blast
    obtain w where w: "ls = inorder l @ a # w" "inorder r = w @ rs" using append_pivot_rev [OF io n] by blast
    with Node.prems Node.IH(2) [of w rs "RightOf c l a # k"] obtain k' where
      k': "plug k' Leaf = plug (RightOf c l a # k) r" "ctx_left k' = ctx_left (RightOf c l a # k) @ w"
      "ctx_right k' = rs @ ctx_right (RightOf c l a # k)"
      "\<And>self. rbt_rep self (plug (RightOf c l a # k) r) \<Longrightarrow>
        tree_search dir self (ctx_link (RightOf c l a # k)) a = Some (Slot (ctx_parent NULL k') (ctx_link k'))"
      by auto
    moreover have "goes_right dir a" using a Node.prems by blast
    ultimately show ?thesis using w by (intro exI [of _ k']) (auto simp: tree_search_Node(2))
  qed
qed

lemma tree_search_found:
  assumes "inorder t = ls @ m # rs" and "\<forall>x \<in> set ls. goes_right dir x" and "\<forall>x \<in> set rs. goes_left dir x"
    and "dir m = Some 0" and "rbt_rep self (plug k t)"
  shows "tree_search dir self (ctx_link k) (ctx_parent NULL k) = Some (Found m)"
  using assms
proof (induction t arbitrary: k ls rs)
  case (Node c l a r)
  then have io: "ls @ m # rs = inorder l @ a # inorder r" by simp
  have m: "\<not> goes_left dir m" "\<not> goes_right dir m"
    using Node.prems(4) by (auto simp: goes_left_def goes_right_def)
  have "a \<in> set (ls @ m # rs)" using io by simp
  then consider "a = m" | "a \<in> set rs" "a \<noteq> m" | "a \<in> set ls" "a \<noteq> m" by auto
  then show ?case
  proof cases
    case 1
    then show ?thesis using Node.prems tree_search_Node(3) [of self k c l a r] by simp
  next
    case 2
    then have n: "a \<notin> set (ls @ [m])" using Node.prems goes_excl by auto
    obtain w where w: "rs = w @ a # inorder r" "inorder l = ls @ m # w"
      using append_pivot [of "ls @ [m]" rs "inorder l" a "inorder r"] io n by auto
    then have "tree_search dir self (ctx_link (LeftOf c a r # k)) a = Some (Found m)"
      using Node.prems Node.IH(1) [of ls w "LeftOf c a r # k"] by simp
    then show ?thesis using tree_search_Node(1) [OF Node.prems(5)] 2 Node.prems(3) by simp
  next
    case 3
    then have n: "a \<notin> set (m # rs)" using Node.prems goes_excl by auto
    obtain w where w: "ls = inorder l @ a # w" "inorder r = w @ m # rs"
      using append_pivot_rev [OF io n] by auto
    then have "tree_search dir self (ctx_link (RightOf c l a # k)) a = Some (Found m)"
      using Node.prems Node.IH(2) [of w rs "RightOf c l a # k"] by simp
    then show ?thesis using tree_search_Node(2) [OF Node.prems(5)] 3 Node.prems(2) by simp
  qed
qed simp

section \<open>The contract of a search tree\<close>

text \<open>
  What a client relies on: the walk finds the node, or a link at which a node can be inserted in
  the gap the walk was looking for; erasing takes one node out of the sequence; memory of nodes
  outside the sequence does not matter.
\<close>

locale search_tree =
  fixes seq :: "'t \<Rightarrow> addr list \<Rightarrow> bool"
    and search :: "(addr \<Rightarrow> int option) \<Rightarrow> 't \<Rightarrow> search option"
    and insert_at :: "'t \<Rightarrow> addr \<Rightarrow> addr \<Rightarrow> link \<Rightarrow> 't option"
    and erase :: "'t \<Rightarrow> addr \<Rightarrow> 't option"
    and alloc :: "'t \<Rightarrow> addr \<Rightarrow> 't"
    and release :: "'t \<Rightarrow> addr \<Rightarrow> 't"
    and allocated :: "'t \<Rightarrow> addr set"
  assumes seq_distinct: "seq t xs \<Longrightarrow> distinct xs"
    and seq_aligned: "seq t xs \<Longrightarrow> x \<in> set xs \<Longrightarrow> aligned x"
    and seq_allocated: "seq t xs \<Longrightarrow> set xs \<subseteq> allocated t"
    and alloc_seq: "seq t xs \<Longrightarrow> n \<notin> set xs \<Longrightarrow>
      seq (alloc t n) xs \<and> search dir (alloc t n) = search dir t \<and> allocated (alloc t n) = insert n (allocated t)"
    and release_seq: "seq t xs \<Longrightarrow> n \<notin> set xs \<Longrightarrow>
      seq (release t n) xs \<and> allocated (release t n) = allocated t - {n}"
    and search_found: "seq t (ls @ m # rs) \<Longrightarrow> \<forall>x \<in> set ls. goes_right dir x \<Longrightarrow> \<forall>x \<in> set rs. goes_left dir x \<Longrightarrow>
      dir m = Some 0 \<Longrightarrow> search dir t = Some (Found m)"
    and search_slot: "seq t (ls @ rs) \<Longrightarrow> \<forall>x \<in> set ls. goes_right dir x \<Longrightarrow> \<forall>x \<in> set rs. goes_left dir x \<Longrightarrow>
      \<exists>p l. search dir t = Some (Slot p l) \<and>
        (\<forall>n. aligned n \<longrightarrow> n \<in> allocated t \<longrightarrow> n \<notin> set (ls @ rs) \<longrightarrow>
          (\<exists>t'. insert_at t n p l = Some t' \<and> seq t' (ls @ n # rs) \<and> allocated t' = allocated t))"
    and erase_seq: "seq t (xs @ n # ys) \<Longrightarrow>
      \<exists>t'. erase t n = Some t' \<and> seq t' (xs @ ys) \<and> allocated t' = allocated t"
begin

lemma erase_remove1:
  assumes "seq t xs" and "x \<in> set xs"
  obtains t' where "erase t x = Some t'" "seq t' (remove1 x xs)" "allocated t' = allocated t"
proof -
  from assms(2) obtain us vs where xs: "xs = us @ x # vs" and "x \<notin> set us"
    by (meson split_list_first)
  then have "remove1 x xs = us @ vs" by (simp add: remove1_append)
  with erase_seq [of t us x vs] assms(1) xs that show thesis by auto
qed

end

lemma rbt_rep_upd:
  "rbt_rep self t \<Longrightarrow> n \<notin> tree_set t \<Longrightarrow> rbt_rep (self\<lparr>nodes := (nodes self)(n := v)\<rparr>) t"
  by (simp add: rbt_rep_def)

lemma rb_seq_upd: "rb_seq self xs \<Longrightarrow> n \<notin> set xs \<Longrightarrow> rb_seq (self\<lparr>nodes := (nodes self)(n := v)\<rparr>) xs"
  unfolding rb_seq_def using rbt_rep_upd by blast

lemma rb_fixes_seq: "rb_fixes self res xs \<Longrightarrow> \<exists>self'. res = Some self' \<and> rb_seq self' xs \<and> dom (nodes self') = dom (nodes self)"
  by (auto simp: rb_fixes_def rb_gives_def rb_seq_def)

lemma rb_slot:
  assumes "rb_seq self (ls @ rs)" and dir: "\<forall>x \<in> set ls. goes_right dir x" "\<forall>x \<in> set rs. goes_left dir x"
  shows "\<exists>p l. tree_search dir self RootLink NULL = Some (Slot p l) \<and>
    (\<forall>n. aligned n \<longrightarrow> n \<in> dom (nodes self) \<longrightarrow> n \<notin> set (ls @ rs) \<longrightarrow>
      (\<exists>self'. hev_rbtree_insert_at self n p l = Some self' \<and> rb_seq self' (ls @ n # rs) \<and>
        dom (nodes self') = dom (nodes self)))"
proof -
  from assms obtain t where t: "rbt_rep self t" "rbt_ok t" "inorder t = ls @ rs" by (auto simp: rb_seq_def)
  from tree_search_slot [OF t(3) dir, of "[]"] t(1) obtain k where
    k: "plug k Leaf = t" "ctx_left k = ls" "ctx_right k = rs"
      "tree_search dir self RootLink NULL = Some (Slot (ctx_parent NULL k) (ctx_link k))"
    by auto
  have "\<exists>self'. hev_rbtree_insert_at self n (ctx_parent NULL k) (ctx_link k) = Some self' \<and>
      rb_seq self' (ls @ n # rs) \<and> dom (nodes self') = dom (nodes self)"
    if "aligned n" "n \<in> dom (nodes self)" "n \<notin> set (ls @ rs)" for n
    using rb_fixes_seq [OF insert_rep [of self k n]] that t k by (auto simp: hev_rbtree_insert_at_def)
  with k(4) show ?thesis by blast
qed

lemma rb_alloc_seq:
  assumes "rb_seq self xs" and "n \<notin> set xs"
  shows "rb_seq (rb_alloc self n) xs" and "dom (nodes (rb_alloc self n)) = insert n (dom (nodes self))"
  using assms by (auto simp: rb_alloc_def rb_seq_upd)

text \<open>The walk depends on the tree alone, so that memory allocated meanwhile does not change it.\<close>

lemma tree_search_cong:
  assumes "rbt_rep self (plug k t)" and "rbt_rep self' (plug k t)"
  shows "tree_search dir self (ctx_link k) p = tree_search dir self' (ctx_link k) p"
  using assms
proof (induction t arbitrary: k p)
  case Leaf
  then show ?case by (simp add: tree_search_Leaf)
next
  case (Node c l a r)
  consider "dir a = None" | "dir a = Some 0" | "goes_left dir a" | "goes_right dir a"
    by (cases "dir a") (auto simp: goes_left_def goes_right_def, metis linorder_less_linear)
  then show ?case
  proof cases
    case 1
    then show ?thesis using read_ctx_link Node.prems
      by (subst (1 2) tree_search.simps) (auto simp: read_ctx_link)
  next
    case 2
    then show ?thesis using tree_search_Node(3) Node.prems by metis
  next
    case 3
    then have "tree_search dir self (ctx_link (LeftOf c a r # k)) a = tree_search dir self' (ctx_link (LeftOf c a r # k)) a"
      using Node by (intro Node.IH(1)) auto
    then show ?thesis using tree_search_Node(1) [OF Node.prems(1) 3] tree_search_Node(1) [OF Node.prems(2) 3] by simp
  next
    case 4
    then have "tree_search dir self (ctx_link (RightOf c l a # k)) a = tree_search dir self' (ctx_link (RightOf c l a # k)) a"
      using Node by (intro Node.IH(2)) auto
    then show ?thesis using tree_search_Node(2) [OF Node.prems(1) 4] tree_search_Node(2) [OF Node.prems(2) 4] by simp
  qed
qed

lemma rb_alloc_search:
  assumes "rb_seq self xs" and "n \<notin> set xs"
  shows "tree_search dir (rb_alloc self n) RootLink NULL = tree_search dir self RootLink NULL"
proof -
  from assms obtain t where "rbt_rep self t" "rbt_rep (rb_alloc self n) t"
    by (auto simp: rb_seq_def rb_alloc_def rbt_rep_upd)
  then show ?thesis using tree_search_cong [of "rb_alloc self n" "[]" t self dir] by simp
qed

interpretation rbt: search_tree rb_seq "\<lambda>dir self. tree_search dir self RootLink NULL" hev_rbtree_insert_at
  hev_rbtree_erase rb_alloc rb_free "\<lambda>self. dom (nodes self)"
proof (unfold_locales, goal_cases)
  case (1 t xs)
  then show ?case by (auto simp: rb_seq_def rbt_rep_def)
next
  case (2 t xs x)
  then show ?case by (auto simp: rb_seq_def rbt_rep_def dest: tree_rep_aligned)
next
  case (3 t xs)
  then show ?case by (auto simp: rb_seq_def rbt_rep_def dest: tree_rep_allocated)
next
  case (4 t xs n dir)
  then show ?case by (simp add: rb_alloc_seq rb_alloc_search)
next
  case (5 t xs n)
  then show ?case by (auto simp: rb_free_def rb_seq_upd)
next
  case (6 t ls m rs dir)
  then show ?case using tree_search_found [of _ ls m rs dir t "[]"] by (auto simp: rb_seq_def)
next
  case (7 t ls rs dir)
  then show ?case by (rule rb_slot)
next
  case (8 t xs n ys)
  then show ?case using erase_rep rb_fixes_seq by (auto simp: rb_seq_def)
qed

section \<open>Trees ordered by a key\<close>

text \<open>
  The nodes of a tree in the order of a comparison of keys: the code goes left where the key of
  the node compares as smaller, so that the sequence is descending.
\<close>

definition key_order :: "('k \<Rightarrow> 'k \<Rightarrow> int) \<Rightarrow> (addr \<Rightarrow> 'k) \<Rightarrow> addr list \<Rightarrow> bool" where
  "key_order cmp key xs \<longleftrightarrow> sorted_wrt (\<lambda>x y. cmp (key x) (key y) > 0) xs"

locale keyed_tree = search_tree seq search insert_at erase alloc release allocated
  for seq :: "'t \<Rightarrow> addr list \<Rightarrow> bool"
    and search :: "(addr \<Rightarrow> int option) \<Rightarrow> 't \<Rightarrow> search option"
    and insert_at :: "'t \<Rightarrow> addr \<Rightarrow> addr \<Rightarrow> link \<Rightarrow> 't option"
    and erase :: "'t \<Rightarrow> addr \<Rightarrow> 't option"
    and alloc :: "'t \<Rightarrow> addr \<Rightarrow> 't"
    and release :: "'t \<Rightarrow> addr \<Rightarrow> 't"
    and allocated :: "'t \<Rightarrow> addr set" +
  fixes cmp :: "'k \<Rightarrow> 'k \<Rightarrow> int"
  assumes cmp_eq: "cmp a b = 0 \<longleftrightarrow> a = b"
    and cmp_swap: "cmp a b < 0 \<longleftrightarrow> cmp b a > 0"
    and cmp_trans: "cmp a b > 0 \<Longrightarrow> cmp b c > 0 \<Longrightarrow> cmp a c > 0"
begin

lemma key_order_remove1: "key_order cmp key xs \<Longrightarrow> key_order cmp key (remove1 x xs)"
  unfolding key_order_def by (induction xs) (auto dest: set_remove1_subset [THEN subsetD])

lemma key_unique:
  assumes "key_order cmp key xs" "distinct xs" "x \<in> set xs" "y \<in> set xs" "key x = key y"
  shows "x = y"
proof (rule ccontr)
  assume ne: "x \<noteq> y"
  have "cmp (key x) (key y) > 0 \<or> cmp (key y) (key x) > 0"
    using assms(1-4) ne unfolding key_order_def
    by (induction xs) auto
  with assms(5) cmp_eq [of "key y" "key y"] show False by simp
qed

text \<open>The sequence splits at a key.\<close>

lemma key_split:
  "key_order cmp key xs \<Longrightarrow> \<exists>ls ms rs. xs = ls @ ms @ rs \<and> (\<forall>x \<in> set ls. cmp (key x) k > 0) \<and>
     (\<forall>x \<in> set rs. cmp (key x) k < 0) \<and> (ms = [] \<or> (\<exists>m. ms = [m] \<and> key m = k))"
proof (induction xs)
  case (Cons a xs)
  then have o: "key_order cmp key xs" "\<forall>y \<in> set xs. cmp (key a) (key y) > 0" by (auto simp: key_order_def)
  have after: "\<forall>y \<in> set xs. cmp (key y) k < 0" if "cmp (key a) k \<le> 0"
  proof
    fix y assume "y \<in> set xs"
    with o have y: "cmp (key a) (key y) > 0" by blast
    show "cmp (key y) k < 0"
    proof (cases "key a = k")
      case True
      with y show ?thesis by (simp add: cmp_swap)
    next
      case False
      with that cmp_eq have "cmp k (key a) > 0" by (metis cmp_swap order_less_le)
      with y cmp_trans show ?thesis by (metis cmp_swap)
    qed
  qed
  consider "cmp (key a) k > 0" | "key a = k" | "cmp (key a) k < 0"
    using cmp_eq by (metis linorder_less_linear)
  then show ?case
  proof cases
    case 1
    from Cons.IH [OF o(1)] obtain ls ms rs where "xs = ls @ ms @ rs" "\<forall>x \<in> set ls. cmp (key x) k > 0"
      "\<forall>x \<in> set rs. cmp (key x) k < 0" "ms = [] \<or> (\<exists>m. ms = [m] \<and> key m = k)" by blast
    with 1 show ?thesis by (intro exI [of _ "a # ls"] exI [of _ ms] exI [of _ rs]) auto
  next
    case 2
    with after cmp_eq [of k k] show ?thesis by (intro exI [of _ "[]"] exI [of _ "[a]"] exI [of _ xs]) auto
  next
    case 3
    with after show ?thesis by (intro exI [of _ "[]"] exI [of _ "[]"] exI [of _ "a # xs"]) auto
  qed
qed simp

text \<open>
  The lookup: a node with the key is found; without one, the walk ends at a link where a node
  with that key goes.
\<close>

lemma lookup:
  assumes t: "seq t xs" "key_order cmp key xs" and dir: "\<forall>x \<in> set xs. dir x = Some (cmp (key x) k)"
  obtains (found) m where "m \<in> set xs" "key m = k" "search dir t = Some (Found m)"
  | (slot) p l ls rs where "xs = ls @ rs" "k \<notin> key ` set xs" "search dir t = Some (Slot p l)"
      "\<forall>x \<in> set ls. cmp (key x) k > 0" "\<forall>x \<in> set rs. cmp (key x) k < 0"
      "\<And>n. aligned n \<Longrightarrow> n \<in> allocated t \<Longrightarrow> n \<notin> set xs \<Longrightarrow>
        \<exists>t'. insert_at t n p l = Some t' \<and> seq t' (ls @ n # rs) \<and> allocated t' = allocated t"
proof -
  from key_split [OF t(2), of k] obtain ls ms rs where s: "xs = ls @ ms @ rs"
    "\<forall>x \<in> set ls. cmp (key x) k > 0" "\<forall>x \<in> set rs. cmp (key x) k < 0"
    "ms = [] \<or> (\<exists>m. ms = [m] \<and> key m = k)"
    by blast
  have lr: "\<forall>x \<in> set ls. goes_right dir x" "\<forall>x \<in> set rs. goes_left dir x"
    using s dir by (auto simp: goes_right_def goes_left_def)
  from s(4) show thesis
  proof
    assume ms: "ms = []"
    have "k \<notin> key ` set xs"
      using s ms cmp_eq [of k k] by auto
    moreover obtain p l where "search dir t = Some (Slot p l)"
      "\<forall>n. aligned n \<longrightarrow> n \<in> allocated t \<longrightarrow> n \<notin> set (ls @ rs) \<longrightarrow>
        (\<exists>t'. insert_at t n p l = Some t' \<and> seq t' (ls @ n # rs) \<and> allocated t' = allocated t)"
      using search_slot [of t ls rs dir] t(1) s(1) ms lr by auto
    ultimately show thesis using s ms by (intro slot [of ls rs p l]) auto
  next
    assume "\<exists>m. ms = [m] \<and> key m = k"
    then obtain m where "ms = [m]" "key m = k" by blast
    moreover from this have "search dir t = Some (Found m)"
      using search_found [of t ls m rs dir] t(1) s lr dir cmp_eq [of k k] by auto
    ultimately show thesis using s by (intro found [of m]) auto
  qed
qed

lemma key_order_insert:
  assumes "key_order cmp key (ls @ rs)" and "n \<notin> set (ls @ rs)"
    and "\<forall>x \<in> set ls. cmp (key x) k > 0" and "\<forall>x \<in> set rs. cmp (key x) k < 0"
  shows "key_order cmp (key(n := k)) (ls @ n # rs)"
  using assms by (auto simp: key_order_def sorted_wrt_append cmp_swap intro: sorted_wrt_mono_rel [rotated])

end

section \<open>Properties of the red-black tree\<close>

fun height :: "rbt \<Rightarrow> nat" where
  "height Leaf = 0"
| "height (Node c l a r) = Suc (max (height l) (height r))"

lemma bheight_size: "invh t \<Longrightarrow> 2 ^ bheight t \<le> length (inorder t) + 1"
proof (induction t)
  case (Node c l a r)
  then have "2 ^ bheight l \<le> length (inorder l) + 1" "2 ^ bheight l \<le> length (inorder r) + 1" by auto
  then show ?case by (cases c) auto
qed simp

lemma height_bheight: "invc t \<Longrightarrow> invh t \<Longrightarrow> height t \<le> 2 * bheight t + (if color t = Red then 1 else 0)"
proof (induction t)
  case (Node c l a r)
  then have l: "height l \<le> 2 * bheight l + (if color l = Red then 1 else 0)"
    and r: "height r \<le> 2 * bheight l + (if color r = Red then 1 else 0)" by auto
  show ?case
  proof (cases c)
    case Red
    with Node.prems l r show ?thesis by auto
  next
    case Black
    have "height l \<le> 2 * bheight l + 1" "height r \<le> 2 * bheight l + 1" using l r by (auto split: if_splits)
    with Black show ?thesis by auto
  qed
qed simp

text \<open>
  C12: Inserting into the tree. The code walks from the root comparing each node it passes, links
  the new node at the null link the walk ends at and rebalances. For a comparison that is positive
  on a first part of the nodes in order and negative on the rest, every one of these steps
  ends without an invalid access, the new node is in order exactly between the two parts, the tree is again a
  red-black tree, and no other node's memory is touched or lost.
\<close>
theorem rbtree_insert:
  assumes "rb_seq self (ls @ rs)" and "\<forall>x \<in> set ls. \<exists>v > 0. dir x = Some v" and "\<forall>x \<in> set rs. \<exists>v < 0. dir x = Some v"
    and "aligned n" and "nodes self n = Some d" and "n \<notin> set (ls @ rs)"
  shows "\<exists>p l self1 self'. tree_search dir self RootLink NULL = Some (Slot p l) \<and>
    hev_rbtree_node_link self n p l = Some self1 \<and> hev_rbtree_insert_color self1 n = Some self' \<and>
    rb_seq self' (ls @ n # rs) \<and> dom (nodes self') = dom (nodes self)"
proof -
  have "\<forall>x \<in> set ls. goes_right dir x" "\<forall>x \<in> set rs. goes_left dir x"
    using assms by (auto simp: goes_right_def goes_left_def)
  then obtain p l self' where "tree_search dir self RootLink NULL = Some (Slot p l)"
    "hev_rbtree_insert_at self n p l = Some self'" "rb_seq self' (ls @ n # rs)" "dom (nodes self') = dom (nodes self)"
    using rb_slot [of self ls rs dir] assms(1,4-6) by blast
  then show ?thesis by (auto simp: hev_rbtree_insert_at_def bind_eq_Some_conv)
qed

definition demo_tree :: HevRBTree where
  "demo_tree = \<lparr>root = 16, nodes = [8 \<mapsto> node_of 16 Red 0 0, 16 \<mapsto> node_of 0 Black 8 24,
     24 \<mapsto> node_of 16 Red 0 0, 32 \<mapsto> \<lparr>rn_parent_color = 0, rn_right = 0, rn_left = 0\<rparr>]\<rparr>"

lemma demo_tree_seq: "rb_seq demo_tree [8, 16, 24]"
  unfolding rb_seq_def
  by (rule exI [of _ "Node Black (Node Red Leaf 8 Leaf) 16 (Node Red Leaf 24 Leaf)"])
    (simp add: demo_tree_def rbt_rep_def rbt_ok_def aligned_def)

theorem rbtree_insert_witness:
  "\<exists>p l self1 self'. tree_search (\<lambda>x. Some (uint (20 :: addr) - uint x)) demo_tree RootLink NULL = Some (Slot p l) \<and>
    hev_rbtree_node_link demo_tree 32 p l = Some self1 \<and> hev_rbtree_insert_color self1 32 = Some self' \<and>
    rb_seq self' [8, 16, 32, 24] \<and> dom (nodes self') = dom (nodes demo_tree)"
  using rbtree_insert [of demo_tree "[8, 16]" "[24]" "\<lambda>x. Some (uint (20 :: addr) - uint x)" 32
      "\<lparr>rn_parent_color = 0, rn_right = 0, rn_left = 0\<rparr>"] demo_tree_seq
  by (simp add: aligned_def demo_tree_def)

text \<open>
  C6: Erasing from the tree. For every node of a represented red-black tree, \<open>hev_rbtree_erase\<close>
  ends without an invalid access, takes exactly that node out of the in-order sequence, restores
  the red-black invariants, and changes no memory outside the nodes that stay in the tree: the
  erased node itself is left as it was.
\<close>
theorem rbtree_erase:
  assumes "rb_seq self (xs @ n # ys)"
  shows "\<exists>self'. hev_rbtree_erase self n = Some self' \<and> rb_seq self' (xs @ ys) \<and>
    frame (set (xs @ ys)) (nodes self) (nodes self') \<and> dom (nodes self') = dom (nodes self)"
proof -
  from assms obtain t where "rbt_rep self t" "rbt_ok t" "inorder t = xs @ n # ys" by (auto simp: rb_seq_def)
  then have "rb_fixes self (hev_rbtree_erase self n) (xs @ ys)" by (rule erase_rep)
  then show ?thesis by (auto simp: rb_seq_def rb_fixes_def rb_gives_def)
qed

theorem rbtree_erase_witness:
  "\<exists>self'. hev_rbtree_erase demo_tree 16 = Some self' \<and> rb_seq self' [8, 24] \<and>
    frame {8, 24} (nodes demo_tree) (nodes self') \<and> dom (nodes self') = dom (nodes demo_tree)"
  using rbtree_erase [of demo_tree "[8]" 16 "[24]"] demo_tree_seq by simp

text \<open>
  C34: Walking over the tree. From the first node, stepping with \<open>hev_rbtree_node_next\<close> visits the
  nodes of a represented tree in order and then returns the null pointer; \<open>hev_rbtree_last\<close> and
  \<open>hev_rbtree_node_prev\<close> are the mirror image.
\<close>
theorem rbtree_traversal:
  assumes "rb_seq self xs"
  shows "hev_rbtree_first self = Some (head_ptr xs) \<and> hev_rbtree_last self = Some (head_ptr (rev xs)) \<and>
    (\<forall>us a vs. xs = us @ a # vs \<longrightarrow> hev_rbtree_node_next self a = Some (head_ptr vs) \<and>
      hev_rbtree_node_prev self a = Some (head_ptr (rev us)))"
  using assms by (auto simp: rb_seq_def first_rep last_rep node_next_rep node_prev_rep)

theorem rbtree_traversal_witness:
  "hev_rbtree_first demo_tree = Some 8 \<and> hev_rbtree_node_next demo_tree 8 = Some 16 \<and>
    hev_rbtree_node_next demo_tree 24 = Some NULL"
  using rbtree_traversal [OF demo_tree_seq]
  by (metis append_Cons append_Nil head_ptr_simps)



end
