(* ===== verification/Hev_Mapped_DNS.thy ===== *)
theory Hev_Mapped_DNS
  imports Hev_List Hev_Ordered_Tree
begin

text \<open>
  The mapped DNS cache of \<open>src/hev-mapped-dns.[ch]\<close>: names are given addresses of a reserved
  network, and a connection to such an address is turned back into the name. A node is in a
  red-black tree by name, in a list by last use, and in an array by its index; when the cache is
  full, the least recently used name gives up its index. The struct of a node is modelled as it
  lies in memory: the tree node at its address, the list node 24 bytes further, name and index in
  a third heap. The cache is shown to refine a plain list of name-index pairs in order of last use.
\<close>

section \<open>The data structure\<close>

record HevMappedDNSNode =
  dn_name :: cstring
  dn_idx :: u32

record HevMappedDNS =
  dns_use :: u32
  dns_max :: u32
  dns_net :: u32
  dns_mask :: u32
  dns_list :: HevList
  dns_lheap :: lheap
  dns_tree :: HevRBTree
  dns_nodes :: "HevMappedDNSNode heap"
  dns_records :: "addr list"

text \<open>\<open>&node->list\<close>, and \<open>container_of (n, HevMappedDNSNode, list)\<close> back.\<close>

definition node_list :: "addr \<Rightarrow> addr" where
  "node_list node = node + 24"

definition list_node :: "addr \<Rightarrow> addr" where
  "list_node n = n - 24"

text \<open>
  \<open>hev_mapped_dns_construct\<close> on the zeroed memory of \<open>hev_mapped_dns_new\<close>; the result of the
  constructor of the base class is a parameter. Integers are compared as signed.
\<close>

definition hev_mapped_dns_construct :: "int \<Rightarrow> HevMappedDNS \<Rightarrow> u32 \<Rightarrow> u32 \<Rightarrow> u32 \<Rightarrow> HevMappedDNS option" where
  "hev_mapped_dns_construct base self net msk mx =
     (if base < 0 then None
      else if NOT msk <s mx then None
      else Some (self\<lparr>dns_max := mx, dns_net := net, dns_mask := msk\<rparr>))"

definition hev_mapped_dns_new :: "int \<Rightarrow> bool \<Rightarrow> u32 \<Rightarrow> u32 \<Rightarrow> u32 \<Rightarrow> HevMappedDNS option" where
  "hev_mapped_dns_new base malloc_ok net msk mx =
     (if \<not> malloc_ok then None
      else hev_mapped_dns_construct base
        \<lparr>dns_use = 0, dns_max = 0, dns_net = 0, dns_mask = 0,
         dns_list = \<lparr>list_head = NULL, list_tail = NULL\<rparr>, dns_lheap = Map.empty,
         dns_tree = rb_empty, dns_nodes = Map.empty, dns_records = replicate (nat (sint mx)) NULL\<rparr>
        net msk mx)"

text \<open>
  \<open>hev_mapped_dns_node_alloc\<close> on the address \<open>node\<close> that \<open>hev_malloc0\<close> returned, and
  \<open>hev_mapped_dns_node_free\<close>.
\<close>

definition hev_mapped_dns_node_alloc :: "HevMappedDNS \<Rightarrow> addr \<Rightarrow> cstring \<Rightarrow> HevMappedDNS" where
  "hev_mapped_dns_node_alloc self node name =
     self\<lparr>dns_nodes := (dns_nodes self)(node \<mapsto> \<lparr>dn_name = name, dn_idx = 0\<rparr>),
          dns_tree := rb_alloc (dns_tree self) node,
          dns_lheap := (dns_lheap self)(node_list node \<mapsto> \<lparr>ln_next = NULL, ln_prev = NULL\<rparr>)\<rparr>"

definition hev_mapped_dns_node_free :: "HevMappedDNS \<Rightarrow> addr \<Rightarrow> HevMappedDNS" where
  "hev_mapped_dns_node_free self node =
     self\<lparr>dns_nodes := (dns_nodes self)(node := None),
          dns_tree := rb_free (dns_tree self) node,
          dns_lheap := (dns_lheap self)(node_list node := None)\<rparr>"

text \<open>The list operations on the list of the cache, and the move of a node to its tail.\<close>

definition dns_list_add_tail :: "HevMappedDNS \<Rightarrow> addr \<Rightarrow> HevMappedDNS option" where
  "dns_list_add_tail self n =
     map_option (\<lambda>(l, h). self\<lparr>dns_list := l, dns_lheap := h\<rparr>) (hev_list_add_tail (dns_list self) (dns_lheap self) n)"

definition dns_list_del :: "HevMappedDNS \<Rightarrow> addr \<Rightarrow> HevMappedDNS option" where
  "dns_list_del self n =
     map_option (\<lambda>(l, h). self\<lparr>dns_list := l, dns_lheap := h\<rparr>) (hev_list_del (dns_list self) (dns_lheap self) n)"

definition dns_touch :: "HevMappedDNS \<Rightarrow> addr \<Rightarrow> HevMappedDNS option" where
  "dns_touch self node = do {
     self \<leftarrow> dns_list_del self (node_list node);
     dns_list_add_tail self (node_list node)
   }"

text \<open>The comparison of the walk over the tree.\<close>

definition name_cmp :: "HevMappedDNS \<Rightarrow> cstring \<Rightarrow> addr \<Rightarrow> int option" where
  "name_cmp self name node = map_option (\<lambda>n. strcmp (dn_name n) name) (deref (dns_nodes self) node)"

text \<open>The eviction of the least recently used node, with its index.\<close>

definition dns_evict :: "HevMappedDNS \<Rightarrow> (HevMappedDNS \<times> u32) option" where
  "dns_evict self = (let nl = hev_list_first (dns_list self); nf = list_node nl in do {
     n \<leftarrow> deref (dns_nodes self) nf;
     tree \<leftarrow> hev_rbtree_erase (dns_tree self) nf;
     self \<leftarrow> dns_list_del (self\<lparr>dns_tree := tree\<rparr>) nl;
     Some (hev_mapped_dns_node_free self nf, dn_idx n)
   })"

text \<open>\<open>self->records[idx] = node; node->idx = idx; return node->idx\<close>, within the array.\<close>

definition dns_record :: "HevMappedDNS \<Rightarrow> addr \<Rightarrow> u32 \<Rightarrow> (HevMappedDNS \<times> u32) option" where
  "dns_record self node idx =
     (if 0 \<le>s idx \<and> unat idx < length (dns_records self) then do {
        h \<leftarrow> assign (dns_nodes self) node (\<lambda>n. n\<lparr>dn_idx := idx\<rparr>);
        n \<leftarrow> deref h node;
        Some (self\<lparr>dns_records := (dns_records self)[unat idx := node], dns_nodes := h\<rparr>, dn_idx n)
      } else None)"

text \<open>
  \<open>hev_mapped_dns_find\<close>; \<open>malloc\<close> is the result of the allocation of a node in a state. No
  result stands for an access outside a live object, the index \<open>-1\<close> for a failed allocation.
\<close>

definition hev_mapped_dns_find ::
  "(HevMappedDNS \<Rightarrow> addr option) \<Rightarrow> HevMappedDNS \<Rightarrow> cstring \<Rightarrow> (HevMappedDNS \<times> u32) option" where
  "hev_mapped_dns_find malloc self name = (let idx = dns_use self in do {
     res \<leftarrow> tree_search (name_cmp self name) (dns_tree self) RootLink NULL;
     case res of
       Found node \<Rightarrow> do {
         self \<leftarrow> dns_touch self node;
         n \<leftarrow> deref (dns_nodes self) node;
         Some (self, dn_idx n)
       }
     | Slot parent new \<Rightarrow>
         (case malloc self of None \<Rightarrow> Some (self, -1)
          | Some node \<Rightarrow> do {
              let self = hev_mapped_dns_node_alloc self node name;
              tree \<leftarrow> hev_rbtree_insert_at (dns_tree self) node parent new;
              self \<leftarrow> dns_list_add_tail (self\<lparr>dns_tree := tree\<rparr>) (node_list node);
              (self, idx) \<leftarrow> (if dns_use self <s dns_max self then Some (self\<lparr>dns_use := dns_use self + 1\<rparr>, idx)
                             else dns_evict self);
              dns_record self node idx
            })
   })"

definition hev_mapped_dns_lookup :: "HevMappedDNS \<Rightarrow> u32 \<Rightarrow> (HevMappedDNS \<times> cstring option) option" where
  "hev_mapped_dns_lookup self ip = (let idx = ip AND NOT (dns_mask self) in
     if dns_max self \<le>s idx then Some (self, None)
     else if \<not> (0 \<le>s idx \<and> unat idx < length (dns_records self)) then None
     else let node = dns_records self ! unat idx in
       if node = NULL then Some (self, None)
       else do {
         self \<leftarrow> dns_touch self node;
         n \<leftarrow> deref (dns_nodes self) node;
         Some (self, Some (dn_name n))
       })"

text \<open>The nodes the destructor frees, walking the list.\<close>

partial_function (option) destruct_loop :: "HevMappedDNS \<Rightarrow> addr \<Rightarrow> HevMappedDNS option" where
  "destruct_loop self n =
     (if n = NULL then Some self
      else do {
        n' \<leftarrow> hev_list_node_next (dns_lheap self) n;
        destruct_loop (hev_mapped_dns_node_free self (list_node n)) n'
      })"

definition hev_mapped_dns_destruct :: "HevMappedDNS \<Rightarrow> HevMappedDNS option" where
  "hev_mapped_dns_destruct self = destruct_loop self (hev_list_first (dns_list self))"

section \<open>Specification: a cache in order of last use\<close>

text \<open>The least recently used entry comes first; an entry is a name with its index.\<close>

type_synonym lru = "(cstring \<times> nat) list"

definition lru_touch :: "(cstring \<times> nat) \<Rightarrow> lru \<Rightarrow> lru" where
  "lru_touch e c = remove1 e c @ [e]"

definition lru_find :: "nat \<Rightarrow> cstring \<Rightarrow> lru \<Rightarrow> lru \<times> nat" where
  "lru_find mx name c =
     (case map_of c name of
        Some i \<Rightarrow> (lru_touch (name, i) c, i)
      | None \<Rightarrow> if length c < mx then (c @ [(name, length c)], length c)
               else (tl c @ [(name, snd (hd c))], snd (hd c)))"

definition lru_lookup :: "nat \<Rightarrow> lru \<Rightarrow> lru \<times> cstring option" where
  "lru_lookup i c =
     (case find (\<lambda>e. snd e = i) c of
        Some e \<Rightarrow> (lru_touch e c, Some (fst e))
      | None \<Rightarrow> (c, None))"

section \<open>Invariant and abstraction\<close>

definition name_of :: "HevMappedDNS \<Rightarrow> addr \<Rightarrow> cstring" where
  "name_of self a = (case dns_nodes self a of Some n \<Rightarrow> dn_name n | None \<Rightarrow> [])"

definition idx_of :: "HevMappedDNS \<Rightarrow> addr \<Rightarrow> nat" where
  "idx_of self a = (case dns_nodes self a of Some n \<Rightarrow> unat (dn_idx n) | None \<Rightarrow> 0)"

definition dns_abs :: "HevMappedDNS \<Rightarrow> addr list \<Rightarrow> lru" where
  "dns_abs self xs = map (\<lambda>a. (name_of self a, idx_of self a)) xs"

text \<open>The nodes \<open>xs\<close> in order of last use are exactly the allocated ones, in all three structures.\<close>

definition dns_shape :: "HevMappedDNS \<Rightarrow> addr list \<Rightarrow> bool" where
  "dns_shape self xs \<longleftrightarrow>
     list_rep (dns_list self) (dns_lheap self) (map node_list xs) \<and>
     (\<exists>ys. rb_seq (dns_tree self) ys \<and> set ys = set xs \<and> key_order strcmp (name_of self) ys) \<and>
     dom (dns_nodes self) = set xs \<and> dom (dns_lheap self) = node_list ` set xs \<and>
     dom (nodes (dns_tree self)) = set xs"

text \<open>The array of records holds at each index in use the node with that index.\<close>

definition dns_index :: "HevMappedDNS \<Rightarrow> addr list \<Rightarrow> bool" where
  "dns_index self xs \<longleftrightarrow>
     0 <s dns_max self \<and> length (dns_records self) = unat (dns_max self) \<and>
     unat (dns_use self) = length xs \<and> length xs \<le> unat (dns_max self) \<and>
     (\<forall>i. length xs \<le> i \<and> i < length (dns_records self) \<longrightarrow> dns_records self ! i = NULL) \<and>
     (\<forall>i < length xs. dns_records self ! i \<in> set xs \<and> idx_of self (dns_records self ! i) = i)"

definition dns_inv :: "HevMappedDNS \<Rightarrow> addr list \<Rightarrow> bool" where
  "dns_inv self xs \<longleftrightarrow> dns_shape self xs \<and> dns_index self xs"

section \<open>The structures of the cache\<close>

interpretation names: keyed_tree rb_seq "\<lambda>dir self. tree_search dir self RootLink NULL" hev_rbtree_insert_at
  hev_rbtree_erase rb_alloc rb_free "\<lambda>self. dom (nodes self)" strcmp
proof (unfold_locales, goal_cases)
  case (2 a b)
  then show ?case using strcmp_swap [of a b] by simp
next
  case (3 a b c)
  then show ?case using strcmp_trans [of c b a] strcmp_swap [of a b] strcmp_swap [of b c] strcmp_swap [of a c] by simp
qed auto

lemma node_list_inj [simp]: "node_list a = node_list b \<longleftrightarrow> a = b"
  by (simp add: node_list_def)

lemma list_node_list [simp]: "list_node (node_list a) = a"
  by (simp add: node_list_def list_node_def)

lemma node_list_image [simp]: "node_list a \<in> node_list ` A \<longleftrightarrow> a \<in> A"
  by auto

lemma map_remove1_inj: "inj_on f (set xs) \<Longrightarrow> a \<in> set xs \<Longrightarrow> map f (remove1 a xs) = remove1 (f a) (map f xs)"
  by (induction xs) (auto simp: inj_on_def)

lemma shape_tree:
  assumes "dns_shape self xs"
  obtains ys where "rb_seq (dns_tree self) ys" "set ys = set xs" "key_order strcmp (name_of self) ys" "distinct ys"
  using assms rbt.seq_distinct by (auto simp: dns_shape_def)

lemma shape_facts:
  assumes "dns_shape self xs"
  shows "distinct xs" and "a \<in> set xs \<Longrightarrow> aligned a" and "a \<in> set xs \<Longrightarrow> node_list a \<noteq> NULL"
    and "a \<in> set xs \<Longrightarrow> \<exists>n. dns_nodes self a = Some n"
    and "a \<in> set xs \<Longrightarrow> b \<in> set xs \<Longrightarrow> name_of self a = name_of self b \<Longrightarrow> a = b"
proof -
  have "list_rep (dns_list self) (dns_lheap self) (map node_list xs)" using assms by (simp add: dns_shape_def)
  then have "distinct (map node_list xs)" "NULL \<notin> set (map node_list xs)"
    by (rule list_rep_distinct, rule list_rep_nonnull)
  then show "distinct xs" "a \<in> set xs \<Longrightarrow> node_list a \<noteq> NULL" by (force simp: distinct_map)+
  from assms obtain ys where ys: "rb_seq (dns_tree self) ys" "set ys = set xs" "key_order strcmp (name_of self) ys" "distinct ys"
    by (rule shape_tree)
  then show "a \<in> set xs \<Longrightarrow> aligned a" using rbt.seq_aligned by blast
  show "a \<in> set xs \<Longrightarrow> \<exists>n. dns_nodes self a = Some n" using assms by (auto simp: dns_shape_def)
  show "a \<in> set xs \<Longrightarrow> b \<in> set xs \<Longrightarrow> name_of self a = name_of self b \<Longrightarrow> a = b"
    using names.key_unique [OF ys(3,4)] ys(2) by blast
qed

lemma name_cmp_of: "dns_nodes self a = Some n \<Longrightarrow> a \<noteq> NULL \<Longrightarrow> name_cmp self name a = Some (strcmp (name_of self a) name)"
  by (simp add: name_cmp_def name_of_def deref_def)

text \<open>A node moved to the tail of the list.\<close>

lemma dns_touch_shape:
  assumes sh: "dns_shape self xs" and a: "a \<in> set xs"
  shows "\<exists>l h. dns_touch self a = Some (self\<lparr>dns_list := l, dns_lheap := h\<rparr>) \<and>
    dns_shape (self\<lparr>dns_list := l, dns_lheap := h\<rparr>) (remove1 a xs @ [a])"
proof -
  have rep: "list_rep (dns_list self) (dns_lheap self) (map node_list xs)" using sh by (simp add: dns_shape_def)
  have "node_list a \<in> set (map node_list xs)" using a by simp
  with rep obtain l1 h1 l2 h2 where t: "hev_list_del (dns_list self) (dns_lheap self) (node_list a) = Some (l1, h1)"
    "hev_list_add_tail l1 h1 (node_list a) = Some (l2, h2)"
    "list_rep l2 h2 (remove1 (node_list a) (map node_list xs) @ [node_list a])"
    "dom h2 = dom (dns_lheap self)"
    by (rule hl.touch)
  have m: "remove1 (node_list a) (map node_list xs) @ [node_list a] = map node_list (remove1 a xs @ [a])"
    using a map_remove1_inj [of node_list xs a] by (simp add: inj_on_def)
  have s: "set (remove1 a xs @ [a]) = set xs" using a shape_facts(1) [OF sh] by auto
  have n: "name_of (self\<lparr>dns_list := l2, dns_lheap := h2\<rparr>) = name_of self" by (simp add: name_of_def fun_eq_iff)
  have "dns_shape (self\<lparr>dns_list := l2, dns_lheap := h2\<rparr>) (remove1 a xs @ [a])"
    using sh t(3,4) unfolding dns_shape_def s n m by simp
  then show ?thesis using t(1,2)
    by (intro exI [of _ l2] exI [of _ h2]) (simp add: dns_touch_def dns_list_del_def dns_list_add_tail_def)
qed

text \<open>The walk by name: the node with the name, or a place for a new one.\<close>

lemma dns_search:
  assumes sh: "dns_shape self xs"
  obtains (found) m where "m \<in> set xs" "name_of self m = name"
      "tree_search (name_cmp self name) (dns_tree self) RootLink NULL = Some (Found m)"
  | (slot) p l where "name \<notin> name_of self ` set xs"
      "tree_search (name_cmp self name) (dns_tree self) RootLink NULL = Some (Slot p l)"
      "\<And>n. aligned n \<Longrightarrow> n \<notin> set xs \<Longrightarrow> \<exists>t ys. hev_rbtree_insert_at (rb_alloc (dns_tree self) n) n p l = Some t \<and>
        rb_seq t ys \<and> set ys = insert n (set xs) \<and> key_order strcmp ((name_of self)(n := name)) ys \<and>
        dom (nodes t) = insert n (set xs)"
proof -
  from sh obtain ys where ys: "rb_seq (dns_tree self) ys" "set ys = set xs" "key_order strcmp (name_of self) ys"
    by (rule shape_tree)
  have dir: "\<forall>x \<in> set ys. name_cmp self name x = Some (strcmp (name_of self x) name)"
  proof
    fix x assume "x \<in> set ys"
    with ys(2) have x: "x \<in> set xs" by simp
    then obtain n where "dns_nodes self x = Some n" using shape_facts(4) [OF sh] by blast
    moreover have "x \<noteq> NULL" using shape_facts(2) [OF sh x] by simp
    ultimately show "name_cmp self name x = Some (strcmp (name_of self x) name)" by (rule name_cmp_of)
  qed
  show thesis
  proof (cases rule: names.lookup [OF ys(1,3) dir, case_names found slot])
    case (found m)
    then show ?thesis using that(1) ys(2) by blast
  next
    case (slot p l ls rs)
    have "\<exists>t zs. hev_rbtree_insert_at (rb_alloc (dns_tree self) n) n p l = Some t \<and>
        rb_seq t zs \<and> set zs = insert n (set xs) \<and> key_order strcmp ((name_of self)(n := name)) zs \<and>
        dom (nodes t) = insert n (set xs)" if n: "aligned n" "n \<notin> set xs" for n
    proof -
      let ?t = "rb_alloc (dns_tree self) n"
      have al: "rb_seq ?t ys" "tree_search (name_cmp self name) ?t RootLink NULL = Some (Slot p l)"
        "dom (nodes ?t) = insert n (set xs)"
        using rbt.alloc_seq [OF ys(1), of n] n ys(2) slot(3) sh by (auto simp: dns_shape_def)
      show ?thesis
      proof (rule names.lookup [OF al(1) ys(3) dir])
        fix m assume "tree_search (name_cmp self name) ?t RootLink NULL = Some (Found m)"
        with al show ?thesis by simp
      next
        fix p' l' ls' rs'
        assume s: "ys = ls' @ rs'" "tree_search (name_cmp self name) ?t RootLink NULL = Some (Slot p' l')"
          "\<forall>x \<in> set ls'. 0 < strcmp (name_of self x) name" "\<forall>x \<in> set rs'. strcmp (name_of self x) name < 0"
          and ins: "\<And>n. aligned n \<Longrightarrow> n \<in> dom (nodes ?t) \<Longrightarrow> n \<notin> set ys \<Longrightarrow>
            \<exists>t'. hev_rbtree_insert_at ?t n p' l' = Some t' \<and> rb_seq t' (ls' @ n # rs') \<and> dom (nodes t') = dom (nodes ?t)"
        from ins [OF n(1)] n(2) al ys(2) obtain t' where t': "hev_rbtree_insert_at ?t n p' l' = Some t'"
          "rb_seq t' (ls' @ n # rs')" "dom (nodes t') = dom (nodes ?t)" by auto
        have "key_order strcmp ((name_of self)(n := name)) (ls' @ n # rs')"
          using ys n s by (intro names.key_order_insert) auto
        moreover have "p' = p" "l' = l" using al(2) s(2) by simp_all
        moreover have "set (ls' @ n # rs') = insert n (set xs)" using s(1) ys(2) by auto
        ultimately show ?thesis using t' al(3) by metis
      qed
    qed
    moreover have "name \<notin> name_of self ` set xs" using slot(2) ys(2) by simp
    ultimately show ?thesis using that(2) [OF _ slot(3)] by simp
  qed
qed

text \<open>A new node, in the tree and at the tail of the list.\<close>

definition fresh_node :: "HevMappedDNS \<Rightarrow> addr \<Rightarrow> bool" where
  "fresh_node self n \<longleftrightarrow> aligned n \<and> node_list n \<noteq> NULL \<and> n \<notin> dom (dns_nodes self)"

lemma dns_add_shape:
  assumes sh: "dns_shape self xs" and n: "fresh_node self n"
    and t: "rb_seq t ys" "set ys = insert n (set xs)" "key_order strcmp ((name_of self)(n := name)) ys"
      "dom (nodes t) = insert n (set xs)"
  shows "\<exists>l h. dns_list_add_tail (hev_mapped_dns_node_alloc self n name\<lparr>dns_tree := t\<rparr>) (node_list n) =
      Some (self\<lparr>dns_nodes := (dns_nodes self)(n \<mapsto> \<lparr>dn_name = name, dn_idx = 0\<rparr>), dns_tree := t,
        dns_list := l, dns_lheap := h\<rparr>) \<and>
    dns_shape (self\<lparr>dns_nodes := (dns_nodes self)(n \<mapsto> \<lparr>dn_name = name, dn_idx = 0\<rparr>), dns_tree := t,
        dns_list := l, dns_lheap := h\<rparr>) (xs @ [n])"
proof -
  have rep: "list_rep (dns_list self) (dns_lheap self) (map node_list xs)" and dom: "dom (dns_lheap self) = node_list ` set xs"
    "dom (dns_nodes self) = set xs" using sh by (auto simp: dns_shape_def)
  have nx: "n \<notin> set xs" using n dom by (simp add: fresh_node_def)
  let ?h = "(dns_lheap self)(node_list n \<mapsto> \<lparr>ln_next = NULL, ln_prev = NULL\<rparr>)"
  have "frame {node_list n} (dns_lheap self) ?h" by (auto simp: frame_def)
  then have "list_rep (dns_list self) ?h (map node_list xs)"
    using nx by (intro hl.rep_frame [OF _ _ rep]) auto
  from hl.add_tail_rep [OF this, of "node_list n"] nx n obtain l h where
    l: "hev_list_add_tail (dns_list self) ?h (node_list n) = Some (l, h)" "list_rep l h (map node_list xs @ [node_list n])"
      "dom h = dom ?h"
    by (auto simp: fresh_node_def)
  let ?self = "self\<lparr>dns_nodes := (dns_nodes self)(n \<mapsto> \<lparr>dn_name = name, dn_idx = 0\<rparr>), dns_tree := t,
        dns_list := l, dns_lheap := h\<rparr>"
  have nm: "name_of ?self = (name_of self)(n := name)" by (auto simp: name_of_def fun_eq_iff)
  have "dns_shape ?self (xs @ [n])"
    unfolding dns_shape_def nm using l t dom by (auto intro: exI [of _ ys])
  then show ?thesis using l(1)
    by (intro exI [of _ l] exI [of _ h]) (simp add: dns_list_add_tail_def hev_mapped_dns_node_alloc_def)
qed

lemma dns_evict_shape:
  assumes sh: "dns_shape self (a # xs)"
  shows "\<exists>l h t. dns_evict self = Some (self\<lparr>dns_nodes := (dns_nodes self)(a := None), dns_tree := t,
        dns_list := l, dns_lheap := h\<rparr>, dn_idx (the (dns_nodes self a))) \<and>
    dns_shape (self\<lparr>dns_nodes := (dns_nodes self)(a := None), dns_tree := t, dns_list := l, dns_lheap := h\<rparr>) xs"
proof -
  have rep: "list_rep (dns_list self) (dns_lheap self) (node_list a # map node_list xs)"
    and dom: "dom (dns_lheap self) = insert (node_list a) (node_list ` set xs)" "dom (dns_nodes self) = insert a (set xs)"
      "dom (nodes (dns_tree self)) = insert a (set xs)"
    using sh by (auto simp: dns_shape_def)
  have f: "hev_list_first (dns_list self) = node_list a" using hl.rep_first [OF rep] by simp
  have a: "a \<notin> set xs" "a \<noteq> NULL" "distinct xs" using shape_facts(1,2) [OF sh] by auto
  from hl.del_rep [of "dns_list self" "dns_lheap self" "[]" "node_list a" "map node_list xs"] rep obtain l h where
    l: "hev_list_del (dns_list self) (dns_lheap self) (node_list a) = Some (l, h)" "list_rep l h (map node_list xs)"
      "dom h = dom (dns_lheap self)" by auto
  from sh obtain ys where ys: "rb_seq (dns_tree self) ys" "set ys = insert a (set xs)" "key_order strcmp (name_of self) ys"
    "distinct ys" by (rule shape_tree) auto
  have "a \<in> set ys" using ys(2) by simp
  with ys(1) obtain t where t: "hev_rbtree_erase (dns_tree self) a = Some t" "rb_seq t (remove1 a ys)"
    "dom (nodes t) = dom (nodes (dns_tree self))" by (rule rbt.erase_remove1)
  have s: "set (remove1 a ys) = set xs" using ys(2,4) a by auto
  let ?t = "rb_free t a" and ?h = "h(node_list a := None)"
  have ft: "rb_seq ?t (remove1 a ys)" "dom (nodes ?t) = set xs"
    using rbt.release_seq [OF t(2), of a] s a t(3) dom(3) by auto
  have fl: "list_rep l ?h (map node_list xs)" "dom ?h = node_list ` set xs"
    using l a dom hl.rep_frame [of "{node_list a}" h ?h] by (auto simp: frame_def)
  let ?self = "self\<lparr>dns_nodes := (dns_nodes self)(a := None), dns_tree := ?t, dns_list := l, dns_lheap := ?h\<rparr>"
  have nm: "key_order strcmp (name_of ?self) (remove1 a ys)"
  proof -
    have "key_order strcmp (name_of self) (remove1 a ys)" using ys(3) by (rule names.key_order_remove1)
    moreover have "\<forall>x \<in> set (remove1 a ys). name_of ?self x = name_of self x" using s a by (auto simp: name_of_def)
    ultimately show ?thesis unfolding key_order_def by (auto elim!: sorted_wrt_mono_rel [rotated])
  qed
  have "dns_shape ?self xs"
    unfolding dns_shape_def using ft fl nm s dom a by (auto intro: exI [of _ "remove1 a ys"])
  moreover obtain n where "dns_nodes self a = Some n" using dom(2) by blast
  ultimately show ?thesis using l(1) t(1) f a
    by (intro exI [of _ l] exI [of _ ?h] exI [of _ ?t])
      (simp add: dns_evict_def deref_def dns_list_del_def hev_mapped_dns_node_free_def Let_def)
qed

lemma dns_record_shape:
  assumes sh: "dns_shape self xs" and a: "a \<in> set xs" and i: "0 \<le>s i" "unat i < length (dns_records self)"
  shows "\<exists>n. dns_nodes self a = Some n \<and> dns_record self a i =
      Some (self\<lparr>dns_records := (dns_records self)[unat i := a], dns_nodes := (dns_nodes self)(a \<mapsto> n\<lparr>dn_idx := i\<rparr>)\<rparr>, i) \<and>
    dns_shape (self\<lparr>dns_records := (dns_records self)[unat i := a], dns_nodes := (dns_nodes self)(a \<mapsto> n\<lparr>dn_idx := i\<rparr>)\<rparr>) xs"
proof -
  obtain n where n: "dns_nodes self a = Some n" using shape_facts(4) [OF sh a] by blast
  have "a \<noteq> NULL" using shape_facts(2) [OF sh a] by simp
  let ?self = "self\<lparr>dns_records := (dns_records self)[unat i := a], dns_nodes := (dns_nodes self)(a \<mapsto> n\<lparr>dn_idx := i\<rparr>)\<rparr>"
  have "name_of ?self = name_of self" using n by (auto simp: name_of_def fun_eq_iff)
  then have "dns_shape ?self xs" using sh a by (auto simp: dns_shape_def)
  then show ?thesis using n i \<open>a \<noteq> NULL\<close> by (auto simp: dns_record_def assign_def deref_def)
qed
section \<open>Refinement of the specification\<close>

lemma index_facts:
  assumes ix: "dns_index self xs" and d: "distinct xs" and a: "a \<in> set xs"
  shows "idx_of self a < length xs" and "dns_records self ! idx_of self a = a"
proof -
  let ?f = "\<lambda>i. dns_records self ! i"
  have "inj_on ?f {..<length xs}" using ix by (auto simp: dns_index_def inj_on_def) metis
  then have "card (?f ` {..<length xs}) = card (set xs)" using d by (simp add: card_image distinct_card)
  moreover have "?f ` {..<length xs} \<subseteq> set xs" using ix by (auto simp: dns_index_def)
  ultimately have "?f ` {..<length xs} = set xs" by (simp add: card_subset_eq)
  with a obtain i where "i < length xs" "a = ?f i" by auto
  then show "idx_of self a < length xs" "dns_records self ! idx_of self a = a"
    using ix by (auto simp: dns_index_def)
qed

lemma index_max: "dns_index self xs \<Longrightarrow> unat (dns_max self) < 2 ^ 31"
  using sle_zero_iff [of "dns_max self"] by (auto simp: dns_index_def word_sless_alt word_sle_eq)

lemma abs_map_of:
  assumes sh: "dns_shape self xs"
  shows "m \<in> set xs \<Longrightarrow> map_of (dns_abs self xs) (name_of self m) = Some (idx_of self m)"
    and "name \<notin> name_of self ` set xs \<Longrightarrow> map_of (dns_abs self xs) name = None"
proof -
  have "distinct (map fst (dns_abs self xs))"
    using shape_facts(1,5) [OF sh] by (auto simp: dns_abs_def distinct_map inj_on_def o_def)
  then show "m \<in> set xs \<Longrightarrow> map_of (dns_abs self xs) (name_of self m) = Some (idx_of self m)"
    by (auto simp: dns_abs_def intro!: map_of_is_SomeI)
  show "name \<notin> name_of self ` set xs \<Longrightarrow> map_of (dns_abs self xs) name = None"
    by (auto simp: dns_abs_def map_of_eq_None_iff)
qed

lemma abs_touch:
  assumes sh: "dns_shape self xs" and m: "m \<in> set xs"
  shows "dns_abs self (remove1 m xs @ [m]) = lru_touch (name_of self m, idx_of self m) (dns_abs self xs)"
proof -
  have "inj_on (\<lambda>a. (name_of self a, idx_of self a)) (set xs)"
    using shape_facts(5) [OF sh] by (auto simp: inj_on_def)
  then show ?thesis using m by (simp add: dns_abs_def lru_touch_def map_remove1_inj)
qed

text \<open>The three ways \<open>hev_mapped_dns_find\<close> can go.\<close>

lemma dns_touch_inv:
  assumes inv: "dns_inv self xs" and m: "m \<in> set xs"
  shows "\<exists>l h. dns_touch self m = Some (self\<lparr>dns_list := l, dns_lheap := h\<rparr>) \<and>
    dns_inv (self\<lparr>dns_list := l, dns_lheap := h\<rparr>) (remove1 m xs @ [m]) \<and>
    dns_abs (self\<lparr>dns_list := l, dns_lheap := h\<rparr>) (remove1 m xs @ [m]) =
      lru_touch (name_of self m, idx_of self m) (dns_abs self xs)"
proof -
  have sh: "dns_shape self xs" and ix: "dns_index self xs" using inv by (auto simp: dns_inv_def)
  obtain l h where t: "dns_touch self m = Some (self\<lparr>dns_list := l, dns_lheap := h\<rparr>)"
    "dns_shape (self\<lparr>dns_list := l, dns_lheap := h\<rparr>) (remove1 m xs @ [m])"
    using dns_touch_shape [OF sh m] by blast
  let ?self = "self\<lparr>dns_list := l, dns_lheap := h\<rparr>"
  have s: "set (remove1 m xs @ [m]) = set xs" "length (remove1 m xs @ [m]) = length xs"
    using m shape_facts(1) [OF sh] length_pos_if_in_set [OF m] by (auto simp: length_remove1)
  have e: "name_of ?self = name_of self" "idx_of ?self = idx_of self" by (auto simp: name_of_def idx_of_def fun_eq_iff)
  have "dns_index ?self (remove1 m xs @ [m])" using ix unfolding dns_index_def s e by simp
  moreover have "dns_abs ?self (remove1 m xs @ [m]) = dns_abs self (remove1 m xs @ [m])"
    by (simp add: dns_abs_def e)
  ultimately show ?thesis using t abs_touch [OF sh m] by (auto simp: dns_inv_def)
qed

lemma dns_record_inv:
  assumes sh: "dns_shape self (xs @ [n])" and i: "i < unat (dns_max self)" "unat w = i" and mx: "0 <s dns_max self"
    and len: "length (dns_records self) = unat (dns_max self)" "unat (dns_use self) = length xs + 1"
      "length xs + 1 \<le> unat (dns_max self)"
    and nul: "\<forall>j. length xs + 1 \<le> j \<and> j < length (dns_records self) \<longrightarrow> dns_records self ! j = NULL"
    and rec: "\<forall>j < length xs + 1. j \<noteq> i \<longrightarrow> dns_records self ! j \<in> set xs \<and> idx_of self (dns_records self ! j) = j"
    and il: "i < length xs + 1"
  shows "\<exists>self'. dns_record self n w = Some (self', w) \<and> dns_inv self' (xs @ [n]) \<and>
    dns_abs self' (xs @ [n]) = dns_abs self xs @ [(name_of self n, i)] \<and>
    dns_max self' = dns_max self \<and> dns_net self' = dns_net self \<and> dns_mask self' = dns_mask self"
proof -
  have m31: "unat (dns_max self) < 2 ^ 31" using mx sle_zero_iff [of "dns_max self"] by (auto simp: word_sless_alt word_sle_eq)
  then have w: "0 \<le>s w" "unat w < length (dns_records self)" using i len by (auto simp: sle_zero_iff)
  obtain d where d: "dns_nodes self n = Some d" "dns_record self n w =
      Some (self\<lparr>dns_records := (dns_records self)[unat w := n], dns_nodes := (dns_nodes self)(n \<mapsto> d\<lparr>dn_idx := w\<rparr>)\<rparr>, w)"
    "dns_shape (self\<lparr>dns_records := (dns_records self)[unat w := n], dns_nodes := (dns_nodes self)(n \<mapsto> d\<lparr>dn_idx := w\<rparr>)\<rparr>) (xs @ [n])"
    using dns_record_shape [OF sh _ w] by auto
  let ?self = "self\<lparr>dns_records := (dns_records self)[unat w := n], dns_nodes := (dns_nodes self)(n \<mapsto> d\<lparr>dn_idx := w\<rparr>)\<rparr>"
  have n: "n \<notin> set xs" using shape_facts(1) [OF sh] by simp
  have e: "name_of ?self = name_of self" "idx_of ?self n = i"
    using d(1) i(2) by (auto simp: name_of_def idx_of_def fun_eq_iff)
  have e3: "\<forall>a \<in> set xs. idx_of ?self a = idx_of self a" using n by (auto simp: idx_of_def)
  then have "dns_abs ?self (xs @ [n]) = dns_abs self xs @ [(name_of self n, i)]"
    using e(1,2) by (simp add: dns_abs_def)
  moreover have "dns_index ?self (xs @ [n])"
    using mx len nul rec n e(2) e3 i il by (auto simp: dns_index_def nth_list_update)
  ultimately show ?thesis using d by (auto simp: dns_inv_def)
qed


text \<open>
  The state of \<open>self\<close> with a new node \<open>n\<close> in the tree and the list: while there is room the node
  takes the next index, otherwise it takes the one of the node evicted.
\<close>

definition with_node :: "HevMappedDNS \<Rightarrow> addr \<Rightarrow> cstring \<Rightarrow> HevRBTree \<Rightarrow> HevList \<Rightarrow> lheap \<Rightarrow> HevMappedDNS" where
  "with_node self n name t l h =
     self\<lparr>dns_nodes := (dns_nodes self)(n \<mapsto> \<lparr>dn_name = name, dn_idx = 0\<rparr>), dns_tree := t, dns_list := l, dns_lheap := h\<rparr>"

lemma with_node_fields [simp]:
  "dns_records (with_node self n name t l h) = dns_records self" "dns_max (with_node self n name t l h) = dns_max self"
  "dns_use (with_node self n name t l h) = dns_use self" "dns_net (with_node self n name t l h) = dns_net self"
  "dns_mask (with_node self n name t l h) = dns_mask self"
  by (simp_all add: with_node_def)

lemma with_node_facts:
  "name_of (with_node self n name t l h) n = name"
  "n \<notin> set xs \<Longrightarrow> x \<in> set xs \<Longrightarrow> name_of (with_node self n name t l h) x = name_of self x"
  "n \<notin> set xs \<Longrightarrow> x \<in> set xs \<Longrightarrow> idx_of (with_node self n name t l h) x = idx_of self x"
  by (auto simp: with_node_def name_of_def idx_of_def)

lemma dns_grow_inv:
  assumes ix: "dns_index self xs" and sh: "dns_shape (with_node self n name t l h) (xs @ [n])"
    and room: "length xs < unat (dns_max self)"
  shows "\<exists>self'. dns_record ((with_node self n name t l h)\<lparr>dns_use := dns_use self + 1\<rparr>) n (dns_use self) = Some (self', dns_use self) \<and>
    dns_inv self' (xs @ [n]) \<and> dns_abs self' (xs @ [n]) = dns_abs self xs @ [(name, length xs)] \<and>
    dns_max self' = dns_max self \<and> dns_net self' = dns_net self \<and> dns_mask self' = dns_mask self"
proof -
  have n: "n \<notin> set xs" using shape_facts(1) [OF sh] by simp
  let ?self = "(with_node self n name t l h)\<lparr>dns_use := dns_use self + 1\<rparr>"
  have e: "name_of ?self = name_of (with_node self n name t l h)" "idx_of ?self = idx_of (with_node self n name t l h)"
    by (auto simp: name_of_def idx_of_def fun_eq_iff)
  have "dns_shape ?self (xs @ [n])" using sh unfolding dns_shape_def e by simp
  moreover have "unat (dns_use self + 1) = length xs + 1"
    using ix room index_max [OF ix] by (simp add: dns_index_def unat_word_ariths)
  moreover have "\<forall>j < length xs + 1. j \<noteq> length xs \<longrightarrow> dns_records ?self ! j \<in> set xs \<and> idx_of ?self (dns_records ?self ! j) = j"
    unfolding e using ix n with_node_facts(3) [OF n] by (auto simp: dns_index_def)
  ultimately obtain self' where s: "dns_record ?self n (dns_use self) = Some (self', dns_use self)" "dns_inv self' (xs @ [n])"
    "dns_abs self' (xs @ [n]) = dns_abs ?self xs @ [(name_of ?self n, length xs)]"
    "dns_max self' = dns_max self" "dns_net self' = dns_net self" "dns_mask self' = dns_mask self"
    using dns_record_inv [of ?self xs n "length xs" "dns_use self"] ix room by (auto simp: dns_index_def)
  moreover have "dns_abs ?self xs = dns_abs self xs" unfolding dns_abs_def e using with_node_facts(2,3) [OF n] by simp
  ultimately show ?thesis using with_node_facts(1) by (simp add: e)
qed

lemma dns_replace_inv:
  assumes ix: "dns_index self xs" and sh0: "dns_shape self xs" and sh: "dns_shape (with_node self n name t l h) (xs @ [n])"
    and full: "length xs = unat (dns_max self)"
  shows "\<exists>self' i. (dns_evict (with_node self n name t l h) \<bind> (\<lambda>(self, idx). dns_record self n idx)) = Some (self', i) \<and>
    dns_inv self' (tl xs @ [n]) \<and> dns_abs self' (tl xs @ [n]) = tl (dns_abs self xs) @ [(name, snd (hd (dns_abs self xs)))] \<and>
    unat i = snd (hd (dns_abs self xs)) \<and>
    dns_max self' = dns_max self \<and> dns_net self' = dns_net self \<and> dns_mask self' = dns_mask self"
proof -
  have n: "n \<notin> set xs" using shape_facts(1) [OF sh] by simp
  have "0 < unat (dns_max self)" using ix sless_unat [of 0 "dns_max self"]
    by (auto simp: dns_index_def word_sless_alt word_sle_eq)
  with full obtain a zs where xs: "xs = a # zs" by (cases xs) auto
  let ?self = "with_node self n name t l h"
  from sh xs have "dns_shape ?self (a # zs @ [n])" by simp
  from dns_evict_shape [OF this] obtain l2 h2 t2 where ev: "dns_evict ?self = Some (?self\<lparr>dns_nodes := (dns_nodes ?self)(a := None),
      dns_tree := t2, dns_list := l2, dns_lheap := h2\<rparr>, dn_idx (the (dns_nodes ?self a)))"
    "dns_shape (?self\<lparr>dns_nodes := (dns_nodes ?self)(a := None), dns_tree := t2, dns_list := l2, dns_lheap := h2\<rparr>) (zs @ [n])"
    by blast
  let ?ev = "?self\<lparr>dns_nodes := (dns_nodes ?self)(a := None), dns_tree := t2, dns_list := l2, dns_lheap := h2\<rparr>"
  let ?w = "dn_idx (the (dns_nodes ?self a))"
  have a: "a \<notin> set zs" "a \<noteq> n" using shape_facts(1) [OF sh] xs by auto
  obtain d where d: "dns_nodes self a = Some d" using shape_facts(4) [OF sh0, of a] xs by auto
  have w: "unat ?w = idx_of self a" using d a by (simp add: with_node_def idx_of_def)
  have e: "name_of ?ev n = name" "\<And>x. x \<in> set zs \<Longrightarrow> name_of ?ev x = name_of self x \<and> idx_of ?ev x = idx_of self x"
    using a n xs by (auto simp: with_node_def name_of_def idx_of_def)
  have i: "idx_of self a < length xs" using index_facts(1) [OF ix shape_facts(1) [OF sh0], of a] xs by simp
  have rec: "\<forall>j < length zs + 1. j \<noteq> idx_of self a \<longrightarrow> dns_records ?ev ! j \<in> set zs \<and> idx_of ?ev (dns_records ?ev ! j) = j"
  proof (intro allI impI)
    fix j assume j: "j < length zs + 1" "j \<noteq> idx_of self a"
    then have r: "dns_records self ! j \<in> set xs" "idx_of self (dns_records self ! j) = j"
      using ix xs by (auto simp: dns_index_def)
    with j xs have "dns_records self ! j \<in> set zs" by auto
    with e(2) r show "dns_records ?ev ! j \<in> set zs \<and> idx_of ?ev (dns_records ?ev ! j) = j"
      by simp
  qed
  obtain self' where s: "dns_record ?ev n ?w = Some (self', ?w)" "dns_inv self' (zs @ [n])"
    "dns_abs self' (zs @ [n]) = dns_abs ?ev zs @ [(name_of ?ev n, idx_of self a)]"
    "dns_max self' = dns_max self" "dns_net self' = dns_net self" "dns_mask self' = dns_mask self"
    using dns_record_inv [OF ev(2) _ w _ _ _ _ _ rec] ix i full xs by (auto simp: dns_index_def)
  moreover have "dns_abs ?ev zs = dns_abs self zs" using e(2) by (simp add: dns_abs_def)
  ultimately show ?thesis using ev(1) e(1) w xs by (auto simp: dns_abs_def)
qed

lemma dns_find_inv:
  assumes inv: "dns_inv self xs" and n: "malloc self = Some n" "fresh_node self n"
  shows "\<exists>self' xs' i. hev_mapped_dns_find malloc self name = Some (self', i) \<and> dns_inv self' xs' \<and>
    (dns_abs self' xs', unat i) = lru_find (unat (dns_max self)) name (dns_abs self xs) \<and>
    dns_max self' = dns_max self \<and> dns_net self' = dns_net self \<and> dns_mask self' = dns_mask self"
proof -
  have sh: "dns_shape self xs" and ix: "dns_index self xs" using inv by (auto simp: dns_inv_def)
  have m31: "unat (dns_max self) < 2 ^ 31" using index_max [OF ix] .
  have nx: "n \<notin> set xs" using n sh by (auto simp: fresh_node_def dns_shape_def)
  show ?thesis
  proof (cases rule: dns_search [OF sh, of name, case_names found slot])
    case (found m)
    obtain l h where t: "dns_touch self m = Some (self\<lparr>dns_list := l, dns_lheap := h\<rparr>)"
      "dns_inv (self\<lparr>dns_list := l, dns_lheap := h\<rparr>) (remove1 m xs @ [m])"
      "dns_abs (self\<lparr>dns_list := l, dns_lheap := h\<rparr>) (remove1 m xs @ [m]) =
        lru_touch (name_of self m, idx_of self m) (dns_abs self xs)"
      using dns_touch_inv [OF inv found(1)] by blast
    obtain d where d: "dns_nodes self m = Some d" using shape_facts(4) [OF sh found(1)] by blast
    have "m \<noteq> NULL" using shape_facts(2) [OF sh found(1)] by simp
    then have "hev_mapped_dns_find malloc self name = Some (self\<lparr>dns_list := l, dns_lheap := h\<rparr>, dn_idx d)"
      using found(3) t(1) d by (simp add: hev_mapped_dns_find_def deref_def Let_def)
    moreover have "unat (dn_idx d) = idx_of self m" using d by (simp add: idx_of_def)
    moreover have "map_of (dns_abs self xs) name = Some (idx_of self m)"
      using abs_map_of(1) [OF sh found(1)] found(2) by simp
    ultimately show ?thesis using t(2,3) found(2) by (auto simp: lru_find_def)
  next
    case (slot p l)
    have al: "aligned n" using n by (simp add: fresh_node_def)
    obtain t ys where t: "hev_rbtree_insert_at (rb_alloc (dns_tree self) n) n p l = Some t"
      "rb_seq t ys" "set ys = insert n (set xs)" "key_order strcmp ((name_of self)(n := name)) ys"
      "dom (nodes t) = insert n (set xs)"
      using slot(3) [OF al nx] by blast
    obtain l' h' where a: "dns_list_add_tail (hev_mapped_dns_node_alloc self n name\<lparr>dns_tree := t\<rparr>) (node_list n) =
        Some (with_node self n name t l' h')" "dns_shape (with_node self n name t l' h') (xs @ [n])"
      using dns_add_shape [OF sh n(2) t(2-5)] unfolding with_node_def by blast
    let ?self = "with_node self n name t l' h'"
    have use: "dns_use self <s dns_max self \<longleftrightarrow> length xs < unat (dns_max self)"
      using ix m31 sless_unat [of "dns_use self" "dns_max self"] by (simp add: dns_index_def sle_zero_iff)
    have find: "hev_mapped_dns_find malloc self name =
        (if dns_use self <s dns_max self then dns_record (?self\<lparr>dns_use := dns_use self + 1\<rparr>) n (dns_use self)
         else dns_evict ?self \<bind> (\<lambda>(self, idx). dns_record self n idx))"
      using slot(2) n(1) t(1) a(1)
      by (simp add: hev_mapped_dns_find_def Let_def with_node_def hev_mapped_dns_node_alloc_def)
    have lru: "lru_find (unat (dns_max self)) name (dns_abs self xs) =
        (if length xs < unat (dns_max self) then (dns_abs self xs @ [(name, length xs)], length xs)
         else (tl (dns_abs self xs) @ [(name, snd (hd (dns_abs self xs)))], snd (hd (dns_abs self xs))))"
      using abs_map_of(2) [OF sh slot(1)] by (simp add: lru_find_def dns_abs_def)
    have "length xs = unat (dns_max self)" if "\<not> length xs < unat (dns_max self)"
      using that ix by (auto simp: dns_index_def)
    then show ?thesis
      using dns_grow_inv [OF ix a(2)] dns_replace_inv [OF ix sh a(2)] ix unfolding find use lru
      by (cases "length xs < unat (dns_max self)") (fastforce simp: dns_index_def)+
  qed
qed
text \<open>The constructor has checked that the indices fit into the host part of the network.\<close>

definition dns_conf :: "HevMappedDNS \<Rightarrow> bool" where
  "dns_conf self \<longleftrightarrow> dns_max self \<le>s NOT (dns_mask self)"

lemma host_part_nonneg:
  assumes "0 \<le>s (v :: u32)" shows "0 \<le>s (ip AND v)"
proof -
  have "ip AND v \<le> v" by (simp add: word_and_le1)
  then show ?thesis using assms by (simp add: sle_zero_iff word_le_nat_alt)
qed

lemma abs_find:
  assumes inv: "dns_inv self xs"
  shows "m \<in> set xs \<Longrightarrow> find (\<lambda>e. snd e = idx_of self m) (dns_abs self xs) = Some (name_of self m, idx_of self m)"
    and "length xs \<le> i \<Longrightarrow> find (\<lambda>e. snd e = i) (dns_abs self xs) = None"
proof -
  have sh: "dns_shape self xs" and ix: "dns_index self xs" using inv by (auto simp: dns_inv_def)
  note f = index_facts [OF ix shape_facts(1) [OF sh]]
  show "find (\<lambda>e. snd e = i) (dns_abs self xs) = None" if "length xs \<le> i"
    using f(1) that by (fastforce simp: find_None_iff dns_abs_def)
  show "find (\<lambda>e. snd e = idx_of self m) (dns_abs self xs) = Some (name_of self m, idx_of self m)" if m: "m \<in> set xs"
  proof (cases "find (\<lambda>e. snd e = idx_of self m) (dns_abs self xs)")
    case None
    with m show ?thesis by (force simp: find_None_iff dns_abs_def)
  next
    case (Some e)
    then have "e \<in> set (dns_abs self xs)" "snd e = idx_of self m" by (auto simp: find_Some_iff)
    then obtain a where "a \<in> set xs" "e = (name_of self a, idx_of self a)" "idx_of self a = idx_of self m"
      by (auto simp: dns_abs_def)
    with f(2) m have "a = m" by metis
    with Some \<open>e = _\<close> show ?thesis by simp
  qed
qed

lemma dns_lookup_inv:
  assumes inv: "dns_inv self xs" and conf: "dns_conf self"
  shows "\<exists>self' xs' r. hev_mapped_dns_lookup self ip = Some (self', r) \<and> dns_inv self' xs' \<and>
    (dns_abs self' xs', r) = lru_lookup (unat (ip AND NOT (dns_mask self))) (dns_abs self xs) \<and>
    dns_max self' = dns_max self \<and> dns_net self' = dns_net self \<and> dns_mask self' = dns_mask self"
proof -
  have sh: "dns_shape self xs" and ix: "dns_index self xs" using inv by (auto simp: dns_inv_def)
  let ?i = "ip AND NOT (dns_mask self)"
  have mx: "0 <s dns_max self" "length (dns_records self) = unat (dns_max self)" "length xs \<le> unat (dns_max self)"
    using ix by (auto simp: dns_index_def)
  then have "0 \<le>s dns_max self" "0 \<le>s NOT (dns_mask self)"
    using conf by (auto simp: word_sless_alt word_sle_eq dns_conf_def)
  then have i: "0 \<le>s ?i" "0 \<le>s dns_max self" using host_part_nonneg by blast+
  show ?thesis
  proof (cases "unat ?i < unat (dns_max self)")
    case False
    then have "hev_mapped_dns_lookup self ip = Some (self, None)"
      using sle_unat [OF i(2,1)] by (simp add: hev_mapped_dns_lookup_def Let_def)
    moreover have "lru_lookup (unat ?i) (dns_abs self xs) = (dns_abs self xs, None)"
      using False abs_find(2) [OF inv] mx(3) by (simp add: lru_lookup_def)
    ultimately show ?thesis using inv by auto
  next
    case True
    define node where "node = dns_records self ! unat ?i"
    have eq: "hev_mapped_dns_lookup self ip = (if node = NULL then Some (self, None)
        else do { self \<leftarrow> dns_touch self node; n \<leftarrow> deref (dns_nodes self) node; Some (self, Some (dn_name n)) })"
      using True i mx sle_unat [OF i(2,1)] by (simp add: hev_mapped_dns_lookup_def Let_def node_def)
    show ?thesis
    proof (cases "unat ?i < length xs")
      case False
      then have "node = NULL" using ix True mx by (simp add: dns_index_def node_def)
      moreover have "lru_lookup (unat ?i) (dns_abs self xs) = (dns_abs self xs, None)"
        using False abs_find(2) [OF inv] by (simp add: lru_lookup_def)
      ultimately show ?thesis using inv eq by auto
    next
      case True
      then have n: "node \<in> set xs" "idx_of self node = unat ?i" using ix by (auto simp: dns_index_def node_def)
      have nn: "node \<noteq> NULL" using shape_facts(2) [OF sh n(1)] by simp
      obtain d where d: "dns_nodes self node = Some d" using shape_facts(4) [OF sh n(1)] by blast
      obtain l h where t: "dns_touch self node = Some (self\<lparr>dns_list := l, dns_lheap := h\<rparr>)"
        "dns_inv (self\<lparr>dns_list := l, dns_lheap := h\<rparr>) (remove1 node xs @ [node])"
        "dns_abs (self\<lparr>dns_list := l, dns_lheap := h\<rparr>) (remove1 node xs @ [node]) =
          lru_touch (name_of self node, idx_of self node) (dns_abs self xs)"
        using dns_touch_inv [OF inv n(1)] by blast
      have "hev_mapped_dns_lookup self ip = Some (self\<lparr>dns_list := l, dns_lheap := h\<rparr>, Some (name_of self node))"
        using eq nn t(1) d by (simp add: deref_def name_of_def)
      moreover have "lru_lookup (unat ?i) (dns_abs self xs) =
          (lru_touch (name_of self node, idx_of self node) (dns_abs self xs), Some (name_of self node))"
        using abs_find(1) [OF inv n(1)] n(2) by (simp add: lru_lookup_def)
      ultimately show ?thesis using t(2,3) by auto
    qed
  qed
qed

lemma dns_new_inv:
  assumes new: "hev_mapped_dns_new base True net msk mx = Some self" and "0 <s mx"
  shows "dns_inv self []" and "dns_conf self" and "dns_abs self [] = []"
    and "dns_max self = mx" and "dns_net self = net" and "dns_mask self = msk"
proof -
  have self: "self = \<lparr>dns_use = 0, dns_max = mx, dns_net = net, dns_mask = msk,
         dns_list = \<lparr>list_head = NULL, list_tail = NULL\<rparr>, dns_lheap = Map.empty,
         dns_tree = rb_empty, dns_nodes = Map.empty, dns_records = replicate (nat (sint mx)) NULL\<rparr>"
    and c: "\<not> NOT msk <s mx"
    using new by (auto simp: hev_mapped_dns_new_def hev_mapped_dns_construct_def split: if_splits)
  have "0 \<le>s mx" using assms(2) by (simp add: word_sless_alt word_sle_eq)
  then have n: "nat (sint mx) = unat mx" using sint_small [of mx] by (simp only: sle_zero_iff nat_int)
  have t: "rb_seq rb_empty []"
    unfolding rb_seq_def by (rule exI [of _ Leaf]) (simp add: rb_empty_def rbt_rep_def rbt_ok_def)
  have "dns_shape self []"
    unfolding dns_shape_def self using t by (auto simp: list_rep_def rb_empty_def key_order_def intro!: exI [of _ "[]"])
  moreover have "dns_index self []" using assms(2) by (simp add: dns_index_def self n)
  ultimately show "dns_inv self []" by (simp add: dns_inv_def)
  show "dns_conf self" using c by (simp add: dns_conf_def self word_sless_alt word_sle_eq)
  show "dns_abs self [] = []" "dns_max self = mx" "dns_net self = net" "dns_mask self = msk" by (simp_all add: dns_abs_def self)
qed

section \<open>Sequences of requests\<close>

datatype dns_op = Find cstring | Lookup u32

datatype dns_res = Index nat | Name "cstring option"

fun dns_step :: "(HevMappedDNS \<Rightarrow> addr option) \<Rightarrow> HevMappedDNS \<Rightarrow> dns_op \<Rightarrow> (HevMappedDNS \<times> dns_res) option" where
  "dns_step malloc self (Find name) =
     map_option (\<lambda>(self, i). (self, Index (unat i))) (hev_mapped_dns_find malloc self name)"
| "dns_step malloc self (Lookup ip) =
     map_option (\<lambda>(self, r). (self, Name r)) (hev_mapped_dns_lookup self ip)"

fun dns_run :: "(HevMappedDNS \<Rightarrow> addr option) \<Rightarrow> HevMappedDNS \<Rightarrow> dns_op list \<Rightarrow> (HevMappedDNS \<times> dns_res list) option" where
  "dns_run malloc self [] = Some (self, [])"
| "dns_run malloc self (e # es) = do {
     (self, r) \<leftarrow> dns_step malloc self e;
     (self, rs) \<leftarrow> dns_run malloc self es;
     Some (self, r # rs)
   }"

fun lru_step :: "nat \<Rightarrow> u32 \<Rightarrow> lru \<Rightarrow> dns_op \<Rightarrow> lru \<times> dns_res" where
  "lru_step mx msk c (Find name) = (let (c, i) = lru_find mx name c in (c, Index i))"
| "lru_step mx msk c (Lookup ip) = (let (c, r) = lru_lookup (unat (ip AND NOT msk)) c in (c, Name r))"

fun lru_run :: "nat \<Rightarrow> u32 \<Rightarrow> lru \<Rightarrow> dns_op list \<Rightarrow> lru \<times> dns_res list" where
  "lru_run mx msk c [] = (c, [])"
| "lru_run mx msk c (e # es) =
     (let (c, r) = lru_step mx msk c e; (c, rs) = lru_run mx msk c es in (c, r # rs))"

text \<open>
  The allocator returns a fresh, aligned struct that does not wrap around the address space, as
  long as no more nodes are live than the cache may hold.
\<close>

definition malloc_ok :: "(HevMappedDNS \<Rightarrow> addr option) \<Rightarrow> u32 \<Rightarrow> bool" where
  "malloc_ok malloc mx \<longleftrightarrow> (\<forall>self. dns_max self = mx \<and> finite (dom (dns_nodes self)) \<and> card (dom (dns_nodes self)) \<le> unat mx \<longrightarrow>
     (\<exists>n. malloc self = Some n \<and> fresh_node self n))"

lemma malloc_inv: "malloc_ok malloc (dns_max self) \<Longrightarrow> dns_inv self xs \<Longrightarrow> \<exists>n. malloc self = Some n \<and> fresh_node self n"
proof -
  assume m: "malloc_ok malloc (dns_max self)" and inv: "dns_inv self xs"
  then have "dom (dns_nodes self) = set xs" "length xs \<le> unat (dns_max self)"
    by (auto simp: dns_inv_def dns_shape_def dns_index_def)
  moreover have "card (set xs) \<le> length xs" by (rule card_length)
  ultimately show ?thesis using m by (auto simp: malloc_ok_def)
qed

text \<open>The states of a run: the cache invariant with the configuration the cache was made with.\<close>

definition dns_ready :: "HevMappedDNS \<Rightarrow> addr list \<Rightarrow> bool" where
  "dns_ready self xs \<longleftrightarrow> dns_inv self xs \<and> dns_conf self"

lemma dns_step_ready:
  assumes m: "malloc_ok malloc (dns_max self)" and r: "dns_ready self xs"
  shows "\<exists>self' xs' r. dns_step malloc self e = Some (self', r) \<and> dns_ready self' xs' \<and>
    lru_step (unat (dns_max self)) (dns_mask self) (dns_abs self xs) e = (dns_abs self' xs', r) \<and>
    dns_max self' = dns_max self \<and> dns_net self' = dns_net self \<and> dns_mask self' = dns_mask self"
proof -
  have inv: "dns_inv self xs" and conf: "dns_conf self" using r by (auto simp: dns_ready_def)
  show ?thesis
  proof (cases e)
    case (Find name)
    obtain n where "malloc self = Some n" "fresh_node self n" using malloc_inv [OF m inv] by blast
    from dns_find_inv [of self xs malloc, OF inv this, of name] obtain self' xs' i where
      "hev_mapped_dns_find malloc self name = Some (self', i)" "dns_inv self' xs'"
      "(dns_abs self' xs', unat i) = lru_find (unat (dns_max self)) name (dns_abs self xs)"
      "dns_max self' = dns_max self" "dns_net self' = dns_net self" "dns_mask self' = dns_mask self"
      by blast
    moreover from this(3) have "lru_find (unat (dns_max self)) name (dns_abs self xs) = (dns_abs self' xs', unat i)" ..
    ultimately show ?thesis using Find conf by (auto simp: dns_ready_def dns_conf_def)
  next
    case (Lookup ip)
    from dns_lookup_inv [OF inv conf, of ip] obtain self' xs' r where
      "hev_mapped_dns_lookup self ip = Some (self', r)" "dns_inv self' xs'"
      "(dns_abs self' xs', r) = lru_lookup (unat (ip AND NOT (dns_mask self))) (dns_abs self xs)"
      "dns_max self' = dns_max self" "dns_net self' = dns_net self" "dns_mask self' = dns_mask self"
      by blast
    moreover from this(3) have "lru_lookup (unat (ip AND NOT (dns_mask self))) (dns_abs self xs) = (dns_abs self' xs', r)" ..
    ultimately show ?thesis using Lookup conf by (auto simp: dns_ready_def dns_conf_def)
  qed
qed

lemma dns_run_ready:
  assumes "malloc_ok malloc (dns_max self)" and "dns_ready self xs"
  shows "\<exists>self' xs' rs. dns_run malloc self es = Some (self', rs) \<and> dns_ready self' xs' \<and>
    lru_run (unat (dns_max self)) (dns_mask self) (dns_abs self xs) es = (dns_abs self' xs', rs) \<and>
    dns_max self' = dns_max self \<and> dns_net self' = dns_net self \<and> dns_mask self' = dns_mask self"
  using assms
proof (induction es arbitrary: self xs)
  case (Cons e es)
  from dns_step_ready [OF Cons.prems, of e] obtain self1 xs1 r where
    1: "dns_step malloc self e = Some (self1, r)" "dns_ready self1 xs1"
      "lru_step (unat (dns_max self)) (dns_mask self) (dns_abs self xs) e = (dns_abs self1 xs1, r)"
      "dns_max self1 = dns_max self" "dns_net self1 = dns_net self" "dns_mask self1 = dns_mask self"
    by blast
  from Cons.IH [of self1, OF _ 1(2)] Cons.prems(1) obtain self2 xs2 rs where
    "dns_run malloc self1 es = Some (self2, rs)" "dns_ready self2 xs2"
    "lru_run (unat (dns_max self)) (dns_mask self) (dns_abs self1 xs1) es = (dns_abs self2 xs2, rs)"
    "dns_max self2 = dns_max self" "dns_net self2 = dns_net self" "dns_mask self2 = dns_mask self"
    unfolding 1(4-6) by blast
  with 1 show ?case by auto
qed auto

section \<open>How long a mapping lives\<close>

definition lru_distinct :: "lru \<Rightarrow> bool" where
  "lru_distinct c \<longleftrightarrow> distinct (map fst c) \<and> distinct (map snd c)"

lemma ready_distinct: "dns_ready self xs \<Longrightarrow> lru_distinct (dns_abs self xs)"
proof -
  assume "dns_ready self xs"
  then have sh: "dns_shape self xs" and ix: "dns_index self xs" by (auto simp: dns_ready_def dns_inv_def)
  have "inj_on (name_of self) (set xs)" using shape_facts(5) [OF sh] by (auto simp: inj_on_def)
  moreover have "inj_on (idx_of self) (set xs)"
    using index_facts(2) [OF ix shape_facts(1) [OF sh]] by (metis inj_onI)
  ultimately show ?thesis
    using shape_facts(1) [OF sh] by (simp add: lru_distinct_def dns_abs_def o_def distinct_map)
qed

text \<open>An entry with at most \<open>k\<close> entries used after it.\<close>

definition recent :: "cstring \<times> nat \<Rightarrow> nat \<Rightarrow> lru \<Rightarrow> bool" where
  "recent e k c \<longleftrightarrow> (\<exists>us vs. c = us @ e # vs \<and> length vs \<le> k)"

lemma recent_mono: "recent e k c \<Longrightarrow> k \<le> k' \<Longrightarrow> recent e k' c"
  unfolding recent_def by (elim exE conjE) (intro exI conjI, assumption, rule le_trans)

lemma recent_touch:
  assumes "recent e k c" and "x \<in> set c" and d: "lru_distinct c"
  shows "recent e (Suc k) (lru_touch x c)"
proof -
  from assms(1) obtain us vs where c: "c = us @ e # vs" "length vs \<le> k" by (auto simp: recent_def)
  have dc: "distinct c" using d by (auto simp: lru_distinct_def distinct_map)
  consider "x = e" | "x \<in> set us" "x \<noteq> e" | "x \<in> set vs" "x \<noteq> e" "x \<notin> set us" using assms(2) c dc by auto
  then show ?thesis
  proof cases
    case 1
    then have "lru_touch x c = (us @ vs) @ e # []" using c dc by (simp add: lru_touch_def remove1_append)
    then show ?thesis unfolding recent_def by (intro exI [of _ "us @ vs"] exI [of _ "[]"]) simp
  next
    case 2
    then have "lru_touch x c = remove1 x us @ e # (vs @ [x])" using c by (simp add: lru_touch_def remove1_append)
    then show ?thesis unfolding recent_def using c(2) by (intro exI [of _ "remove1 x us"] exI [of _ "vs @ [x]"]) simp
  next
    case 3
    then have "lru_touch x c = us @ e # (remove1 x vs @ [x])" using c by (auto simp: lru_touch_def remove1_append)
    moreover have "length (remove1 x vs @ [x]) \<le> Suc k" using c(2) by (auto simp: length_remove1)
    ultimately show ?thesis unfolding recent_def by blast
  qed
qed

lemma recent_step:
  assumes r: "recent e k c" and d: "lru_distinct c" and k: "Suc k < mx" "length c \<le> mx"
  shows "recent e (Suc k) (fst (lru_step mx msk c x))"
proof (cases x)
  case (Find name)
  from r obtain us vs where c: "c = us @ e # vs" "length vs \<le> k" by (auto simp: recent_def)
  consider i where "map_of c name = Some i" | "map_of c name = None" "length c < mx" | "map_of c name = None" "length c = mx"
    using k(2) by fastforce
  then show ?thesis
  proof cases
    case 1
    then have "(name, i) \<in> set c" by (rule map_of_SomeD)
    from recent_touch [OF r this d] 1 Find show ?thesis by (simp add: lru_find_def)
  next
    case 2
    then have "fst (lru_step mx msk c x) = c @ [(name, length c)]" using Find by (simp add: lru_find_def)
    then have "fst (lru_step mx msk c x) = us @ e # (vs @ [(name, length c)])" using c by simp
    then show ?thesis unfolding recent_def using c(2) by (intro exI conjI) auto
  next
    case 3
    then have us: "us \<noteq> []" using c k(1) by auto
    have "fst (lru_step mx msk c x) = tl c @ [(name, snd (hd c))]" using Find 3 by (simp add: lru_find_def)
    then have "fst (lru_step mx msk c x) = tl us @ e # (vs @ [(name, snd (hd c))])" using c us by simp
    then show ?thesis unfolding recent_def using c(2) by (intro exI conjI) auto
  qed
next
  case (Lookup ip)
  show ?thesis
  proof (cases "find (\<lambda>e. snd e = unat (ip AND NOT msk)) c")
    case None
    then have "fst (lru_step mx msk c x) = c" using Lookup by (simp add: lru_lookup_def)
    then show ?thesis using recent_mono [OF r] by simp
  next
    case (Some y)
    then have "y \<in> set c" by (auto simp: find_Some_iff)
    from recent_touch [OF r this d] Some Lookup show ?thesis by (simp add: lru_lookup_def)
  qed
qed

lemma find_lru_recent: 
  assumes "lru_find mx name c = (c', i)" shows "recent (name, i) 0 c'"
  using assms unfolding recent_def lru_find_def lru_touch_def
  by (auto split: option.splits if_splits intro: exI [of _ "remove1 (name, i) c"] exI [of _ c] exI [of _ "tl c"])

lemma recent_lookup:
  assumes "recent (name, i) k c" and "lru_distinct c"
  shows "snd (lru_lookup i c) = Some name"
proof -
  from assms(1) have "(name, i) \<in> set c" by (auto simp: recent_def)
  then obtain e where e: "find (\<lambda>e. snd e = i) c = Some e" by (cases "find (\<lambda>e. snd e = i) c") (auto simp: find_None_iff)
  then have "e \<in> set c" "snd e = i" by (auto simp: find_Some_iff)
  moreover have "inj_on snd (set c)" using assms(2) by (simp add: lru_distinct_def distinct_map)
  ultimately have "e = (name, i)" using \<open>(name, i) \<in> set c\<close> by (metis inj_onD snd_conv)
  then show ?thesis using e by (simp add: lru_lookup_def)
qed


lemma run_recent:
  assumes "malloc_ok malloc (dns_max self)" and "dns_ready self xs" and "recent e k (dns_abs self xs)"
    and "k + length es < unat (dns_max self)" and "dns_run malloc self es = Some (self', rs)"
  shows "\<exists>xs'. dns_ready self' xs' \<and> dns_mask self' = dns_mask self \<and> recent e (k + length es) (dns_abs self' xs')"
  using assms
proof (induction es arbitrary: self xs k rs)
  case (Cons x es)
  from dns_step_ready [OF Cons.prems(1) Cons.prems(2), of x] obtain self1 xs1 r where
    1: "dns_step malloc self x = Some (self1, r)" "dns_ready self1 xs1"
      "lru_step (unat (dns_max self)) (dns_mask self) (dns_abs self xs) x = (dns_abs self1 xs1, r)"
      "dns_max self1 = dns_max self" "dns_mask self1 = dns_mask self"
    by blast
  have "length (dns_abs self xs) \<le> unat (dns_max self)"
    using Cons.prems(2) by (simp add: dns_abs_def dns_ready_def dns_inv_def dns_index_def)
  then have "recent e (Suc k) (dns_abs self1 xs1)"
    using recent_step [OF Cons.prems(3) ready_distinct [OF Cons.prems(2)], of "unat (dns_max self)" "dns_mask self" x]
      Cons.prems(4) 1(3) by simp
  moreover obtain rs' where "dns_run malloc self1 es = Some (self', rs')"
    using Cons.prems(5) 1(1) by (auto simp: bind_eq_Some_conv)
  ultimately show ?case using Cons.IH [of self1 xs1 "Suc k"] 1 Cons.prems(1,4) by auto
qed auto

text \<open>The host part of an address made of the network and an index.\<close>

lemma mapped_host:
  assumes m: "NOT msk = mask k" and net: "net AND NOT msk = (0 :: u32)" and i: "unat i \<le> unat (NOT msk)"
  shows "(net OR i) AND NOT msk = i"
proof -
  have "i \<le> mask k" using i m by (simp add: word_le_nat_alt)
  moreover have "uint (mask k :: u32) = mask (min 32 k)" by transfer simp
  ultimately have "uint i \<le> mask (min 32 k)" by (simp add: word_le_def)
  also have "\<dots> < 2 ^ min 32 k" by (simp add: mask_eq_exp_minus_1)
  also have "\<dots> \<le> (2 :: int) ^ k" by (rule power_increasing) simp_all
  finally have "i AND mask k = i" by (simp add: and_mask_mod_2p)
  then show ?thesis using net m by (simp add: bit.conj_disj_distrib2)
qed


text \<open>An allocator for a cache of at most two names.\<close>

lemma find_SomeD: "find P xs = Some x \<Longrightarrow> x \<in> set xs \<and> P x"
  by (auto simp: find_Some_iff)

definition demo_malloc :: "HevMappedDNS \<Rightarrow> addr option" where
  "demo_malloc self = find (\<lambda>n. dns_nodes self n = None) [64, 128, 192]"

lemma demo_malloc_ok: "malloc_ok demo_malloc 2"
  unfolding malloc_ok_def
proof (intro allI impI)
  fix self :: HevMappedDNS
  assume "dns_max self = 2 \<and> finite (dom (dns_nodes self)) \<and> card (dom (dns_nodes self)) \<le> unat (2 :: u32)"
  then have c: "card (dom (dns_nodes self)) \<le> 2" "finite (dom (dns_nodes self))" by auto
  have "\<not> {64, 128, 192} \<subseteq> dom (dns_nodes self)"
  proof
    assume "{64, 128, 192} \<subseteq> dom (dns_nodes self)"
    then have "card {64, 128, 192 :: addr} \<le> card (dom (dns_nodes self))" using c(2) by (rule card_mono [rotated])
    with c(1) show False by simp
  qed
  then have "demo_malloc self \<noteq> None" unfolding demo_malloc_def find_None_iff by auto
  then obtain n where n: "demo_malloc self = Some n" by blast
  have f: "n \<in> set [64, 128, 192] \<and> dns_nodes self n = None"
    using n unfolding demo_malloc_def by (rule find_SomeD)
  have all: "\<forall>a \<in> set [64, 128, 192]. aligned a \<and> node_list a \<noteq> NULL" by code_simp
  from f have "aligned n \<and> node_list n \<noteq> NULL" by (intro bspec [OF all]) (rule conjunct1)
  with f have "fresh_node self n" unfolding fresh_node_def domIff by simp
  with n show "\<exists>n. demo_malloc self = Some n \<and> fresh_node self n" by blast
qed

definition demo_dns :: HevMappedDNS where
  "demo_dns = \<lparr>dns_use = 0, dns_max = 2, dns_net = 0xC6120000, dns_mask = 0xFFFE0000,
     dns_list = \<lparr>list_head = NULL, list_tail = NULL\<rparr>, dns_lheap = Map.empty,
     dns_tree = rb_empty, dns_nodes = Map.empty, dns_records = [NULL, NULL]\<rparr>"

lemma demo_dns_new: "hev_mapped_dns_new 0 True 0xC6120000 0xFFFE0000 2 = Some demo_dns"
  by (simp add: hev_mapped_dns_new_def hev_mapped_dns_construct_def demo_dns_def numeral_2_eq_2)


text \<open>
  C23: A mapping outlives \<open>max - 1\<close> requests. When \<open>hev_mapped_dns_find\<close> has given a name the index
  \<open>i\<close>, then after fewer than \<open>max\<close> further requests for any names and addresses, the address the
  client was told, \<open>net | i\<close>, is still translated back to that name. The network address has no host bits
  and the mask is a prefix mask.
\<close>
theorem dns_mapping_survives:
  assumes new: "hev_mapped_dns_new base True net msk mx = Some self" and mx: "0 <s mx" and m: "malloc_ok malloc mx"
    and net: "NOT msk = mask k" "net AND NOT msk = 0"
    and run: "dns_run malloc self es = Some (self1, rs)" and find: "hev_mapped_dns_find malloc self1 name = Some (self2, i)"
    and more: "dns_run malloc self2 fs = Some (self3, ss)" "length fs < unat mx"
  shows "\<exists>self4. hev_mapped_dns_lookup self3 (dns_net self2 OR i) = Some (self4, Some name)"
proof -
  note n = dns_new_inv [OF new mx]
  then have r0: "dns_ready self []" by (simp add: dns_ready_def)
  from dns_run_ready [OF _ r0, of malloc es] m n run obtain xs1 where
    r1: "dns_ready self1 xs1" "dns_max self1 = mx" "dns_net self1 = net" "dns_mask self1 = msk" by auto
  from dns_step_ready [OF _ r1(1), of malloc "Find name"] m r1 find obtain xs2 where
    r2: "dns_ready self2 xs2" "lru_find (unat mx) name (dns_abs self1 xs1) = (dns_abs self2 xs2, unat i)"
      "dns_max self2 = mx" "dns_net self2 = net" "dns_mask self2 = msk"
    by (auto split: prod.splits)
  from find_lru_recent [OF r2(2)] have "recent (name, unat i) 0 (dns_abs self2 xs2)" .
  from run_recent [OF _ r2(1) this _ more(1)] m more(2) r2 obtain xs3 where
    r3: "dns_ready self3 xs3" "dns_mask self3 = msk" "recent (name, unat i) (length fs) (dns_abs self3 xs3)" by auto
  have "unat i < unat mx"
  proof -
    from r2(1) have ix: "dns_index self2 xs2" and sh: "dns_shape self2 xs2" by (auto simp: dns_ready_def dns_inv_def)
    have "(name, unat i) \<in> set (dns_abs self2 xs2)" using find_lru_recent [OF r2(2)] by (auto simp: recent_def)
    then obtain a where "a \<in> set xs2" "idx_of self2 a = unat i" by (auto simp: dns_abs_def)
    with index_facts(1) [OF ix shape_facts(1) [OF sh]] ix r2(3) show ?thesis by (fastforce simp: dns_index_def)
  qed
  moreover have "unat mx \<le> unat (NOT msk)"
    using n(2,4,6) mx sle_unat [of mx "NOT msk"] by (simp add: dns_conf_def word_sless_alt word_sle_eq)
  ultimately have ip: "(net OR i) AND NOT msk = i" using mapped_host [OF net] by simp
  from dns_run_ready [OF _ r2(1), of malloc fs] m r2(3) more(1) have "dns_max self3 = mx" by auto
  with dns_step_ready [OF _ r3(1), of malloc "Lookup (net OR i)"] m r3(2) ip obtain self4 r where
    "hev_mapped_dns_lookup self3 (net OR i) = Some (self4, r)" "snd (lru_lookup (unat i) (dns_abs self3 xs3)) = r"
    by (auto split: prod.splits)
  with recent_lookup [OF r3(3) ready_distinct [OF r3(1)]] r2(4) show ?thesis by auto
qed

theorem dns_mapping_survives_witness:
  "\<exists>self1 self3 self4 rs. hev_mapped_dns_find demo_malloc demo_dns [97] = Some (self1, 0) \<and>
     dns_run demo_malloc self1 [Find [98]] = Some (self3, rs) \<and>
     hev_mapped_dns_lookup self3 (dns_net self1 OR 0) = Some (self4, Some [97])"
proof -
  have r: "dns_ready demo_dns []" using dns_new_inv [OF demo_dns_new] by (simp add: dns_ready_def word_sless_alt)
  from dns_step_ready [OF _ r, of demo_malloc "Find [97]"] demo_malloc_ok obtain self1 xs1 i where
    1: "hev_mapped_dns_find demo_malloc demo_dns [97] = Some (self1, i)" "unat i = 0" "dns_ready self1 xs1" "dns_max self1 = 2"
    by (auto simp: demo_dns_def dns_abs_def lru_find_def split: prod.splits)
  then have i: "i = 0" by (simp add: unat_eq_0)
  from dns_run_ready [OF _ 1(3), of demo_malloc "[Find [98]]"] demo_malloc_ok 1(4) obtain self3 rs where
    2: "dns_run demo_malloc self1 [Find [98]] = Some (self3, rs)" by auto
  have "\<exists>self4. hev_mapped_dns_lookup self3 (dns_net self1 OR i) = Some (self4, Some [97])"
    by (rule dns_mapping_survives [OF demo_dns_new _ demo_malloc_ok, where es = "[]" and k = 17, OF _ _ _ _ 1(1) 2])
      (simp_all add: mask_eq_exp_minus_1 word_sless_alt)
  with 1(1) 2 i show ?thesis by blast
qed

lemma destruct_loop_frees:
  "lseg (dns_lheap self) p (map node_list xs) NULL \<Longrightarrow> distinct xs \<Longrightarrow>
   \<exists>self'. destruct_loop self (first_ptr (map node_list xs) NULL) = Some self' \<and>
     dom (dns_nodes self') = dom (dns_nodes self) - set xs \<and>
     dom (dns_lheap self') = dom (dns_lheap self) - node_list ` set xs \<and>
     dom (nodes (dns_tree self')) = dom (nodes (dns_tree self)) - set xs"
proof (induction xs arbitrary: self p)
  case Nil
  then show ?case by (simp add: destruct_loop.simps)
next
  case (Cons a xs)
  let ?self = "hev_mapped_dns_node_free self a"
  have "lseg (dns_lheap ?self) (node_list a) (map node_list xs) NULL"
    using Cons.prems by (auto simp: hev_mapped_dns_node_free_def)
  with Cons obtain self' where s: "destruct_loop ?self (first_ptr (map node_list xs) NULL) = Some self'"
    "dom (dns_nodes self') = dom (dns_nodes ?self) - set xs"
    "dom (dns_lheap self') = dom (dns_lheap ?self) - node_list ` set xs"
    "dom (nodes (dns_tree self')) = dom (nodes (dns_tree ?self)) - set xs"
    by (metis distinct.simps(2))
  have "destruct_loop self (node_list a) = Some self'"
    using s(1) Cons.prems by (subst destruct_loop.simps) (simp add: hev_list_node_next_def deref_def)
  with s(2-4) show ?case by (auto simp: hev_mapped_dns_node_free_def rb_free_def)
qed

text \<open>
  C24: Destroying the cache frees every node. After any sequence of requests the destructor walks the
  list of nodes without reading one it has freed, and leaves no node allocated.
\<close>
theorem dns_destruct_frees:
  assumes "hev_mapped_dns_new base True net msk mx = Some self" and "0 <s mx" and "malloc_ok malloc mx"
    and "dns_run malloc self es = Some (self1, rs)"
  shows "\<exists>self'. hev_mapped_dns_destruct self1 = Some self' \<and> dns_nodes self' = Map.empty \<and>
    dns_lheap self' = Map.empty \<and> nodes (dns_tree self') = Map.empty"
proof -
  note n = dns_new_inv [OF assms(1,2)]
  then have r0: "dns_ready self []" by (simp add: dns_ready_def)
  from dns_run_ready [OF _ r0, of malloc es] assms(3,4) n obtain xs where "dns_ready self1 xs" by auto
  then have sh: "dns_shape self1 xs" by (simp add: dns_ready_def dns_inv_def)
  then have l: "lseg (dns_lheap self1) NULL (map node_list xs) NULL" "list_head (dns_list self1) = first_ptr (map node_list xs) NULL"
    "dom (dns_nodes self1) = set xs" "dom (dns_lheap self1) = node_list ` set xs" "dom (nodes (dns_tree self1)) = set xs"
    by (auto simp: dns_shape_def list_rep_def)
  from destruct_loop_frees [OF l(1) shape_facts(1) [OF sh]] l show ?thesis
    by (auto simp: hev_mapped_dns_destruct_def hev_list_first_def)
qed

theorem dns_destruct_frees_witness:
  "\<exists>self1 rs self'. dns_run demo_malloc demo_dns [Find [97]] = Some (self1, rs) \<and>
    hev_mapped_dns_destruct self1 = Some self' \<and> dns_nodes self' = Map.empty"
proof -
  have r: "dns_ready demo_dns []" using dns_new_inv [OF demo_dns_new] by (simp add: dns_ready_def word_sless_alt)
  from dns_run_ready [OF _ r, of demo_malloc "[Find [97]]"] demo_malloc_ok obtain self1 rs where
    1: "dns_run demo_malloc demo_dns [Find [97]] = Some (self1, rs)" by (auto simp: demo_dns_def)
  have "0 <s (2 :: u32)" by code_simp
  from dns_destruct_frees [OF demo_dns_new this demo_malloc_ok 1] 1 show ?thesis by blast
qed

end
