(* ===== verification/Hev_DNS_Handle.thy ===== *)
theory Hev_DNS_Handle
  imports Hev_Mapped_DNS
begin

text \<open>
  \<open>hev_mapped_dns_handle\<close>: a DNS query is answered from the cache. The request and the response
  are byte buffers; the request is modified in place, as in the code, where the length bytes of
  the labels become dots. No result stands for an access outside a buffer.
\<close>

section \<open>Translation\<close>

definition read_u16 :: "u8 \<Rightarrow> u8 \<Rightarrow> u16" where
  "read_u16 p0 p1 = push_bit 8 (ucast p0) OR ucast p1"

definition write_u16 :: "u16 \<Rightarrow> u8 list" where
  "write_u16 v = [ucast (drop_bit 8 v), ucast v]"

definition write_u32 :: "u32 \<Rightarrow> u8 list" where
  "write_u32 v = [ucast (drop_bit 24 v), ucast (drop_bit 16 v), ucast (drop_bit 8 v), ucast v]"

text \<open>
  The loop over the labels of a name. No result: a read past the request; \<open>Some None\<close>: the name
  runs past the request and the handler returns -1.
\<close>

function dns_labels :: "u8 list \<Rightarrow> nat \<Rightarrow> (u8 list \<times> nat) option option" where
  "dns_labels rb off =
     (if length rb \<le> off then None
      else if rb ! off = 0 then Some (Some (rb, off))
      else let off' = off + 1 + unat (rb ! off) in
        if length rb \<le> off' then Some None
        else dns_labels (rb[off := 46]) off')"
  by pat_completeness auto

termination
  by (relation "measure (\<lambda>(rb, off). length rb - off)") auto

declare dns_labels.simps [simp del]

text \<open>
  One question, in the state of the cache: a handler that returns -1 (\<open>Inl\<close>), or the request, the
  next offset, and the answer for an address query.
\<close>

type_synonym dns_parsed = "HevMappedDNS \<times> u8 list \<times> nat \<times> (nat \<times> u32) list"

definition dns_question ::
  "(HevMappedDNS \<Rightarrow> addr option) \<Rightarrow> HevMappedDNS \<Rightarrow> u8 list \<Rightarrow> nat \<Rightarrow> (HevMappedDNS + dns_parsed) option" where
  "dns_question malloc self rb ipo =
     (case dns_labels rb ipo of
        None \<Rightarrow> None
      | Some None \<Rightarrow> Some (Inl self)
      | Some (Some (rb, off)) \<Rightarrow> (let off = off + 1 in
          if length rb \<le> off + 3 then Some (Inl self)
          else if read_u16 (rb ! off) (rb ! (off + 1)) = 1 \<and> read_u16 (rb ! (off + 2)) (rb ! (off + 3)) = 1 then
            (case hev_mapped_dns_find malloc self (cstr (drop (ipo + 1) rb)) of
               None \<Rightarrow> None
             | Some (self, idx) \<Rightarrow>
                 Some (Inr (self, rb, off + 4, if 0 \<le>s idx then [(ipo, dns_net self OR idx)] else [])))
          else Some (Inr (self, rb, off + 4, []))))"

fun dns_questions ::
  "(HevMappedDNS \<Rightarrow> addr option) \<Rightarrow> nat \<Rightarrow> dns_parsed \<Rightarrow> (HevMappedDNS + dns_parsed) option" where
  "dns_questions malloc 0 st = Some (Inr st)"
| "dns_questions malloc (Suc n) (self, rb, off, ips) =
     (case dns_question malloc self rb off of
        None \<Rightarrow> None
      | Some (Inl self) \<Rightarrow> Some (Inl self)
      | Some (Inr (self, rb, off, ip)) \<Rightarrow> dns_questions malloc n (self, rb, off, ips @ ip))"

text \<open>The answers, one after the other; \<open>None\<close> where the response is full.\<close>

definition dns_answer :: "nat \<Rightarrow> u32 \<Rightarrow> u8 list" where
  "dns_answer ipo ip = [0xc0, of_nat ipo] @ write_u16 1 @ write_u16 1 @ write_u32 1 @ write_u16 4 @ write_u32 ip"

fun dns_answers :: "u8 list \<Rightarrow> nat \<Rightarrow> (nat \<times> u32) list \<Rightarrow> (u8 list \<times> nat) option" where
  "dns_answers sb off [] = Some (sb, off)"
| "dns_answers sb off ((ipo, ip) # ips) =
     (if length sb \<le> off + 15 then None
      else dns_answers (memcpy_at sb off (dns_answer ipo ip)) (off + 16) ips)"

text \<open>
  The handler on a request of \<open>qlen\<close> bytes and a response buffer of \<open>slen\<close> bytes: the new cache, and
  the response buffer with the length of the response, or nothing for -1.
\<close>

definition hev_mapped_dns_handle ::
  "(HevMappedDNS \<Rightarrow> addr option) \<Rightarrow> HevMappedDNS \<Rightarrow> u8 list \<Rightarrow> u8 list \<Rightarrow>
   (HevMappedDNS \<times> (u8 list \<times> nat) option) option" where
  "hev_mapped_dns_handle malloc self req res =
     (if length res < length req then Some (self, None)
      else if length req < 6 \<or> length res < 12 then None
      else
        let sb = memcpy_at res 0 req;
            qd = ntohs (load16 (req ! 4) (req ! 5));
            rb = memcpy_at req 4 (bytes16 qd);
            fl = ntohs (load16 (sb ! 2) (sb ! 3));
            sb = memcpy_at (memcpy_at sb 2 (bytes16 fl)) 6 [0, 0, 0, 0, 0, 0]
        in if 32 < qd then Some (self, None)
        else
          (case dns_questions malloc (unat qd) (self, rb, 12, []) of
             None \<Rightarrow> None
           | Some (Inl self) \<Rightarrow> Some (self, None)
           | Some (Inr (self, rb, off, ips)) \<Rightarrow>
               (case dns_answers sb off ips of
                  None \<Rightarrow> Some (self, None)
                | Some (sb, off) \<Rightarrow>
                    let sb = memcpy_at sb 2 (bytes16 (htons (fl OR 0x8000 OR drop_bit 1 (fl AND 0x100))));
                        sb = memcpy_at sb 6 (bytes16 (htons (of_nat (length ips))))
                    in Some (self, Some (sb, off)))))"

section \<open>Names on the wire\<close>

text \<open>A name as its labels, each preceded by its length, and as the string the cache is asked for.\<close>

fun wire_name :: "u8 list list \<Rightarrow> u8 list" where
  "wire_name [] = [0]"
| "wire_name (w # ws) = of_nat (length w) # w @ wire_name ws"

fun dotted :: "u8 list list \<Rightarrow> u8 list" where
  "dotted [] = [0]"
| "dotted (w # ws) = 46 # w @ dotted ws"

definition dns_name :: "u8 list list \<Rightarrow> cstring" where
  "dns_name ws = (case ws of [] \<Rightarrow> [] | w # ws \<Rightarrow> w @ butlast (dotted ws))"

definition label_ok :: "u8 list \<Rightarrow> bool" where
  "label_ok w \<longleftrightarrow> w \<noteq> [] \<and> length w < 64 \<and> 0 \<notin> set w"

lemma length_dotted [simp]: "length (dotted ws) = length (wire_name ws)"
  by (induction ws) auto

lemma wire_name_nonempty [simp]: "wire_name ws \<noteq> []" "dotted ws \<noteq> []"
  by (cases ws; simp)+

lemma dns_labels_name:
  assumes "\<forall>w \<in> set ws. label_ok w" and "off = length pre"
  shows "dns_labels (pre @ wire_name ws @ post) off =
    Some (Some (pre @ dotted ws @ post, off + length (wire_name ws) - 1))"
  using assms
proof (induction ws arbitrary: pre off)
  case Nil
  then show ?case by (subst dns_labels.simps) (simp add: nth_append)
next
  case (Cons w ws)
  have w: "w \<noteq> []" "length w < 64" using Cons.prems by (auto simp: label_ok_def)
  have u: "unat (of_nat (length w) :: u8) = length w" using w(2) by (simp add: unat_of_nat)
  then have nz: "(of_nat (length w) :: u8) \<noteq> 0" using w(1) by (metis length_0_conv unat_0)
  have "pre @ wire_name (w # ws) @ post = pre @ of_nat (length w) # (w @ wire_name ws @ post)" by simp
  then have "dns_labels (pre @ wire_name (w # ws) @ post) off =
      dns_labels ((pre @ 46 # w) @ wire_name ws @ post) (off + 1 + length w)"
    using Cons.prems(2) u nz by (subst dns_labels.simps) (simp add: Let_def)
  also have "\<dots> = Some (Some ((pre @ 46 # w) @ dotted ws @ post, off + 1 + length w + length (wire_name ws) - 1))"
    using Cons.prems by (intro Cons.IH) auto
  finally show ?case by simp
qed

lemma cstr_dotted:
  assumes "\<forall>w \<in> set ws. label_ok w" and "post = 0 # post'"
  shows "cstr (drop 1 (dotted ws @ post)) = dns_name ws"
proof -
  have "cstr (dotted ws @ post) = butlast (dotted ws)" if "\<forall>w \<in> set ws. label_ok w" for ws
    using that
  proof (induction ws)
    case Nil
    then show ?case by (simp add: cstr_def)
  next
    case (Cons w ws)
    then have "\<forall>b \<in> set w. b \<noteq> 0" by (auto simp: label_ok_def)
    then have "takeWhile (\<lambda>b. b \<noteq> 0) (w @ dotted ws @ post) = w @ takeWhile (\<lambda>b. b \<noteq> 0) (dotted ws @ post)"
      by (simp add: takeWhile_append2)
    with Cons show ?case by (simp add: cstr_def butlast_append)
  qed
  note c = this
  show ?thesis
  proof (cases ws)
    case Nil
    then show ?thesis using assms by (simp add: cstr_def dns_name_def)
  next
    case (Cons w ws')
    then have "\<forall>b \<in> set w. b \<noteq> 0" "\<forall>w \<in> set ws'. label_ok w" using assms(1) by (auto simp: label_ok_def)
    then have "cstr (w @ dotted ws' @ post) = w @ cstr (dotted ws' @ post)"
      by (simp add: cstr_def takeWhile_append2)
    with c \<open>\<forall>w \<in> set ws'. label_ok w\<close> Cons show ?thesis by (simp add: dns_name_def)
  qed
qed

section \<open>Answering a query\<close>

lemma bytes16_swap: "bytes16 (swap16 v) = [ucast (drop_bit 8 v), ucast v]"
  unfolding bytes16_def swap16_def by (auto intro!: bit_word_eqI simp: bit_simps)

lemma swap_load16: "swap16 (load16 a b) = push_bit 8 (ucast a) OR ucast b"
  unfolding swap16_def load16_def
  by (rule bit_word_eqI) (auto simp: bit_simps dest: bit_imp_le_length)

lemma find_index_bound:
  assumes r: "dns_ready self xs" and f: "lru_find mx name c = (dns_abs self xs, i)"
  shows "i < unat (dns_max self)" and "i < 2 ^ 31"
proof -
  from r have ix: "dns_index self xs" and sh: "dns_shape self xs" by (auto simp: dns_ready_def dns_inv_def)
  have "(name, i) \<in> set (dns_abs self xs)" using find_lru_recent [OF f] by (auto simp: recent_def)
  then obtain a where "a \<in> set xs" "idx_of self a = i" by (auto simp: dns_abs_def)
  with index_facts(1) [OF ix shape_facts(1) [OF sh]] ix show "i < unat (dns_max self)" by (fastforce simp: dns_index_def)
  with index_max [OF ix] show "i < 2 ^ 31" by simp
qed

lemma reply_flags:
  fixes f0 f1 :: u8
  defines "fl \<equiv> push_bit 8 (ucast f0) OR ucast f1 :: u16"
  shows "ucast (drop_bit 8 (fl OR 0x8000 OR drop_bit 1 (fl AND 0x100))) = f0 OR 0x80"
    and "ucast (fl OR 0x8000 OR drop_bit 1 (fl AND 0x100)) = f1 OR push_bit 7 (f0 AND 1)"
proof -
  define h c :: u16 and d :: u8 where hcd: "h = 0x8000" "c = 0x100" "d = 0x80"
  have b: "bit h n \<longleftrightarrow> n = 15" "bit c n \<longleftrightarrow> n = 8" "bit d n \<longleftrightarrow> n = 7" for n
    using bit_exp_iff [where 'a = "16 word", of 15 n] bit_exp_iff [where 'a = "16 word", of 8 n]
      bit_exp_iff [where 'a = "8 word", of 7 n] by (auto simp: hcd)
  have "ucast (drop_bit 8 (fl OR h OR drop_bit 1 (fl AND c))) = f0 OR d"
    unfolding fl_def by (rule bit_word_eqI) (auto simp: bit_simps b dest: bit_imp_le_length)
  then show "ucast (drop_bit 8 (fl OR 0x8000 OR drop_bit 1 (fl AND 0x100))) = f0 OR 0x80"
    by (simp only: hcd)
  have "ucast (fl OR h OR drop_bit 1 (fl AND c)) = f1 OR push_bit 7 (f0 AND 1)"
    unfolding fl_def by (rule bit_word_eqI) (auto simp: bit_simps b bit_1_iff dest: bit_imp_le_length)
  then show "ucast (fl OR 0x8000 OR drop_bit 1 (fl AND 0x100)) = f1 OR push_bit 7 (f0 AND 1)"
    by (simp only: hcd)
qed

lemma dns_question_A:
  assumes ws: "\<forall>w \<in> set ws. label_ok w" and r: "dns_ready self xs" and m: "malloc_ok malloc (dns_max self)"
    and pre: "length pre = ipo"
  shows "\<exists>self' xs' idx. dns_question malloc self (pre @ wire_name ws @ [0, 1, 0, 1] @ post) ipo =
      Some (Inr (self', pre @ dotted ws @ [0, 1, 0, 1] @ post, ipo + length (wire_name ws) + 4, [(ipo, dns_net self OR idx)])) \<and>
    dns_ready self' xs' \<and> lru_find (unat (dns_max self)) (dns_name ws) (dns_abs self xs) = (dns_abs self' xs', unat idx) \<and>
    dns_max self' = dns_max self \<and> dns_net self' = dns_net self \<and> dns_mask self' = dns_mask self"
proof -
  let ?rb = "pre @ dotted ws @ [0, 1, 0, 1] @ post"
  have l: "dns_labels (pre @ wire_name ws @ [0, 1, 0, 1] @ post) ipo = Some (Some (?rb, ipo + length (wire_name ws) - 1))"
    using dns_labels_name [OF ws, of ipo pre "[0, 1, 0, 1] @ post"] pre by simp
  obtain k where k: "length (wire_name ws) = Suc k" by (cases "wire_name ws") auto
  have nth: "?rb ! (ipo + length (wire_name ws) + i) = ([0, 1, 0, 1] @ post) ! i" for i
    using pre by (simp add: nth_append)
  have name: "cstr (drop (ipo + 1) ?rb) = dns_name ws"
    using cstr_dotted [OF ws, of "[0, 1, 0, 1] @ post"] pre by simp
  from dns_step_ready [OF m r, of "Find (dns_name ws)"] obtain self' xs' idx where
    f: "hev_mapped_dns_find malloc self (dns_name ws) = Some (self', idx)" "dns_ready self' xs'"
      "lru_find (unat (dns_max self)) (dns_name ws) (dns_abs self xs) = (dns_abs self' xs', unat idx)"
      "dns_max self' = dns_max self" "dns_net self' = dns_net self" "dns_mask self' = dns_mask self"
    by (auto split: prod.splits)
  have "0 \<le>s idx" using find_index_bound(2) [OF f(2,3)] by (simp only: sle_zero_iff)
  moreover have "read_u16 0 1 = 1" by (simp add: read_u16_def)
  ultimately show ?thesis
    using l f nth [of 0] nth [of 1] nth [of 2] nth [of 3] name k pre
    by (intro exI [of _ self'] exI [of _ xs'] exI [of _ idx])
      (simp add: dns_question_def Let_def ac_simps numeral_2_eq_2 numeral_3_eq_3)
qed

text \<open>The fixed part of an answer after its pointer.\<close>

lemma dns_answer_bytes: "ipo < 256 \<Longrightarrow> dns_answer ipo ip = [0xc0, of_nat ipo, 0, 1, 0, 1, 0, 0, 0, 1, 0, 4] @ write_u32 ip"
  by (simp add: dns_answer_def write_u16_def write_u32_def)

lemma length_dns_answer [simp]: "length (dns_answer ipo ip) = 16"
  by (simp add: dns_answer_def write_u16_def write_u32_def)

lemma take_length_append: "n = length xs \<Longrightarrow> take n (xs @ ys) = xs"
  by simp

lemma memcpy_at_append:
  "off = length a \<Longrightarrow> length b = length bs \<Longrightarrow> memcpy_at (a @ b @ c) off bs = a @ bs @ c"
  by (simp add: memcpy_at_def)

text \<open>The answers written behind the question, for any flags.\<close>

lemma answers_layout:
  assumes "16 \<le> length (extra @ rest)"
  shows "dns_answers (memcpy_at (memcpy_at (([i0, i1, f0, f1, 0, 1, a0, a1, n0, n1, r0, r1] @ wire_name ws @ [0, 1, 0, 1] @ extra) @ rest) 2
      (bytes16 fl)) 6 [0, 0, 0, 0, 0, 0]) (12 + length (wire_name ws) + 4) [(12, ip)] =
    Some (([i0, i1] @ bytes16 fl @ [0, 1, 0, 0, 0, 0, 0, 0] @ wire_name ws @ [0, 1, 0, 1]) @ dns_answer 12 ip @ drop 16 (extra @ rest),
      length (wire_name ws) + 32)"
proof -
  let ?hd = "[i0, i1] @ bytes16 fl @ [0, 1, 0, 0, 0, 0, 0, 0] @ wire_name ws @ [0, 1, 0, 1]"
  let ?sb = "memcpy_at (memcpy_at (([i0, i1, f0, f1, 0, 1, a0, a1, n0, n1, r0, r1] @ wire_name ws @ [0, 1, 0, 1] @ extra) @ rest) 2
    (bytes16 fl)) 6 [0, 0, 0, 0, 0, 0]"
  have "?sb = ?hd @ extra @ rest" by (simp add: memcpy_at_def bytes16_def)
  then have sb: "?sb = ?hd @ take 16 (extra @ rest) @ drop 16 (extra @ rest)" by (simp only: append_take_drop_id)
  have "memcpy_at ?sb (12 + length (wire_name ws) + 4) (dns_answer 12 ip) = ?hd @ dns_answer 12 ip @ drop 16 (extra @ rest)"
    unfolding sb using assms by (intro memcpy_at_append) simp_all
  moreover have "length ?sb = length ?hd + length (extra @ rest)" using sb assms by simp
  ultimately show ?thesis using assms by simp
qed

text \<open>
  C16: An address query is answered from the cache. For a query with one question of type A and
  class IN, whatever its name and whatever follows the question, the handler returns a response of
  the length of the question plus one answer: the header with the same id and question count, the
  response bit set, recursion available exactly if it was desired, one answer and no other record;
  the question unchanged; and an answer that points back to the name and carries the mapped
  network's address with the index that the cache specification gives to the name. Nothing outside the two buffers
  is accessed.
\<close>
theorem dns_query_answered:
  assumes ws: "\<forall>w \<in> set ws. label_ok w" and r: "dns_ready self xs" and m: "malloc_ok malloc (dns_max self)"
    and req: "req = [i0, i1, f0, f1, 0, 1, a0, a1, n0, n1, r0, r1] @ wire_name ws @ [0, 1, 0, 1] @ extra"
    and len: "length req \<le> length res" "length (wire_name ws) + 32 \<le> length res"
  shows "\<exists>self' xs' idx sb. hev_mapped_dns_handle malloc self req res = Some (self', Some (sb, length (wire_name ws) + 32)) \<and>
    dns_ready self' xs' \<and> lru_find (unat (dns_max self)) (dns_name ws) (dns_abs self xs) = (dns_abs self' xs', unat idx) \<and>
    take (length (wire_name ws) + 32) sb =
      [i0, i1, f0 OR 0x80, f1 OR push_bit 7 (f0 AND 1), 0, 1, 0, 1, 0, 0, 0, 0] @ wire_name ws @ [0, 1, 0, 1] @
      [0xc0, 12, 0, 1, 0, 1, 0, 0, 0, 1, 0, 4] @ write_u32 (dns_net self OR idx)"
proof -
  let ?fl = "push_bit 8 (ucast f0) OR ucast f1 :: u16"
  let ?pre = "[i0, i1, f0, f1, 1, 0, a0, a1, n0, n1, r0, r1]"
  have qd: "ntohs (load16 (req ! 4) (req ! 5)) = 1" by (simp add: req swap_load16)
  have rb: "memcpy_at req 4 (bytes16 1) = ?pre @ wire_name ws @ [0, 1, 0, 1] @ extra"
    by (simp add: req memcpy_at_def bytes16_def)
  obtain self' xs' idx where q: "dns_question malloc self (?pre @ wire_name ws @ [0, 1, 0, 1] @ extra) 12 =
      Some (Inr (self', ?pre @ dotted ws @ [0, 1, 0, 1] @ extra, 12 + length (wire_name ws) + 4, [(12, dns_net self OR idx)]))"
    "dns_ready self' xs'" "lru_find (unat (dns_max self)) (dns_name ws) (dns_abs self xs) = (dns_abs self' xs', unat idx)"
    using dns_question_A [OF ws r m, of ?pre 12 extra] by auto
  define rest where "rest = drop (length req) res"
  define ans where "ans = dns_answer 12 (dns_net self OR idx)"
  have sb0: "memcpy_at res 0 req = req @ rest" by (simp add: memcpy_at_def rest_def)
  have fl: "ntohs (load16 ((req @ rest) ! 2) ((req @ rest) ! 3)) = ?fl" by (simp add: req swap_load16)
  let ?mid = "wire_name ws @ [0, 1, 0, 1]"
  define sb1 where "sb1 = memcpy_at (memcpy_at (req @ rest) 2 (bytes16 ?fl)) 6 [0, 0, 0, 0, 0, 0]"
  define tail where "tail = drop 16 (extra @ rest)"
  have a: "dns_answers sb1 (12 + length (wire_name ws) + 4) [(12, dns_net self OR idx)] =
      Some (([i0, i1] @ bytes16 ?fl @ [0, 1, 0, 0, 0, 0, 0, 0] @ ?mid) @ ans @ tail, length (wire_name ws) + 32)"
    unfolding sb1_def ans_def tail_def req using len by (intro answers_layout) (simp add: rest_def req)
  have sb3: "memcpy_at (memcpy_at (([i0, i1] @ bytes16 ?fl @ [0, 1, 0, 0, 0, 0, 0, 0] @ ?mid) @ ans @ tail) 2 [f0 OR 0x80, f1 OR push_bit 7 (f0 AND 1)]) 6 [0, 1] =
      [i0, i1, f0 OR 0x80, f1 OR push_bit 7 (f0 AND 1), 0, 1, 0, 1, 0, 0, 0, 0] @ ?mid @ ans @ tail"
    by (simp add: memcpy_at_def bytes16_def)
  have b: "bytes16 (htons (?fl OR 0x8000 OR drop_bit 1 (?fl AND 0x100))) = [f0 OR 0x80, f1 OR push_bit 7 (f0 AND 1)]"
    "bytes16 (htons (of_nat (length [(12 :: nat, dns_net self OR idx)]))) = [0, 1]"
    by (simp_all only: bytes16_swap reply_flags) simp
  have "hev_mapped_dns_handle malloc self req res = Some (self', Some
      ([i0, i1, f0 OR 0x80, f1 OR push_bit 7 (f0 AND 1), 0, 1, 0, 1, 0, 0, 0, 0] @ ?mid @ ans @ tail, length (wire_name ws) + 32))"
  proof -
    have g: "\<not> length res < length req" "\<not> (length req < 6 \<or> length res < 12)" "\<not> (32 :: u16) < 1"
      using len by (auto simp: req)
    have "dns_questions malloc (unat (1 :: u16)) (self, ?pre @ wire_name ws @ [0, 1, 0, 1] @ extra, 12, []) =
        Some (Inr (self', ?pre @ dotted ws @ [0, 1, 0, 1] @ extra, 12 + length (wire_name ws) + 4, [(12, dns_net self OR idx)]))"
      using q(1) by simp
    with g a sb3 b show ?thesis
      unfolding hev_mapped_dns_handle_def Let_def sb0 fl qd rb sb1_def [symmetric] by (simp only: if_False option.case sum.case prod.case)
  qed
  moreover have "take (length (wire_name ws) + 32) ([i0, i1, f0 OR 0x80, f1 OR push_bit 7 (f0 AND 1), 0, 1, 0, 1, 0, 0, 0, 0] @ ?mid @ ans @ tail) =
      [i0, i1, f0 OR 0x80, f1 OR push_bit 7 (f0 AND 1), 0, 1, 0, 1, 0, 0, 0, 0] @ ?mid @ ans"
  proof -
    have "length (wire_name ws) + 32 = length ([i0, i1, f0 OR 0x80, f1 OR push_bit 7 (f0 AND 1), 0, 1, 0, 1, 0, 0, 0, 0] @ ?mid @ ans)"
      by (simp add: ans_def)
    from take_length_append [OF this, of tail] show ?thesis by (simp only: append_assoc)
  qed
  moreover have "ans = [0xc0, 12, 0, 1, 0, 1, 0, 0, 0, 1, 0, 4] @ write_u32 (dns_net self OR idx)"
    by (simp add: ans_def dns_answer_bytes)
  ultimately show ?thesis using q(2,3) unfolding append_assoc by metis
qed

theorem dns_query_answered_witness:
  "\<exists>self' idx sb. hev_mapped_dns_handle demo_malloc demo_dns
      ([7, 9, 1, 0, 0, 1, 0, 0, 0, 0, 0, 0] @ [1, 97, 2, 98, 99, 0] @ [0, 1, 0, 1]) (replicate 64 0) = Some (self', Some (sb, 38)) \<and>
    take 38 sb = [7, 9, 0x81, 0x80, 0, 1, 0, 1, 0, 0, 0, 0] @ [1, 97, 2, 98, 99, 0] @ [0, 1, 0, 1] @
      [0xc0, 12, 0, 1, 0, 1, 0, 0, 0, 1, 0, 4] @ write_u32 (0xC6120000 OR idx)"
proof -
  have r: "dns_ready demo_dns []" using dns_new_inv [OF demo_dns_new] by (simp add: dns_ready_def word_sless_alt)
  have m: "malloc_ok demo_malloc (dns_max demo_dns)" using demo_malloc_ok by (simp add: demo_dns_def)
  have w: "\<forall>w \<in> set [[97], [98, 99]]. label_ok w" by (simp add: label_ok_def)
  have "dns_net demo_dns = 0xC6120000" "wire_name [[97], [98, 99]] = [1, 97, 2, 98, 99, 0]" by (simp_all add: demo_dns_def)
  with dns_query_answered [OF w r m refl, of 7 9 1 0 0 0 0 0 0 0 "[]" "replicate 64 0"] show ?thesis
    by auto
qed

end
