(* ===== verification/Hev_IO.thy ===== *)
theory Hev_IO
  imports Hev_Prelude
begin

text \<open>
  Programs that talk to the operating system. A routine of the C sources that makes system calls
  is a tree: a node is a call with its arguments, and its subtrees are the continuations, one for
  each answer. The calls are those of the task system (\<open>hev_task_io_socket_*\<close>, \<open>hev_task_*_fd\<close>),
  of the socket interface (\<open>Send\<close> stands for \<open>hev_task_io_socket_send\<close> and \<open>hev_task_io_socket_sendmsg\<close>
  where the code does not read \<open>errno\<close>, \<open>Sendmsg\<close> where it does), of the name resolver, of the allocator and of the reference counts.

  A step relation says which answers are possible, and which calls are misuse: a call on a descriptor that
  is not open, closing a descriptor that the task still polls, freeing what is not allocated, and
  an invalid access (\<open>Crash\<close>) have no step. A tree is finite, so that a program made of such
  calls ends when every answer is given.
\<close>

section \<open>Calls\<close>

record sockaddr_in6 =
  sin6_family :: int
  sin6_port :: u16
  sin6_addr :: "u8 list"

text \<open>
  The outcome of a receive: \<open>Data bs\<close>, where no bytes mean that the peer has closed, or a negative
  result; each with whether \<open>errno\<close> is \<open>EAGAIN\<close> afterwards.
\<close>

datatype rx = Data "u8 list" bool | Err int bool

fun rx_res :: "rx \<Rightarrow> int" where
  "rx_res (Data bs again) = int (length bs)"
| "rx_res (Err r again) = r"

fun rx_data :: "rx \<Rightarrow> u8 list" where
  "rx_data (Data bs again) = bs"
| "rx_data (Err r again) = []"

fun rx_again :: "rx \<Rightarrow> bool" where
  "rx_again (Data bs again) = again"
| "rx_again (Err r again) = again"

definition rx_ok :: "nat \<Rightarrow> rx \<Rightarrow> bool" where
  "rx_ok n r \<longleftrightarrow> (case r of Data bs again \<Rightarrow> length bs \<le> n | Err r again \<Rightarrow> r < 0)"

text \<open>The outcome of receiving several datagrams, each with its source address.\<close>

datatype mrx = Dgrams "(u8 list \<times> sockaddr_in6) list" bool | MErr int bool

definition mrx_ok :: "nat list \<Rightarrow> mrx \<Rightarrow> bool" where
  "mrx_ok lens r \<longleftrightarrow> (case r of
     Dgrams ds again \<Rightarrow> ds \<noteq> [] \<and> length ds \<le> length lens \<and>
       (\<forall>(d, len) \<in> set (zip ds lens). length (fst d) \<le> len \<and> length (sin6_addr (snd d)) = 16)
   | MErr r again \<Rightarrow> r \<le> 0)"

datatype rflag = Waitall | Dontwait | Noflag

datatype sockopt = IPV6_V6ONLY | SO_RCVBUF | SO_REUSEADDR | SO_MARK

type_synonym addrinfo = "int \<times> u8 list"

datatype 'a io =
    Ret 'a
  | Crash
  | Recv int nat rflag "rx \<Rightarrow> 'a io"
  | Send int "u8 list" "int \<Rightarrow> 'a io"
  | Sendmsg int "u8 list" "int \<times> bool \<Rightarrow> 'a io"
  | Recvmmsg int "nat list" rflag "mrx \<Rightarrow> 'a io"
  | Sendmmsg int "(sockaddr_in6 option \<times> u8 list) list" "int \<times> bool \<Rightarrow> 'a io"
  | Socket int "int \<Rightarrow> 'a io"
  | Setsockopt int sockopt int "int \<Rightarrow> 'a io"
  | Connect int sockaddr_in6 "int \<Rightarrow> 'a io"
  | Bind int sockaddr_in6 "int \<Rightarrow> 'a io"
  | Getsockname int "int \<times> sockaddr_in6 \<Rightarrow> 'a io"
  | Close int "'a io"
  | Add_Fd int "int \<Rightarrow> 'a io"
  | Mod_Fd int "int \<Rightarrow> 'a io"
  | Del_Fd int "'a io"
  | Getaddrinfo cstring int "addrinfo option \<Rightarrow> 'a io"
  | Splice int int "'a io"
  | Yield "'a io"
  | Waitio "'a io"
  | Sleep int "int \<Rightarrow> 'a io"
  | Malloc "addr \<Rightarrow> 'a io"
  | Free addr "'a io"
  | Ref addr "'a io"
  | Unref addr "'a io"

text \<open>One routine after another.\<close>

primrec io_bind :: "'a io \<Rightarrow> ('a \<Rightarrow> 'b io) \<Rightarrow> 'b io" where
  "io_bind (Ret x) c = c x"
| "io_bind Crash c = Crash"
| "io_bind (Recv fd n fl k) c = Recv fd n fl (\<lambda>r. io_bind (k r) c)"
| "io_bind (Send fd bs k) c = Send fd bs (\<lambda>r. io_bind (k r) c)"
| "io_bind (Sendmsg fd bs k) c = Sendmsg fd bs (\<lambda>r. io_bind (k r) c)"
| "io_bind (Recvmmsg fd ns fl k) c = Recvmmsg fd ns fl (\<lambda>r. io_bind (k r) c)"
| "io_bind (Sendmmsg fd ms k) c = Sendmmsg fd ms (\<lambda>r. io_bind (k r) c)"
| "io_bind (Socket t k) c = Socket t (\<lambda>r. io_bind (k r) c)"
| "io_bind (Setsockopt fd opt v k) c = Setsockopt fd opt v (\<lambda>r. io_bind (k r) c)"
| "io_bind (Connect fd a k) c = Connect fd a (\<lambda>r. io_bind (k r) c)"
| "io_bind (Bind fd a k) c = Bind fd a (\<lambda>r. io_bind (k r) c)"
| "io_bind (Getsockname fd k) c = Getsockname fd (\<lambda>r. io_bind (k r) c)"
| "io_bind (Close fd k) c = Close fd (io_bind k c)"
| "io_bind (Add_Fd fd k) c = Add_Fd fd (\<lambda>r. io_bind (k r) c)"
| "io_bind (Mod_Fd fd k) c = Mod_Fd fd (\<lambda>r. io_bind (k r) c)"
| "io_bind (Del_Fd fd k) c = Del_Fd fd (io_bind k c)"
| "io_bind (Getaddrinfo s f k) c = Getaddrinfo s f (\<lambda>r. io_bind (k r) c)"
| "io_bind (Splice a b k) c = Splice a b (io_bind k c)"
| "io_bind (Yield k) c = Yield (io_bind k c)"
| "io_bind (Waitio k) c = Waitio (io_bind k c)"
| "io_bind (Sleep t k) c = Sleep t (\<lambda>r. io_bind (k r) c)"
| "io_bind (Malloc k) c = Malloc (\<lambda>r. io_bind (k r) c)"
| "io_bind (Free p k) c = Free p (io_bind k c)"
| "io_bind (Ref p k) c = Ref p (io_bind k c)"
| "io_bind (Unref p k) c = Unref p (io_bind k c)"

lemma io_bind_assoc: "io_bind (io_bind p c) d = io_bind p (\<lambda>x. io_bind (c x) d)"
  by (induction p) auto

section \<open>Steps\<close>

text \<open>
  The resources of the process: the open descriptors, those the task polls, the allocated blocks,
  and the reference counts.
\<close>

record world =
  w_fds :: "int set"
  w_polled :: "int set"
  w_blocks :: "addr set"
  w_refs :: "addr \<Rightarrow> int"

inductive io_step :: "'a io \<Rightarrow> world \<Rightarrow> 'a io \<Rightarrow> world \<Rightarrow> bool" where
  recv: "fd \<in> w_fds w \<Longrightarrow> rx_ok n r \<Longrightarrow> io_step (Recv fd n fl k) w (k r) w"
| send: "fd \<in> w_fds w \<Longrightarrow> r \<le> int (length bs) \<Longrightarrow> io_step (Send fd bs k) w (k r) w"
| sendmsg: "fd \<in> w_fds w \<Longrightarrow> r \<le> int (length bs) \<Longrightarrow> io_step (Sendmsg fd bs k) w (k (r, b)) w"
| recvmmsg: "fd \<in> w_fds w \<Longrightarrow> mrx_ok ns r \<Longrightarrow> io_step (Recvmmsg fd ns fl k) w (k r) w"
| sendmmsg: "fd \<in> w_fds w \<Longrightarrow> r \<le> int (length ms) \<Longrightarrow> io_step (Sendmmsg fd ms k) w (k (r, b)) w"
| socket: "fd < 0 \<Longrightarrow> io_step (Socket t k) w (k fd) w"
| socket_fd: "0 \<le> fd \<Longrightarrow> fd \<notin> w_fds w \<Longrightarrow> io_step (Socket t k) w (k fd) (w\<lparr>w_fds := insert fd (w_fds w)\<rparr>)"
| setsockopt: "fd \<in> w_fds w \<Longrightarrow> io_step (Setsockopt fd opt v k) w (k r) w"
| connect: "fd \<in> w_fds w \<Longrightarrow> io_step (Connect fd a k) w (k r) w"
| bind: "fd \<in> w_fds w \<Longrightarrow> io_step (Bind fd a k) w (k r) w"
| getsockname: "fd \<in> w_fds w \<Longrightarrow> length (sin6_addr a) = 16 \<Longrightarrow> io_step (Getsockname fd k) w (k (r, a)) w"
| close: "fd \<in> w_fds w \<Longrightarrow> fd \<notin> w_polled w \<Longrightarrow> io_step (Close fd k) w k (w\<lparr>w_fds := w_fds w - {fd}\<rparr>)"
| add_fd: "fd \<in> w_fds w \<Longrightarrow> io_step (Add_Fd fd k) w (k r) (w\<lparr>w_polled := insert fd (w_polled w)\<rparr>)"
| mod_fd: "fd \<in> w_fds w \<Longrightarrow> io_step (Mod_Fd fd k) w (k r) w"
| del_fd: "fd \<in> w_fds w \<Longrightarrow> io_step (Del_Fd fd k) w k (w\<lparr>w_polled := w_polled w - {fd}\<rparr>)"
| getaddrinfo: "io_step (Getaddrinfo s f k) w (k r) w"
| splice: "a \<in> w_fds w \<Longrightarrow> b \<in> w_fds w \<Longrightarrow> io_step (Splice a b k) w k w"
| yield: "io_step (Yield k) w k w"
| waitio: "io_step (Waitio k) w k w"
| sleep: "io_step (Sleep t k) w (k r) w"
| malloc: "io_step (Malloc k) w (k NULL) w"
| malloc_block: "p \<noteq> NULL \<Longrightarrow> p \<notin> w_blocks w \<Longrightarrow>
    io_step (Malloc k) w (k p) (w\<lparr>w_blocks := insert p (w_blocks w)\<rparr>)"
| free: "p \<in> w_blocks w \<Longrightarrow> io_step (Free p k) w k (w\<lparr>w_blocks := w_blocks w - {p}\<rparr>)"
| ref: "0 < w_refs w p \<Longrightarrow> io_step (Ref p k) w k (w\<lparr>w_refs := (w_refs w)(p := w_refs w p + 1)\<rparr>)"
| unref: "0 < w_refs w p \<Longrightarrow> io_step (Unref p k) w k (w\<lparr>w_refs := (w_refs w)(p := w_refs w p - 1)\<rparr>)"

inductive_simps io_step_simps:
  "io_step (Ret x) w p' w'" "io_step Crash w p' w'" "io_step (Recv fd n fl k) w p' w'"
  "io_step (Send fd bs k) w p' w'" "io_step (Sendmsg fd bs k) w p' w'" "io_step (Recvmmsg fd ns fl k) w p' w'"
  "io_step (Sendmmsg fd ms k) w p' w'" "io_step (Socket t k) w p' w'"
  "io_step (Setsockopt fd opt v k) w p' w'" "io_step (Connect fd a k) w p' w'" "io_step (Bind fd a k) w p' w'"
  "io_step (Getsockname fd k) w p' w'" "io_step (Close fd k1) w p' w'" "io_step (Add_Fd fd k) w p' w'"
  "io_step (Mod_Fd fd k) w p' w'" "io_step (Del_Fd fd k1) w p' w'" "io_step (Getaddrinfo s f k) w p' w'"
  "io_step (Splice a b k1) w p' w'" "io_step (Yield k1) w p' w'" "io_step (Waitio k1) w p' w'" "io_step (Sleep t k) w p' w'"
  "io_step (Malloc k) w p' w'" "io_step (Free q k1) w p' w'" "io_step (Ref q k1) w p' w'"
  "io_step (Unref q k1) w p' w'"


text \<open>
  \<open>io_ok Q p w\<close>: whatever the answers, the program makes only calls that are not misuse, ends, and
  returns a result and leaves a world for which \<open>Q\<close> holds.
\<close>

inductive io_ok :: "('a \<Rightarrow> world \<Rightarrow> bool) \<Rightarrow> 'a io \<Rightarrow> world \<Rightarrow> bool" for Q where
  io_ok_ret: "Q x w \<Longrightarrow> io_ok Q (Ret x) w"
| io_ok_step: "io_step p w p1 w1 \<Longrightarrow> (\<And>p' w'. io_step p w p' w' \<Longrightarrow> io_ok Q p' w') \<Longrightarrow> io_ok Q p w"

text \<open>The successors of a program in a world.\<close>

definition io_next :: "'a io \<Rightarrow> world \<Rightarrow> ('a io \<times> world) set" where
  "io_next p w = {(p', w'). io_step p w p' w'}"

lemma io_next_simps:
  "io_next (Ret x) w = {}"
  "io_next Crash w = {}"
  "io_next (Recv fd n fl k2) w = (if fd \<in> w_fds w then (\<lambda>r. (k2 r, w)) ` {r. rx_ok n r} else {})"
  "io_next (Send fd bs k) w = (if fd \<in> w_fds w then (\<lambda>r. (k r, w)) ` {r. r \<le> int (length bs)} else {})"
  "io_next (Sendmsg fd bs k4) w = (if fd \<in> w_fds w then (\<lambda>r. (k4 r, w)) ` {r. fst r \<le> int (length bs)} else {})"
  "io_next (Recvmmsg fd ns fl k3) w = (if fd \<in> w_fds w then (\<lambda>r. (k3 r, w)) ` {r. mrx_ok ns r} else {})"
  "io_next (Sendmmsg fd ms k4) w = (if fd \<in> w_fds w then (\<lambda>r. (k4 r, w)) ` {r. fst r \<le> int (length ms)} else {})"
  "io_next (Socket t k) w = (\<lambda>r. (k r, w)) ` {r. r < 0} \<union>
     (\<lambda>r. (k r, w\<lparr>w_fds := insert r (w_fds w)\<rparr>)) ` {r. 0 \<le> r \<and> r \<notin> w_fds w}"
  "io_next (Setsockopt fd opt v k) w = (if fd \<in> w_fds w then range (\<lambda>r. (k r, w)) else {})"
  "io_next (Connect fd a k) w = (if fd \<in> w_fds w then range (\<lambda>r. (k r, w)) else {})"
  "io_next (Bind fd a k) w = (if fd \<in> w_fds w then range (\<lambda>r. (k r, w)) else {})"
  "io_next (Getsockname fd k5) w =
     (if fd \<in> w_fds w then (\<lambda>r. (k5 r, w)) ` {r. length (sin6_addr (snd r)) = 16} else {})"
  "io_next (Close fd k1) w =
     (if fd \<in> w_fds w \<and> fd \<notin> w_polled w then {(k1, w\<lparr>w_fds := w_fds w - {fd}\<rparr>)} else {})"
  "io_next (Add_Fd fd k) w =
     (if fd \<in> w_fds w then range (\<lambda>r. (k r, w\<lparr>w_polled := insert fd (w_polled w)\<rparr>)) else {})"
  "io_next (Mod_Fd fd k) w = (if fd \<in> w_fds w then range (\<lambda>r. (k r, w)) else {})"
  "io_next (Del_Fd fd k1) w = (if fd \<in> w_fds w then {(k1, w\<lparr>w_polled := w_polled w - {fd}\<rparr>)} else {})"
  "io_next (Getaddrinfo s f k6) w = range (\<lambda>r. (k6 r, w))"
  "io_next (Splice fd fd' k1) w = (if fd \<in> w_fds w \<and> fd' \<in> w_fds w then {(k1, w)} else {})"
  "io_next (Yield k1) w = {(k1, w)}"
  "io_next (Waitio k1) w = {(k1, w)}"
  "io_next (Sleep t k) w = range (\<lambda>r. (k r, w))"
  "io_next (Malloc k7) w = insert (k7 NULL, w)
     ((\<lambda>p. (k7 p, w\<lparr>w_blocks := insert p (w_blocks w)\<rparr>)) ` {p. p \<noteq> NULL \<and> p \<notin> w_blocks w})"
  "io_next (Free p k1) w = (if p \<in> w_blocks w then {(k1, w\<lparr>w_blocks := w_blocks w - {p}\<rparr>)} else {})"
  "io_next (Ref p k1) w =
     (if 0 < w_refs w p then {(k1, w\<lparr>w_refs := (w_refs w)(p := w_refs w p + 1)\<rparr>)} else {})"
  "io_next (Unref p k1) w =
     (if 0 < w_refs w p then {(k1, w\<lparr>w_refs := (w_refs w)(p := w_refs w p - 1)\<rparr>)} else {})"
  by (auto simp: io_next_def io_step_simps)

lemma io_ok_Ret [simp]: "io_ok Q (Ret x) w \<longleftrightarrow> Q x w"
  by (auto intro: io_ok_ret elim: io_ok.cases simp: io_step_simps)

lemma io_ok_next:
  assumes "\<forall>x. p \<noteq> Ret x"
  shows "io_ok Q p w \<longleftrightarrow> io_next p w \<noteq> {} \<and> (\<forall>s \<in> io_next p w. io_ok Q (fst s) (snd s))"
proof
  assume "io_ok Q p w"
  then show "io_next p w \<noteq> {} \<and> (\<forall>s \<in> io_next p w. io_ok Q (fst s) (snd s))"
    by (rule io_ok.cases) (use assms in \<open>auto simp: io_next_def\<close>)
next
  assume r: "io_next p w \<noteq> {} \<and> (\<forall>s \<in> io_next p w. io_ok Q (fst s) (snd s))"
  then obtain p1 w1 where "io_step p w p1 w1" by (auto simp: io_next_def)
  with r show "io_ok Q p w" by (intro io_ok_step [of p w p1 w1]) (auto simp: io_next_def)
qed

lemma rx_ok_exists: "rx_ok n (Data [] False)" "mrx_ok ns (MErr (-1) False)"
  by (simp_all add: rx_ok_def mrx_ok_def)

text \<open>What a call needs, and what is known after it.\<close>

named_theorems io_rules "the calls of a program"

lemma io_ok_Crash [simp]: "\<not> io_ok Q Crash w"
  by (simp add: io_ok_next io_next_simps)

lemma io_ok_Recv [io_rules]:
  "io_ok Q (Recv fd n fl k) w \<longleftrightarrow> fd \<in> w_fds w \<and> (\<forall>r. rx_ok n r \<longrightarrow> io_ok Q (k r) w)"
  using rx_ok_exists by (auto simp: io_ok_next io_next_simps)

lemma io_ok_Send [io_rules]:
  "io_ok Q (Send fd bs k) w \<longleftrightarrow> fd \<in> w_fds w \<and> (\<forall>r \<le> int (length bs). io_ok Q (k r) w)"
  by (auto simp: io_ok_next io_next_simps)

lemma io_ok_Sendmsg [io_rules]:
  "io_ok Q (Sendmsg fd bs k) w \<longleftrightarrow> fd \<in> w_fds w \<and> (\<forall>r b. r \<le> int (length bs) \<longrightarrow> io_ok Q (k (r, b)) w)"
  by (auto simp: io_ok_next io_next_simps)

lemma io_ok_Recvmmsg [io_rules]:
  "io_ok Q (Recvmmsg fd ns fl k) w \<longleftrightarrow> fd \<in> w_fds w \<and> (\<forall>r. mrx_ok ns r \<longrightarrow> io_ok Q (k r) w)"
  using rx_ok_exists by (auto simp: io_ok_next io_next_simps)

lemma io_ok_Sendmmsg [io_rules]:
  "io_ok Q (Sendmmsg fd ms k) w \<longleftrightarrow> fd \<in> w_fds w \<and> (\<forall>r b. r \<le> int (length ms) \<longrightarrow> io_ok Q (k (r, b)) w)"
  by (auto simp: io_ok_next io_next_simps)

lemma io_ok_Socket [io_rules]:
  "io_ok Q (Socket t k) w \<longleftrightarrow> (\<forall>fd < 0. io_ok Q (k fd) w) \<and>
     (\<forall>fd \<ge> 0. fd \<notin> w_fds w \<longrightarrow> io_ok Q (k fd) (w\<lparr>w_fds := insert fd (w_fds w)\<rparr>))"
proof -
  have "{r :: int. r < 0} \<noteq> {}" by (auto intro: exI [of _ "-1"])
  then show ?thesis by (simp add: io_ok_next io_next_simps ball_Un) blast
qed

lemma io_ok_fd_calls [io_rules]:
  "io_ok Q (Setsockopt fd opt v k) w \<longleftrightarrow> fd \<in> w_fds w \<and> (\<forall>r. io_ok Q (k r) w)"
  "io_ok Q (Connect fd a k) w \<longleftrightarrow> fd \<in> w_fds w \<and> (\<forall>r. io_ok Q (k r) w)"
  "io_ok Q (Bind fd a k) w \<longleftrightarrow> fd \<in> w_fds w \<and> (\<forall>r. io_ok Q (k r) w)"
  "io_ok Q (Mod_Fd fd k) w \<longleftrightarrow> fd \<in> w_fds w \<and> (\<forall>r. io_ok Q (k r) w)"
  "io_ok Q (Add_Fd fd k) w \<longleftrightarrow> fd \<in> w_fds w \<and> (\<forall>r. io_ok Q (k r) (w\<lparr>w_polled := insert fd (w_polled w)\<rparr>))"
  "io_ok Q (Splice fd fd' k1) w \<longleftrightarrow> fd \<in> w_fds w \<and> fd' \<in> w_fds w \<and> io_ok Q k1 w"
  by (simp_all add: io_ok_next io_next_simps) blast

lemma io_ok_release:
  "io_ok Q (Del_Fd fd k1) w \<longleftrightarrow> fd \<in> w_fds w \<and> io_ok Q k1 (w\<lparr>w_polled := w_polled w - {fd}\<rparr>)"
  "io_ok Q (Close fd k1) w \<longleftrightarrow> fd \<in> w_fds w \<and> fd \<notin> w_polled w \<and> io_ok Q k1 (w\<lparr>w_fds := w_fds w - {fd}\<rparr>)"
  by (simp_all add: io_ok_next io_next_simps)

lemma io_ok_Getsockname [io_rules]:
  "io_ok Q (Getsockname fd k) w \<longleftrightarrow> fd \<in> w_fds w \<and> (\<forall>r a. length (sin6_addr a) = 16 \<longrightarrow> io_ok Q (k (r, a)) w)"
proof -
  have "length (sin6_addr \<lparr>sin6_family = 0, sin6_port = 0, sin6_addr = replicate 16 0\<rparr>) = 16" by simp
  then have "(0 :: int, \<lparr>sin6_family = 0, sin6_port = 0, sin6_addr = replicate 16 0\<rparr>) \<in>
    {r. length (sin6_addr (snd r)) = 16}" by simp
  then have "{r :: int \<times> sockaddr_in6. length (sin6_addr (snd r)) = 16} \<noteq> {}" by blast
  then show ?thesis by (simp add: io_ok_next io_next_simps split_paired_All)
qed

lemma io_ok_other_calls [io_rules]:
  "io_ok Q (Getaddrinfo s f k2) w \<longleftrightarrow> (\<forall>r. io_ok Q (k2 r) w)"
  "io_ok Q (Yield k1) w \<longleftrightarrow> io_ok Q k1 w"
  "io_ok Q (Waitio k1) w \<longleftrightarrow> io_ok Q k1 w"
  "io_ok Q (Sleep t k) w \<longleftrightarrow> (\<forall>r. io_ok Q (k r) w)"
  "io_ok Q (Ref q k1) w \<longleftrightarrow> 0 < w_refs w q \<and> io_ok Q k1 (w\<lparr>w_refs := (w_refs w)(q := w_refs w q + 1)\<rparr>)"
  "io_ok Q (Unref q k1) w \<longleftrightarrow> 0 < w_refs w q \<and> io_ok Q k1 (w\<lparr>w_refs := (w_refs w)(q := w_refs w q - 1)\<rparr>)"
  by (simp_all add: io_ok_next io_next_simps)

lemma io_ok_heap_calls [io_rules]:
  "io_ok Q (Malloc k) w \<longleftrightarrow> io_ok Q (k NULL) w \<and>
     (\<forall>p. p \<noteq> NULL \<longrightarrow> p \<notin> w_blocks w \<longrightarrow> io_ok Q (k p) (w\<lparr>w_blocks := insert p (w_blocks w)\<rparr>))"
  "io_ok Q (Free p k1) w \<longleftrightarrow> p \<in> w_blocks w \<and> io_ok Q k1 (w\<lparr>w_blocks := w_blocks w - {p}\<rparr>)"
  by (simp_all add: io_ok_next io_next_simps) blast

lemma io_ok_mono:
  assumes "io_ok P p w" and "\<And>x w'. P x w' \<Longrightarrow> Q x w'"
  shows "io_ok Q p w"
  using assms(1) by (induction rule: io_ok.induct) (auto simp: assms(2) intro: io_ok_step)

lemma io_ok_bind: "io_ok Q (io_bind p c) w \<longleftrightarrow> io_ok (\<lambda>x. io_ok Q (c x)) p w"
  by (induction p arbitrary: w) (simp_all add: io_rules io_ok_release)

text \<open>
  The meaning over runs: no run is stuck before the program returns, every run that returns
  satisfies the postcondition. That there is no infinite run is part of the least fixed point \<open>io_ok\<close>.
\<close>

inductive io_steps :: "'a io \<Rightarrow> world \<Rightarrow> 'a io \<Rightarrow> world \<Rightarrow> bool" where
  io_steps_refl: "io_steps p w p w"
| io_steps_step: "io_step p w p1 w1 \<Longrightarrow> io_steps p1 w1 p2 w2 \<Longrightarrow> io_steps p w p2 w2"

lemma io_ok_runs:
  assumes "io_steps p w p' w'" and "io_ok Q p w"
  shows "(\<exists>x. p' = Ret x \<and> Q x w') \<or> (\<exists>p'' w''. io_step p' w' p'' w'')"
  using assms
proof (induction rule: io_steps.induct)
  case (io_steps_refl p w)
  then show ?case by (auto elim: io_ok.cases)
next
  case (io_steps_step p w p1 w1 p2 w2)
  then have "io_ok Q p1 w1" by (auto elim: io_ok.cases simp: io_step_simps)
  with io_steps_step.IH show ?case by blast
qed

lemma io_step_bind: "io_step p w p' w' \<Longrightarrow> io_step (io_bind p c) w (io_bind p' c) w'"
  by (induction rule: io_step.induct) (auto simp: io_step_simps)

lemma io_steps_bind:
  "io_steps p w p' w' \<Longrightarrow> p' = Ret x \<Longrightarrow> io_steps (c x) w' q w'' \<Longrightarrow> io_steps (io_bind p c) w q w''"
  by (induction rule: io_steps.induct) (auto intro: io_steps.intros dest: io_step_bind)

end
