(* ===== verification/Hev_Socks5_Addr.thy ===== *)
theory Hev_Socks5_Addr
  imports Hev_IO
begin

text \<open>
  The wire format of addresses (\<open>hev-socks5-proto.h\<close>) and the conversions of
  \<open>hev-socks5-misc.c\<close>. An address is the packed struct the code lays over a buffer: byte 0 is the
  type, and the union after it is read as an IPv4 address and port, an IPv6 address and port, or
  a length byte with a name and a port. Ports are in network byte order, as in the struct.
\<close>

section \<open>Protocol constants\<close>

abbreviation (input) "HEV_SOCKS5_VERSION_5 \<equiv> 5 :: u8"

abbreviation (input) "HEV_SOCKS5_AUTH_METHOD_NONE \<equiv> 0 :: int"
abbreviation (input) "HEV_SOCKS5_AUTH_METHOD_USER \<equiv> 2 :: int"
abbreviation (input) "HEV_SOCKS5_AUTH_METHOD_DENY \<equiv> 255 :: int"

abbreviation (input) "HEV_SOCKS5_AUTH_VERSION_1 \<equiv> 1 :: u8"

abbreviation (input) "HEV_SOCKS5_REQ_CMD_CONNECT \<equiv> 1 :: u8"
abbreviation (input) "HEV_SOCKS5_REQ_CMD_UDP_ASC \<equiv> 3 :: u8"
abbreviation (input) "HEV_SOCKS5_REQ_CMD_FWD_UDP \<equiv> 5 :: u8"

abbreviation (input) "HEV_SOCKS5_RES_REP_SUCC \<equiv> 0 :: u8"
abbreviation (input) "HEV_SOCKS5_RES_REP_FAIL \<equiv> 1 :: u8"
abbreviation (input) "HEV_SOCKS5_RES_REP_HOST \<equiv> 4 :: u8"
abbreviation (input) "HEV_SOCKS5_RES_REP_IMPL \<equiv> 7 :: u8"
abbreviation (input) "HEV_SOCKS5_RES_REP_ADDR \<equiv> 8 :: u8"

abbreviation (input) "HEV_SOCKS5_ADDR_TYPE_IPV4 \<equiv> 1 :: u8"
abbreviation (input) "HEV_SOCKS5_ADDR_TYPE_IPV6 \<equiv> 4 :: u8"
abbreviation (input) "HEV_SOCKS5_ADDR_TYPE_NAME \<equiv> 3 :: u8"

text \<open>The address families of the Linux ABI.\<close>

abbreviation (input) "AF_UNSPEC \<equiv> 0 :: int"
abbreviation (input) "AF_INET \<equiv> 2 :: int"
abbreviation (input) "AF_INET6 \<equiv> 10 :: int"

abbreviation (input) "HEV_SOCKS5_ADDR_FAMILY_IPV4 \<equiv> AF_INET"
abbreviation (input) "HEV_SOCKS5_ADDR_FAMILY_IPV6 \<equiv> AF_INET6"
abbreviation (input) "HEV_SOCKS5_ADDR_FAMILY_UNSPEC \<equiv> AF_UNSPEC"

abbreviation (input) "SOCK_STREAM \<equiv> 1 :: int"
abbreviation (input) "SOCK_DGRAM \<equiv> 2 :: int"

section \<open>The packed address\<close>

type_synonym HevSocks5Addr = "u8 list"

definition addr_atype :: "HevSocks5Addr \<Rightarrow> u8" where
  "addr_atype a = a ! 0"

definition domain_len :: "HevSocks5Addr \<Rightarrow> u8" where
  "domain_len a = a ! 1"

definition domain_addr :: "HevSocks5Addr \<Rightarrow> u8 list" where
  "domain_addr a = drop 2 a"

definition ipv4_addr :: "HevSocks5Addr \<Rightarrow> u8 list" where
  "ipv4_addr a = take 4 (drop 1 a)"

definition ipv4_port :: "HevSocks5Addr \<Rightarrow> u16" where
  "ipv4_port a = load16 (a ! 5) (a ! 6)"

definition ipv6_addr :: "HevSocks5Addr \<Rightarrow> u8 list" where
  "ipv6_addr a = take 16 (drop 1 a)"

definition ipv6_port :: "HevSocks5Addr \<Rightarrow> u16" where
  "ipv6_port a = load16 (a ! 17) (a ! 18)"

text \<open>
  \<open>sizeof (HevSocks5Addr)\<close>: one byte of type, one of length, and the 258 bytes of
  \<open>domain.addr\<close>.
\<close>

definition addr_size :: nat where
  "addr_size = 260"

section \<open>Conversions\<close>

definition hev_socks5_addr_len :: "HevSocks5Addr \<Rightarrow> int" where
  "hev_socks5_addr_len addr =
     (if addr_atype addr = HEV_SOCKS5_ADDR_TYPE_IPV4 then 7
      else if addr_atype addr = HEV_SOCKS5_ADDR_TYPE_IPV6 then 19
      else if addr_atype addr = HEV_SOCKS5_ADDR_TYPE_NAME then 4 + uint (domain_len addr)
      else -1)"

text \<open>
  \<open>strncpy (domain.addr, name, 256)\<close> pads with zeros and writes no terminator for a name of 256
  bytes or more; \<open>strlen\<close> then reads on to the end of the struct and, without a zero there, past
  it (no result). The length is stored in a byte.
\<close>

definition hev_socks5_addr_from_name :: "HevSocks5Addr \<Rightarrow> cstring \<Rightarrow> u16 \<Rightarrow> (HevSocks5Addr \<times> int) option" where
  "hev_socks5_addr_from_name addr name port =
     (let addr = addr[0 := HEV_SOCKS5_ADDR_TYPE_NAME];
          addr = memcpy_at addr 2 (take 256 (name @ replicate 256 0))
      in if 0 \<notin> set (domain_addr addr) then None
      else
        let addr = addr[1 := of_nat (length (cstr (domain_addr addr)))];
            addr = memcpy_at addr (2 + unat (domain_len addr)) (bytes16 port)
        in Some (addr, 4 + uint (domain_len addr)))"

definition hev_socks5_addr_from_ipv4 :: "HevSocks5Addr \<Rightarrow> u8 list \<Rightarrow> u16 \<Rightarrow> HevSocks5Addr \<times> int" where
  "hev_socks5_addr_from_ipv4 addr ipv4 port =
     (let addr = addr[0 := HEV_SOCKS5_ADDR_TYPE_IPV4];
          addr = memcpy_at addr 1 (take 4 ipv4);
          addr = memcpy_at addr 5 (bytes16 port)
      in (addr, 7))"

definition hev_socks5_addr_from_ipv6 :: "HevSocks5Addr \<Rightarrow> u8 list \<Rightarrow> u16 \<Rightarrow> HevSocks5Addr \<times> int" where
  "hev_socks5_addr_from_ipv6 addr ipv6 port =
     (let addr = addr[0 := HEV_SOCKS5_ADDR_TYPE_IPV6];
          addr = memcpy_at addr 1 (take 16 ipv6);
          addr = memcpy_at addr 17 (bytes16 port)
      in (addr, 19))"

definition IN6_IS_ADDR_V4MAPPED :: "u8 list \<Rightarrow> bool" where
  "IN6_IS_ADDR_V4MAPPED a \<longleftrightarrow> take 12 a = replicate 10 0 @ [0xff, 0xff]"

definition hev_socks5_addr_from_sockaddr6 :: "HevSocks5Addr \<Rightarrow> sockaddr_in6 \<Rightarrow> HevSocks5Addr \<times> int" where
  "hev_socks5_addr_from_sockaddr6 addr saddr =
     (if IN6_IS_ADDR_V4MAPPED (sin6_addr saddr) then
        let addr = addr[0 := HEV_SOCKS5_ADDR_TYPE_IPV4];
            addr = memcpy_at addr 5 (bytes16 (sin6_port saddr));
            addr = memcpy_at addr 1 (take 4 (drop 12 (sin6_addr saddr)))
        in (addr, 7)
      else
        let addr = addr[0 := HEV_SOCKS5_ADDR_TYPE_IPV6];
            addr = memcpy_at addr 17 (bytes16 (sin6_port saddr));
            addr = memcpy_at addr 1 (take 16 (sin6_addr saddr))
        in (addr, 19))"

definition hev_socks5_ipv4_into_sockaddr6 :: "HevSocks5Addr \<Rightarrow> sockaddr_in6 \<Rightarrow> sockaddr_in6" where
  "hev_socks5_ipv4_into_sockaddr6 addr saddr =
     (let saddr = saddr\<lparr>sin6_family := AF_INET6, sin6_port := ipv4_port addr\<rparr>;
          s6 = memcpy_at (sin6_addr saddr) 0 (replicate 10 0);
          s6 = s6[10 := 0xff];
          s6 = s6[11 := 0xff]
      in saddr\<lparr>sin6_addr := memcpy_at s6 12 (ipv4_addr addr)\<rparr>)"

definition hev_socks5_ipv6_into_sockaddr6 :: "HevSocks5Addr \<Rightarrow> sockaddr_in6 \<Rightarrow> sockaddr_in6" where
  "hev_socks5_ipv6_into_sockaddr6 addr saddr =
     saddr\<lparr>sin6_family := AF_INET6, sin6_port := ipv6_port addr,
       sin6_addr := memcpy_at (sin6_addr saddr) 0 (ipv6_addr addr)\<rparr>"

text \<open>
  Names. \<open>pton\<close> stands for \<open>inet_pton\<close>: the address bytes that a string denotes in a family, if it
  does. It writes nothing when it fails.
\<close>

type_synonym pton = "int \<Rightarrow> cstring \<Rightarrow> u8 list option"

definition pton_ok :: "pton \<Rightarrow> bool" where
  "pton_ok pton \<longleftrightarrow> (\<forall>s b. pton AF_INET s = Some b \<longrightarrow> length b = 4) \<and> (\<forall>s b. pton AF_INET6 s = Some b \<longrightarrow> length b = 16)"

definition hev_socks5_name_resolve_ipv4 :: "pton \<Rightarrow> cstring \<Rightarrow> sockaddr_in6 \<Rightarrow> sockaddr_in6 \<times> int" where
  "hev_socks5_name_resolve_ipv4 pton name saddr =
     (let s6 = memcpy_at (sin6_addr saddr) 0 (replicate 10 0)
      in case pton AF_INET name of
           None \<Rightarrow> (saddr\<lparr>sin6_addr := s6\<rparr>, -1)
         | Some b \<Rightarrow>
             let s6 = memcpy_at s6 12 b;
                 s6 = s6[10 := 0xff];
                 s6 = s6[11 := 0xff]
             in (saddr\<lparr>sin6_addr := s6\<rparr>, 0))"

definition hev_socks5_name_resolve_ipv6 :: "pton \<Rightarrow> cstring \<Rightarrow> sockaddr_in6 \<Rightarrow> sockaddr_in6 \<times> int" where
  "hev_socks5_name_resolve_ipv6 pton name saddr =
     (case pton AF_INET6 name of
        None \<Rightarrow> (saddr, -1)
      | Some b \<Rightarrow> (saddr\<lparr>sin6_addr := memcpy_at (sin6_addr saddr) 0 b\<rparr>, 0))"

definition hev_socks5_name_resolve_name :: "cstring \<Rightarrow> sockaddr_in6 \<Rightarrow> int \<Rightarrow> (sockaddr_in6 \<times> int \<times> int) io" where
  "hev_socks5_name_resolve_name name saddr family =
     Getaddrinfo name family (\<lambda>result. case result of
         None \<Rightarrow> Ret (saddr, family, -1)
       | Some (ai_family, sa) \<Rightarrow>
           if ai_family = AF_INET then
             let s6 = memcpy_at (sin6_addr saddr) 0 (replicate 10 0);
                 s6 = s6[10 := 0xff];
                 s6 = s6[11 := 0xff]
             in Ret (saddr\<lparr>sin6_addr := memcpy_at s6 12 (take 4 sa)\<rparr>, HEV_SOCKS5_ADDR_FAMILY_IPV4, 0)
           else if ai_family = AF_INET6 then
             Ret (saddr\<lparr>sin6_addr := memcpy_at (sin6_addr saddr) 0 (take 16 sa)\<rparr>, HEV_SOCKS5_ADDR_FAMILY_IPV6, 0)
           else Ret (saddr, family, -1))"

definition hev_socks5_name_into_sockaddr6 ::
  "pton \<Rightarrow> cstring \<Rightarrow> u16 \<Rightarrow> sockaddr_in6 \<Rightarrow> int \<Rightarrow> (sockaddr_in6 \<times> int \<times> int) io" where
  "hev_socks5_name_into_sockaddr6 pton name port saddr family =
     (let saddr = saddr\<lparr>sin6_family := AF_INET6, sin6_port := htons port\<rparr>;
          (saddr, res) = hev_socks5_name_resolve_ipv4 pton name saddr
      in if res = 0 then Ret (saddr, HEV_SOCKS5_ADDR_FAMILY_IPV4, 0)
      else
        let (saddr, res) = hev_socks5_name_resolve_ipv6 pton name saddr
        in if res = 0 then Ret (saddr, HEV_SOCKS5_ADDR_FAMILY_IPV6, 0)
        else hev_socks5_name_resolve_name name saddr family)"

definition hev_socks5_addr_into_sockaddr6 ::
  "pton \<Rightarrow> HevSocks5Addr \<Rightarrow> sockaddr_in6 \<Rightarrow> int \<Rightarrow> (sockaddr_in6 \<times> int \<times> int) io" where
  "hev_socks5_addr_into_sockaddr6 pton addr saddr family =
     (if addr_atype addr = HEV_SOCKS5_ADDR_TYPE_IPV4 then
        Ret (hev_socks5_ipv4_into_sockaddr6 addr saddr, HEV_SOCKS5_ADDR_FAMILY_IPV4, 0)
      else if addr_atype addr = HEV_SOCKS5_ADDR_TYPE_IPV6 then
        Ret (hev_socks5_ipv6_into_sockaddr6 addr saddr, HEV_SOCKS5_ADDR_FAMILY_IPV6, 0)
      else if addr_atype addr = HEV_SOCKS5_ADDR_TYPE_NAME then
        let len = unat (domain_len addr);
            name = cstr (take len (domain_addr addr));
            port = load16 (domain_addr addr ! len) (domain_addr addr ! (len + 1))
        in hev_socks5_name_into_sockaddr6 pton name (ntohs port) saddr family
      else Ret (saddr, family, -1))"

text \<open>
  An address as text. \<open>ntop\<close> stands for \<open>inet_ntop\<close>; \<open>snprintf\<close> writes at most \<open>len - 1\<close> bytes
  before the terminator.
\<close>

fun digits :: "nat \<Rightarrow> cstring" where
  "digits n = (if n < 10 then [of_nat (48 + n)] else digits (n div 10) @ [of_nat (48 + n mod 10)])"

declare digits.simps [simp del]

definition hev_socks5_addr_into_str ::
  "(int \<Rightarrow> u8 list \<Rightarrow> cstring) \<Rightarrow> HevSocks5Addr \<Rightarrow> nat \<Rightarrow> cstring option" where
  "hev_socks5_addr_into_str ntop addr len =
     (let print = (\<lambda>sa port. Some (take (len - 1) (91 # sa @ [93, 58] @ digits (unat (ntohs port)))))
      in if addr_atype addr = HEV_SOCKS5_ADDR_TYPE_IPV4 then print (ntop AF_INET (ipv4_addr addr)) (ipv4_port addr)
      else if addr_atype addr = HEV_SOCKS5_ADDR_TYPE_IPV6 then print (ntop AF_INET6 (ipv6_addr addr)) (ipv6_port addr)
      else if addr_atype addr = HEV_SOCKS5_ADDR_TYPE_NAME then
        let n = unat (domain_len addr)
        in print (cstr (take n (domain_addr addr))) (load16 (domain_addr addr ! n) (domain_addr addr ! (n + 1)))
      else None)"

section \<open>Addresses by value\<close>

text \<open>What a packed address says: a socket address, or a name and a port.\<close>

datatype dest = IPv4 "u8 list" u16 | IPv6 "u8 list" u16 | Domain cstring u16

fun dest_bytes :: "dest \<Rightarrow> u8 list" where
  "dest_bytes (IPv4 a p) = 1 # a @ bytes16 p"
| "dest_bytes (IPv6 a p) = 4 # a @ bytes16 p"
| "dest_bytes (Domain s p) = 3 # of_nat (length s) # s @ bytes16 p"

fun dest_ok :: "dest \<Rightarrow> bool" where
  "dest_ok (IPv4 a p) \<longleftrightarrow> length a = 4"
| "dest_ok (IPv6 a p) \<longleftrightarrow> length a = 16"
| "dest_ok (Domain s p) \<longleftrightarrow> is_cstring s \<and> length s \<le> 255"

text \<open>An address that starts with the encoding of a destination.\<close>

definition addr_is :: "dest \<Rightarrow> HevSocks5Addr \<Rightarrow> bool" where
  "addr_is d addr \<longleftrightarrow> dest_ok d \<and> take (length (dest_bytes d)) addr = dest_bytes d"

lemma length_4: "length (a :: 'a list) = 4 \<longleftrightarrow> (\<exists>a0 a1 a2 a3. a = [a0, a1, a2, a3])"
  by (auto simp: numeral_eq_Suc length_Suc_conv)

lemma addr_is_iff: "addr_is d addr \<longleftrightarrow> dest_ok d \<and> (\<exists>rest. addr = dest_bytes d @ rest)"
  unfolding addr_is_def by (metis append_eq_conv_conj append_take_drop_id)

lemma unat_len8 [simp]: "n \<le> 255 \<Longrightarrow> unat (of_nat n :: u8) = n" "n \<le> 255 \<Longrightarrow> uint (of_nat n :: u8) = int n"
  by (simp_all add: unat_of_nat uint_nat)

lemma addr_len_is: "addr_is d addr \<Longrightarrow> hev_socks5_addr_len addr = int (length (dest_bytes d))"
  by (cases d) (auto simp: addr_is_iff hev_socks5_addr_len_def addr_atype_def domain_len_def)

lemma dest_bytes_len: "dest_ok d \<Longrightarrow> 4 \<le> length (dest_bytes d) \<and> length (dest_bytes d) \<le> 259"
  by (cases d) auto

text \<open>The socket address of a numeric destination, and back.\<close>

definition v4mapped :: "u8 list \<Rightarrow> u8 list" where
  "v4mapped a = replicate 10 0 @ [0xff, 0xff] @ a"

fun dest_saddr :: "dest \<Rightarrow> sockaddr_in6" where
  "dest_saddr (IPv4 a p) = \<lparr>sin6_family = AF_INET6, sin6_port = p, sin6_addr = v4mapped a\<rparr>"
| "dest_saddr (IPv6 a p) = \<lparr>sin6_family = AF_INET6, sin6_port = p, sin6_addr = a\<rparr>"
| "dest_saddr (Domain s p) = \<lparr>sin6_family = AF_INET6, sin6_port = p, sin6_addr = []\<rparr>"

fun dest_family :: "dest \<Rightarrow> int" where
  "dest_family (IPv4 a p) = HEV_SOCKS5_ADDR_FAMILY_IPV4"
| "dest_family (IPv6 a p) = HEV_SOCKS5_ADDR_FAMILY_IPV6"
| "dest_family (Domain s p) = HEV_SOCKS5_ADDR_FAMILY_UNSPEC"

definition saddr_dest :: "sockaddr_in6 \<Rightarrow> dest" where
  "saddr_dest s = (if IN6_IS_ADDR_V4MAPPED (sin6_addr s) then IPv4 (drop 12 (sin6_addr s)) (sin6_port s)
     else IPv6 (sin6_addr s) (sin6_port s))"

abbreviation is_domain :: "dest \<Rightarrow> bool" where
  "is_domain d \<equiv> (case d of Domain s p \<Rightarrow> True | _ \<Rightarrow> False)"

lemma memcpy_at_0 [byte_simps]: "memcpy_at buf 0 bs = bs @ drop (length bs) buf"
  by (simp add: memcpy_at_def)

lemma saddr_dest_ok: "length (sin6_addr s) = 16 \<Longrightarrow> dest_ok (saddr_dest s) \<and> \<not> is_domain (saddr_dest s)"
  by (simp add: saddr_dest_def)

lemma dest_saddr_saddr_dest:
  assumes "length (sin6_addr s) = 16"
  shows "dest_saddr (saddr_dest s) = s\<lparr>sin6_family := AF_INET6\<rparr>"
proof (cases "IN6_IS_ADDR_V4MAPPED (sin6_addr s)")
  case True
  then have "sin6_addr s = v4mapped (drop 12 (sin6_addr s))"
    by (metis IN6_IS_ADDR_V4MAPPED_def append_take_drop_id append_assoc v4mapped_def)
  with True show ?thesis by (simp add: saddr_dest_def)
qed (simp add: saddr_dest_def)

lemma v4mapped_mapped: "IN6_IS_ADDR_V4MAPPED (v4mapped a)"
  by (simp add: IN6_IS_ADDR_V4MAPPED_def v4mapped_def numeral_eq_Suc)

lemma drop_v4mapped: "drop 12 (v4mapped a) = a"
  by (simp add: v4mapped_def)

lemma list_update_head: "xs \<noteq> [] \<Longrightarrow> xs[0 := v] = v # drop 1 xs"
  by (cases xs) auto

lemma memcpy_head: "memcpy_at (v # xs) (Suc 0) bs = v # bs @ drop (length bs) xs"
  by (simp add: memcpy_at_def)

lemma memcpy_after:
  "length as = off \<Longrightarrow> memcpy_at (as @ xs) off bs = as @ bs @ drop (length bs) xs"
  by (simp add: memcpy_at_def)

lemma addr_from_ipv4:
  assumes "7 \<le> length addr" and "4 \<le> length ip"
  shows "snd (hev_socks5_addr_from_ipv4 addr ip port) = 7"
    and "addr_is (IPv4 (take 4 ip) port) (fst (hev_socks5_addr_from_ipv4 addr ip port))"
proof -
  have "memcpy_at (memcpy_at (addr[0 := 1]) 1 (take 4 ip)) 5 (bytes16 port) =
    (1 # take 4 ip) @ bytes16 port @ drop 2 (drop 5 addr)"
    using assms memcpy_after [of "1 # take 4 ip" 5 "drop 5 addr" "bytes16 port"]
    by (subst list_update_head) (auto simp: memcpy_head)
  then show "addr_is (IPv4 (take 4 ip) port) (fst (hev_socks5_addr_from_ipv4 addr ip port))"
    using assms by (auto simp: hev_socks5_addr_from_ipv4_def addr_is_iff Let_def)
qed (simp add: hev_socks5_addr_from_ipv4_def)

lemma addr_from_ipv6:
  assumes "19 \<le> length addr" and "16 \<le> length ip"
  shows "snd (hev_socks5_addr_from_ipv6 addr ip port) = 19"
    and "addr_is (IPv6 (take 16 ip) port) (fst (hev_socks5_addr_from_ipv6 addr ip port))"
proof -
  have "memcpy_at (memcpy_at (addr[0 := 4]) 1 (take 16 ip)) 17 (bytes16 port) =
    (4 # take 16 ip) @ bytes16 port @ drop 2 (drop 17 addr)"
    using assms memcpy_after [of "4 # take 16 ip" 17 "drop 17 addr" "bytes16 port"]
    by (subst list_update_head) (auto simp: memcpy_head)
  then show "addr_is (IPv6 (take 16 ip) port) (fst (hev_socks5_addr_from_ipv6 addr ip port))"
    using assms by (auto simp: hev_socks5_addr_from_ipv6_def addr_is_iff Let_def)
qed (simp add: hev_socks5_addr_from_ipv6_def)

text \<open>The two writes of a socket address commute.\<close>

lemma memcpy_swap:
  assumes "length addr = 1 + n + 2 + m" and "length ip = n"
  shows "memcpy_at (memcpy_at (addr[0 := v]) (1 + n) (bytes16 p)) 1 ip = v # ip @ bytes16 p @ drop (n + 3) addr"
proof -
  from assms have "addr \<noteq> []" by auto
  then have "addr[0 := v] = (v # take n (drop 1 addr)) @ drop (1 + n) addr"
    using append_take_drop_id [of n "drop 1 addr"] by (simp add: list_update_head)
  then have "memcpy_at (addr[0 := v]) (1 + n) (bytes16 p) = (v # take n (drop 1 addr)) @ bytes16 p @ drop (n + 3) addr"
    using assms memcpy_after [of "v # take n (drop 1 addr)" "1 + n" "drop (1 + n) addr" "bytes16 p"]
    by (simp add: numeral_3_eq_3)
  then show ?thesis using assms by (simp add: memcpy_head)
qed

lemma addr_from_sockaddr6:
  assumes "length (sin6_addr s) = 16" and "19 \<le> length addr"
  shows "addr_is (saddr_dest s) (fst (hev_socks5_addr_from_sockaddr6 addr s))"
    and "snd (hev_socks5_addr_from_sockaddr6 addr s) = int (length (dest_bytes (saddr_dest s)))"
    and "length (fst (hev_socks5_addr_from_sockaddr6 addr s)) = length addr"
proof -
  from assms(2) have m: "length addr = 1 + 4 + 2 + (length addr - 7)" "length addr = 1 + 16 + 2 + (length addr - 19)"
    by simp_all
  note w = memcpy_swap [OF m(1), of "take 4 (drop 12 (sin6_addr s))" 1 "sin6_port s"]
    memcpy_swap [OF m(2), of "take 16 (sin6_addr s)" 4 "sin6_port s"]
  show "addr_is (saddr_dest s) (fst (hev_socks5_addr_from_sockaddr6 addr s))"
    "snd (hev_socks5_addr_from_sockaddr6 addr s) = int (length (dest_bytes (saddr_dest s)))"
    "length (fst (hev_socks5_addr_from_sockaddr6 addr s)) = length addr"
    using w assms by (auto simp: hev_socks5_addr_from_sockaddr6_def saddr_dest_def addr_is_iff Let_def)
qed

lemma cstr_pad:
  assumes "is_cstring name" and "length name \<le> 255"
  shows "take 256 (name @ replicate 256 0) = name @ 0 # replicate (255 - length name) 0"
proof -
  have "256 - length name = Suc (255 - length name)" using assms by simp
  then show ?thesis using assms by (simp add: min_def)
qed

lemma addr_from_name:
  assumes "length addr = addr_size" and "is_cstring name" and "length name \<le> 255"
  obtains a where "hev_socks5_addr_from_name addr name port = Some (a, 4 + int (length name))"
    "addr_is (Domain name port) a" "length a = addr_size"
proof -
  define b where "b = memcpy_at (addr[0 := 3]) 2 (take 256 (name @ replicate 256 0))"
  have b: "b = [3, addr ! 1] @ name @ 0 # replicate (255 - length name) 0 @ drop 258 addr"
  proof -
    have "addr[0 := 3] = [3, addr ! 1] @ drop 2 addr"
      using assms(1) by (intro nth_equalityI) (auto simp: addr_size_def nth_append nth_Cons split: nat.splits)
    then show ?thesis unfolding b_def cstr_pad [OF assms(2,3)]
      using memcpy_after [of "[3, addr ! 1]" 2 "drop 2 addr" "name @ 0 # replicate (255 - length name) 0"] assms(3)
      by simp
  qed
  have l: "length b = addr_size" using b assms by (simp add: addr_size_def)
  have d: "cstr (domain_addr b) = name" "0 \<in> set (domain_addr b)"
    using b assms(2) by (simp_all add: domain_addr_def cstr_append)
  define c where "c = memcpy_at (b[1 := of_nat (length name)]) (2 + length name) (bytes16 port)"
  have c: "c = 3 # of_nat (length name) # name @ bytes16 port @ drop 2 (0 # replicate (255 - length name) 0 @ drop 258 addr)"
    unfolding c_def using b memcpy_after [of "3 # of_nat (length name) # name" "2 + length name"
        "0 # replicate (255 - length name) 0 @ drop 258 addr" "bytes16 port"] by simp
  have "hev_socks5_addr_from_name addr name port = Some (c, 4 + int (length name))"
    using d c l assms(3) unfolding hev_socks5_addr_from_name_def Let_def b_def [symmetric]
    by (simp add: c_def domain_len_def addr_size_def)
  moreover have "addr_is (Domain name port) c" using c assms by (auto simp: addr_is_iff)
  moreover have "length c = addr_size" unfolding c_def using l assms(3) by (simp add: addr_size_def)
  ultimately show thesis by (rule that)
qed

text \<open>Reading an address back.\<close>

lemma v4_write:
  assumes "length s6 = 16" and "length ip = 4"
  shows "memcpy_at ((memcpy_at s6 0 (replicate 10 0))[10 := 0xff, 11 := 0xff]) 12 ip = v4mapped ip"
proof -
  from assms(1) have "drop 10 s6 = [s6 ! 10, s6 ! 11] @ drop 12 s6"
    by (simp add: Cons_nth_drop_Suc [symmetric] numeral_eq_Suc)
  then have "(memcpy_at s6 0 (replicate 10 0))[10 := 0xff, 11 := 0xff] = (replicate 10 0 @ [0xff, 0xff]) @ drop 12 s6"
    by (simp add: memcpy_at_0 list_update_append)
  then show ?thesis
    using memcpy_after [of "replicate 10 0 @ [0xff, 0xff]" 12 "drop 12 s6" ip] assms by (simp add: v4mapped_def)
qed

lemma nth_after: "length a = n \<Longrightarrow> (v # a @ [x, y] @ r) ! (n + 1) = x" "length a = n \<Longrightarrow> (v # a @ [x, y] @ r) ! (n + 2) = y"
  by (auto simp: nth_append nth_Cons split: nat.splits)

lemma load16_bytes: "bytes16 p = [x, y] \<Longrightarrow> load16 x y = p"
  by (auto simp: bytes16_def load16_bytes16)

lemma into_sockaddr6_numeric:
  assumes "addr_is d addr" and "\<not> is_domain d" and "length (sin6_addr saddr) = 16"
  shows "hev_socks5_addr_into_sockaddr6 pton addr saddr family = Ret (dest_saddr d, dest_family d, 0)"
proof (cases d)
  case (IPv4 a p)
  obtain x y where p: "bytes16 p = [x, y]" by (simp add: bytes16_def)
  from assms(1) IPv4 p obtain r where a: "addr = 1 # a @ [x, y] @ r" "length a = 4" by (auto simp: addr_is_iff)
  then have "ipv4_port addr = p" "ipv4_addr addr = a"
    using nth_after [of a 4 1 x y r] load16_bytes [OF p] by (simp_all add: ipv4_port_def ipv4_addr_def)
  with a IPv4 assms(3) show ?thesis
    by (simp add: hev_socks5_addr_into_sockaddr6_def hev_socks5_ipv4_into_sockaddr6_def addr_atype_def v4_write)
next
  case (IPv6 a p)
  obtain x y where p: "bytes16 p = [x, y]" by (simp add: bytes16_def)
  from assms(1) IPv6 p obtain r where a: "addr = 4 # a @ [x, y] @ r" "length a = 16" by (auto simp: addr_is_iff)
  then have "ipv6_port addr = p" "ipv6_addr addr = a"
    using nth_after [of a 16 4 x y r] load16_bytes [OF p] by (simp_all add: ipv6_port_def ipv6_addr_def)
  with a IPv6 assms(3) show ?thesis
    by (simp add: hev_socks5_addr_into_sockaddr6_def hev_socks5_ipv6_into_sockaddr6_def addr_atype_def memcpy_at_0)
qed (use assms in auto)

lemma into_sockaddr6_domain:
  assumes "addr_is (Domain s p) addr"
  shows "hev_socks5_addr_into_sockaddr6 pton addr saddr family = hev_socks5_name_into_sockaddr6 pton s (ntohs p) saddr family"
proof -
  obtain x y where p: "bytes16 p = [x, y]" by (simp add: bytes16_def)
  from assms p obtain r where a: "addr = 3 # of_nat (length s) # s @ [x, y] @ r" "is_cstring s" "length s \<le> 255"
    by (auto simp: addr_is_iff)
  have len: "unat (domain_len addr) = length s" "addr_atype addr = 3" using a by (simp_all add: domain_len_def addr_atype_def)
  have d: "domain_addr addr = s @ [x, y] @ r" using a by (simp add: domain_addr_def)
  have "cstr (take (length s) (domain_addr addr)) = s"
    using a(2) by (auto simp: d is_cstring_def cstr_def intro: takeWhile_eq_all_conv [THEN iffD2])
  moreover have "load16 (domain_addr addr ! length s) (domain_addr addr ! (length s + 1)) = p"
    using load16_bytes [OF p] by (simp add: d nth_append)
  ultimately show ?thesis by (simp add: hev_socks5_addr_into_sockaddr6_def len Let_def)
qed

section \<open>Properties\<close>

text \<open>
  C30: Socket addresses survive the wire. Whatever the buffer held before, packing a socket address gives a packed
  address whose length, by \<open>hev_socks5_addr_len\<close>, is the length the packing returned; the
  receiver, who has just these bytes followed by anything else, unpacks them without resolving a
  name and gets the same port and the same 16 address bytes back, IPv4-mapped addresses, which
  are sent in the short IPv4 form, included.
\<close>
theorem sockaddr_roundtrip:
  assumes "length (sin6_addr s) = 16" and "19 \<le> length buf" and "length (sin6_addr s0) = 16"
    and "hev_socks5_addr_from_sockaddr6 buf s = (addr, n)"
  shows "hev_socks5_addr_len addr = n \<and> length addr = length buf \<and>
    hev_socks5_addr_into_sockaddr6 pton (take (nat n) addr @ rest) s0 family =
      Ret (s\<lparr>sin6_family := AF_INET6\<rparr>, dest_family (saddr_dest s), 0)"
proof -
  note packed = addr_from_sockaddr6 [OF assms(1,2), unfolded assms(4) fst_conv snd_conv]
  then have "addr_is (saddr_dest s) (take (nat n) addr @ rest)"
    by (simp add: addr_is_def min_def split: if_splits)
  with packed assms(3) saddr_dest_ok [OF assms(1)] show ?thesis
    by (simp add: addr_len_is into_sockaddr6_numeric dest_saddr_saddr_dest [OF assms(1)])
qed

theorem sockaddr_roundtrip_witness:
  "hev_socks5_addr_into_sockaddr6 (\<lambda>f s. None) ([1, 10, 0, 0, 7, 0x1f, 0x90] @ [9, 9])
     \<lparr>sin6_family = 0, sin6_port = 0, sin6_addr = replicate 16 0\<rparr> 0 =
   Ret (\<lparr>sin6_family = AF_INET6, sin6_port = 0x901f, sin6_addr = v4mapped [10, 0, 0, 7]\<rparr>, AF_INET, 0)"
proof -
  let ?s = "\<lparr>sin6_family = 0, sin6_port = 0x901f, sin6_addr = v4mapped [10, 0, 0, 7]\<rparr>"
  have s: "length (sin6_addr ?s) = 16" "19 \<le> length (replicate 19 (5 :: u8))"
    "length (sin6_addr \<lparr>sin6_family = 0, sin6_port = 0, sin6_addr = replicate 16 0\<rparr>) = 16"
    by (simp_all add: v4mapped_def)
  have p: "hev_socks5_addr_from_sockaddr6 (replicate 19 5) ?s = ([1, 10, 0, 0, 7, 0x1f, 0x90] @ replicate 12 5, 7)"
    "dest_family (saddr_dest ?s) = AF_INET" by code_simp+
  show ?thesis using sockaddr_roundtrip [OF s p(1), of "\<lambda>f s. None" "[9, 9]" 0] p(2) by simp
qed

text \<open>
  C31: Names survive the wire. A name of at most 255 bytes is packed with its length, the bytes of
  the name and the port, in exactly the length \<open>hev_socks5_addr_len\<close> says, and the receiver resolves exactly
  that name and port: by \<open>inet_pton\<close> when the name is numeric, and otherwise by a query of the
  resolver for that name.
\<close>
theorem name_roundtrip:
  assumes "length buf = addr_size" and "is_cstring name" and "length name \<le> 255"
  shows "\<exists>addr. hev_socks5_addr_from_name buf name port = Some (addr, 4 + int (length name)) \<and>
    hev_socks5_addr_len addr = 4 + int (length name) \<and> length addr = addr_size \<and>
    take (4 + length name) addr = [HEV_SOCKS5_ADDR_TYPE_NAME, of_nat (length name)] @ name @ bytes16 port \<and>
    hev_socks5_addr_into_sockaddr6 pton (take (4 + length name) addr @ rest) s0 family =
      hev_socks5_name_into_sockaddr6 pton name (ntohs port) s0 family"
proof -
  obtain a where a: "hev_socks5_addr_from_name buf name port = Some (a, 4 + int (length name))"
    "addr_is (Domain name port) a" "length a = addr_size"
    by (rule addr_from_name [OF assms])
  moreover have t: "take (4 + length name) a = [HEV_SOCKS5_ADDR_TYPE_NAME, of_nat (length name)] @ name @ bytes16 port"
    using a(2) by (simp add: addr_is_def numeral_eq_Suc)
  moreover have "addr_is (Domain name port) (take (4 + length name) a @ rest)"
    unfolding t using assms by (auto simp: addr_is_iff)
  ultimately show ?thesis using addr_len_is [OF a(2)] by (intro exI [of _ a]) (simp add: into_sockaddr6_domain)
qed

theorem name_roundtrip_witness:
  "\<exists>addr. hev_socks5_addr_from_name (replicate 260 7) [104, 101, 118] 0x5000 = Some (addr, 7) \<and>
    take 7 addr = [3, 3, 104, 101, 118, 0, 0x50]"
proof -
  have h: "length (replicate 260 (7 :: u8)) = addr_size" "is_cstring [104, 101, 118]" "length [104, 101, 118 :: u8] \<le> 255"
    by (simp_all add: addr_size_def is_cstring_def)
  have b: "bytes16 0x5000 = [0, 0x50]" by code_simp
  show ?thesis using name_roundtrip [OF h, of "0x5000" "\<lambda>f s. None" "[]"
      "\<lparr>sin6_family = 0, sin6_port = 0, sin6_addr = []\<rparr>" 0] b by auto
qed

end
