(* ===== verification/Hev_Socks5.thy ===== *)
theory Hev_Socks5
  imports Hev_Socks5_Addr
begin

text \<open>
  The base object of client and server sessions (\<open>hev-socks5.c\<close>), the settings and the helpers
  of \<open>hev-socks5-misc.c\<close> that open sockets and wait, and the TCP splicer (\<open>hev-socks5-tcp.c\<close>).
\<close>

section \<open>Settings\<close>

record socks5_settings =
  connect_timeout :: int
  tcp_timeout :: int
  udp_timeout :: int
  task_stack_size :: int
  udp_recv_buffer_size :: int
  udp_copy_buffer_nums :: int

definition socks5_defaults :: socks5_settings where
  "socks5_defaults = \<lparr>connect_timeout = 10000, tcp_timeout = 300000, udp_timeout = 60000,
     task_stack_size = 8192, udp_recv_buffer_size = 512 * 1024, udp_copy_buffer_nums = 10\<rparr>"

definition hev_socks5_set_connect_timeout :: "socks5_settings \<Rightarrow> int \<Rightarrow> socks5_settings" where
  "hev_socks5_set_connect_timeout c timeout = c\<lparr>connect_timeout := timeout\<rparr>"

definition hev_socks5_get_connect_timeout :: "socks5_settings \<Rightarrow> int" where
  "hev_socks5_get_connect_timeout c = connect_timeout c"

definition hev_socks5_set_tcp_timeout :: "socks5_settings \<Rightarrow> int \<Rightarrow> socks5_settings" where
  "hev_socks5_set_tcp_timeout c timeout = c\<lparr>tcp_timeout := timeout\<rparr>"

definition hev_socks5_get_tcp_timeout :: "socks5_settings \<Rightarrow> int" where
  "hev_socks5_get_tcp_timeout c = tcp_timeout c"

definition hev_socks5_set_udp_timeout :: "socks5_settings \<Rightarrow> int \<Rightarrow> socks5_settings" where
  "hev_socks5_set_udp_timeout c timeout = c\<lparr>udp_timeout := timeout\<rparr>"

definition hev_socks5_get_udp_timeout :: "socks5_settings \<Rightarrow> int" where
  "hev_socks5_get_udp_timeout c = udp_timeout c"

definition hev_socks5_set_task_stack_size :: "socks5_settings \<Rightarrow> int \<Rightarrow> socks5_settings" where
  "hev_socks5_set_task_stack_size c n = c\<lparr>task_stack_size := n\<rparr>"

definition hev_socks5_get_task_stack_size :: "socks5_settings \<Rightarrow> int" where
  "hev_socks5_get_task_stack_size c = task_stack_size c"

definition hev_socks5_set_udp_recv_buffer_size :: "socks5_settings \<Rightarrow> int \<Rightarrow> socks5_settings" where
  "hev_socks5_set_udp_recv_buffer_size c n = c\<lparr>udp_recv_buffer_size := n\<rparr>"

definition hev_socks5_set_udp_copy_buffer_nums :: "socks5_settings \<Rightarrow> int \<Rightarrow> socks5_settings" where
  "hev_socks5_set_udp_copy_buffer_nums c n = c\<lparr>udp_copy_buffer_nums := n\<rparr>"

definition hev_socks5_get_udp_copy_buffer_nums :: "socks5_settings \<Rightarrow> int" where
  "hev_socks5_get_udp_copy_buffer_nums c = udp_copy_buffer_nums c"

section \<open>The base object\<close>

datatype HevSocks5Type =
    HEV_SOCKS5_TYPE_NONE
  | HEV_SOCKS5_TYPE_TCP
  | HEV_SOCKS5_TYPE_UDP_IN_TCP
  | HEV_SOCKS5_TYPE_UDP_IN_UDP

record HevSocks5 =
  s5_fd :: int
  s5_timeout :: int
  s5_udp_associated :: bool
  s5_type :: HevSocks5Type
  s5_addr_family :: int

definition hev_socks5_get_timeout :: "HevSocks5 \<Rightarrow> int" where
  "hev_socks5_get_timeout self = s5_timeout self"

definition hev_socks5_set_timeout :: "HevSocks5 \<Rightarrow> int \<Rightarrow> HevSocks5" where
  "hev_socks5_set_timeout self timeout = self\<lparr>s5_timeout := timeout\<rparr>"

definition hev_socks5_get_addr_family :: "HevSocks5 \<Rightarrow> int" where
  "hev_socks5_get_addr_family self = s5_addr_family self"

definition hev_socks5_set_addr_family :: "HevSocks5 \<Rightarrow> int \<Rightarrow> HevSocks5" where
  "hev_socks5_set_addr_family self family = self\<lparr>s5_addr_family := family\<rparr>"

text \<open>
  A socket address on the stack. Every byte of it is written before it is read, so that its
  initial contents do not matter.
\<close>

definition blank_saddr :: sockaddr_in6 where
  "blank_saddr = \<lparr>sin6_family = 0, sin6_port = 0, sin6_addr = replicate 16 0\<rparr>"

text \<open>
  The function of a class that prepares a new socket for its destination, which a subclass may
  replace; all that is known of a replacement is that it leaves the resources as they are.
\<close>

type_synonym bindf = "HevSocks5 \<Rightarrow> int \<Rightarrow> sockaddr_in6 \<Rightarrow> int io"

definition bind_ok :: "bindf \<Rightarrow> bool" where
  "bind_ok bindf \<longleftrightarrow> (\<forall>self fd dest w. fd \<in> w_fds w \<longrightarrow> io_ok (\<lambda>r w'. w' = w) (bindf self fd dest) w)"

text \<open>The default bind function accepts every socket as it is.\<close>

definition hev_socks5_bind :: "HevSocks5 \<Rightarrow> int \<Rightarrow> sockaddr_in6 \<Rightarrow> int io" where
  "hev_socks5_bind self sock dest = Ret 0"

text \<open>
  The construction of an object in zeroed memory; \<open>base\<close> is the result of constructing its
  base object.
\<close>

definition hev_socks5_construct :: "int \<Rightarrow> HevSocks5Type \<Rightarrow> (HevSocks5 \<times> int)" where
  "hev_socks5_construct base type =
     (let self = \<lparr>s5_fd = 0, s5_timeout = 0, s5_udp_associated = False, s5_type = HEV_SOCKS5_TYPE_NONE, s5_addr_family = 0\<rparr>
      in if base < 0 then (self, base)
      else (self\<lparr>s5_fd := -1, s5_timeout := -1, s5_type := type, s5_addr_family := HEV_SOCKS5_ADDR_FAMILY_UNSPEC\<rparr>, 0))"

definition hev_socks5_destruct :: "HevSocks5 \<Rightarrow> unit io" where
  "hev_socks5_destruct self =
     (if 0 \<le> s5_fd self then Del_Fd (s5_fd self) (Close (s5_fd self) (Ret ())) else Ret ())"

section \<open>Waiting and sockets\<close>

datatype HevTaskYieldType = HEV_TASK_YIELD | HEV_TASK_WAITIO

definition hev_socks5_task_io_yielder :: "HevTaskYieldType \<Rightarrow> HevSocks5 \<Rightarrow> int io" where
  "hev_socks5_task_io_yielder type self =
     (if type = HEV_TASK_YIELD then Yield (Ret 0)
      else if s5_timeout self < 0 then Waitio (Ret 0)
      else Sleep (s5_timeout self) (\<lambda>timeout. if timeout \<le> 0 then Ret (-1) else Ret 0))"

definition hev_socks5_socket :: "socks5_settings \<Rightarrow> int \<Rightarrow> int io" where
  "hev_socks5_socket c type =
     Socket type (\<lambda>fd. if fd < 0 then Ret (-1)
       else Setsockopt fd IPV6_V6ONLY 0 (\<lambda>res. if res < 0 then Close fd (Ret (-1))
         else Add_Fd fd (\<lambda>res.
           let k = (if type = SOCK_DGRAM then Setsockopt fd SO_RCVBUF (udp_recv_buffer_size c) (\<lambda>res. Ret fd) else Ret fd)
           in if res < 0 then Mod_Fd fd (\<lambda>res. k) else k)))"

section \<open>The TCP splicer\<close>

definition hev_socks5_tcp_splicer :: "HevSocks5 \<Rightarrow> int \<Rightarrow> int io" where
  "hev_socks5_tcp_splicer self fd =
     (let cfd = s5_fd self
      in if cfd < 0 then Ret (-1)
      else Add_Fd fd (\<lambda>res.
        let k = Splice cfd fd (Ret 0)
        in if res < 0 then Mod_Fd fd (\<lambda>res. k) else k))"

definition hev_socks5_tcp_splice :: "HevSocks5 \<Rightarrow> int \<Rightarrow> int io" where
  "hev_socks5_tcp_splice self fd = hev_socks5_tcp_splicer self fd"

section \<open>Resources\<close>

text \<open>A new descriptor is open and polled.\<close>

definition with_fd :: "int \<Rightarrow> world \<Rightarrow> world" where
  "with_fd fd w = w\<lparr>w_fds := insert fd (w_fds w), w_polled := insert fd (w_polled w)\<rparr>"

definition without_fd :: "int \<Rightarrow> world \<Rightarrow> world" where
  "without_fd fd w = w\<lparr>w_polled := w_polled w - {fd}, w_fds := w_fds w - {fd}\<rparr>"

lemma with_fd_simps [simp]:
  "w_fds (with_fd fd w) = insert fd (w_fds w)" "w_polled (with_fd fd w) = insert fd (w_polled w)"
  "w_blocks (with_fd fd w) = w_blocks w" "w_refs (with_fd fd w) = w_refs w"
  "w_fds (without_fd fd w) = w_fds w - {fd}" "w_polled (without_fd fd w) = w_polled w - {fd}"
  "w_blocks (without_fd fd w) = w_blocks w" "w_refs (without_fd fd w) = w_refs w"
  by (simp_all add: with_fd_def without_fd_def)

text \<open>The task polls open descriptors only.\<close>

definition world_ok :: "world \<Rightarrow> bool" where
  "world_ok w \<longleftrightarrow> w_polled w \<subseteq> w_fds w"

lemma world_ok_fd [simp]: "world_ok w \<Longrightarrow> world_ok (with_fd fd w)" "world_ok w \<Longrightarrow> world_ok (without_fd fd w)"
  by (auto simp: world_ok_def)

lemma without_with_fd [simp]: "world_ok w \<Longrightarrow> fd \<notin> w_fds w \<Longrightarrow> without_fd fd (with_fd fd w) = w"
  by (auto simp: with_fd_def without_fd_def world_ok_def intro!: world.equality)

lemma bind_okD: "bind_ok bindf \<Longrightarrow> fd \<in> w_fds w \<Longrightarrow> (\<And>r. Q r w) \<Longrightarrow> io_ok Q (bindf self fd dest) w"
  unfolding bind_ok_def by (blast intro: io_ok_mono)

lemma bind_ok_default: "bind_ok hev_socks5_bind"
  by (simp add: bind_ok_def hev_socks5_bind_def)

text \<open>Opening a socket: it fails with the world as it was, or gives a new descriptor.\<close>

lemma socket_ok:
  assumes "world_ok w" and "Q (-1) w" and "\<And>fd. 0 \<le> fd \<Longrightarrow> fd \<notin> w_fds w \<Longrightarrow> Q fd (with_fd fd w)"
  shows "io_ok Q (hev_socks5_socket c type) w"
proof -
  have "io_ok Q (hev_socks5_socket c type) w" if "\<And>fd. 0 \<le> fd \<Longrightarrow> fd \<notin> w_fds w \<Longrightarrow> fd \<notin> w_polled w \<and>
      w\<lparr>w_fds := insert fd (w_fds w) - {fd}\<rparr> = w"
    using assms(2,3) that unfolding hev_socks5_socket_def Let_def
    by (simp add: io_rules io_ok_release with_fd_def)
  then show ?thesis using assms(1) by (auto simp: world_ok_def)
qed

text \<open>Taking a descriptor out of the task and closing it.\<close>

lemma close_ok [simp]:
  "io_ok Q (Del_Fd fd (Close fd k)) w \<longleftrightarrow> fd \<in> w_fds w \<and> io_ok Q k (without_fd fd w)"
  by (auto simp: io_ok_release without_fd_def)

lemma destruct_ok:
  "io_ok Q (hev_socks5_destruct self) w \<longleftrightarrow>
     (if 0 \<le> s5_fd self then s5_fd self \<in> w_fds w \<and> Q () (without_fd (s5_fd self) w) else Q () w)"
  by (simp add: hev_socks5_destruct_def)

lemma yielder_ok: "(\<And>r. Q r w) \<Longrightarrow> io_ok Q (hev_socks5_task_io_yielder type self) w"
  by (simp add: hev_socks5_task_io_yielder_def io_rules)

lemma tcp_splice_ok:
  assumes "s5_fd self \<in> w_fds w" and "fd \<in> w_fds w" and "fd \<in> w_polled w" and "\<And>r. Q r w"
  shows "io_ok Q (hev_socks5_tcp_splice self fd) w"
proof -
  have "w\<lparr>w_polled := insert fd (w_polled w)\<rparr> = w" using assms(3) by (auto intro!: world.equality)
  with assms show ?thesis by (simp add: hev_socks5_tcp_splice_def hev_socks5_tcp_splicer_def io_rules Let_def)
qed

lemma name_into_ok:
  "(\<And>r. Q r w) \<Longrightarrow> io_ok Q (hev_socks5_name_into_sockaddr6 pton name port saddr family) w"
  by (auto simp: hev_socks5_name_into_sockaddr6_def hev_socks5_name_resolve_name_def io_rules Let_def
      split: prod.splits option.splits)

lemma addr_into_ok:
  "(\<And>r. Q r w) \<Longrightarrow> io_ok Q (hev_socks5_addr_into_sockaddr6 pton addr saddr family) w"
  by (auto simp: hev_socks5_addr_into_sockaddr6_def Let_def name_into_ok)

end
