(* ===== verification/Hev_Socks5_Client.thy ===== *)
theory Hev_Socks5_Client
  imports Hev_Socks5
begin

text \<open>
  The SOCKS5 client: \<open>hev-socks5-client.c\<close> with its two subclasses \<open>hev-socks5-client-tcp.c\<close> and
  \<open>hev-socks5-client-udp.c\<close>. The virtual functions of the class tables are dispatched on the kind
  of the object; the bind function, which a session of the tunnel overrides, is a parameter.
\<close>

section \<open>Objects\<close>

text \<open>
  The target address of a TCP client is a block of the allocator with its contents, or the null
  pointer; a UDP client has the descriptor of its datagram socket.
\<close>

datatype client_kind = ClientTCP "(addr \<times> HevSocks5Addr) option" | ClientUDP int

record HevSocks5Client =
  cl_base :: HevSocks5
  cl_user :: "cstring option"
  cl_pass :: "cstring option"
  cl_kind :: client_kind

abbreviation cl_fd :: "HevSocks5Client \<Rightarrow> int" where
  "cl_fd self \<equiv> s5_fd (cl_base self)"

section \<open>The upstream address\<close>

text \<open>A pointer to an address: the block and its contents, or none for the null pointer.\<close>

type_synonym addr_ptr = "(addr \<times> HevSocks5Addr) option"

definition hev_socks5_client_tcp_get_upstream_addr :: "HevSocks5Client \<Rightarrow> (HevSocks5Client \<times> addr_ptr) io" where
  "hev_socks5_client_tcp_get_upstream_addr self =
     (case cl_kind self of ClientTCP a \<Rightarrow> Ret (self\<lparr>cl_kind := ClientTCP None\<rparr>, a) | ClientUDP fd \<Rightarrow> Crash)"

definition hev_socks5_client_udp_get_upstream_addr :: "HevSocks5Client \<Rightarrow> (HevSocks5Client \<times> addr_ptr) io" where
  "hev_socks5_client_udp_get_upstream_addr self =
     (let family = hev_socks5_get_addr_family (cl_base self)
      in if family = HEV_SOCKS5_ADDR_FAMILY_IPV4 then
        Malloc (\<lambda>p. Ret (self, if p = NULL then None else Some (p, (replicate 7 0)[0 := HEV_SOCKS5_ADDR_TYPE_IPV4])))
      else if family = HEV_SOCKS5_ADDR_FAMILY_IPV6 then
        Malloc (\<lambda>p. Ret (self, if p = NULL then None else Some (p, (replicate 19 0)[0 := HEV_SOCKS5_ADDR_TYPE_IPV6])))
      else Ret (self, None))"

definition get_upstream_addr :: "HevSocks5Client \<Rightarrow> (HevSocks5Client \<times> addr_ptr) io" where
  "get_upstream_addr self = (case cl_kind self of
     ClientTCP a \<Rightarrow> hev_socks5_client_tcp_get_upstream_addr self
   | ClientUDP fd \<Rightarrow> hev_socks5_client_udp_get_upstream_addr self)"

definition hev_socks5_client_tcp_set_upstream_addr :: "HevSocks5Client \<Rightarrow> HevSocks5Addr \<Rightarrow> (HevSocks5Client \<times> int) io" where
  "hev_socks5_client_tcp_set_upstream_addr self addr = Ret (self, 0)"

definition hev_socks5_client_udp_set_upstream_addr ::
  "pton \<Rightarrow> bindf \<Rightarrow> socks5_settings \<Rightarrow> HevSocks5Client \<Rightarrow> HevSocks5Addr \<Rightarrow> (HevSocks5Client \<times> int) io" where
  "hev_socks5_client_udp_set_upstream_addr pton bindf c self addr =
     (if s5_type (cl_base self) \<noteq> HEV_SOCKS5_TYPE_UDP_IN_UDP then Ret (self, 0)
      else
        io_bind (hev_socks5_addr_into_sockaddr6 pton addr blank_saddr (hev_socks5_get_addr_family (cl_base self)))
          (\<lambda>(saddr, addr_family, res).
             if res < 0 then Ret (self, -1)
             else io_bind (hev_socks5_socket c SOCK_DGRAM) (\<lambda>fd.
               if fd < 0 then Ret (self, -1)
               else io_bind (bindf (cl_base self) fd saddr) (\<lambda>res.
                 if res < 0 then Del_Fd fd (Close fd (Ret (self, -1)))
                 else Connect fd saddr (\<lambda>res.
                   if res < 0 then Del_Fd fd (Close fd (Ret (self, -1)))
                   else Ret (self\<lparr>cl_base := (cl_base self)\<lparr>s5_udp_associated := True\<rparr>, cl_kind := ClientUDP fd\<rparr>, 0))))))"

definition set_upstream_addr ::
  "pton \<Rightarrow> bindf \<Rightarrow> socks5_settings \<Rightarrow> HevSocks5Client \<Rightarrow> HevSocks5Addr \<Rightarrow> (HevSocks5Client \<times> int) io" where
  "set_upstream_addr pton bindf c self addr = (case cl_kind self of
     ClientTCP a \<Rightarrow> hev_socks5_client_tcp_set_upstream_addr self addr
   | ClientUDP fd \<Rightarrow> hev_socks5_client_udp_set_upstream_addr pton bindf c self addr)"

section \<open>Messages\<close>

definition hev_socks5_client_write_auth_methods :: "HevSocks5Client \<Rightarrow> int io" where
  "hev_socks5_client_write_auth_methods self =
     (let m = (if cl_user self = None \<or> cl_pass self = None then HEV_SOCKS5_AUTH_METHOD_NONE
               else HEV_SOCKS5_AUTH_METHOD_USER)
      in Send (cl_fd self) [HEV_SOCKS5_VERSION_5, 1, word_of_int m] (\<lambda>res. if res \<le> 0 then Ret (-1) else Ret 0))"

definition hev_socks5_client_write_auth_creds :: "HevSocks5Client \<Rightarrow> int io" where
  "hev_socks5_client_write_auth_creds self =
     (case (cl_user self, cl_pass self) of
        (Some user, Some pass) \<Rightarrow>
          let ub1 = of_nat (length user) :: u8;
              ub2 = of_nat (length pass) :: u8
          in Send (cl_fd self)
               ([HEV_SOCKS5_AUTH_VERSION_1, ub1] @ take (unat ub1) user @ [ub2] @ take (unat ub2) pass)
               (\<lambda>res. if res \<le> 0 then Ret (-1) else Ret 0)
      | _ \<Rightarrow> Ret 0)"

fun req_cmd :: "HevSocks5Type \<Rightarrow> u8 option" where
  "req_cmd HEV_SOCKS5_TYPE_TCP = Some HEV_SOCKS5_REQ_CMD_CONNECT"
| "req_cmd HEV_SOCKS5_TYPE_UDP_IN_TCP = Some HEV_SOCKS5_REQ_CMD_FWD_UDP"
| "req_cmd HEV_SOCKS5_TYPE_UDP_IN_UDP = Some HEV_SOCKS5_REQ_CMD_UDP_ASC"
| "req_cmd HEV_SOCKS5_TYPE_NONE = None"

text \<open>The address of the request is freed only after it was sent.\<close>

definition hev_socks5_client_write_request :: "HevSocks5Client \<Rightarrow> (HevSocks5Client \<times> int) io" where
  "hev_socks5_client_write_request self =
     (case req_cmd (s5_type (cl_base self)) of
        None \<Rightarrow> Ret (self, -1)
      | Some cmd \<Rightarrow> io_bind (get_upstream_addr self) (\<lambda>(self, ptr).
          case ptr of
            None \<Rightarrow> Crash
          | Some (p, addr) \<Rightarrow>
              let send = (\<lambda>addrlen. Send (cl_fd self) ([HEV_SOCKS5_VERSION_5, cmd, 0] @ take addrlen addr)
                    (\<lambda>ret. if ret \<le> 0 then Ret (self, -1) else Free p (Ret (self, 0))))
              in if addr_atype addr = HEV_SOCKS5_ADDR_TYPE_IPV4 then send 7
              else if addr_atype addr = HEV_SOCKS5_ADDR_TYPE_IPV6 then send 19
              else if addr_atype addr = HEV_SOCKS5_ADDR_TYPE_NAME then send (4 + unat (domain_len addr))
              else Ret (self, -1)))"

definition hev_socks5_client_read_auth_method :: "HevSocks5Client \<Rightarrow> int io" where
  "hev_socks5_client_read_auth_method self =
     Recv (cl_fd self) 2 Waitall (\<lambda>r.
       if rx_res r \<noteq> 2 then Ret (-1)
       else let auth = rx_data r
         in if auth ! 0 \<noteq> HEV_SOCKS5_VERSION_5 then Ret (-1) else Ret (uint (auth ! 1)))"

definition hev_socks5_client_read_auth_creds :: "HevSocks5Client \<Rightarrow> int io" where
  "hev_socks5_client_read_auth_creds self =
     Recv (cl_fd self) 2 Waitall (\<lambda>r.
       if rx_res r \<noteq> 2 then Ret (-1)
       else let res = rx_data r
         in if res ! 0 \<noteq> HEV_SOCKS5_AUTH_VERSION_1 then Ret (-1)
         else if res ! 1 \<noteq> HEV_SOCKS5_RES_REP_SUCC then Ret (-1)
         else Ret 0)"

text \<open>A class may replace the function for the address of the reply; the request is over when it fails.\<close>

type_synonym upstreamf = "HevSocks5Client \<Rightarrow> HevSocks5Addr \<Rightarrow> (HevSocks5Client \<times> int) io"

definition hev_socks5_client_read_response ::
  "upstreamf \<Rightarrow> HevSocks5Client \<Rightarrow> (HevSocks5Client \<times> int) io" where
  "hev_socks5_client_read_response upstream self =
     Recv (cl_fd self) 4 Waitall (\<lambda>r.
       if rx_res r \<noteq> 4 then Ret (self, -1)
       else let res = rx_data r
         in if res ! 0 \<noteq> HEV_SOCKS5_VERSION_5 then Ret (self, -1)
         else if res ! 1 \<noteq> HEV_SOCKS5_RES_REP_SUCC then Ret (self, -1)
         else
           let atype = res ! 3;
               rest = (\<lambda>addrlen. Recv (cl_fd self) addrlen Waitall (\<lambda>r.
                 if rx_res r \<noteq> int addrlen then Ret (self, -1)
                 else io_bind (upstream self (atype # rx_data r)) (\<lambda>(self, ret).
                   if ret < 0 then Ret (self, -1) else Ret (self, 0))))
           in if atype = HEV_SOCKS5_ADDR_TYPE_IPV4 then rest 6
           else if atype = HEV_SOCKS5_ADDR_TYPE_IPV6 then rest 18
           else Ret (self, -1))"

section \<open>Connecting and the handshake\<close>

definition hev_socks5_client_connect ::
  "pton \<Rightarrow> bindf \<Rightarrow> socks5_settings \<Rightarrow> HevSocks5Client \<Rightarrow> cstring \<Rightarrow> u16 \<Rightarrow> (HevSocks5Client \<times> int) io" where
  "hev_socks5_client_connect pton bindf c self addr port =
     (let self = self\<lparr>cl_base := hev_socks5_set_timeout (cl_base self) (hev_socks5_get_connect_timeout c)\<rparr>
      in io_bind (hev_socks5_name_into_sockaddr6 pton addr port blank_saddr (hev_socks5_get_addr_family (cl_base self)))
        (\<lambda>(saddr, addr_family, res).
           if res < 0 then Ret (self, -1)
           else io_bind (hev_socks5_socket c SOCK_STREAM) (\<lambda>fd.
             if fd < 0 then Ret (self, -1)
             else io_bind (bindf (cl_base self) fd saddr) (\<lambda>res.
               if res < 0 then Del_Fd fd (Close fd (Ret (self, -1)))
               else Connect fd saddr (\<lambda>res.
                 if res < 0 then Del_Fd fd (Close fd (Ret (self, -1)))
                 else Ret (self\<lparr>cl_base := hev_socks5_set_addr_family ((cl_base self)\<lparr>s5_fd := fd\<rparr>) addr_family\<rparr>, 0))))))"

definition hev_socks5_client_handshake_standard ::
  "upstreamf \<Rightarrow> HevSocks5Client \<Rightarrow> (HevSocks5Client \<times> int) io" where
  "hev_socks5_client_handshake_standard upstream self =
     io_bind (hev_socks5_client_write_auth_methods self) (\<lambda>res. if res < 0 then Ret (self, -1)
     else io_bind (hev_socks5_client_read_auth_method self) (\<lambda>res. if res < 0 then Ret (self, -1)
     else
       let request = io_bind (hev_socks5_client_write_request self) (\<lambda>(self, res). if res < 0 then Ret (self, -1)
             else io_bind (hev_socks5_client_read_response upstream self) (\<lambda>(self, res).
               if res < 0 then Ret (self, -1) else Ret (self, 0)))
       in if res = HEV_SOCKS5_AUTH_METHOD_USER then
         io_bind (hev_socks5_client_write_auth_creds self) (\<lambda>res. if res < 0 then Ret (self, -1)
         else io_bind (hev_socks5_client_read_auth_creds self) (\<lambda>res. if res < 0 then Ret (self, -1) else request))
       else if res \<noteq> HEV_SOCKS5_AUTH_METHOD_NONE then Ret (self, -1)
       else request))"

definition hev_socks5_client_handshake_pipeline ::
  "upstreamf \<Rightarrow> HevSocks5Client \<Rightarrow> (HevSocks5Client \<times> int) io" where
  "hev_socks5_client_handshake_pipeline upstream self =
     io_bind (hev_socks5_client_write_auth_methods self) (\<lambda>res. if res < 0 then Ret (self, -1)
     else io_bind (hev_socks5_client_write_auth_creds self) (\<lambda>res. if res < 0 then Ret (self, -1)
     else io_bind (hev_socks5_client_write_request self) (\<lambda>(self, res). if res < 0 then Ret (self, -1)
     else io_bind (hev_socks5_client_read_auth_method self) (\<lambda>res. if res < 0 then Ret (self, -1)
     else
       let response = io_bind (hev_socks5_client_read_response upstream self) (\<lambda>(self, res).
             if res < 0 then Ret (self, -1) else Ret (self, 0))
       in if res = HEV_SOCKS5_AUTH_METHOD_USER then
         io_bind (hev_socks5_client_read_auth_creds self) (\<lambda>res. if res < 0 then Ret (self, -1) else response)
       else if res \<noteq> HEV_SOCKS5_AUTH_METHOD_NONE then Ret (self, -1)
       else response))))"

definition hev_socks5_client_handshake ::
  "upstreamf \<Rightarrow> socks5_settings \<Rightarrow> HevSocks5Client \<Rightarrow> bool \<Rightarrow> (HevSocks5Client \<times> int) io" where
  "hev_socks5_client_handshake upstream c self pipeline =
     (let self = self\<lparr>cl_base := hev_socks5_set_timeout (cl_base self) (hev_socks5_get_tcp_timeout c)\<rparr>
      in io_bind (if pipeline then hev_socks5_client_handshake_pipeline upstream self
                  else hev_socks5_client_handshake_standard upstream self)
        (\<lambda>(self, res).
           let type = s5_type (cl_base self)
           in if type = HEV_SOCKS5_TYPE_UDP_IN_TCP \<or> type = HEV_SOCKS5_TYPE_UDP_IN_UDP then
             Ret (self\<lparr>cl_base := hev_socks5_set_timeout (cl_base self) (hev_socks5_get_udp_timeout c)\<rparr>, res)
           else Ret (self, res)))"

section \<open>Construction and destruction\<close>

definition hev_socks5_client_set_auth :: "HevSocks5Client \<Rightarrow> cstring option \<Rightarrow> cstring option \<Rightarrow> HevSocks5Client" where
  "hev_socks5_client_set_auth self user pass = self\<lparr>cl_user := user, cl_pass := pass\<rparr>"

definition hev_socks5_client_construct :: "int \<Rightarrow> client_kind \<Rightarrow> HevSocks5Type \<Rightarrow> HevSocks5Client \<times> int" where
  "hev_socks5_client_construct base kind type =
     (let (b, res) = hev_socks5_construct base type
      in (\<lparr>cl_base = b, cl_user = None, cl_pass = None, cl_kind = kind\<rparr>, if res < 0 then res else 0))"

text \<open>An unknown address type has length -1: the allocation of \<open>SIZE_MAX\<close> bytes fails.\<close>

definition hev_socks5_client_tcp_construct :: "int \<Rightarrow> HevSocks5Addr \<Rightarrow> (HevSocks5Client \<times> int) io" where
  "hev_socks5_client_tcp_construct base addr =
     (let (self, res) = hev_socks5_client_construct base (ClientTCP None) HEV_SOCKS5_TYPE_TCP
      in if res < 0 then Ret (self, res)
      else let res = hev_socks5_addr_len addr
        in if res < 0 then Ret (self, -1)
        else Malloc (\<lambda>p. if p = NULL then Ret (self, -1)
          else Ret (self\<lparr>cl_kind := ClientTCP (Some (p, take (nat res) addr))\<rparr>, 0)))"

text \<open>
  The constructors allocate the object and construct it for an address; \<open>stk\<close> is what the
  address on the stack held before, and a failed construction frees the object.
\<close>

definition client_tcp_new :: "int \<Rightarrow> HevSocks5Addr \<Rightarrow> (HevSocks5Client option \<times> addr) io" where
  "client_tcp_new base addr =
     Malloc (\<lambda>obj. if obj = NULL then Ret (None, NULL)
       else io_bind (hev_socks5_client_tcp_construct base addr) (\<lambda>(self, res).
         if res < 0 then Free obj (Ret (None, NULL)) else Ret (Some self, obj)))"

definition hev_socks5_client_tcp_new_name ::
  "int \<Rightarrow> HevSocks5Addr \<Rightarrow> cstring \<Rightarrow> u16 \<Rightarrow> (HevSocks5Client option \<times> addr) io" where
  "hev_socks5_client_tcp_new_name base stk name port =
     (case hev_socks5_addr_from_name stk name port of
        None \<Rightarrow> Crash
      | Some (addr, n) \<Rightarrow> client_tcp_new base addr)"

definition hev_socks5_client_tcp_new_ipv4 ::
  "int \<Rightarrow> HevSocks5Addr \<Rightarrow> u8 list \<Rightarrow> u16 \<Rightarrow> (HevSocks5Client option \<times> addr) io" where
  "hev_socks5_client_tcp_new_ipv4 base stk ipv4 port = client_tcp_new base (fst (hev_socks5_addr_from_ipv4 stk ipv4 port))"

definition hev_socks5_client_tcp_new_ipv6 ::
  "int \<Rightarrow> HevSocks5Addr \<Rightarrow> u8 list \<Rightarrow> u16 \<Rightarrow> (HevSocks5Client option \<times> addr) io" where
  "hev_socks5_client_tcp_new_ipv6 base stk ipv6 port = client_tcp_new base (fst (hev_socks5_addr_from_ipv6 stk ipv6 port))"

definition hev_socks5_client_udp_construct :: "int \<Rightarrow> HevSocks5Type \<Rightarrow> HevSocks5Client \<times> int" where
  "hev_socks5_client_udp_construct base type =
     (let (self, res) = hev_socks5_client_construct base (ClientUDP 0) type
      in if res < 0 then (self, res) else (self\<lparr>cl_kind := ClientUDP (-1)\<rparr>, 0))"

definition hev_socks5_client_udp_new :: "int \<Rightarrow> HevSocks5Type \<Rightarrow> (HevSocks5Client option \<times> addr) io" where
  "hev_socks5_client_udp_new base type =
     Malloc (\<lambda>obj. if obj = NULL then Ret (None, NULL)
       else let (self, res) = hev_socks5_client_udp_construct base type
         in if res < 0 then Free obj (Ret (None, NULL)) else Ret (Some self, obj))"

definition hev_socks5_client_udp_get_fd :: "HevSocks5Client \<Rightarrow> int" where
  "hev_socks5_client_udp_get_fd self =
     (if s5_type (cl_base self) = HEV_SOCKS5_TYPE_UDP_IN_TCP then cl_fd self
      else if s5_type (cl_base self) = HEV_SOCKS5_TYPE_UDP_IN_UDP then
        (case cl_kind self of ClientUDP fd \<Rightarrow> fd | ClientTCP a \<Rightarrow> -1)
      else -1)"

definition hev_socks5_client_destruct :: "HevSocks5Client \<Rightarrow> unit io" where
  "hev_socks5_client_destruct self = hev_socks5_destruct (cl_base self)"

definition hev_socks5_client_tcp_destruct :: "HevSocks5Client \<Rightarrow> unit io" where
  "hev_socks5_client_tcp_destruct self = (case cl_kind self of
     ClientTCP (Some (p, a)) \<Rightarrow> Free p (hev_socks5_client_destruct self)
   | _ \<Rightarrow> hev_socks5_client_destruct self)"

definition hev_socks5_client_udp_destruct :: "HevSocks5Client \<Rightarrow> unit io" where
  "hev_socks5_client_udp_destruct self = (case cl_kind self of
     ClientUDP fd \<Rightarrow>
       if 0 \<le> fd then Del_Fd fd (Close fd (hev_socks5_client_destruct self)) else hev_socks5_client_destruct self
   | ClientTCP a \<Rightarrow> hev_socks5_client_destruct self)"

definition client_destruct :: "HevSocks5Client \<Rightarrow> unit io" where
  "client_destruct self = (case cl_kind self of
     ClientTCP a \<Rightarrow> hev_socks5_client_tcp_destruct self
   | ClientUDP fd \<Rightarrow> hev_socks5_client_udp_destruct self)"

end
