(* ===== verification/Hev_Socks5_UDP.thy ===== *)
theory Hev_Socks5_UDP
  imports Hev_Socks5
begin

text \<open>
  Datagrams over SOCKS5 (\<open>hev-socks5-udp.c\<close>): in one mode they are framed on the TCP connection, in
  the other each travels in a datagram of its own behind a SOCKS5 header. \<open>errno\<close> is a part of
  the state, as the code reads it after calls that do not set it.
\<close>

section \<open>Messages\<close>

text \<open>The address of a message points nowhere yet, is the null pointer, or points to an address.\<close>

datatype addr_of = Unset | Null | To HevSocks5Addr

record HevSocks5UDPMsg =
  msg_addr :: addr_of
  msg_buf :: "u8 list"
  msg_len :: nat

definition UDP_BUF_SIZE :: nat where
  "UDP_BUF_SIZE = 1500"

section \<open>Sending\<close>

text \<open>
  One frame on the stream: the length of the data in network order, the length of the header, the
  address, the data. The header length is a byte. No result: a message without a valid address.
\<close>

definition frame_tcp :: "HevSocks5UDPMsg \<Rightarrow> u8 list option" where
  "frame_tcp m = (case msg_addr m of
     To addr \<Rightarrow>
       let addrlen = hev_socks5_addr_len addr
       in if addrlen \<le> 0 then None
       else Some (bytes16 (htons (of_nat (msg_len m))) @ [word_of_int (3 + addrlen)] @
         take (nat addrlen) addr @ take (msg_len m) (msg_buf m))
   | _ \<Rightarrow> None)"

text \<open>A call returns its result with whether \<open>errno\<close> is \<open>EAGAIN\<close> afterwards.\<close>

type_synonym res = "int \<times> bool"

definition hev_socks5_udp_sendmmsg_tcp :: "int \<Rightarrow> bool \<Rightarrow> HevSocks5UDPMsg list \<Rightarrow> res io" where
  "hev_socks5_udp_sendmmsg_tcp fd again msgv =
     (case those (map frame_tcp msgv) of
        None \<Rightarrow> Ret (-1, again)
      | Some frames \<Rightarrow> Sendmsg fd (concat frames) (\<lambda>(res, again).
          if res \<le> 0 then Ret (-1, again) else Ret (int (length msgv), again)))"

definition frame_udp :: "HevSocks5UDPMsg \<Rightarrow> u8 list option" where
  "frame_udp m = (case msg_addr m of
     To addr \<Rightarrow>
       let addrlen = hev_socks5_addr_len addr
       in if addrlen \<le> 0 then None
       else Some ([0, 0, 0] @ take (nat addrlen) addr @ take (msg_len m) (msg_buf m))
   | _ \<Rightarrow> None)"

definition hev_socks5_udp_sendmmsg_udp :: "int \<Rightarrow> bool \<Rightarrow> HevSocks5UDPMsg list \<Rightarrow> res io" where
  "hev_socks5_udp_sendmmsg_udp fd again msgv =
     (case those (map frame_udp msgv) of
        None \<Rightarrow> Ret (-1, again)
      | Some frames \<Rightarrow> Sendmmsg fd (map (\<lambda>f. (None, f)) frames) Ret)"

definition hev_socks5_udp_sendmmsg :: "HevSocks5 \<Rightarrow> int \<Rightarrow> bool \<Rightarrow> HevSocks5UDPMsg list \<Rightarrow> res io" where
  "hev_socks5_udp_sendmmsg self fd again msgv = (case s5_type self of
     HEV_SOCKS5_TYPE_UDP_IN_TCP \<Rightarrow> hev_socks5_udp_sendmmsg_tcp fd again msgv
   | HEV_SOCKS5_TYPE_UDP_IN_UDP \<Rightarrow> hev_socks5_udp_sendmmsg_udp fd again msgv
   | _ \<Rightarrow> Ret (-1, again))"

section \<open>Receiving from the stream\<close>

text \<open>The five bytes of a header: a first part, and what was missing.\<close>

definition recv_head :: "int \<Rightarrow> rflag \<Rightarrow> (int \<times> u8 list \<times> bool) io" where
  "recv_head fd nonblock =
     Recv fd 5 nonblock (\<lambda>r.
       if 0 < rx_res r \<and> rx_res r < 5 then
         Recv fd (nat (5 - rx_res r)) Waitall (\<lambda>s. Ret (rx_res r + rx_res s, rx_data r @ rx_data s, rx_again s))
       else Ret (rx_res r, rx_data r, rx_again r))"

text \<open>
  The bounds check, at the width of \<open>size_t\<close>.
\<close>

definition data_too_long :: "u16 \<Rightarrow> nat \<Rightarrow> int \<Rightarrow> bool" where
  "data_too_long datlen len addrlen \<longleftrightarrow> (of_nat len - word_of_int addrlen :: 64 word) < ucast datlen"

text \<open>
  The messages that are done, those to fill, the number received and \<open>errno\<close>. The function returns
  the messages with the result. What a read that fails returns is what the code returns: a byte
  count where fewer bytes came than were asked for.
\<close>

fun recvmmsg_tcp_loop ::
  "int \<Rightarrow> rflag \<Rightarrow> HevSocks5UDPMsg list \<Rightarrow> HevSocks5UDPMsg list \<Rightarrow> bool \<Rightarrow> (HevSocks5UDPMsg list \<times> res) io" where
  "recvmmsg_tcp_loop fd nonblock done [] again = Ret (done, int (length done), again)"
| "recvmmsg_tcp_loop fd nonblock done (m # ms) again =
     io_bind (recv_head fd nonblock) (\<lambda>(res, udp, again).
       if res \<noteq> 5 then
         (if done \<noteq> [] then Ret (done @ m # ms, int (length done), again) else Ret (done @ m # ms, res, again))
       else if udp ! 2 < 5 then Ret (done @ m # ms, -1, again)
       else
         let addrlen = unat (udp ! 2) - 3;
             datlen = ntohs (load16 (udp ! 0) (udp ! 1))
         in if data_too_long datlen (msg_len m) (int addrlen) then Ret (done @ m # ms, -1, again)
         else Recv fd (addrlen - 2 + unat datlen) Waitall (\<lambda>r.
           if rx_res r \<noteq> int (addrlen - 2 + unat datlen) then Ret (done @ m # ms, rx_res r, rx_again r)
           else
             let buf = memcpy_at (msg_buf m) 2 (rx_data r);
                 buf = buf[0 := udp ! 3, 1 := udp ! 4];
                 m = m\<lparr>msg_addr := To buf, msg_buf := drop addrlen buf, msg_len := unat datlen\<rparr>
             in recvmmsg_tcp_loop fd nonblock (done @ [m]) ms (rx_again r)))"

definition hev_socks5_udp_recvmmsg_tcp ::
  "int \<Rightarrow> bool \<Rightarrow> HevSocks5UDPMsg list \<Rightarrow> bool \<Rightarrow> (HevSocks5UDPMsg list \<times> res) io" where
  "hev_socks5_udp_recvmmsg_tcp fd again msgv nonblock =
     recvmmsg_tcp_loop fd (if nonblock then Dontwait else Noflag) [] msgv again"

section \<open>Receiving datagrams\<close>

text \<open>
  One datagram in the buffer of a message: the message, or \<open>None\<close> where the function returns -1.
  A datagram of fewer than four bytes gives a message without address and data.
  A failed \<open>connect\<close> of a datagram socket sets \<open>errno\<close> to another error than \<open>EAGAIN\<close>.
\<close>

definition parse_udp :: "HevSocks5UDPMsg \<Rightarrow> u8 list \<Rightarrow> HevSocks5UDPMsg option" where
  "parse_udp m bytes =
     (let buf = memcpy_at (msg_buf m) 0 bytes;
          addr = drop 3 buf;
          addrlen = hev_socks5_addr_len addr
      in if length bytes < 4 then Some (m\<lparr>msg_addr := Null, msg_buf := buf, msg_len := 0\<rparr>)
      else if addrlen \<le> 0 then None
      else let doff = 3 + addrlen
        in if int (length bytes) < doff then None
        else Some (m\<lparr>msg_addr := To addr, msg_buf := drop (nat doff) buf, msg_len := length bytes - nat doff\<rparr>))"

fun parse_all :: "HevSocks5UDPMsg list \<Rightarrow> u8 list list \<Rightarrow> HevSocks5UDPMsg list \<times> bool" where
  "parse_all (m # ms) (d # ds) = (case parse_udp m d of
     None \<Rightarrow> (m # ms, False)
   | Some m \<Rightarrow> (let (ms, ok) = parse_all ms ds in (m # ms, ok)))"
| "parse_all ms ds = (ms, True)"

definition hev_socks5_udp_recvmmsg_udp ::
  "HevSocks5 \<Rightarrow> int \<Rightarrow> bool \<Rightarrow> HevSocks5UDPMsg list \<Rightarrow> bool \<Rightarrow> (HevSocks5 \<times> HevSocks5UDPMsg list \<times> res) io" where
  "hev_socks5_udp_recvmmsg_udp self fd again msgv nonblock =
     Recvmmsg fd (map msg_len msgv) (if nonblock then Dontwait else Noflag) (\<lambda>r. case r of
         MErr res again \<Rightarrow> Ret (self, msgv, res, again)
       | Dgrams ds again \<Rightarrow>
           let finish = (\<lambda>self again. case parse_all msgv (map fst ds) of
                 (ms, ok) \<Rightarrow> Ret (self, ms, if ok then int (length ds) else -1, again))
           in if s5_udp_associated self then finish self again
           else Connect fd (snd (hd ds)) (\<lambda>res.
             if res < 0 then Ret (self, msgv, -1, False)
             else finish (self\<lparr>s5_udp_associated := True\<rparr>) again))"

definition hev_socks5_udp_recvmmsg ::
  "HevSocks5 \<Rightarrow> int \<Rightarrow> bool \<Rightarrow> HevSocks5UDPMsg list \<Rightarrow> bool \<Rightarrow> (HevSocks5 \<times> HevSocks5UDPMsg list \<times> res) io" where
  "hev_socks5_udp_recvmmsg self fd again msgv nonblock = (case s5_type self of
     HEV_SOCKS5_TYPE_UDP_IN_TCP \<Rightarrow> io_bind (hev_socks5_udp_recvmmsg_tcp fd again msgv nonblock) (\<lambda>(ms, r). Ret (self, ms, r))
   | HEV_SOCKS5_TYPE_UDP_IN_UDP \<Rightarrow> hev_socks5_udp_recvmmsg_udp self fd again msgv nonblock
   | _ \<Rightarrow> Ret (self, msgv, -1, again))"

section \<open>Forwarding\<close>

text \<open>
  The destinations of the first \<open>res\<close> messages of the array, in order; \<open>None\<close> where the code
  returns -1. An index past the array, or a message whose address was never set, is an invalid access.
\<close>

fun fwd_dests ::
  "pton \<Rightarrow> HevSocks5 \<Rightarrow> HevSocks5UDPMsg list \<Rightarrow> nat \<Rightarrow> (sockaddr_in6 option \<times> u8 list) list option io" where
  "fwd_dests pton self svec 0 = Ret (Some [])"
| "fwd_dests pton self [] (Suc n) = Crash"
| "fwd_dests pton self (m # svec) (Suc n) =
     (if msg_len m = 0 then Ret None
      else case msg_addr m of
        Unset \<Rightarrow> Crash
      | Null \<Rightarrow> Ret None
      | To addr \<Rightarrow> io_bind (hev_socks5_addr_into_sockaddr6 pton addr blank_saddr (hev_socks5_get_addr_family self))
          (\<lambda>(saddr, family, ret).
             if ret < 0 then Ret None
             else io_bind (fwd_dests pton self svec n) (\<lambda>ds.
               Ret (map_option (\<lambda>ds. (Some saddr, take (msg_len m) (msg_buf m)) # ds) ds))))"

text \<open>The end of both directions: an error that is \<open>EAGAIN\<close> is not one.\<close>

definition fwd_result :: "res \<Rightarrow> int" where
  "fwd_result r = (if fst r \<le> 0 then if fst r = -1 \<and> snd r then 0 else -1 else 1)"

text \<open>
  The state of the splicer: the object, \<open>errno\<close>, and whether the outgoing socket was bound. \<open>mem\<close> is
  what the buffers on the heap hold.
\<close>

record udp_state =
  us_self :: HevSocks5
  us_again :: bool
  us_bind :: bool

definition fwd_svec :: "u8 list list \<Rightarrow> HevSocks5UDPMsg list" where
  "fwd_svec mem = map (\<lambda>buf. \<lparr>msg_addr = Unset, msg_buf = buf, msg_len = UDP_BUF_SIZE\<rparr>) mem"

definition hev_socks5_udp_fwd_f ::
  "pton \<Rightarrow> bindf \<Rightarrow> int \<Rightarrow> udp_state \<Rightarrow> int \<Rightarrow> u8 list list \<Rightarrow> (udp_state \<times> int) io" where
  "hev_socks5_udp_fwd_f pton bindf fd_a st fd mem =
     io_bind (hev_socks5_udp_recvmmsg (us_self st) fd_a (us_again st) (fwd_svec mem) True) (\<lambda>(self, svec, res, again).
       let st = st\<lparr>us_self := self, us_again := again\<rparr>
       in if res \<le> 0 then Ret (st, fwd_result (res, again))
       else io_bind (fwd_dests pton self svec (nat res)) (\<lambda>ds. case ds of
           None \<Rightarrow> Ret (st, -1)
         | Some dvec \<Rightarrow>
             let send = (\<lambda>st. Sendmmsg fd dvec (\<lambda>(res, again). Ret (st\<lparr>us_again := again\<rparr>, fwd_result (res, again))))
             in if us_bind st then send st
             else io_bind (bindf self fd (the (fst (hd dvec)))) (\<lambda>ret.
               if ret < 0 then Ret (st, -1) else send (st\<lparr>us_bind := True\<rparr>))))"

definition hev_socks5_udp_fwd_b :: "int \<Rightarrow> udp_state \<Rightarrow> int \<Rightarrow> nat \<Rightarrow> (udp_state \<times> int) io" where
  "hev_socks5_udp_fwd_b fd_a st fd num =
     Recvmmsg fd (replicate num UDP_BUF_SIZE) Dontwait (\<lambda>r. case r of
         MErr res again \<Rightarrow> Ret (st\<lparr>us_again := again\<rparr>, fwd_result (res, again))
       | Dgrams ds again \<Rightarrow>
           let dvec = map (\<lambda>(bytes, saddr). \<lparr>msg_addr = To (fst (hev_socks5_addr_from_sockaddr6 (replicate 19 0) saddr)),
                 msg_buf = bytes, msg_len = length bytes\<rparr>) ds
           in io_bind (hev_socks5_udp_sendmmsg (us_self st) fd_a again dvec) (\<lambda>r.
             Ret (st\<lparr>us_again := snd r\<rparr>, fwd_result r)))"

section \<open>The splicer\<close>

text \<open>
  The yielder of this file: in datagram mode the TCP connection is polled, and when it is closed
  the session ends.
\<close>

definition task_io_yielder :: "HevTaskYieldType \<Rightarrow> udp_state \<Rightarrow> (udp_state \<times> int) io" where
  "task_io_yielder type st =
     (let self = us_self st;
          wait = (\<lambda>st. io_bind (hev_socks5_task_io_yielder type (us_self st)) (\<lambda>r. Ret (st, r)))
      in if s5_type self = HEV_SOCKS5_TYPE_UDP_IN_UDP then
        Recv (s5_fd self) 1 Noflag (\<lambda>r.
          let st = st\<lparr>us_again := rx_again r\<rparr>
          in if rx_res r = 0 \<or> (rx_res r < 0 \<and> \<not> rx_again r) then
            Ret (st\<lparr>us_self := hev_socks5_set_timeout self 0\<rparr>, -1)
          else wait st)
      else wait st)"

text \<open>
  The loop, for a number of rounds: \<open>None\<close> when it is still running after them. \<open>heap\<close> is what each
  of the \<open>num\<close> receive buffers holds at the start of a round.
\<close>

fun udp_splice_loop ::
  "nat \<Rightarrow> pton \<Rightarrow> bindf \<Rightarrow> int \<Rightarrow> int \<Rightarrow> nat \<Rightarrow> (nat \<Rightarrow> nat \<Rightarrow> u8 list) \<Rightarrow>
   udp_state \<Rightarrow> int \<Rightarrow> int \<Rightarrow> udp_state option io" where
  "udp_splice_loop 0 pton bindf fd_a fd_b num heap st res_f res_b = Ret None"
| "udp_splice_loop (Suc n) pton bindf fd_a fd_b num heap st res_f res_b =
     io_bind (if 0 \<le> res_f then hev_socks5_udp_fwd_f pton bindf fd_a st fd_b (map (heap n) [0..<num]) else Ret (st, res_f)) (\<lambda>(st, res_f).
       io_bind (if 0 \<le> res_b then hev_socks5_udp_fwd_b fd_a st fd_b num else Ret (st, res_b)) (\<lambda>(st, res_b).
         let next = (\<lambda>type. io_bind (task_io_yielder type st) (\<lambda>(st, res).
               if res \<noteq> 0 then Ret (Some st) else udp_splice_loop n pton bindf fd_a fd_b num heap st res_f res_b))
         in if 0 < res_f \<or> 0 < res_b then next HEV_TASK_YIELD
         else if res_f AND res_b = 0 then next HEV_TASK_WAITIO
         else Ret (Some st)))"

definition hev_socks5_udp_splicer ::
  "nat \<Rightarrow> pton \<Rightarrow> bindf \<Rightarrow> socks5_settings \<Rightarrow> (nat \<Rightarrow> nat \<Rightarrow> u8 list) \<Rightarrow>
   HevSocks5 \<Rightarrow> bool \<Rightarrow> int \<Rightarrow> int \<Rightarrow> (HevSocks5 \<times> int) option io" where
  "hev_socks5_udp_splicer fuel pton bindf c heap self again fd_a fd_b =
     (let num = nat (hev_socks5_get_udp_copy_buffer_nums c)
      in Malloc (\<lambda>buf. if buf = NULL then Ret (Some (self, -1))
        else
          let loop = io_bind (udp_splice_loop fuel pton bindf fd_a fd_b num heap
                \<lparr>us_self = self, us_again = again, us_bind = False\<rparr> 1 1) (\<lambda>st. case st of
                  None \<Rightarrow> Ret None
                | Some st \<Rightarrow> Free buf (Ret (Some (us_self st, 0))));
              add_b = Add_Fd fd_b (\<lambda>res. if res < 0 then Mod_Fd fd_b (\<lambda>res. loop) else loop)
          in Mod_Fd fd_a (\<lambda>res. if res < 0 then Add_Fd fd_a (\<lambda>res. add_b) else add_b)))"

definition hev_socks5_udp_splice ::
  "nat \<Rightarrow> pton \<Rightarrow> bindf \<Rightarrow> socks5_settings \<Rightarrow> (nat \<Rightarrow> nat \<Rightarrow> u8 list) \<Rightarrow>
   HevSocks5 \<Rightarrow> bool \<Rightarrow> int \<Rightarrow> int \<Rightarrow> (HevSocks5 \<times> int) option io" where
  "hev_socks5_udp_splice fuel pton bindf c heap self again fd_a fd_b = hev_socks5_udp_splicer fuel pton bindf c heap self again fd_a fd_b"

section \<open>Frames on a stream\<close>

text \<open>
  A program reading a stream of bytes of which all that are there have arrived: a blocking read of
  a number of bytes gets them all; the other reads get at least one of the bytes asked for, as the
  transport cuts them; on an empty stream a non-blocking read fails with \<open>EAGAIN\<close>.
\<close>

inductive stream_run :: "'a io \<Rightarrow> u8 list \<Rightarrow> 'a \<Rightarrow> u8 list \<Rightarrow> bool" where
  stream_ret: "stream_run (Ret x) q x q"
| stream_all: "n \<le> length q \<Longrightarrow> stream_run (k (Data (take n q) b)) (drop n q) x q' \<Longrightarrow>
    stream_run (Recv fd n Waitall k) q x q'"
| stream_some: "fl \<noteq> Waitall \<Longrightarrow> 0 < m \<Longrightarrow> m \<le> n \<Longrightarrow> m \<le> length q \<Longrightarrow>
    stream_run (k (Data (take m q) b)) (drop m q) x q' \<Longrightarrow> stream_run (Recv fd n fl k) q x q'"
| stream_none: "stream_run (k (Err (-1) True)) [] x q' \<Longrightarrow> stream_run (Recv fd n Dontwait k) [] x q'"

inductive_simps stream_run_simps:
  "stream_run (Ret x) q y q'" "stream_run (Recv fd n fl k) q y q'"

lemma stream_recv:
  "q \<noteq> [] \<Longrightarrow> fl \<noteq> Waitall \<Longrightarrow> stream_run (Recv fd n fl k) q x q' \<longleftrightarrow>
     (\<exists>m b. 0 < m \<and> m \<le> n \<and> m \<le> length q \<and> stream_run (k (Data (take m q) b)) (drop m q) x q')"
  "stream_run (Recv fd n Waitall k) q x q' \<longleftrightarrow>
     n \<le> length q \<and> (\<exists>b. stream_run (k (Data (take n q) b)) (drop n q) x q')"
  "stream_run (Recv fd n Dontwait k) [] x q' \<longleftrightarrow> stream_run (k (Err (-1) True)) [] x q'"
  by (subst stream_run_simps(2); blast | subst stream_run_simps(2), auto)+

lemma stream_bind_fwd:
  "stream_run (io_bind p k) q x q' \<Longrightarrow> \<exists>y q1. stream_run p q y q1 \<and> stream_run (k y) q1 x q'"
proof (induction "io_bind p k" q x q' arbitrary: p rule: stream_run.induct)
  case (stream_ret x q)
  then show ?case by (cases p) (auto simp: stream_run_simps intro: stream_run.intros, metis stream_run.stream_ret)
next
  case (stream_all n q k1 b x q' fd)
  from stream_all.hyps(4) consider y where "p = Ret y" | k2 where "p = Recv fd n Waitall k2" "k1 = (\<lambda>r. io_bind (k2 r) k)"
    by (cases p) auto
  then show ?case
  proof cases
    case 1
    with stream_all.hyps show ?thesis by (metis io_bind.simps(1) stream_run.stream_all stream_run.stream_ret)
  next
    case 2
    with stream_all.hyps(3) [of "k2 (Data (take n q) b)"] stream_all.hyps(1) show ?thesis
      by (auto intro: stream_run.stream_all)
  qed
next
  case (stream_some fl m n q k1 b x q' fd)
  from stream_some.hyps(7) consider y where "p = Ret y" | k2 where "p = Recv fd n fl k2" "k1 = (\<lambda>r. io_bind (k2 r) k)"
    by (cases p) auto
  then show ?case
  proof cases
    case 1
    with stream_some.hyps show ?thesis by (metis io_bind.simps(1) stream_run.stream_some stream_run.stream_ret)
  next
    case 2
    with stream_some.hyps(6) [of "k2 (Data (take m q) b)"] stream_some.hyps(1-4) show ?thesis
      by (auto intro: stream_run.stream_some)
  qed
next
  case (stream_none k1 x q' fd n)
  from stream_none.hyps(3) consider y where "p = Ret y" | k2 where "p = Recv fd n Dontwait k2" "k1 = (\<lambda>r. io_bind (k2 r) k)"
    by (cases p) auto
  then show ?case
  proof cases
    case 1
    with stream_none.hyps show ?thesis by (metis io_bind.simps(1) stream_run.stream_none stream_run.stream_ret)
  next
    case 2
    with stream_none.hyps(2) [of "k2 (Err (-1) True)"] show ?thesis by (auto intro: stream_run.stream_none)
  qed
qed

lemma stream_bind_bwd:
  "stream_run p q y q1 \<Longrightarrow> stream_run (k y) q1 x q' \<Longrightarrow> stream_run (io_bind p k) q x q'"
  by (induction rule: stream_run.induct) (auto intro: stream_run.intros)

lemma stream_bind: "stream_run (io_bind p k) q x q' \<longleftrightarrow> (\<exists>y q1. stream_run p q y q1 \<and> stream_run (k y) q1 x q')"
  by (auto dest: stream_bind_fwd intro: stream_bind_bwd)

text \<open>However the five bytes of a header arrive, the header is the same.\<close>

lemma recv_head_run:
  assumes "5 \<le> length q" and "fl \<noteq> Waitall"
  shows "stream_run (recv_head fd fl) q y q' \<longleftrightarrow> (\<exists>b. y = (5, take 5 q, b)) \<and> q' = drop 5 q"
proof -
  have m: "take m q @ take (5 - m) (drop m q) = take 5 q" if "m \<le> 5" for m
    using that by (metis add_diff_inverse_nat le_add_diff_inverse take_add)
  show ?thesis
  proof
    assume "stream_run (recv_head fd fl) q y q'"
    moreover have "q \<noteq> []" using assms by auto
    ultimately obtain k b where k: "0 < k" "k \<le> 5" "k \<le> length q" and run: "stream_run
        ((\<lambda>r. if 0 < rx_res r \<and> rx_res r < 5 then
           Recv fd (nat (5 - rx_res r)) Waitall (\<lambda>s. Ret (rx_res r + rx_res s, rx_data r @ rx_data s, rx_again s))
         else Ret (rx_res r, rx_data r, rx_again r)) (Data (take k q) b)) (drop k q) y q'"
      unfolding recv_head_def stream_recv(1) [OF \<open>q \<noteq> []\<close> assms(2)] by blast
    show "(\<exists>b. y = (5, take 5 q, b)) \<and> q' = drop 5 q"
    proof (cases "k < 5")
      case True
      with k have "nat (5 - int k) = 5 - k" by simp
      with True k run assms m [OF k(2)] show ?thesis by (auto simp: stream_recv(2) stream_run_simps(1))
    next
      case False
      with k have "k = 5" by simp
      with run assms show ?thesis by (simp add: stream_run_simps(1))
    qed
  next
    assume r: "(\<exists>b. y = (5, take 5 q, b)) \<and> q' = drop 5 q"
    then obtain b where "y = (5, take 5 q, b)" by blast
    with r assms show "stream_run (recv_head fd fl) q y q'"
      unfolding recv_head_def by (intro stream_some [of fl 5 5 q _ b]) (auto simp: stream_run_simps)
  qed
qed

lemma recv_head_none:
  "stream_run (recv_head fd Dontwait) [] y q' \<longleftrightarrow> y = (-1, [], True) \<and> q' = []"
  by (auto simp: recv_head_def stream_recv(3) stream_run_simps(1))

text \<open>A message that carries data for a destination, and its frame.\<close>

definition carries :: "HevSocks5UDPMsg \<Rightarrow> dest \<Rightarrow> u8 list \<Rightarrow> bool" where
  "carries m d bs \<longleftrightarrow> (\<exists>a. msg_addr m = To a \<and> addr_is d a) \<and> msg_len m = length bs \<and> take (length bs) (msg_buf m) = bs"

definition tcp_frame :: "dest \<Rightarrow> u8 list \<Rightarrow> u8 list" where
  "tcp_frame d bs = bytes16 (htons (of_nat (length bs))) @ [of_nat (3 + length (dest_bytes d))] @ dest_bytes d @ bs"

definition frame_fits :: "dest \<Rightarrow> u8 list \<Rightarrow> bool" where
  "frame_fits d bs \<longleftrightarrow> dest_ok d \<and> length (dest_bytes d) \<le> 252 \<and> length (dest_bytes d) + length bs \<le> UDP_BUF_SIZE"

definition empty_msg :: "HevSocks5UDPMsg \<Rightarrow> bool" where
  "empty_msg m \<longleftrightarrow> length (msg_buf m) = UDP_BUF_SIZE \<and> msg_len m = UDP_BUF_SIZE"

lemma frame_tcp_carries: "carries m d bs \<Longrightarrow> frame_tcp m = Some (tcp_frame d bs)"
proof -
  assume "carries m d bs"
  then obtain a where a: "msg_addr m = To a" "addr_is d a" "msg_len m = length bs" "take (length bs) (msg_buf m) = bs"
    by (auto simp: carries_def)
  then have "hev_socks5_addr_len a = int (length (dest_bytes d))" "take (length (dest_bytes d)) a = dest_bytes d"
    "4 \<le> length (dest_bytes d)"
    using addr_len_is dest_bytes_len by (auto simp: addr_is_def)
  then show ?thesis using a by (auto simp: frame_tcp_def tcp_frame_def Let_def)
qed

lemma those_carries:
  "list_all2 (\<lambda>m (d, bs). carries m d bs) ms items \<Longrightarrow>
     those (map frame_tcp ms) = Some (map (\<lambda>(d, bs). tcp_frame d bs) items)"
  by (induction rule: list_all2_induct) (auto simp: frame_tcp_carries)

text \<open>What the receiver makes of a frame.\<close>

definition decoded :: "HevSocks5UDPMsg \<Rightarrow> dest \<Rightarrow> u8 list \<Rightarrow> HevSocks5UDPMsg" where
  "decoded m d bs = (let rest = drop (length (dest_bytes d) + length bs) (msg_buf m)
     in m\<lparr>msg_addr := To (dest_bytes d @ bs @ rest), msg_buf := bs @ rest, msg_len := length bs\<rparr>)"

lemma carries_decoded: "dest_ok d \<Longrightarrow> carries (decoded m d bs) d bs"
  by (auto simp: carries_def decoded_def addr_is_iff Let_def)

lemma data_fits:
  assumes "a + n \<le> len" and "len < 2 ^ 16"
  shows "\<not> data_too_long (of_nat n) len (int a)"
proof -
  have "of_nat len - word_of_int (int a) = (of_nat (len - a) :: 64 word)" using assms by (simp add: of_nat_diff)
  moreover have "unat (of_nat k :: 64 word) = k" if "k < 2 ^ 16" for k using that by (simp add: unat_of_nat)
  then have "unat (of_nat (len - a) :: 64 word) = len - a" using assms by (metis less_imp_diff_less)
  moreover have "unat (ucast (of_nat n :: u16) :: 64 word) = n"
    using assms by (simp add: unsigned_ucast_eq unat_of_nat take_bit_nat_eq_self)
  ultimately show ?thesis using assms unfolding data_too_long_def word_less_nat_alt by simp
qed

lemma recvmmsg_tcp_frame:
  assumes fits: "frame_fits d bs" and m: "empty_msg m" and fl: "fl \<noteq> Waitall"
  shows "stream_run (recvmmsg_tcp_loop fd fl done (m # ms) again) (tcp_frame d bs @ q) y q' \<longleftrightarrow>
    (\<exists>b. stream_run (recvmmsg_tcp_loop fd fl (done @ [decoded m d bs]) ms b) q y q')"
proof -
  let ?n = "length (dest_bytes d)"
  have n: "4 \<le> ?n" "?n \<le> 252" "?n + length bs \<le> 1500"
    using fits dest_bytes_len by (auto simp: frame_fits_def UDP_BUF_SIZE_def)
  then obtain t l dt where dt: "dest_bytes d = t # l # dt" by (cases "dest_bytes d"; cases "tl (dest_bytes d)") auto
  define h :: u8 where "h = of_nat (3 + ?n)"
  have h1: "unat h = 3 + ?n" unfolding h_def using n by (intro unat_len8) simp
  have h: "unat h = 3 + ?n" "\<not> h < 5" using n h1 by (auto simp: word_less_nat_alt)
  obtain b0 b1 where b: "bytes16 (htons (of_nat (length bs))) = [b0, b1]" by (simp add: bytes16_def)
  have len: "ntohs (load16 b0 b1) = of_nat (length bs)" "unat (of_nat (length bs) :: u16) = length bs"
    using load16_bytes [OF b] n by (simp_all add: unat_of_nat)
  have q: "tcp_frame d bs @ q = [b0, b1, h, t, l] @ dt @ bs @ q"
    by (simp add: tcp_frame_def b dt h_def)
  have c: "addr + 2 = ?n \<Longrightarrow> addr = length dt" for addr using dt by simp
  from n(3) m obtain x0 x1 rest where buf: "msg_buf m = x0 # x1 # rest"
    by (cases "msg_buf m"; cases "tl (msg_buf m)") (auto simp: empty_msg_def UDP_BUF_SIZE_def)
  have dec: "(memcpy_at (msg_buf m) 2 (dt @ bs))[0 := t, Suc 0 := l] =
      dest_bytes d @ bs @ drop (?n + length bs) (msg_buf m)"
    by (simp add: buf dt memcpy_at_def)
  have dl: "\<not> data_too_long (of_nat (length bs)) (msg_len m) (int ?n)"
    using m n by (intro data_fits) (auto simp: empty_msg_def UDP_BUF_SIZE_def)
  have m': "m\<lparr>msg_addr := To (dest_bytes d @ bs @ drop (?n + length bs) (msg_buf m)),
      msg_buf := drop ?n (dest_bytes d @ bs @ drop (?n + length bs) (msg_buf m)), msg_len := length bs\<rparr> = decoded m d bs"
    by (simp add: decoded_def Let_def)
  have sz: "?n - 2 + length bs = length (dt @ bs)" using dt by simp
  show ?thesis
    unfolding q recvmmsg_tcp_loop.simps stream_bind
    using recv_head_run [of "[b0, b1, h, t, l] @ dt @ bs @ q" fl fd] fl h len dl sz dec m'
    by (auto simp: stream_recv(2))
qed

lemma recvmmsg_tcp_frames:
  assumes "\<forall>(d, bs) \<in> set items. frame_fits d bs" and "\<forall>m \<in> set bufs. empty_msg m"
    and "length items \<le> length bufs" and "done \<noteq> [] \<or> items \<noteq> []"
  shows "stream_run (recvmmsg_tcp_loop fd Dontwait done bufs again) (concat (map (\<lambda>(d, bs). tcp_frame d bs) items)) y q' \<longleftrightarrow>
    (\<exists>b. y = (done @ map2 (\<lambda>m (d, bs). decoded m d bs) bufs items @ drop (length items) bufs,
       int (length done + length items), b) \<and> q' = [] \<and> (bufs = [] \<longrightarrow> b = again) \<and> (length bufs > length items \<longrightarrow> b))"
  using assms
proof (induction items arbitrary: "done" bufs again)
  case Nil
  then have "done \<noteq> []" by simp
  show ?case
  proof (cases bufs)
    case (Cons m ms)
    with \<open>done \<noteq> []\<close> show ?thesis by (auto simp: stream_bind recv_head_none stream_run_simps(1))
  qed (auto simp: stream_run_simps(1))
next
  case (Cons i items)
  obtain d bs where i: "i = (d, bs)" by (cases i)
  from Cons.prems obtain m ms where bufs: "bufs = m # ms" by (cases bufs) auto
  with Cons.prems i have *: "frame_fits d bs" "empty_msg m" "\<forall>m \<in> set ms. empty_msg m" "length items \<le> length ms"
    "\<forall>(d, bs) \<in> set items. frame_fits d bs" by auto
  note step = recvmmsg_tcp_frame [OF *(1,2), of Dontwait fd "done" ms again "concat (map (\<lambda>(d, bs). tcp_frame d bs) items)" y q']
  show ?case using step Cons.IH [OF *(5,3,4), of "done @ [decoded m d bs]"]
    by (auto simp: i bufs)
qed

section \<open>Datagrams\<close>

lemma frame_udp_carries: "carries m d bs \<Longrightarrow> frame_udp m = Some ([0, 0, 0] @ dest_bytes d @ bs)"
proof -
  assume "carries m d bs"
  then obtain a where a: "msg_addr m = To a" "addr_is d a" "msg_len m = length bs" "take (length bs) (msg_buf m) = bs"
    by (auto simp: carries_def)
  then have "hev_socks5_addr_len a = int (length (dest_bytes d))" "take (length (dest_bytes d)) a = dest_bytes d"
    "4 \<le> length (dest_bytes d)"
    using addr_len_is dest_bytes_len by (auto simp: addr_is_def)
  then show ?thesis using a by (auto simp: frame_udp_def Let_def)
qed

lemma parse_frame_udp:
  assumes "dest_ok d" and "3 + length (dest_bytes d) + length bs \<le> length (msg_buf m)"
  shows "\<exists>m'. parse_udp m ([0, 0, 0] @ dest_bytes d @ bs) = Some m' \<and> carries m' d bs"
proof -
  let ?rest = "drop (3 + length (dest_bytes d) + length bs) (msg_buf m)"
  have b: "memcpy_at (msg_buf m) 0 ([0, 0, 0] @ dest_bytes d @ bs) = [0, 0, 0] @ dest_bytes d @ bs @ ?rest"
    by (simp add: memcpy_at_def eval_nat_numeral)
  have "addr_is d (dest_bytes d @ bs @ ?rest)" using assms by (auto simp: addr_is_iff)
  with addr_len_is dest_bytes_len [OF assms(1)] show ?thesis
    unfolding parse_udp_def b by (auto simp: carries_def nat_add_distrib Let_def numeral_3_eq_3)
qed

section \<open>Resources of the splicer\<close>

lemma yield_ok:
  "s5_fd (us_self st) \<in> w_fds w \<Longrightarrow> (\<And>st' r. s5_type (us_self st') = s5_type (us_self st) \<Longrightarrow>
     s5_fd (us_self st') = s5_fd (us_self st) \<Longrightarrow> Q (st', r) w) \<Longrightarrow> io_ok Q (task_io_yielder type st) w"
  by (auto simp: task_io_yielder_def io_rules io_ok_bind Let_def hev_socks5_set_timeout_def intro!: yielder_ok)

lemma sendmmsg_ok: "fd \<in> w_fds w \<Longrightarrow> (\<And>r. Q r w) \<Longrightarrow> io_ok Q (hev_socks5_udp_sendmmsg self fd again msgv) w"
  by (auto simp: hev_socks5_udp_sendmmsg_def hev_socks5_udp_sendmmsg_tcp_def hev_socks5_udp_sendmmsg_udp_def io_rules
      split: HevSocks5Type.splits option.splits)

lemma fwd_b_ok:
  "fd_a \<in> w_fds w \<Longrightarrow> fd \<in> w_fds w \<Longrightarrow> (\<And>st' r. us_self st' = us_self st \<Longrightarrow> Q (st', r) w) \<Longrightarrow>
   io_ok Q (hev_socks5_udp_fwd_b fd_a st fd num) w"
  by (auto simp: hev_socks5_udp_fwd_b_def io_rules io_ok_bind split: mrx.splits intro!: sendmmsg_ok)

text \<open>In datagram mode every message that was received has its address, or the null pointer.\<close>

definition set_msg :: "HevSocks5UDPMsg \<Rightarrow> bool" where
  "set_msg m \<longleftrightarrow> msg_addr m \<noteq> Unset"

lemma parse_udp_set: "parse_udp m d = Some m' \<Longrightarrow> set_msg m'"
  by (auto simp: parse_udp_def set_msg_def Let_def split: if_splits)

lemma parse_all_set:
  "parse_all ms ds = (ms', True) \<Longrightarrow> length ds \<le> length ms \<Longrightarrow>
     length ms' = length ms \<and> (\<forall>m \<in> set (take (length ds) ms'). set_msg m)"
  by (induction ms ds arbitrary: ms' rule: parse_all.induct)
    (auto split: option.splits prod.splits dest: parse_udp_set)

lemma fwd_dests_ok:
  "n \<le> length ms \<Longrightarrow> \<forall>m \<in> set (take n ms). set_msg m \<Longrightarrow> (\<And>ds. Q ds w) \<Longrightarrow> io_ok Q (fwd_dests pton self ms n) w"
proof (induction n arbitrary: ms Q)
  case (Suc n)
  then obtain m svec where ms: "ms = m # svec" by (cases ms) auto
  with Suc.prems have "io_ok R (fwd_dests pton self svec n) w" if "\<And>ds. R ds w" for R
    using that by (intro Suc.IH) auto
  with Suc.prems show ?case
    by (auto simp: ms io_ok_bind set_msg_def split: addr_of.splits intro!: addr_into_ok)
qed simp

lemma recvmmsg_udp_ok:
  assumes "fd \<in> w_fds w"
    and "\<And>self' ms r again. s5_type self' = s5_type self \<Longrightarrow> s5_fd self' = s5_fd self \<Longrightarrow>
      (0 < r \<longrightarrow> nat r \<le> length ms \<and> (\<forall>m \<in> set (take (nat r) ms). set_msg m)) \<Longrightarrow> Q (self', ms, r, again) w"
  shows "io_ok Q (hev_socks5_udp_recvmmsg_udp self fd again msgv nonblock) w"
proof -
  have "io_ok Q (case parse_all msgv (map fst ds) of
      (ms, ok) \<Rightarrow> Ret (self', ms, if ok then int (length ds) else -1, again')) w"
    if "s5_type self' = s5_type self" "s5_fd self' = s5_fd self" "length ds \<le> length msgv" for self' again' ds
  proof -
    obtain ms ok where p: "parse_all msgv (map fst ds) = (ms, ok)" by (cases "parse_all msgv (map fst ds)")
    have "Q (self', ms, if ok then int (length ds) else -1, again') w"
      using that p parse_all_set [of msgv "map fst ds" ms] by (intro assms(2)) (auto split: if_splits)
    then show ?thesis by (simp add: p)
  qed
  note parsed = this
  show ?thesis
    unfolding hev_socks5_udp_recvmmsg_udp_def io_ok_Recvmmsg Let_def
  proof (intro conjI allI impI)
    fix r assume r: "mrx_ok (map msg_len msgv) r"
    show "io_ok Q (case r of
         Dgrams ds again \<Rightarrow>
           if s5_udp_associated self then case parse_all msgv (map fst ds) of
             (ms, ok) \<Rightarrow> Ret (self, ms, if ok then int (length ds) else -1, again)
           else Connect fd (snd (hd ds)) (\<lambda>res.
             if res < 0 then Ret (self, msgv, -1, False)
             else case parse_all msgv (map fst ds) of
               (ms, ok) \<Rightarrow> Ret (self\<lparr>s5_udp_associated := True\<rparr>, ms, if ok then int (length ds) else -1, again))
       | MErr res again \<Rightarrow> Ret (self, msgv, res, again)) w"
    proof (cases r)
      case (Dgrams ds b)
      with r have "length ds \<le> length msgv" by (simp add: mrx_ok_def)
      then show ?thesis using assms parsed [of _ ds b] by (simp add: Dgrams io_rules)
    next
      case (MErr res b)
      with r assms(2) show ?thesis by (simp add: mrx_ok_def)
    qed
  qed (use assms in simp)
qed

lemma fwd_f_ok:
  assumes "s5_type (us_self st) = HEV_SOCKS5_TYPE_UDP_IN_UDP" and "fd_a \<in> w_fds w" and "fd \<in> w_fds w" and "bind_ok bindf"
    and Q: "\<And>st' r. s5_type (us_self st') = s5_type (us_self st) \<Longrightarrow> s5_fd (us_self st') = s5_fd (us_self st) \<Longrightarrow> Q (st', r) w"
  shows "io_ok Q (hev_socks5_udp_fwd_f pton bindf fd_a st fd mem) w"
  unfolding hev_socks5_udp_fwd_f_def io_ok_bind hev_socks5_udp_recvmmsg_def assms(1) HevSocks5Type.case
proof (rule recvmmsg_udp_ok [OF assms(2)], goal_cases)
  case (1 self ms r again)
  have b: "io_ok R (bindf self fd a) w" if "\<And>r. R r w" for a R using bind_okD [OF assms(4,3)] that by blast
  show ?case using 1 assms(3) Q
    by (auto simp: Let_def io_ok_bind io_rules split: option.splits intro!: fwd_dests_ok b)
qed

lemma splice_loop_ok:
  assumes "fd_a \<in> w_fds w" and "fd_b \<in> w_fds w" and "bind_ok bindf" and "\<And>r. Q r w"
  shows "s5_type (us_self st) = HEV_SOCKS5_TYPE_UDP_IN_UDP \<Longrightarrow> s5_fd (us_self st) \<in> w_fds w \<Longrightarrow>
    io_ok Q (udp_splice_loop n pton bindf fd_a fd_b num heap st res_f res_b) w"
proof (induction n arbitrary: st res_f res_b)
  case (Suc n)
  let ?same = "\<lambda>st' :: udp_state. s5_type (us_self st') = HEV_SOCKS5_TYPE_UDP_IN_UDP \<and> s5_fd (us_self st') \<in> w_fds w"
  have next_ok: "io_ok Q (io_bind (task_io_yielder type st') (\<lambda>(st, res).
      if res \<noteq> 0 then Ret (Some st) else udp_splice_loop n pton bindf fd_a fd_b num heap st f b)) w"
    if "?same st'" for type st' f b
    unfolding io_ok_bind using that by (intro yield_ok) (auto simp: assms(4) Suc.IH)
  have f_ok: "io_ok R (if 0 \<le> res_f then hev_socks5_udp_fwd_f pton bindf fd_a st fd_b mem else Ret (st, res_f)) w"
    if "\<And>st' r. ?same st' \<Longrightarrow> R (st', r) w" for R mem
    using that Suc.prems by (auto intro!: fwd_f_ok assms)
  have b_ok: "io_ok R (if 0 \<le> res_b then hev_socks5_udp_fwd_b fd_a st' fd_b num else Ret (st', res_b)) w"
    if "?same st'" "\<And>st r. ?same st \<Longrightarrow> R (st, r) w" for st' R
    using that by (auto intro!: fwd_b_ok assms)
  show ?case
    unfolding udp_splice_loop.simps io_ok_bind [of Q] Let_def
  proof (rule f_ok, unfold prod.case io_ok_bind [of Q], rule b_ok, assumption, unfold prod.case, goal_cases)
    case (1 st1 f st2 b)
    then show ?case using next_ok by (simp add: assms(4))
  qed
qed (simp add: assms(4))

lemma splicer_ok:
  assumes self: "s5_type self = HEV_SOCKS5_TYPE_UDP_IN_UDP" "s5_fd self \<in> w_fds w"
    and fds: "fd_a \<in> w_fds w" "fd_b \<in> w_fds w" "fd_a \<in> w_polled w" "fd_b \<in> w_polled w" and b: "bind_ok bindf"
    and Q: "\<And>r. Q (Some r) w" "\<And>p. Q None (w\<lparr>w_blocks := insert p (w_blocks w)\<rparr>)"
  shows "io_ok Q (hev_socks5_udp_splice fuel pton bindf c heap self again fd_a fd_b) w"
proof -
  define loop :: "addr \<Rightarrow> (HevSocks5 \<times> int) option io" where "loop p = io_bind (udp_splice_loop fuel pton bindf fd_a fd_b (nat (hev_socks5_get_udp_copy_buffer_nums c)) heap
    \<lparr>us_self = self, us_again = again, us_bind = False\<rparr> 1 1) (\<lambda>st. case st of
      None \<Rightarrow> Ret None | Some st \<Rightarrow> Free p (Ret (Some (us_self st, 0))))" for p
  have loop: "io_ok Q (loop p) (w\<lparr>w_blocks := insert p (w_blocks w)\<rparr>)" if "p \<notin> w_blocks w" for p
  proof -
    have "w\<lparr>w_blocks := insert p (w_blocks w) - {p}\<rparr> = w" using that by simp
    then show ?thesis unfolding loop_def io_ok_bind using self fds b Q
      by (intro splice_loop_ok) (auto simp: io_rules split: option.splits)
  qed
  have "(w\<lparr>w_blocks := x, w_polled := insert fd_a (w_polled w)\<rparr>) = w\<lparr>w_blocks := x\<rparr>"
    "(w\<lparr>w_blocks := x, w_polled := insert fd_b (w_polled w)\<rparr>) = w\<lparr>w_blocks := x\<rparr>"  for x
    using fds by (auto simp: insert_absorb intro!: world.equality)
  then show ?thesis
    unfolding hev_socks5_udp_splice_def hev_socks5_udp_splicer_def Let_def loop_def [symmetric]
    using fds Q loop by (simp add: io_rules insert_absorb)
qed

section \<open>Properties\<close>


definition demo_msg :: HevSocks5UDPMsg where
  "demo_msg = \<lparr>msg_addr = To [1, 10, 0, 0, 7, 0, 53], msg_buf = [1, 2, 3], msg_len = 3\<rparr>"

definition demo_buf :: HevSocks5UDPMsg where
  "demo_buf = \<lparr>msg_addr = Unset, msg_buf = replicate UDP_BUF_SIZE 0, msg_len = UDP_BUF_SIZE\<rparr>"

lemma demo_msg_carries: "carries demo_msg (IPv4 [10, 0, 0, 7] 0x3500) [1, 2, 3]" "empty_msg demo_buf"
  "frame_fits (IPv4 [10, 0, 0, 7] 0x3500) [1, 2, 3]"
proof -
  have b: "bytes16 0x3500 = [0, 53]" by code_simp
  show "carries demo_msg (IPv4 [10, 0, 0, 7] 0x3500) [1, 2, 3]" "empty_msg demo_buf"
    "frame_fits (IPv4 [10, 0, 0, 7] 0x3500) [1, 2, 3]"
    by (simp_all add: carries_def demo_msg_def demo_buf_def empty_msg_def addr_is_def b frame_fits_def UDP_BUF_SIZE_def)
qed


text \<open>
  C32: Datagrams survive the datagram mode. A message for any destination is sent behind a header
  of three zero bytes and its address; the receiver, whose buffer holds it, finds the same destination
  and the same data.
\<close>
theorem udp_datagram_roundtrip:
  assumes "carries msg d bs" and "3 + length (dest_bytes d) + length bs \<le> length (msg_buf buf)"
  shows "\<exists>f m'. frame_udp msg = Some f \<and> length f = 3 + length (dest_bytes d) + length bs \<and>
    parse_udp buf f = Some m' \<and> carries m' d bs"
proof -
  from assms(1) have "dest_ok d" by (auto simp: carries_def addr_is_def)
  with parse_frame_udp [OF _ assms(2)] frame_udp_carries [OF assms(1)] show ?thesis by auto
qed

theorem udp_datagram_roundtrip_witness:
  "\<exists>f m'. frame_udp demo_msg = Some f \<and> length f = 13 \<and> parse_udp demo_buf f = Some m' \<and>
    carries m' (IPv4 [10, 0, 0, 7] 0x3500) [1, 2, 3]"
  using udp_datagram_roundtrip [OF demo_msg_carries(1), of demo_buf] by (simp add: demo_buf_def UDP_BUF_SIZE_def)

text \<open>
  C26: In datagram mode the splicer is safe. Whatever datagrams arrive, whatever fails and however
  long it runs, it uses only open descriptors and messages whose address was set, and when it
  returns, the descriptors, the polled descriptors, the reference counts and the allocated
  blocks are what they were.
\<close>
theorem udp_splice_safe:
  assumes "s5_type self = HEV_SOCKS5_TYPE_UDP_IN_UDP" and "{s5_fd self, fd_a, fd_b} \<subseteq> w_fds w"
    and "{fd_a, fd_b} \<subseteq> w_polled w" and "bind_ok bindf"
  shows "io_ok (\<lambda>r w'. r = None \<or> w' = w) (hev_socks5_udp_splice fuel pton bindf c heap self again fd_a fd_b) w"
  using assms by (intro splicer_ok) auto

theorem udp_splice_safe_witness:
  "io_ok (\<lambda>r w'. r = None \<or> w' = \<lparr>w_fds = {3, 4, 5}, w_polled = {3, 4, 5}, w_blocks = {}, w_refs = (\<lambda>_. 1)\<rparr>)
    (hev_socks5_udp_splice 100 (\<lambda>f s. None) hev_socks5_bind socks5_defaults (\<lambda>n i. replicate 1500 0)
      \<lparr>s5_fd = 3, s5_timeout = -1, s5_udp_associated = False, s5_type = HEV_SOCKS5_TYPE_UDP_IN_UDP, s5_addr_family = 0\<rparr> False 4 5)
    \<lparr>w_fds = {3, 4, 5}, w_polled = {3, 4, 5}, w_blocks = {}, w_refs = (\<lambda>_. 1)\<rparr>"
  by (rule udp_splice_safe) (simp_all add: bind_ok_default)

lemma short_head:
  assumes "fd \<in> w_fds w" and "0 < length bs" and "length bs < 5"
  shows "io_steps (recv_head fd fl) w (Ret (int (length bs), bs, False)) w"
proof -
  let ?k = "\<lambda>s. Ret (int (length bs) + rx_res s, bs @ rx_data s, rx_again s)"
  have r: "rx_ok 5 (Data bs False)" "rx_ok (nat (5 - int (length bs))) (Data [] False)"
    using assms(3) by (simp_all add: rx_ok_def)
  have "io_step (recv_head fd fl) w (Recv fd (nat (5 - int (length bs))) Waitall ?k) w"
    unfolding recv_head_def io_step_simps using assms r(1) by (intro exI [of _ "Data bs False"]) auto
  moreover have "io_step (Recv fd (nat (5 - int (length bs))) Waitall ?k) w (?k (Data [] False)) w"
    using assms(1) r(2) by (rule io_step.recv)
  ultimately have "io_steps (recv_head fd fl) w (?k (Data [] False)) w" by (meson io_steps.intros)
  then show ?thesis by simp
qed

text \<open>
  C39: On the stream a peer that closes within a header is not detected. When one to four bytes of
  a header arrive and the connection is then closed, \<open>hev_socks5_udp_recvmmsg_tcp\<close> has filled no
  message but returns the number of bytes, which the forwarder takes for a number of messages: it
  goes on to an address that was never set.
\<close>
theorem udp_short_header_crash:
  fixes bs :: "u8 list"
  assumes "s5_type (us_self st) = HEV_SOCKS5_TYPE_UDP_IN_TCP" and "fd_a \<in> w_fds w" and "mem \<noteq> []"
    and "0 < length bs" and "length bs < 5"
  shows "io_steps (hev_socks5_udp_recvmmsg_tcp fd_a again (fwd_svec mem) True) w
      (Ret (fwd_svec mem, int (length bs), False)) w \<and>
    io_steps (hev_socks5_udp_fwd_f pton bindf fd_a st fd mem) w Crash w"
proof -
  obtain b mem' where mem: "mem = b # mem'" using assms(3) by (cases mem) auto
  have sv: "fwd_svec mem = \<lparr>msg_addr = Unset, msg_buf = b, msg_len = UDP_BUF_SIZE\<rparr> # fwd_svec mem'"
    by (simp add: fwd_svec_def mem)
  have read: "io_steps (hev_socks5_udp_recvmmsg_tcp fd_a again (fwd_svec mem) True) w
      (Ret (fwd_svec mem, int (length bs), False)) w" for again
    unfolding hev_socks5_udp_recvmmsg_tcp_def sv using assms(5)
    by (auto intro!: io_steps_bind [OF short_head [OF assms(2,4,5)] refl] io_steps_refl)
  obtain n where n: "nat (int (length bs)) = Suc n" using assms(4) by (metis gr0_conv_Suc nat_int)
  have "fwd_dests pton (us_self st) (fwd_svec mem) (nat (int (length bs))) = Crash"
    unfolding n sv by (simp add: UDP_BUF_SIZE_def)
  then have "io_steps (hev_socks5_udp_fwd_f pton bindf fd_a st fd mem) w Crash w"
    unfolding hev_socks5_udp_fwd_f_def hev_socks5_udp_recvmmsg_def assms(1) HevSocks5Type.case
    using assms(4) by (auto intro!: io_steps_bind [OF io_steps_bind [OF read refl]] io_steps_refl)
  with read show ?thesis by blast
qed

theorem udp_short_header_crash_witness:
  "io_steps (hev_socks5_udp_fwd_f (\<lambda>f s. None) hev_socks5_bind 3
      \<lparr>us_self = \<lparr>s5_fd = 3, s5_timeout = -1, s5_udp_associated = False, s5_type = HEV_SOCKS5_TYPE_UDP_IN_TCP,
         s5_addr_family = 0\<rparr>, us_again = False, us_bind = False\<rparr> 4 [replicate 1500 0])
    \<lparr>w_fds = {3, 4}, w_polled = {}, w_blocks = {}, w_refs = (\<lambda>_. 1)\<rparr> Crash
    \<lparr>w_fds = {3, 4}, w_polled = {}, w_blocks = {}, w_refs = (\<lambda>_. 1)\<rparr>"
  using udp_short_header_crash [of "\<lparr>us_self = \<lparr>s5_fd = 3, s5_timeout = -1, s5_udp_associated = False,
      s5_type = HEV_SOCKS5_TYPE_UDP_IN_TCP, s5_addr_family = 0\<rparr>, us_again = False, us_bind = False\<rparr>" 3
      "\<lparr>w_fds = {3, 4}, w_polled = {}, w_blocks = {}, w_refs = (\<lambda>_. 1)\<rparr>" "[replicate 1500 0]" "[0, 9]"] by simp

end
