(* ===== verification/Hev_Authenticator.thy ===== *)
theory Hev_Authenticator
  imports Hev_Ordered_Tree
begin

text \<open>
  The users of the server (\<open>hev-socks5-user.c\<close>) and the authenticator that holds them
  (\<open>hev-socks5-authenticator.c\<close>): a red-black tree of users ordered by the length of the name and
  then by its bytes. A user is identified by the address of the tree node it embeds; its name and
  password are byte strings with a length, not C strings.
\<close>

section \<open>Users\<close>

record HevSocks5User =
  u_refs :: nat
  u_name :: "u8 list"
  u_pass :: "u8 list"

record HevSocks5Authenticator =
  auth_tree :: HevRBTree
  auth_users :: "HevSocks5User heap"

text \<open>\<open>memcmp (a, b, n)\<close> on buffers of at least \<open>n\<close> bytes.\<close>

definition memcmp :: "u8 list \<Rightarrow> u8 list \<Rightarrow> nat \<Rightarrow> int" where
  "memcmp a b n = strcmp (take n a) (take n b)"

definition hev_socks5_user_checker :: "HevSocks5User \<Rightarrow> u8 list \<Rightarrow> int" where
  "hev_socks5_user_checker self pass =
     (if length (u_pass self) \<noteq> length pass then -1
      else if memcmp (u_pass self) pass (length pass) \<noteq> 0 then -1
      else 0)"

definition hev_socks5_user_check :: "HevSocks5User \<Rightarrow> u8 list \<Rightarrow> int" where
  "hev_socks5_user_check self pass = hev_socks5_user_checker self pass"

text \<open>
  The construction of a user in the zeroed struct at an address; \<open>base\<close> is the result of the
  construction of the base object.
\<close>

definition hev_socks5_user_construct ::
  "int \<Rightarrow> HevSocks5Authenticator \<Rightarrow> addr \<Rightarrow> u8 list \<Rightarrow> u8 list \<Rightarrow> HevSocks5Authenticator \<times> int" where
  "hev_socks5_user_construct base self user name pass =
     (if base < 0 then (self, base)
      else (self\<lparr>auth_users := (auth_users self)(user \<mapsto> \<lparr>u_refs = 1, u_name = name, u_pass = pass\<rparr>)\<rparr>, 0))"

text \<open>\<open>hev_socks5_user_new\<close> with the block \<open>calloc\<close> gives, or none.\<close>

definition hev_socks5_user_new ::
  "int \<Rightarrow> addr option \<Rightarrow> HevSocks5Authenticator \<Rightarrow> u8 list \<Rightarrow> u8 list \<Rightarrow> HevSocks5Authenticator \<times> addr" where
  "hev_socks5_user_new base block self name pass =
     (case block of
        None \<Rightarrow> (self, NULL)
      | Some user \<Rightarrow>
          (let (self', res) = hev_socks5_user_construct base
                 (self\<lparr>auth_tree := rb_alloc (auth_tree self) user\<rparr>) user name pass
           in if res < 0 then (self, NULL) else (self', user)))"

definition hev_socks5_user_destruct :: "HevSocks5Authenticator \<Rightarrow> addr \<Rightarrow> HevSocks5Authenticator" where
  "hev_socks5_user_destruct self user =
     self\<lparr>auth_tree := rb_free (auth_tree self) user, auth_users := (auth_users self)(user := None)\<rparr>"

text \<open>\<open>hev_object_unref\<close> on a user: the last reference destroys it.\<close>

definition user_unref :: "HevSocks5Authenticator \<Rightarrow> addr \<Rightarrow> HevSocks5Authenticator option" where
  "user_unref self user = do {
     u \<leftarrow> deref (auth_users self) user;
     if 1 < u_refs u then Some (self\<lparr>auth_users := (auth_users self)(user \<mapsto> u\<lparr>u_refs := u_refs u - 1\<rparr>)\<rparr>)
     else Some (hev_socks5_user_destruct self user)
   }"

section \<open>The authenticator\<close>

definition hev_socks5_authenticator_construct :: "int \<Rightarrow> HevSocks5Authenticator option" where
  "hev_socks5_authenticator_construct base =
     (if base < 0 then None else Some \<lparr>auth_tree = rb_empty, auth_users = Map.empty\<rparr>)"

definition hev_socks5_authenticator_new :: "int \<Rightarrow> bool \<Rightarrow> HevSocks5Authenticator option" where
  "hev_socks5_authenticator_new base allocated =
     (if \<not> allocated then None else hev_socks5_authenticator_construct base)"

text \<open>The comparison of the walks: the lengths first, then the bytes.\<close>

definition user_cmp :: "u8 list \<Rightarrow> u8 list \<Rightarrow> int" where
  "user_cmp this name =
     (if length this < length name then -1
      else if length name < length this then 1
      else memcmp this name (length this))"

definition user_dir :: "HevSocks5Authenticator \<Rightarrow> u8 list \<Rightarrow> addr \<Rightarrow> int option" where
  "user_dir self name node = map_option (\<lambda>this. user_cmp (u_name this) name) (deref (auth_users self) node)"

definition hev_socks5_authenticator_add :: "HevSocks5Authenticator \<Rightarrow> addr \<Rightarrow> (HevSocks5Authenticator \<times> int) option" where
  "hev_socks5_authenticator_add self user = do {
     u \<leftarrow> deref (auth_users self) user;
     res \<leftarrow> tree_search (user_dir self (u_name u)) (auth_tree self) RootLink NULL;
     case res of
       Found this \<Rightarrow> Some (self, -1)
     | Slot parent new \<Rightarrow> do {
         tree \<leftarrow> hev_rbtree_insert_at (auth_tree self) user parent new;
         Some (self\<lparr>auth_tree := tree\<rparr>, 0)
       }
   }"

definition hev_socks5_authenticator_del :: "HevSocks5Authenticator \<Rightarrow> u8 list \<Rightarrow> (HevSocks5Authenticator \<times> int) option" where
  "hev_socks5_authenticator_del self name = do {
     res \<leftarrow> tree_search (user_dir self name) (auth_tree self) RootLink NULL;
     case res of
       Found this \<Rightarrow> do {
         tree \<leftarrow> hev_rbtree_erase (auth_tree self) this;
         self \<leftarrow> user_unref (self\<lparr>auth_tree := tree\<rparr>) this;
         Some (self, 0)
       }
     | Slot parent new \<Rightarrow> Some (self, -1)
   }"

definition hev_socks5_authenticator_get :: "HevSocks5Authenticator \<Rightarrow> u8 list \<Rightarrow> addr option" where
  "hev_socks5_authenticator_get self name = do {
     res \<leftarrow> tree_search (user_dir self name) (auth_tree self) RootLink NULL;
     case res of Found this \<Rightarrow> Some this | Slot parent new \<Rightarrow> Some NULL
   }"

partial_function (option) hev_socks5_authenticator_clear :: "HevSocks5Authenticator \<Rightarrow> HevSocks5Authenticator option" where
  "hev_socks5_authenticator_clear self = do {
     n \<leftarrow> hev_rbtree_first (auth_tree self);
     if n = NULL then Some self
     else do {
       tree \<leftarrow> hev_rbtree_erase (auth_tree self) n;
       self \<leftarrow> user_unref (self\<lparr>auth_tree := tree\<rparr>) n;
       hev_socks5_authenticator_clear self
     }
   }"

definition hev_socks5_authenticator_destruct :: "HevSocks5Authenticator \<Rightarrow> HevSocks5Authenticator option" where
  "hev_socks5_authenticator_destruct self = hev_socks5_authenticator_clear self"

section \<open>The order of users\<close>

lemma user_cmp_eq: "user_cmp a b = 0 \<longleftrightarrow> a = b"
  by (auto simp: user_cmp_def memcmp_def)

lemma user_cmp_swap: "user_cmp a b < 0 \<longleftrightarrow> user_cmp b a > 0"
  using strcmp_swap [of a b] by (auto simp: user_cmp_def memcmp_def)

lemma user_cmp_trans: "user_cmp a b > 0 \<Longrightarrow> user_cmp b c > 0 \<Longrightarrow> user_cmp a c > 0"
  using strcmp_trans [of c b a] strcmp_swap [of a b] strcmp_swap [of b c] strcmp_swap [of a c]
  by (auto simp: user_cmp_def memcmp_def split: if_splits)

interpretation users: keyed_tree rb_seq "\<lambda>dir self. tree_search dir self RootLink NULL" hev_rbtree_insert_at
  hev_rbtree_erase rb_alloc rb_free "\<lambda>self. dom (nodes self)" user_cmp
  by unfold_locales (fact user_cmp_eq user_cmp_swap user_cmp_trans)+

section \<open>Representation of a map\<close>

definition name_at :: "HevSocks5Authenticator \<Rightarrow> addr \<Rightarrow> u8 list" where
  "name_at self x = (case auth_users self x of None \<Rightarrow> [] | Some u \<Rightarrow> u_name u)"

definition auth_inv :: "HevSocks5Authenticator \<Rightarrow> addr list \<Rightarrow> bool" where
  "auth_inv self xs \<longleftrightarrow> rb_seq (auth_tree self) xs \<and> key_order user_cmp (name_at self) xs \<and>
     set xs \<subseteq> dom (auth_users self) \<and> dom (auth_users self) = dom (nodes (auth_tree self))"

text \<open>The names that are known, with the user of each.\<close>

definition auth_map :: "HevSocks5Authenticator \<Rightarrow> addr list \<Rightarrow> u8 list \<rightharpoonup> addr" where
  "auth_map self xs = map_of (map (\<lambda>x. (name_at self x, x)) xs)"

definition auth_rep :: "HevSocks5Authenticator \<Rightarrow> (u8 list \<rightharpoonup> addr) \<Rightarrow> bool" where
  "auth_rep self m \<longleftrightarrow> (\<exists>xs. auth_inv self xs \<and> m = auth_map self xs)"

lemma inv_dir:
  assumes "auth_inv self xs"
  shows "\<forall>x \<in> set xs. user_dir self name x = Some (user_cmp (name_at self x) name)"
proof
  fix x assume x: "x \<in> set xs"
  with assms have "x \<noteq> NULL" using rbt.seq_aligned [of "auth_tree self" xs x] by (auto simp: auth_inv_def aligned_NULL)
  moreover from x assms obtain u where "auth_users self x = Some u" by (auto simp: auth_inv_def)
  ultimately show "user_dir self name x = Some (user_cmp (name_at self x) name)"
    by (simp add: user_dir_def name_at_def deref_def)
qed

lemma auth_map_iff:
  assumes "auth_inv self xs"
  shows "auth_map self xs name = Some x \<longleftrightarrow> x \<in> set xs \<and> name_at self x = name"
proof -
  from assms have o: "key_order user_cmp (name_at self) xs" "distinct xs"
    by (auto simp: auth_inv_def dest: rbt.seq_distinct)
  then have "distinct (map (name_at self) xs)"
    using users.key_unique [of "name_at self" xs] by (auto simp: distinct_map inj_on_def)
  then have "distinct (map fst (map (\<lambda>x. (name_at self x, x)) xs))" by (simp add: comp_def)
  then show ?thesis unfolding auth_map_def by (auto simp: map_of_eq_Some_iff)
qed

lemma auth_map_None:
  assumes "auth_inv self xs"
  shows "auth_map self xs name = None \<longleftrightarrow> name \<notin> name_at self ` set xs"
proof (cases "auth_map self xs name")
  case None
  then show ?thesis using auth_map_iff [OF assms, of name] by auto
next
  case (Some a)
  then have "a \<in> set xs" "name_at self a = name" using auth_map_iff [OF assms, of name a] by auto
  then show ?thesis using Some by auto
qed

lemma auth_search:
  assumes "auth_inv self xs"
  obtains (found) m where "auth_map self xs name = Some m" "m \<in> set xs"
      "tree_search (user_dir self name) (auth_tree self) RootLink NULL = Some (Found m)"
  | (slot) p l ls rs where "auth_map self xs name = None" "xs = ls @ rs"
      "tree_search (user_dir self name) (auth_tree self) RootLink NULL = Some (Slot p l)"
      "\<forall>x \<in> set ls. user_cmp (name_at self x) name > 0" "\<forall>x \<in> set rs. user_cmp (name_at self x) name < 0"
      "\<And>n. aligned n \<Longrightarrow> n \<in> dom (nodes (auth_tree self)) \<Longrightarrow> n \<notin> set xs \<Longrightarrow>
        \<exists>t'. hev_rbtree_insert_at (auth_tree self) n p l = Some t' \<and> rb_seq t' (ls @ n # rs) \<and>
          dom (nodes t') = dom (nodes (auth_tree self))"
proof -
  from assms have t: "rb_seq (auth_tree self) xs" "key_order user_cmp (name_at self) xs" by (auto simp: auth_inv_def)
  from t inv_dir [OF assms, of name] show thesis
  proof (cases rule: users.lookup)
    case (found m)
    with auth_map_iff [OF assms, of name m] that(1) show thesis by blast
  next
    case (slot p l ls rs)
    with auth_map_None [OF assms, of name] that(2) [of ls rs p l] show thesis by blast
  qed
qed

lemma user_check_iff: "hev_socks5_user_check u pass = 0 \<longleftrightarrow> u_pass u = pass"
  by (auto simp: hev_socks5_user_check_def hev_socks5_user_checker_def memcmp_def)

lemma get_rep:
  assumes "auth_rep self m"
  shows "hev_socks5_authenticator_get self name = Some (case m name of None \<Rightarrow> NULL | Some u \<Rightarrow> u)"
proof -
  from assms obtain xs where xs: "auth_inv self xs" "m = auth_map self xs" by (auto simp: auth_rep_def)
  from xs(1) show ?thesis
    by (cases rule: auth_search [of _ _ name]) (simp_all add: hev_socks5_authenticator_get_def xs(2))
qed

lemma add_rep:
  assumes rep: "auth_rep self m" and n: "aligned n" "auth_users self n = Some u" "n \<notin> ran m"
  shows "\<exists>self'. hev_socks5_authenticator_add self n = Some (self', if m (u_name u) = None then 0 else -1) \<and>
    auth_rep self' (if m (u_name u) = None then m(u_name u \<mapsto> n) else m) \<and> auth_users self' = auth_users self"
proof -
  from rep obtain xs where xs: "auth_inv self xs" "m = auth_map self xs" by (auto simp: auth_rep_def)
  have d: "deref (auth_users self) n = Some u" using n by (auto simp: deref_def)
  have nx: "n \<notin> set xs" using n(3) auth_map_iff [OF xs(1)] by (auto simp: ran_def xs(2))
  from xs(1) show ?thesis
  proof (cases rule: auth_search [of _ _ "u_name u"])
    case (found k)
    then show ?thesis using rep d by (intro exI [of _ self]) (simp add: hev_socks5_authenticator_add_def xs(2))
  next
    case (slot p l ls rs)
    from xs(1) have dom: "dom (auth_users self) = dom (nodes (auth_tree self))" "set xs \<subseteq> dom (auth_users self)"
      "key_order user_cmp (name_at self) xs" by (auto simp: auth_inv_def)
    with n(2) have "n \<in> dom (nodes (auth_tree self))" by auto
    with slot(6) n(1) nx obtain t' where t': "hev_rbtree_insert_at (auth_tree self) n p l = Some t'"
      "rb_seq t' (ls @ n # rs)" "dom (nodes t') = dom (nodes (auth_tree self))" by blast
    let ?self = "self\<lparr>auth_tree := t'\<rparr>"
    have "name_at self n = u_name u" using n(2) by (simp add: name_at_def)
    then have "(name_at self)(n := u_name u) = name_at self" by auto
    then have "key_order user_cmp (name_at self) (ls @ n # rs)"
      using users.key_order_insert [of "name_at self" ls rs n "u_name u"] dom(3) nx slot by simp
    then have inv: "auth_inv ?self (ls @ n # rs)"
      using t' dom n(2) slot(2) by (auto simp: auth_inv_def name_at_def [abs_def])
    have "auth_map ?self (ls @ n # rs) = m(u_name u \<mapsto> n)"
    proof
      fix k
      have "(auth_map ?self (ls @ n # rs) k = Some y) = ((m(u_name u \<mapsto> n)) k = Some y)" for y
        using auth_map_iff [OF inv, of k y] auth_map_iff [OF xs(1), of k y] slot(1,2) xs(2) n(2)
          auth_map_iff [OF xs(1), of "u_name u" y]
        by (auto simp: name_at_def)
      then show "auth_map ?self (ls @ n # rs) k = (m(u_name u \<mapsto> n)) k" by (metis option.exhaust)
    qed
    with inv t' slot d show ?thesis
      by (intro exI [of _ ?self]) (auto simp: hev_socks5_authenticator_add_def auth_rep_def xs(2))
  qed
qed

text \<open>Taking a user out of the tree and dropping the reference of the authenticator.\<close>

definition drop_user :: "HevSocks5User heap \<Rightarrow> addr \<Rightarrow> HevSocks5User heap" where
  "drop_user h x = h(x := Option.bind (h x) (\<lambda>u. if 1 < u_refs u then Some (u\<lparr>u_refs := u_refs u - 1\<rparr>) else None))"

lemma name_drop: "y \<noteq> x \<Longrightarrow> auth_users self' = drop_user (auth_users self) x \<Longrightarrow> name_at self' y = name_at self y"
  by (simp add: name_at_def drop_user_def)

lemma drop_rep:
  assumes inv: "auth_inv self xs" and x: "x \<in> set xs"
  obtains t' self' where "hev_rbtree_erase (auth_tree self) x = Some t'"
    "user_unref (self\<lparr>auth_tree := t'\<rparr>) x = Some self'" "auth_inv self' (remove1 x xs)"
    "auth_users self' = drop_user (auth_users self) x"
proof -
  from inv have i: "rb_seq (auth_tree self) xs" "key_order user_cmp (name_at self) xs"
    "set xs \<subseteq> dom (auth_users self)" "dom (auth_users self) = dom (nodes (auth_tree self))"
    by (auto simp: auth_inv_def)
  have dx: "distinct xs" using i(1) by (rule rbt.seq_distinct)
  have "x \<noteq> NULL" using rbt.seq_aligned [OF i(1) x] by (auto simp: aligned_NULL)
  moreover from x i obtain u where u: "auth_users self x = Some u" by auto
  ultimately have d: "deref (auth_users self) x = Some u" by (simp add: deref_def)
  obtain t' where t': "hev_rbtree_erase (auth_tree self) x = Some t'" "rb_seq t' (remove1 x xs)"
    "dom (nodes t') = dom (nodes (auth_tree self))" by (rule rbt.erase_remove1 [OF i(1) x])
  define self' where "self' = (if 1 < u_refs u then self\<lparr>auth_tree := t', auth_users := drop_user (auth_users self) x\<rparr>
    else self\<lparr>auth_tree := rb_free t' x, auth_users := drop_user (auth_users self) x\<rparr>)"
  have users': "auth_users self' = drop_user (auth_users self) x" by (simp add: self'_def)
  have un: "user_unref (self\<lparr>auth_tree := t'\<rparr>) x = Some self'"
    using d u by (simp add: user_unref_def self'_def hev_socks5_user_destruct_def drop_user_def)
  have out: "x \<notin> set (remove1 x xs)" using dx by simp
  have "rb_seq (auth_tree self') (remove1 x xs)" "dom (nodes (auth_tree self')) = dom (auth_users self')"
    using t' rbt.release_seq [OF t'(2) out] i(4) u by (auto simp: self'_def drop_user_def split: if_splits)
  moreover have "key_order user_cmp (name_at self') (remove1 x xs)"
    using users.key_order_remove1 [OF i(2), of x] name_drop [OF _ users'] out
    unfolding key_order_def by (elim sorted_wrt_mono_rel [rotated]) metis
  moreover have "set (remove1 x xs) \<subseteq> dom (auth_users self')"
    using i(3) out dx by (auto simp: users' drop_user_def)
  ultimately have "auth_inv self' (remove1 x xs)" by (simp add: auth_inv_def)
  with t'(1) un users' show thesis by (intro that [of t' self'])
qed

lemma del_rep:
  assumes rep: "auth_rep self m"
  shows "\<exists>self'. hev_socks5_authenticator_del self name = Some (self', if m name = None then -1 else 0) \<and>
    auth_rep self' (m(name := None)) \<and>
    auth_users self' = (case m name of None \<Rightarrow> auth_users self | Some x \<Rightarrow> drop_user (auth_users self) x)"
proof -
  from rep obtain xs where xs: "auth_inv self xs" "m = auth_map self xs" by (auto simp: auth_rep_def)
  from xs(1) show ?thesis
  proof (cases rule: auth_search [of _ _ name])
    case (found x)
    obtain t' self' where s: "hev_rbtree_erase (auth_tree self) x = Some t'"
      "user_unref (self\<lparr>auth_tree := t'\<rparr>) x = Some self'" "auth_inv self' (remove1 x xs)"
      "auth_users self' = drop_user (auth_users self) x" by (rule drop_rep [OF xs(1) found(2)])
    have dx: "distinct xs" using xs(1) by (auto simp: auth_inv_def dest: rbt.seq_distinct)
    have nx: "name_at self x = name" using found(1) auth_map_iff [OF xs(1)] by blast
    have "auth_map self' (remove1 x xs) = m(name := None)"
    proof
      fix k
      have "(auth_map self' (remove1 x xs) k = Some y) = ((m(name := None)) k = Some y)" for y
        using auth_map_iff [OF s(3), of k y] auth_map_iff [OF xs(1), of k y] auth_map_iff [OF xs(1), of name y]
          name_drop [OF _ s(4), of y] found(1) nx dx by (auto simp: xs(2))
      then show "auth_map self' (remove1 x xs) k = (m(name := None)) k" by (metis option.exhaust)
    qed
    with s found show ?thesis
      by (intro exI [of _ self']) (auto simp: hev_socks5_authenticator_del_def auth_rep_def xs(2))
  next
    case (slot p l ls rs)
    then have "m(name := None) = m" by (auto simp: xs(2))
    with slot rep show ?thesis
      by (intro exI [of _ self]) (simp add: hev_socks5_authenticator_del_def xs(2))
  qed
qed

lemma clear_rep:
  "auth_inv self xs \<Longrightarrow> \<exists>self'. hev_socks5_authenticator_clear self = Some self' \<and> auth_inv self' [] \<and>
     auth_users self' = fold (\<lambda>x h. drop_user h x) xs (auth_users self)"
proof (induction xs arbitrary: self)
  case Nil
  then have "hev_rbtree_first (auth_tree self) = Some NULL" using first_rep by (auto simp: auth_inv_def rb_seq_def)
  with Nil show ?case by (subst hev_socks5_authenticator_clear.simps) simp
next
  case (Cons x xs)
  then have f: "hev_rbtree_first (auth_tree self) = Some x" "rb_seq (auth_tree self) (x # xs)"
    using first_rep by (auto simp: auth_inv_def rb_seq_def)
  have "x \<noteq> NULL" using rbt.seq_aligned [OF f(2), of x] by (auto simp: aligned_NULL)
  moreover obtain t' self' where s: "hev_rbtree_erase (auth_tree self) x = Some t'"
    "user_unref (self\<lparr>auth_tree := t'\<rparr>) x = Some self'" "auth_inv self' xs"
    "auth_users self' = drop_user (auth_users self) x"
    using drop_rep [OF Cons.prems, of x] by auto
  ultimately show ?case using Cons.IH [OF s(3)] f(1)
    by (subst hev_socks5_authenticator_clear.simps) simp
qed

lemma fold_drop:
  "distinct xs \<Longrightarrow> fold (\<lambda>x h. drop_user h x) xs h y = (if y \<in> set xs then drop_user h y y else h y)"
  by (induction xs arbitrary: h) (auto simp: drop_user_def)

lemma rep_fold_drop:
  assumes "auth_inv self xs"
  shows "fold (\<lambda>x h. drop_user h x) xs (auth_users self) y =
    (if y \<in> ran (auth_map self xs) then drop_user (auth_users self) y y else auth_users self y)"
proof -
  have "y \<in> ran (auth_map self xs) \<longleftrightarrow> y \<in> set xs" using auth_map_iff [OF assms] by (auto simp: ran_def)
  moreover have "distinct xs" using assms by (auto simp: auth_inv_def dest: rbt.seq_distinct)
  ultimately show ?thesis by (simp add: fold_drop)
qed

section \<open>Properties\<close>

text \<open>
  C8: The authenticator is a map from names to users. Where the tree represents a map \<open>m\<close>, no
  operation makes an invalid access. A lookup returns the user of the name or the null pointer;
  adding a user of a new name extends the map at that name, and one of a known name is refused
  with the map as it was; deleting a name takes it out of the map and drops one reference of its user, or
  returns -1 when the name is not known.
\<close>
theorem authenticator_refines:
  assumes "auth_rep self m"
  shows "hev_socks5_authenticator_get self name = Some (case m name of None \<Rightarrow> NULL | Some u \<Rightarrow> u) \<and>
    (\<forall>n u. aligned n \<longrightarrow> auth_users self n = Some u \<longrightarrow> n \<notin> ran m \<longrightarrow>
      (\<exists>self'. hev_socks5_authenticator_add self n = Some (self', if m (u_name u) = None then 0 else -1) \<and>
        auth_rep self' (if m (u_name u) = None then m(u_name u \<mapsto> n) else m) \<and> auth_users self' = auth_users self)) \<and>
    (\<exists>self'. hev_socks5_authenticator_del self name = Some (self', if m name = None then -1 else 0) \<and>
      auth_rep self' (m(name := None)) \<and>
      auth_users self' = (case m name of None \<Rightarrow> auth_users self | Some x \<Rightarrow> drop_user (auth_users self) x))"
  using get_rep [OF assms] add_rep [OF assms] del_rep [OF assms] by blast

definition demo_auth :: HevSocks5Authenticator where
  "demo_auth = \<lparr>auth_tree = \<lparr>root = 8, nodes = [8 \<mapsto> node_of 0 Black 0 0]\<rparr>,
     auth_users = [8 \<mapsto> \<lparr>u_refs = 1, u_name = [97, 98], u_pass = [1, 2]\<rparr>]\<rparr>"

lemma demo_auth_rep: "auth_rep demo_auth [[97, 98] \<mapsto> 8]"
proof -
  have "rb_seq (auth_tree demo_auth) [8]"
    unfolding rb_seq_def by (rule exI [of _ "Node Black Leaf 8 Leaf"])
      (simp add: demo_auth_def rbt_rep_def rbt_ok_def aligned_def)
  then have "auth_inv demo_auth [8]" by (auto simp: auth_inv_def key_order_def demo_auth_def)
  moreover have "auth_map demo_auth [8] = [[97, 98] \<mapsto> 8]" by (auto simp: auth_map_def name_at_def demo_auth_def)
  ultimately show ?thesis by (auto simp: auth_rep_def)
qed

theorem authenticator_refines_witness:
  "hev_socks5_authenticator_get demo_auth [97, 98] = Some 8 \<and>
    (\<exists>self'. hev_socks5_authenticator_del demo_auth [97, 98] = Some (self', 0) \<and> auth_rep self' Map.empty)"
  using authenticator_refines [OF demo_auth_rep, of "[97, 98]"] by auto

text \<open>
  C25: Destroying the authenticator ends, with no user left in the tree; a user whose only
  reference was the authenticator's is freed, a user a session still refers to keeps
  its memory and loses one reference, and no other user is touched.
\<close>
theorem authenticator_destruct_frees:
  assumes "auth_rep self m"
  shows "\<exists>self'. hev_socks5_authenticator_destruct self = Some self' \<and> auth_rep self' Map.empty \<and>
    (\<forall>x. auth_users self' x = (if x \<in> ran m then drop_user (auth_users self) x x else auth_users self x))"
proof -
  from assms obtain xs where xs: "auth_inv self xs" "m = auth_map self xs" by (auto simp: auth_rep_def)
  from clear_rep [OF xs(1)] obtain self' where s: "hev_socks5_authenticator_clear self = Some self'" "auth_inv self' []"
    "auth_users self' = fold (\<lambda>x h. drop_user h x) xs (auth_users self)" by blast
  moreover have "auth_rep self' Map.empty" using s(2) by (auto simp: auth_rep_def auth_map_def)
  ultimately show ?thesis using rep_fold_drop [OF xs(1)] by (simp add: hev_socks5_authenticator_destruct_def xs(2))
qed

theorem authenticator_destruct_frees_witness:
  "\<exists>self'. hev_socks5_authenticator_destruct demo_auth = Some self' \<and> auth_users self' 8 = None"
proof -
  have "drop_user (auth_users demo_auth) 8 8 = None" by (simp add: drop_user_def demo_auth_def)
  then show ?thesis using authenticator_destruct_frees [OF demo_auth_rep] by auto
qed

end
