(* ===== verification/Hev_Socks5_Server.thy ===== *)
theory Hev_Socks5_Server
  imports Hev_Socks5_UDP Hev_Authenticator
begin

text \<open>
  The SOCKS5 server session (\<open>hev-socks5-server.c\<close>): authentication, the request, the outgoing
  connection or the datagram sockets, the reply, and the splicing that follows.
\<close>

section \<open>Objects\<close>

text \<open>
  The union of the struct holds the authenticator before a user was checked and the user
  afterwards, both counted references; an authenticator is given with its contents.
\<close>

datatype server_obj = NoObj | AuthObj addr HevSocks5Authenticator | UserObj addr

record HevSocks5Server =
  sv_base :: HevSocks5
  sv_fds0 :: int
  sv_fds1 :: int
  sv_obj :: server_obj

abbreviation sv_fd :: "HevSocks5Server \<Rightarrow> int" where
  "sv_fd self \<equiv> s5_fd (sv_base self)"

fun obj_ptr :: "server_obj \<Rightarrow> addr option" where
  "obj_ptr NoObj = None"
| "obj_ptr (AuthObj a auth) = Some a"
| "obj_ptr (UserObj u) = Some u"

definition hev_socks5_server_construct :: "int \<Rightarrow> int \<Rightarrow> HevSocks5Server \<times> int" where
  "hev_socks5_server_construct base fd =
     (let (b, res) = hev_socks5_construct base HEV_SOCKS5_TYPE_NONE;
          self = \<lparr>sv_base = b, sv_fds0 = 0, sv_fds1 = 0, sv_obj = NoObj\<rparr>
      in if res < 0 then (self, res)
      else (self\<lparr>sv_base := b\<lparr>s5_fd := fd\<rparr>, sv_fds0 := -1, sv_fds1 := -1\<rparr>, 0))"

definition hev_socks5_server_new :: "int \<Rightarrow> int \<Rightarrow> (HevSocks5Server option \<times> addr) io" where
  "hev_socks5_server_new base fd =
     Malloc (\<lambda>obj. if obj = NULL then Ret (None, NULL)
       else let (self, res) = hev_socks5_server_construct base fd
         in if res < 0 then Free obj (Ret (None, NULL)) else Ret (Some self, obj))"

definition hev_socks5_server_set_auth :: "HevSocks5Server \<Rightarrow> addr \<Rightarrow> HevSocks5Authenticator \<Rightarrow> HevSocks5Server io" where
  "hev_socks5_server_set_auth self a auth =
     (let k = Ref a (Ret (self\<lparr>sv_obj := AuthObj a auth\<rparr>))
      in case obj_ptr (sv_obj self) of None \<Rightarrow> k | Some old \<Rightarrow> Unref old k)"

section \<open>Authentication\<close>

definition hev_socks5_server_read_auth_method :: "HevSocks5Server \<Rightarrow> int io" where
  "hev_socks5_server_read_auth_method self =
     Recv (sv_fd self) 2 Waitall (\<lambda>r.
       if rx_res r \<noteq> 2 then Ret (-1)
       else let auth = rx_data r
         in if auth ! 0 \<noteq> HEV_SOCKS5_VERSION_5 then Ret (-1)
         else Recv (sv_fd self) (unat (auth ! 1)) Waitall (\<lambda>r.
           if rx_res r \<noteq> uint (auth ! 1) then Ret (-1)
           else
             let m = (if sv_obj self \<noteq> NoObj then HEV_SOCKS5_AUTH_METHOD_USER else HEV_SOCKS5_AUTH_METHOD_NONE)
             in if word_of_int m \<in> set (rx_data r) then Ret m else Ret (-1)))"

definition hev_socks5_server_write_auth_method :: "HevSocks5Server \<Rightarrow> int \<Rightarrow> int io" where
  "hev_socks5_server_write_auth_method self auth_method =
     Send (sv_fd self) [HEV_SOCKS5_VERSION_5, word_of_int auth_method] (\<lambda>res. if res \<le> 0 then Ret (-1) else Ret 0)"

definition hev_socks5_server_read_auth_user :: "HevSocks5Server \<Rightarrow> (HevSocks5Server \<times> int) io" where
  "hev_socks5_server_read_auth_user self =
     Recv (sv_fd self) 2 Waitall (\<lambda>r.
       if rx_res r \<noteq> 2 then Ret (self, -1)
       else let head = rx_data r
         in if head ! 0 \<noteq> 1 then Ret (self, -1)
         else let nlen = unat (head ! 1)
           in if nlen = 0 then Ret (self, -1)
           else Recv (sv_fd self) (nlen + 1) Waitall (\<lambda>r.
             if rx_res r \<noteq> int (nlen + 1) then Ret (self, -1)
             else let name = rx_data r; plen = unat (name ! nlen)
               in if plen = 0 then Ret (self, -1)
               else Recv (sv_fd self) plen Waitall (\<lambda>r.
                 if rx_res r \<noteq> int plen then Ret (self, -1)
                 else case sv_obj self of
                   AuthObj a auth \<Rightarrow>
                     (case hev_socks5_authenticator_get auth (take nlen name) of
                        None \<Rightarrow> Crash
                      | Some user \<Rightarrow>
                          if user = NULL then Ret (self, -1)
                          else case deref (auth_users auth) user of
                            None \<Rightarrow> Crash
                          | Some u \<Rightarrow>
                              if hev_socks5_user_check u (rx_data r) < 0 then Ret (self, -1)
                              else Ref user (Unref a (Ret (self\<lparr>sv_obj := UserObj user\<rparr>, 0))))
                 | _ \<Rightarrow> Crash)))"

definition hev_socks5_server_write_auth_user :: "HevSocks5Server \<Rightarrow> int \<Rightarrow> int io" where
  "hev_socks5_server_write_auth_user self auth_res =
     Send (sv_fd self) [1, word_of_int auth_res] (\<lambda>res. if res \<le> 0 then Ret (-1) else Ret 0)"

definition hev_socks5_server_auth :: "HevSocks5Server \<Rightarrow> (HevSocks5Server \<times> int) io" where
  "hev_socks5_server_auth self =
     io_bind (hev_socks5_server_read_auth_method self) (\<lambda>m.
     io_bind (hev_socks5_server_write_auth_method self m) (\<lambda>res.
       if res < 0 then Ret (self, -1)
       else if m = HEV_SOCKS5_AUTH_METHOD_NONE then Ret (self, 0)
       else if m = HEV_SOCKS5_AUTH_METHOD_USER then
         io_bind (hev_socks5_server_read_auth_user self) (\<lambda>(self, res).
         io_bind (hev_socks5_server_write_auth_user self res) (\<lambda>res2.
           if res OR res2 < 0 then Ret (self, -1) else Ret (self, 0)))
       else Ret (self, -1)))"

section \<open>The request and the reply\<close>

text \<open>
  What \<open>hev_socks5_server_read_request\<close> leaves in the variables of its caller: the command, which
  is not set before the request was read, the reply code and the address.
\<close>

record request =
  rq_cmd :: "u8 option"
  rq_rep :: u8
  rq_addr :: sockaddr_in6

definition hev_socks5_server_read_request ::
  "pton \<Rightarrow> HevSocks5Server \<Rightarrow> request \<Rightarrow> (HevSocks5Server \<times> request \<times> int) io" where
  "hev_socks5_server_read_request pton self rq =
     Recv (sv_fd self) 5 Waitall (\<lambda>r.
       if rx_res r \<noteq> 5 then Ret (self, rq, -1)
       else let req = rx_data r
         in if req ! 0 \<noteq> HEV_SOCKS5_VERSION_5 then Ret (self, rq\<lparr>rq_rep := HEV_SOCKS5_RES_REP_FAIL\<rparr>, 0)
         else
           let atype = req ! 3;
               rest = (\<lambda>addrlen. Recv (sv_fd self) addrlen Waitall (\<lambda>r.
                 if rx_res r \<noteq> int addrlen then Ret (self, rq\<lparr>rq_rep := HEV_SOCKS5_RES_REP_ADDR\<rparr>, 0)
                 else io_bind (hev_socks5_addr_into_sockaddr6 pton ([atype, req ! 4] @ rx_data r) (rq_addr rq)
                       (hev_socks5_get_addr_family (sv_base self)))
                   (\<lambda>(saddr, addr_family, res).
                      if res < 0 then Ret (self, rq\<lparr>rq_addr := saddr, rq_rep := HEV_SOCKS5_RES_REP_ADDR\<rparr>, 0)
                      else Ret (self\<lparr>sv_base := hev_socks5_set_addr_family (sv_base self) addr_family\<rparr>,
                        rq\<lparr>rq_addr := saddr, rq_cmd := Some (req ! 1)\<rparr>, 0))))
           in if atype = HEV_SOCKS5_ADDR_TYPE_IPV4 then rest 5
           else if atype = HEV_SOCKS5_ADDR_TYPE_IPV6 then rest 17
           else if atype = HEV_SOCKS5_ADDR_TYPE_NAME then rest (2 + unat (req ! 4))
           else Ret (self, rq\<lparr>rq_rep := HEV_SOCKS5_RES_REP_ADDR\<rparr>, 0))"

definition hev_socks5_server_write_response :: "HevSocks5Server \<Rightarrow> u8 \<Rightarrow> sockaddr_in6 \<Rightarrow> int io" where
  "hev_socks5_server_write_response self rep addr =
     (let (a, n) = hev_socks5_addr_from_sockaddr6 (replicate addr_size 0) addr
      in Send (sv_fd self) ([HEV_SOCKS5_VERSION_5, rep, 0] @ take (nat n) a) (\<lambda>ret. if ret \<le> 0 then Ret (-1) else Ret 0))"

section \<open>The other side\<close>

definition hev_socks5_server_connect ::
  "bindf \<Rightarrow> socks5_settings \<Rightarrow> HevSocks5Server \<Rightarrow> sockaddr_in6 \<Rightarrow> (HevSocks5Server \<times> int) io" where
  "hev_socks5_server_connect bindf c self addr =
     io_bind (hev_socks5_socket c SOCK_STREAM) (\<lambda>fd. if fd < 0 then Ret (self, -1)
     else io_bind (bindf (sv_base self) fd addr) (\<lambda>res.
       if res < 0 then Del_Fd fd (Close fd (Ret (self, -1)))
       else let self = self\<lparr>sv_base := hev_socks5_set_timeout (sv_base self) (hev_socks5_get_connect_timeout c)\<rparr>
         in Connect fd addr (\<lambda>res.
           if res < 0 then Del_Fd fd (Close fd (Ret (self, -1)))
           else Ret (self\<lparr>sv_base := hev_socks5_set_timeout (sv_base self) (hev_socks5_get_tcp_timeout c), sv_fds0 := fd\<rparr>, 0))))"

text \<open>The server's own bind: the address of the TCP socket, any port, and the address it became.\<close>

definition hev_socks5_server_udp_bind :: "HevSocks5Server \<Rightarrow> int \<Rightarrow> sockaddr_in6 \<Rightarrow> (sockaddr_in6 \<times> int) io" where
  "hev_socks5_server_udp_bind self sock src =
     Getsockname (sv_fd self) (\<lambda>(res, name). if res < 0 then Ret (src, -1)
     else let src = name\<lparr>sin6_port := 0\<rparr>
       in Bind sock src (\<lambda>res. if res < 0 then Ret (src, -1)
       else Getsockname sock (\<lambda>(res, name). if res < 0 then Ret (src, -1) else Ret (name, 0))))"

definition hev_socks5_server_bind ::
  "socks5_settings \<Rightarrow> HevSocks5Server \<Rightarrow> sockaddr_in6 option \<Rightarrow> (HevSocks5Server \<times> sockaddr_in6 option \<times> int) io" where
  "hev_socks5_server_bind c self addr =
     io_bind (hev_socks5_socket c SOCK_DGRAM) (\<lambda>fd. if fd < 0 then Ret (self, addr, -1)
     else let self = self\<lparr>sv_fds0 := fd\<rparr>
       in case addr of
         None \<Rightarrow> Ret (self, None, 0)
       | Some src \<Rightarrow> io_bind (hev_socks5_socket c SOCK_DGRAM) (\<lambda>fd. if fd < 0 then Ret (self, addr, -1)
           else Setsockopt fd SO_REUSEADDR 1 (\<lambda>res.
             if res < 0 then Del_Fd fd (Close fd (Ret (self, addr, -1)))
             else io_bind (hev_socks5_server_udp_bind self fd src) (\<lambda>(src, res).
               if res < 0 then Del_Fd fd (Close fd (Ret (self, Some src, -1)))
               else Ret (self\<lparr>sv_fds1 := fd\<rparr>, Some src, 0)))))"

section \<open>The session\<close>

definition set_type :: "HevSocks5Server \<Rightarrow> HevSocks5Type \<Rightarrow> HevSocks5Server" where
  "set_type self t = self\<lparr>sv_base := (sv_base self)\<lparr>s5_type := t\<rparr>\<rparr>"

text \<open>The end of the handshake: the reply, and whether the session goes on.\<close>

definition server_reply :: "HevSocks5Server \<Rightarrow> u8 \<Rightarrow> sockaddr_in6 \<Rightarrow> (HevSocks5Server \<times> int) io" where
  "server_reply self rep addr =
     io_bind (hev_socks5_server_write_response self rep addr) (\<lambda>res.
       if res < 0 \<or> rep \<noteq> HEV_SOCKS5_RES_REP_SUCC then Ret (self, -1) else Ret (self, 0))"

text \<open>A request that was read is carried out and answered.\<close>

definition server_request ::
  "bindf \<Rightarrow> socks5_settings \<Rightarrow> HevSocks5Server \<Rightarrow> request \<Rightarrow> (HevSocks5Server \<times> int) io" where
  "server_request bindf c self rq =
     (if rq_rep rq \<noteq> HEV_SOCKS5_RES_REP_SUCC then server_reply self (rq_rep rq) (rq_addr rq)
      else case rq_cmd rq of
        None \<Rightarrow> Crash
      | Some cmd \<Rightarrow>
          if cmd = HEV_SOCKS5_REQ_CMD_CONNECT then
            io_bind (hev_socks5_server_connect bindf c self (rq_addr rq)) (\<lambda>(self, res).
              server_reply (set_type self HEV_SOCKS5_TYPE_TCP)
                (if res < 0 then HEV_SOCKS5_RES_REP_HOST else HEV_SOCKS5_RES_REP_SUCC) (rq_addr rq))
          else if cmd = HEV_SOCKS5_REQ_CMD_UDP_ASC then
            io_bind (hev_socks5_server_bind c self (Some (rq_addr rq))) (\<lambda>(self, addr, res).
              server_reply (set_type self HEV_SOCKS5_TYPE_UDP_IN_UDP)
                (if res < 0 then HEV_SOCKS5_RES_REP_FAIL else HEV_SOCKS5_RES_REP_SUCC)
                (case addr of None \<Rightarrow> rq_addr rq | Some a \<Rightarrow> a))
          else if cmd = HEV_SOCKS5_REQ_CMD_FWD_UDP then
            io_bind (hev_socks5_server_bind c self None) (\<lambda>(self, addr, res).
              server_reply (set_type self HEV_SOCKS5_TYPE_UDP_IN_TCP)
                (if res < 0 then HEV_SOCKS5_RES_REP_FAIL else HEV_SOCKS5_RES_REP_SUCC) (rq_addr rq))
          else server_reply self HEV_SOCKS5_RES_REP_IMPL (rq_addr rq))"

text \<open>\<open>stk\<close> is what the address on the stack held before.\<close>

definition hev_socks5_server_handshake ::
  "pton \<Rightarrow> bindf \<Rightarrow> socks5_settings \<Rightarrow> sockaddr_in6 \<Rightarrow> HevSocks5Server \<Rightarrow> (HevSocks5Server \<times> int) io" where
  "hev_socks5_server_handshake pton bindf c stk self =
     (let self = self\<lparr>sv_base := hev_socks5_set_timeout (sv_base self) (hev_socks5_get_tcp_timeout c)\<rparr>
      in io_bind (hev_socks5_server_auth self) (\<lambda>(self, res). if res < 0 then Ret (self, -1)
      else io_bind (hev_socks5_server_read_request pton self \<lparr>rq_cmd = None, rq_rep = HEV_SOCKS5_RES_REP_SUCC, rq_addr = stk\<rparr>)
        (\<lambda>(self, rq, res). if res < 0 then Ret (self, -1) else server_request bindf c self rq)))"

definition hev_socks5_server_get_fd :: "HevSocks5Server \<Rightarrow> int" where
  "hev_socks5_server_get_fd self =
     (if s5_type (sv_base self) = HEV_SOCKS5_TYPE_UDP_IN_TCP then sv_fd self
      else if s5_type (sv_base self) = HEV_SOCKS5_TYPE_UDP_IN_UDP then sv_fds1 self
      else -1)"

text \<open>
  The service, with the rounds of the datagram splicer, its buffers and \<open>errno\<close> before it; \<open>None\<close>
  when the splicer is still running.
\<close>

definition hev_socks5_server_service ::
  "nat \<Rightarrow> pton \<Rightarrow> bindf \<Rightarrow> socks5_settings \<Rightarrow> (nat \<Rightarrow> nat \<Rightarrow> u8 list) \<Rightarrow> bool \<Rightarrow> HevSocks5Server \<Rightarrow>
   (HevSocks5Server \<times> int) option io" where
  "hev_socks5_server_service fuel pton bindf c heap again self =
     (case s5_type (sv_base self) of
        HEV_SOCKS5_TYPE_NONE \<Rightarrow> Ret (Some (self, -1))
      | HEV_SOCKS5_TYPE_TCP \<Rightarrow> io_bind (hev_socks5_tcp_splice (sv_base self) (sv_fds0 self)) (\<lambda>res. Ret (Some (self, 0)))
      | _ \<Rightarrow>
          let self = self\<lparr>sv_base := hev_socks5_set_timeout (sv_base self) (hev_socks5_get_udp_timeout c)\<rparr>
          in io_bind (hev_socks5_udp_splice fuel pton bindf c heap (sv_base self) again (hev_socks5_server_get_fd self)
                (sv_fds0 self))
            (\<lambda>r. Ret (map_option (\<lambda>(b, res). (self\<lparr>sv_base := b\<rparr>, 0)) r)))"

definition hev_socks5_server_run ::
  "nat \<Rightarrow> pton \<Rightarrow> bindf \<Rightarrow> socks5_settings \<Rightarrow> (nat \<Rightarrow> nat \<Rightarrow> u8 list) \<Rightarrow> bool \<Rightarrow> sockaddr_in6 \<Rightarrow> HevSocks5Server \<Rightarrow>
   (HevSocks5Server \<times> int) option io" where
  "hev_socks5_server_run fuel pton bindf c heap again stk self =
     (let fd = sv_fd self;
          k = io_bind (hev_socks5_server_handshake pton bindf c stk self) (\<lambda>(self, res).
            if res < 0 then Ret (Some (self, -1))
            else io_bind (hev_socks5_server_service fuel pton bindf c heap again self) (\<lambda>r.
              Ret (map_option (\<lambda>(self, res). (self, if res < 0 then -1 else 0)) r)))
      in Add_Fd fd (\<lambda>res. if res < 0 then Mod_Fd fd (\<lambda>res. k) else k))"

definition hev_socks5_server_destruct :: "HevSocks5Server \<Rightarrow> unit io" where
  "hev_socks5_server_destruct self =
     (let base = (case obj_ptr (sv_obj self) of
            None \<Rightarrow> hev_socks5_destruct (sv_base self)
          | Some obj \<Rightarrow> Unref obj (hev_socks5_destruct (sv_base self)));
          close1 = (if 0 \<le> sv_fds1 self then Del_Fd (sv_fds1 self) (Close (sv_fds1 self) base) else base)
      in if 0 \<le> sv_fds0 self then Del_Fd (sv_fds0 self) (Close (sv_fds0 self) close1) else close1)"

section \<open>Resources of a session\<close>

lemma send_result_ok: "fd \<in> w_fds w \<Longrightarrow> (\<And>r. Q r w) \<Longrightarrow> io_ok Q (Send fd bs (\<lambda>res. if res \<le> 0 then Ret (-1) else Ret 0)) w"
  by (simp add: io_rules)

lemma read_auth_method_ok:
  "sv_fd self \<in> w_fds w \<Longrightarrow> (\<And>r. r = -1 \<or> r = (if sv_obj self \<noteq> NoObj then 2 else 0) \<Longrightarrow> Q r w) \<Longrightarrow>
   io_ok Q (hev_socks5_server_read_auth_method self) w"
  by (auto simp: hev_socks5_server_read_auth_method_def io_rules Let_def)

text \<open>A reference moves from the authenticator to the user.\<close>

definition move_ref :: "addr \<Rightarrow> addr \<Rightarrow> world \<Rightarrow> world" where
  "move_ref a u w = w\<lparr>w_refs := (w_refs w)(u := w_refs w u + 1, a := w_refs w a - 1)\<rparr>"

lemma move_ref_simps [simp]:
  "w_fds (move_ref a u w) = w_fds w" "w_polled (move_ref a u w) = w_polled w" "w_blocks (move_ref a u w) = w_blocks w"
  "without_fd fd (move_ref a u w) = move_ref a u (without_fd fd w)" "u \<noteq> a \<Longrightarrow> w_refs (move_ref a u w) u = w_refs w u + 1"
  by (simp_all add: move_ref_def without_fd_def)

text \<open>The references that exist: to the authenticator and to each of its users.\<close>

definition refs_ok :: "addr \<Rightarrow> (u8 list \<rightharpoonup> addr) \<Rightarrow> world \<Rightarrow> bool" where
  "refs_ok a m w \<longleftrightarrow> 0 < w_refs w a \<and> a \<notin> ran m \<and> (\<forall>u \<in> ran m. 0 < w_refs w u)"

lemma rep_user:
  assumes "auth_rep auth m" and "m name = Some u"
  shows "u \<noteq> NULL" and "\<exists>x. deref (auth_users auth) u = Some x \<and> u_name x = name"
proof -
  from assms obtain xs where xs: "auth_inv auth xs" "u \<in> set xs" "name_at auth u = name"
    using auth_map_iff by (auto simp: auth_rep_def)
  then show n: "u \<noteq> NULL" using rbt.seq_aligned [of "auth_tree auth" xs u] by (auto simp: auth_inv_def aligned_NULL)
  from xs obtain x where "auth_users auth u = Some x" by (auto simp: auth_inv_def)
  with xs n show "\<exists>x. deref (auth_users auth) u = Some x \<and> u_name x = name" by (simp add: deref_def name_at_def)
qed

lemma read_auth_user_ok:
  assumes fd: "sv_fd self \<in> w_fds w" and obj: "sv_obj self = AuthObj a auth" "auth_rep auth m" "refs_ok a m w"
    and Q: "Q (self, -1) w" "\<And>u. u \<in> ran m \<Longrightarrow> Q (self\<lparr>sv_obj := UserObj u\<rparr>, 0) (move_ref a u w)"
  shows "io_ok Q (hev_socks5_server_read_auth_user self) w"
proof -
  have "io_ok Q (case hev_socks5_authenticator_get auth name of
      None \<Rightarrow> Crash
    | Some user \<Rightarrow>
        if user = NULL then Ret (self, -1)
        else case deref (auth_users auth) user of
          None \<Rightarrow> Crash
        | Some u \<Rightarrow>
            if hev_socks5_user_check u pass < 0 then Ret (self, -1)
            else Ref user (Unref a (Ret (self\<lparr>sv_obj := UserObj user\<rparr>, 0)))) w" for name pass
  proof (cases "m name")
    case (Some u)
    with obj have u: "u \<in> ran m" "u \<noteq> a" "0 < w_refs w u" "0 < w_refs w a" by (auto simp: refs_ok_def ranI)
    from rep_user [OF obj(2) Some] Q u Some show ?thesis
      by (auto simp: get_rep [OF obj(2)] io_rules move_ref_def)
  qed (use Q in \<open>simp add: get_rep [OF obj(2)]\<close>)
  with fd Q(1) obj(1) show ?thesis
    by (simp add: hev_socks5_server_read_auth_user_def io_rules Let_def)
qed

lemma auth_ok:
  assumes fd: "sv_fd self \<in> w_fds w"
    and obj: "sv_obj self = NoObj \<or> (sv_obj self = AuthObj a auth \<and> auth_rep auth m \<and> refs_ok a m w)"
    and Q: "\<And>r. Q (self, r) w" "\<And>u r. sv_obj self = AuthObj a auth \<Longrightarrow> u \<in> ran m \<Longrightarrow> Q (self\<lparr>sv_obj := UserObj u\<rparr>, r) (move_ref a u w)"
  shows "io_ok Q (hev_socks5_server_auth self) w"
proof -
  have user: "io_ok (\<lambda>(self, res). io_ok Q (io_bind (hev_socks5_server_write_auth_user self res) (\<lambda>res2.
      if res OR res2 < 0 then Ret (self, -1) else Ret (self, 0)))) (hev_socks5_server_read_auth_user self) w"
    if "sv_obj self \<noteq> NoObj"
    using that obj fd Q
    by (auto intro!: read_auth_user_ok simp: io_rules hev_socks5_server_write_auth_user_def)
  show ?thesis
    unfolding hev_socks5_server_auth_def io_ok_bind [of Q]
    using fd obj Q user
    by (auto intro!: read_auth_method_ok send_result_ok simp: hev_socks5_server_write_auth_method_def io_ok_bind case_prod_unfold)
qed

text \<open>Two states of a session that hold the same descriptors and the same reference.\<close>

definition sv_same :: "HevSocks5Server \<Rightarrow> HevSocks5Server \<Rightarrow> bool" where
  "sv_same self self' \<longleftrightarrow> sv_fd self' = sv_fd self \<and> sv_fds0 self' = sv_fds0 self \<and> sv_fds1 self' = sv_fds1 self \<and>
     sv_obj self' = sv_obj self"

lemma sv_same_simps [simp]:
  "sv_same self self" "sv_same self (set_type self' t) = sv_same self self'"
  "sv_same (set_type self t) self' = sv_same self self'"
  "sv_same (self\<lparr>sv_base := hev_socks5_set_timeout b n\<rparr>) self' = sv_same (self\<lparr>sv_base := b\<rparr>) self'"
  "sv_same self (self'\<lparr>sv_base := hev_socks5_set_timeout b n\<rparr>) = sv_same self (self'\<lparr>sv_base := b\<rparr>)"
  "sv_same self (self'\<lparr>sv_base := hev_socks5_set_addr_family b n\<rparr>) = sv_same self (self'\<lparr>sv_base := b\<rparr>)"
  by (simp_all add: sv_same_def set_type_def hev_socks5_set_timeout_def hev_socks5_set_addr_family_def)

lemma read_request_ok:
  assumes fd: "sv_fd self \<in> w_fds w"
    and Q: "\<And>self' rq' r. sv_same self self' \<Longrightarrow> (0 \<le> r \<longrightarrow> rq_rep rq' \<noteq> rq_rep rq \<or> rq_cmd rq' \<noteq> None) \<Longrightarrow> Q (self', rq', r) w"
    and rep: "rq_rep rq = 0"
  shows "io_ok Q (hev_socks5_server_read_request pton self rq) w"
  using fd rep unfolding hev_socks5_server_read_request_def
  by (auto simp: io_rules Let_def io_ok_bind intro!: Q addr_into_ok)

lemma connect_ok:
  assumes "world_ok w" and "bind_ok bindf"
    and Q: "\<And>self' r. sv_same self self' \<Longrightarrow> Q (self', -1) w"
      "\<And>self' fd. sv_same (self\<lparr>sv_fds0 := fd\<rparr>) self' \<Longrightarrow> 0 \<le> fd \<Longrightarrow> fd \<notin> w_fds w \<Longrightarrow> Q (self', 0) (with_fd fd w)"
  shows "io_ok Q (hev_socks5_server_connect bindf c self addr) w"
  unfolding hev_socks5_server_connect_def io_ok_bind
proof (rule socket_ok [OF assms(1)], goal_cases)
  case (2 fd)
  then have b: "io_ok R (bindf b fd addr) (with_fd fd w)" if "\<And>r. R r (with_fd fd w)" for R b
    using that by (intro bind_okD [OF assms(2)]) auto
  show ?case using 2 assms(1)
    by (auto simp: Let_def io_ok_bind io_rules sv_same_def hev_socks5_set_timeout_def intro!: Q b)
qed (simp add: Q(1))

lemma udp_bind_ok:
  "sv_fd self \<in> w_fds w \<Longrightarrow> sock \<in> w_fds w \<Longrightarrow> (\<And>r. Q r w) \<Longrightarrow> io_ok Q (hev_socks5_server_udp_bind self sock src) w"
  by (simp add: hev_socks5_server_udp_bind_def io_rules Let_def)

lemma bind_ok_server:
  assumes w: "world_ok w" and fd: "sv_fd self \<in> w_fds w"
    and Q: "\<And>a r. Q (self, a, -1) w"
      "\<And>a r f. 0 \<le> f \<Longrightarrow> f \<notin> w_fds w \<Longrightarrow> Q (self\<lparr>sv_fds0 := f\<rparr>, a, r) (with_fd f w)"
      "\<And>a r f g. 0 \<le> f \<Longrightarrow> f \<notin> w_fds w \<Longrightarrow> 0 \<le> g \<Longrightarrow> g \<notin> w_fds w \<Longrightarrow> f \<noteq> g \<Longrightarrow>
        Q (self\<lparr>sv_fds0 := f, sv_fds1 := g\<rparr>, a, r) (with_fd g (with_fd f w))"
  shows "io_ok Q (hev_socks5_server_bind c self addr) w"
  unfolding hev_socks5_server_bind_def io_ok_bind
proof (rule socket_ok [OF w], goal_cases)
  case (2 f)
  show ?case
  proof (cases addr)
    case (Some src)
    have w': "world_ok (with_fd f w)" using w by simp
    have second: "io_ok R (hev_socks5_socket c 2) (with_fd f w)"
      if "R (-1) (with_fd f w)" "\<And>g. 0 \<le> g \<Longrightarrow> g \<noteq> f \<Longrightarrow> g \<notin> w_fds w \<Longrightarrow> R g (with_fd g (with_fd f w))" for R
      using that by (intro socket_ok [OF w']) auto
    show ?thesis using 2 fd w w'
      by (auto simp: Some Let_def io_ok_bind io_rules intro!: Q udp_bind_ok second)
  qed (use 2 Q in \<open>simp add: Let_def\<close>)
qed (simp add: Q)

text \<open>The descriptors a session has opened, over the world before it.\<close>

definition sv_holds :: "world \<Rightarrow> HevSocks5Server \<Rightarrow> world \<Rightarrow> bool" where
  "sv_holds w0 self w \<longleftrightarrow>
     (sv_fds0 self < 0 \<and> sv_fds1 self < 0 \<and> w = w0) \<or>
     (0 \<le> sv_fds0 self \<and> sv_fds0 self \<notin> w_fds w0 \<and> sv_fds1 self < 0 \<and> w = with_fd (sv_fds0 self) w0) \<or>
     (0 \<le> sv_fds0 self \<and> sv_fds0 self \<notin> w_fds w0 \<and> 0 \<le> sv_fds1 self \<and> sv_fds1 self \<notin> w_fds w0 \<and>
       sv_fds0 self \<noteq> sv_fds1 self \<and> w = with_fd (sv_fds1 self) (with_fd (sv_fds0 self) w0))"

lemma holds_fds: "sv_holds w0 self w \<Longrightarrow> w_fds w0 \<subseteq> w_fds w"
  by (auto simp: sv_holds_def)

lemma holds_same [simp]: "sv_holds w0 (set_type self t) w = sv_holds w0 self w"
  by (simp add: sv_holds_def set_type_def)

lemma without_with_other:
  "world_ok w \<Longrightarrow> f \<notin> w_fds w \<Longrightarrow> f \<noteq> g \<Longrightarrow> without_fd f (with_fd g (with_fd f w)) = with_fd g w"
  by (auto simp: with_fd_def without_fd_def world_ok_def intro!: world.equality)

definition drop_ref :: "addr \<Rightarrow> world \<Rightarrow> world" where
  "drop_ref a w = w\<lparr>w_refs := (w_refs w)(a := w_refs w a - 1)\<rparr>"

lemma drop_ref_simps [simp]:
  "w_fds (drop_ref a w) = w_fds w" "without_fd fd (drop_ref a w) = drop_ref a (without_fd fd w)"
  by (simp_all add: drop_ref_def without_fd_def)

lemma drop_move_ref [simp]: "a \<noteq> u \<Longrightarrow> drop_ref u (move_ref a u w) = drop_ref a w"
  by (auto simp: drop_ref_def move_ref_def intro!: world.equality)

lemma io_ok_Unref_drop: "io_ok Q (Unref a k) w \<longleftrightarrow> 0 < w_refs w a \<and> io_ok Q k (drop_ref a w)"
  by (simp add: io_rules drop_ref_def)

lemma server_destruct_ok:
  assumes h: "sv_holds w0 self w" and w0: "world_ok w0" "sv_fd self \<in> w_fds w0" "0 \<le> sv_fd self"
    and obj: "obj_ptr (sv_obj self) = Some p" "0 < w_refs w0 p"
    and Q: "Q () (drop_ref p (without_fd (sv_fd self) w0))"
  shows "io_ok Q (hev_socks5_server_destruct self) w"
proof -
  have base: "io_ok Q (Unref p (hev_socks5_destruct (sv_base self))) w0"
    using w0 obj Q by (simp add: io_ok_Unref_drop destruct_ok)
  from h show ?thesis
    unfolding sv_holds_def hev_socks5_server_destruct_def Let_def obj(1) option.case
    using base w0 by (auto simp: without_with_other)
qed

lemma reply_ok:
  "sv_fd self \<in> w_fds w \<Longrightarrow> (\<And>r. Q (self, r) w) \<Longrightarrow> io_ok Q (server_reply self rep addr) w"
  by (simp add: server_reply_def hev_socks5_server_write_response_def io_rules split: prod.splits)

text \<open>After the authentication: the request, the other side and the reply.\<close>

lemma request_ok:
  assumes w: "world_ok w" "sv_fd self \<in> w_fds w" and b: "bind_ok bindf" and fds: "sv_fds0 self < 0" "sv_fds1 self < 0"
    and rq: "rq_rep rq \<noteq> 0 \<or> rq_cmd rq \<noteq> None"
    and Q: "\<And>self' r w'. sv_holds w self' w' \<Longrightarrow> sv_fd self' = sv_fd self \<Longrightarrow> sv_obj self' = sv_obj self \<Longrightarrow> Q (self', r) w'"
  shows "io_ok Q (server_request bindf c self rq) w"
proof -
  have hold: "sv_holds w self' w" if "sv_same self self'" for self'
    using that fds by (auto simp: sv_same_def sv_holds_def)
  have hold1: "sv_holds w self' (with_fd f w)"
    if "sv_same (self\<lparr>sv_fds0 := f\<rparr>) self'" "0 \<le> f" "f \<notin> w_fds w" for self' f
    using that fds by (auto simp: sv_same_def sv_holds_def)
  have hold2: "sv_holds w (self\<lparr>sv_fds0 := f, sv_fds1 := g\<rparr>) (with_fd g (with_fd f w))"
    if "0 \<le> f" "f \<notin> w_fds w" "0 \<le> g" "g \<notin> w_fds w" "f \<noteq> g" for f g
    using that by (auto simp: sv_holds_def)
  have t: "sv_fd (set_type s ty) = sv_fd s" "sv_obj (set_type s ty) = sv_obj s" for s ty by (simp_all add: set_type_def)
  have reply: "io_ok Q (server_reply self' rep addr) w'"
    if "sv_holds w self' w'" "sv_fd self' = sv_fd self" "sv_obj self' = sv_obj self" for self' rep addr w'
    using that w holds_fds [OF that(1)] by (intro reply_ok Q) auto
  have same: "sv_fd self' = sv_fd s" "sv_obj self' = sv_obj s" if "sv_same s self'" for s self'
    using that by (auto simp: sv_same_def)
  have con: "io_ok Q (io_bind (hev_socks5_server_connect bindf c self a) (\<lambda>(self, res). server_reply (set_type self ty) (rep res) a)) w"
    for a ty rep
    unfolding io_ok_bind by (rule connect_ok [OF w(1) b]) (auto intro!: reply hold hold1 simp: t dest: same)
  have bnd: "io_ok Q (io_bind (hev_socks5_server_bind c self addr) (\<lambda>(self, addr, res).
      server_reply (set_type self ty) (rep res) (fa addr))) w" for addr ty rep fa
    unfolding io_ok_bind by (rule bind_ok_server [OF w]) (auto intro!: reply hold hold1 hold2 simp: t)
  show ?thesis
    using rq reply [OF hold] con bnd unfolding server_request_def by (auto split: option.splits)
qed

lemma handshake_ok:
  assumes w: "world_ok w" "sv_fd self \<in> w_fds w" and b: "bind_ok bindf" and fds: "sv_fds0 self < 0" "sv_fds1 self < 0"
    and obj: "sv_obj self = NoObj \<or> (sv_obj self = AuthObj a auth \<and> auth_rep auth m \<and> refs_ok a m w)"
    and Q: "\<And>self' r w'. sv_holds w self' w' \<Longrightarrow> sv_fd self' = sv_fd self \<Longrightarrow> sv_obj self' = sv_obj self \<Longrightarrow> Q (self', r) w'"
      "\<And>self' r w' u. sv_holds (move_ref a u w) self' w' \<Longrightarrow> sv_fd self' = sv_fd self \<Longrightarrow>
        sv_obj self = AuthObj a auth \<Longrightarrow> sv_obj self' = UserObj u \<Longrightarrow> u \<in> ran m \<Longrightarrow> Q (self', r) w'"
  shows "io_ok Q (hev_socks5_server_handshake pton bindf c stk self) w"
proof -
  let ?self = "self\<lparr>sv_base := hev_socks5_set_timeout (sv_base self) (hev_socks5_get_tcp_timeout c)\<rparr>"
  have fd: "sv_fd ?self = sv_fd self" by (simp add: hev_socks5_set_timeout_def)
  have after: "io_ok Q (if res < 0 then Ret (s, -1) else
      io_bind (hev_socks5_server_read_request pton s \<lparr>rq_cmd = None, rq_rep = 0, rq_addr = stk\<rparr>)
        (\<lambda>(self, rq, res). if res < 0 then Ret (self, -1) else server_request bindf c self rq)) w1"
    if s: "world_ok w1" "sv_fd s \<in> w_fds w1" "sv_fds0 s < 0" "sv_fds1 s < 0"
      and Q1: "\<And>self' r w'. sv_holds w1 self' w' \<Longrightarrow> sv_fd self' = sv_fd s \<Longrightarrow> sv_obj self' = sv_obj s \<Longrightarrow> Q (self', r) w'"
    for s w1 res
  proof -
    have "io_ok Q (io_bind (hev_socks5_server_read_request pton s \<lparr>rq_cmd = None, rq_rep = 0, rq_addr = stk\<rparr>)
        (\<lambda>(self, rq, res). if res < 0 then Ret (self, -1) else server_request bindf c self rq)) w1"
      unfolding io_ok_bind
    proof (rule read_request_ok [OF s(2)], goal_cases)
      case (1 self' rq r)
      then have "sv_holds w1 self' w1" "sv_fd self' = sv_fd s" "sv_obj self' = sv_obj s" "sv_fds0 self' < 0" "sv_fds1 self' < 0"
        using s by (auto simp: sv_same_def sv_holds_def)
      with 1 s show ?case by (auto intro!: Q1 request_ok [OF s(1) _ b])
    qed simp
    then show ?thesis using s Q1 [of s w1] by (auto simp: sv_holds_def)
  qed
  have wm: "world_ok (move_ref a u w)" for u using w(1) by (simp add: world_ok_def)
  show ?thesis
    unfolding hev_socks5_server_handshake_def Let_def io_ok_bind [of Q]
  proof (rule auth_ok [of _ _ a auth m], goal_cases)
    case (3 r)
    show ?case unfolding prod.case using w fds fd by (intro after Q(1)) (auto simp: fd)
  next
    case (4 u r)
    then show ?case unfolding prod.case using w fds fd wm
      by (intro after) (auto simp: fd intro: Q(2))
  qed (use w obj fd in auto)
qed

section \<open>Properties\<close>


definition demo_world :: world where
  "demo_world = \<lparr>w_fds = {5}, w_polled = {5}, w_blocks = {}, w_refs = (\<lambda>_. 1)\<rparr>"

definition demo_server :: HevSocks5Server where
  "demo_server = \<lparr>sv_base = \<lparr>s5_fd = 5, s5_timeout = -1, s5_udp_associated = False, s5_type = HEV_SOCKS5_TYPE_NONE, s5_addr_family = 0\<rparr>,
     sv_fds0 = -1, sv_fds1 = -1, sv_obj = AuthObj 128 demo_auth\<rparr>"


end
