(* ===== verification/Hev_Link.thy ===== *)
theory Hev_Link
  imports Hev_IO
begin

text \<open>
  Two programs at the two ends of a connection. Each end makes its calls in its own order; what
  one sends the other receives, after any delay, so that the steps of the two ends interleave
  freely. The calls that do not concern the connection are answered by a local environment.
  Because neither end can observe when the other moves, all interleavings lead to the same
  outcome, which is proved once for any two commuting sides.
\<close>

section \<open>Commuting sides\<close>

inductive moves :: "('c \<Rightarrow> 'c option) \<Rightarrow> ('c \<Rightarrow> 'c option) \<Rightarrow> 'c \<Rightarrow> 'c \<Rightarrow> bool" for s1 s2 where
  first_moves: "s1 c = Some c' \<Longrightarrow> moves s1 s2 c c'"
| second_moves: "s2 c = Some c' \<Longrightarrow> moves s1 s2 c c'"

inductive_cases movesE: "moves s1 s2 c c'"

text \<open>
  \<open>ends_in s1 s2 c d\<close>: every sequence of moves from \<open>c\<close> is finite, none is stuck before it is at
  \<open>d\<close>, and at \<open>d\<close> neither side can move.
\<close>

definition ends_in :: "('c \<Rightarrow> 'c option) \<Rightarrow> ('c \<Rightarrow> 'c option) \<Rightarrow> 'c \<Rightarrow> 'c \<Rightarrow> bool" where
  "ends_in s1 s2 c d \<longleftrightarrow> s1 d = None \<and> s2 d = None \<and>
     (\<exists>n. \<forall>m e. (moves s1 s2 ^^ m) c e \<longrightarrow> m \<le> n \<and> (moves s1 s2 ^^ (n - m)) e d)"

locale commuting_sides =
  fixes s1 s2 :: "'c \<Rightarrow> 'c option"
  assumes commute: "s1 c = Some c1 \<Longrightarrow> s2 c = Some c2 \<Longrightarrow> \<exists>c3. s2 c1 = Some c3 \<and> s1 c2 = Some c3"
begin

lemma join: "moves s1 s2 c c1 \<Longrightarrow> moves s1 s2 c c2 \<Longrightarrow> c1 \<noteq> c2 \<Longrightarrow> \<exists>c3. moves s1 s2 c1 c3 \<and> moves s1 s2 c2 c3"
  using commute by (elim movesE) (fastforce intro: moves.intros)+

text \<open>A move never leads away from the end.\<close>

lemma move_towards_end:
  assumes "s1 d = None" "s2 d = None"
  shows "(moves s1 s2 ^^ n) c d \<Longrightarrow> moves s1 s2 c e \<Longrightarrow> \<exists>k. n = Suc k \<and> (moves s1 s2 ^^ k) e d"
proof (induction n arbitrary: c e)
  case 0
  with assms show ?case by (auto elim: movesE)
next
  case (Suc n)
  from Suc.prems(1) obtain c1 where c1: "moves s1 s2 c c1" "(moves s1 s2 ^^ n) c1 d"
    by (metis relpowp_Suc_D2)
  show ?case
  proof (cases "e = c1")
    case False
    with join [OF Suc.prems(2) c1(1)] obtain c3 where c3: "moves s1 s2 e c3" "moves s1 s2 c1 c3" by blast
    with Suc.IH [OF c1(2)] obtain k where "n = Suc k" "(moves s1 s2 ^^ k) c3 d" by blast
    with c3(1) show ?thesis by (metis relpowp_Suc_I2)
  qed (use c1 in simp)
qed

lemma one_run_decides:
  assumes "(moves s1 s2)\<^sup>*\<^sup>* c d" "s1 d = None" "s2 d = None"
  shows "ends_in s1 s2 c d"
proof -
  from assms(1) obtain n where n: "(moves s1 s2 ^^ n) c d" by (metis rtranclp_imp_relpowp)
  have "(moves s1 s2 ^^ n) c d \<Longrightarrow> (moves s1 s2 ^^ m) c e \<Longrightarrow> m \<le> n \<and> (moves s1 s2 ^^ (n - m)) e d" for m e
  proof (induction m arbitrary: n c)
    case (Suc m)
    from Suc.prems(2) obtain c1 where c1: "moves s1 s2 c c1" "(moves s1 s2 ^^ m) c1 e"
      by (metis relpowp_Suc_D2)
    with move_towards_end [OF assms(2,3) Suc.prems(1)] obtain k where "n = Suc k" "(moves s1 s2 ^^ k) c1 d" by blast
    with Suc.IH c1(2) show ?case by auto
  qed simp
  with n assms(2,3) show ?thesis unfolding ends_in_def by blast
qed

end

section \<open>The two ends\<close>

text \<open>The answers of the local environment of an end; \<open>env_fd\<close> is its descriptor of the connection.\<close>

record env =
  env_fd :: int
  env_socket :: int
  env_setsockopt :: int
  env_connect :: int
  env_bind :: int
  env_sockname :: "int \<times> sockaddr_in6"
  env_addfd :: int
  env_resolve :: "cstring \<Rightarrow> int \<Rightarrow> addrinfo option"
  env_malloc :: addr

text \<open>
  A step of one end, with the bytes that have arrived: the rest of the program, the bytes that are
  left, the bytes sent, and the addresses it connects to. A receive waits until it has all the
  bytes; when the other end is gone, it returns the bytes there are.
\<close>

fun party :: "env \<Rightarrow> bool \<Rightarrow> 'a io \<Rightarrow> u8 list \<Rightarrow> ('a io \<times> u8 list \<times> u8 list \<times> sockaddr_in6 list) option" where
  "party e gone (Recv fd n fl k) q =
     (if fd \<noteq> env_fd e \<or> fl \<noteq> Waitall then None
      else if n \<le> length q then Some (k (Data (take n q) False), drop n q, [], [])
      else if gone then Some (k (Data q False), [], [], [])
      else None)"
| "party e gone (Send fd bs k) q =
     (if fd \<noteq> env_fd e then None else Some (k (int (length bs)), q, bs, []))"
| "party e gone (Socket t k) q = Some (k (env_socket e), q, [], [])"
| "party e gone (Setsockopt fd opt v k) q = Some (k (env_setsockopt e), q, [], [])"
| "party e gone (Connect fd a k) q = Some (k (env_connect e), q, [], [a])"
| "party e gone (Bind fd a k) q = Some (k (env_bind e), q, [], [])"
| "party e gone (Getsockname fd k) q = Some (k (env_sockname e), q, [], [])"
| "party e gone (Close fd k1) q = Some (k1, q, [], [])"
| "party e gone (Add_Fd fd k) q = Some (k (env_addfd e), q, [], [])"
| "party e gone (Mod_Fd fd k) q = Some (k 0, q, [], [])"
| "party e gone (Del_Fd fd k1) q = Some (k1, q, [], [])"
| "party e gone (Getaddrinfo s f k) q = Some (k (env_resolve e s f), q, [], [])"
| "party e gone (Malloc k) q = Some (k (env_malloc e), q, [], [])"
| "party e gone (Free p k1) q = Some (k1, q, [], [])"
| "party e gone (Ref p k1) q = Some (k1, q, [], [])"
| "party e gone (Unref p k1) q = Some (k1, q, [], [])"
| "party e gone _ q = None"

record ('a, 'b) link =
  lk_left :: "'a io"
  lk_right :: "'b io"
  lk_lr :: "u8 list"
  lk_rl :: "u8 list"
  lk_lcalls :: "sockaddr_in6 list"
  lk_rcalls :: "sockaddr_in6 list"

text \<open>An end is gone once its program has returned a failure and the session is torn down.\<close>

fun gone :: "('s \<times> int) io \<Rightarrow> bool" where
  "gone (Ret (s, res)) = (res < 0)"
| "gone _ = False"

definition left_step :: "env \<Rightarrow> ('s \<times> int, 't \<times> int) link \<Rightarrow> ('s \<times> int, 't \<times> int) link option" where
  "left_step e c = (case party e (gone (lk_right c)) (lk_left c) (lk_rl c) of
     None \<Rightarrow> None
   | Some (p, q, s, a) \<Rightarrow> Some (c\<lparr>lk_left := p, lk_rl := q, lk_lr := lk_lr c @ s, lk_lcalls := lk_lcalls c @ a\<rparr>))"

definition right_step :: "env \<Rightarrow> ('s \<times> int, 't \<times> int) link \<Rightarrow> ('s \<times> int, 't \<times> int) link option" where
  "right_step e c = (case party e (gone (lk_left c)) (lk_right c) (lk_lr c) of
     None \<Rightarrow> None
   | Some (p, q, s, a) \<Rightarrow> Some (c\<lparr>lk_right := p, lk_lr := q, lk_rl := lk_rl c @ s, lk_rcalls := lk_rcalls c @ a\<rparr>))"

text \<open>More bytes, or the other end being gone, do not change a step that does not need them.\<close>

lemma party_more:
  "party e False p q = Some (p', q', s, a) \<Longrightarrow> party e g p (q @ r) = Some (p', q' @ r, s, a)"
  by (cases p) (auto split: if_splits)

lemma party_any: "party e False p q = Some r \<Longrightarrow> party e g p q = Some r"
  using party_more [of e p q _ _ _ _ g "[]"] by (cases r) auto

lemma party_gone: "gone p \<Longrightarrow> party e g p q = None"
  by (cases p rule: gone.cases) auto

lemma ends_commute:
  assumes "left_step el c = Some c1" and "right_step er c = Some c2"
  shows "\<exists>c3. right_step er c1 = Some c3 \<and> left_step el c2 = Some c3"
proof -
  from assms obtain p q s a p' q' s' a' where
    l: "party el (gone (lk_right c)) (lk_left c) (lk_rl c) = Some (p, q, s, a)" and
    r: "party er (gone (lk_left c)) (lk_right c) (lk_lr c) = Some (p', q', s', a')"
    by (auto simp: left_step_def right_step_def split: option.splits prod.splits)
  have "\<not> gone (lk_right c)" "\<not> gone (lk_left c)" using l r party_gone by fastforce+
  with l r have "party el g (lk_left c) (lk_rl c @ t) = Some (p, q @ t, s, a)"
    "party er g (lk_right c) (lk_lr c @ t) = Some (p', q' @ t, s', a')" for g t
    using party_more by fastforce+
  with l r assms show ?thesis by (auto simp: left_step_def right_step_def)
qed

interpretation ends: commuting_sides "left_step el" "right_step er"
  by unfold_locales (rule ends_commute)

section \<open>Bursts\<close>

text \<open>Several steps of one end in a row, on what has arrived.\<close>

inductive burst :: "env \<Rightarrow> 'a io \<Rightarrow> u8 list \<Rightarrow> 'a io \<Rightarrow> u8 list \<Rightarrow> u8 list \<Rightarrow> sockaddr_in6 list \<Rightarrow> bool" for e where
  burst_refl: "burst e p q p q [] []"
| burst_step: "party e False p q = Some (p1, q1, s1, a1) \<Longrightarrow> burst e p1 q1 p' q' s2 a2 \<Longrightarrow>
    burst e p q p' q' (s1 @ s2) (a1 @ a2)"

lemma burst_trans:
  "burst e p q p1 q1 s1 a1 \<Longrightarrow> burst e p1 q1 p' q' s2 a2 \<Longrightarrow> burst e p q p' q' (s1 @ s2) (a1 @ a2)"
proof (induction rule: burst.induct)
  case (burst_step p q p2 q2 s1 a1 p'' q'' s3 a3)
  from burst.burst_step [OF burst_step.hyps(1) burst_step.IH [OF burst_step.prems]] show ?case by simp
qed simp

lemma party_bind:
  "party e g p q = Some (p', q', s, a) \<Longrightarrow> party e g (io_bind p k) q = Some (io_bind p' k, q', s, a)"
  by (cases p) (auto split: if_splits)

lemma burst_bind: "burst e p q p' q' s a \<Longrightarrow> burst e (io_bind p k) q (io_bind p' k) q' s a"
  by (induction rule: burst.induct) (auto intro: burst.intros dest: party_bind)

text \<open>A routine that returns, then the rest.\<close>

lemma burst_seq:
  assumes "burst e p q (Ret x) q1 s1 a1" and "burst e (k x) q1 p' q' s2 a2"
  shows "burst e (io_bind p k) q p' q' (s1 @ s2) (a1 @ a2)"
  using burst_trans [OF burst_bind [OF assms(1)]] assms(2) by simp

lemma burst_left:
  "burst el p q p' q' s a \<Longrightarrow> lk_left c = p \<Longrightarrow> lk_rl c = q \<Longrightarrow>
   (moves (left_step el) (right_step er))\<^sup>*\<^sup>* c
     (c\<lparr>lk_left := p', lk_rl := q', lk_lr := lk_lr c @ s, lk_lcalls := lk_lcalls c @ a\<rparr>)"
proof (induction arbitrary: c rule: burst.induct)
  case (burst_step p q p1 q1 s1 a1 p' q' s2 a2)
  let ?c = "c\<lparr>lk_left := p1, lk_rl := q1, lk_lr := lk_lr c @ s1, lk_lcalls := lk_lcalls c @ a1\<rparr>"
  have "moves (left_step el) (right_step er) c ?c"
    using burst_step party_any [OF burst_step.hyps(1)] by (intro first_moves) (simp add: left_step_def)
  with burst_step.IH [of ?c] burst_step.prems show ?case by (simp add: converse_rtranclp_into_rtranclp)
next
  case (burst_refl p q)
  then have "c\<lparr>lk_left := p, lk_rl := q\<rparr> = c" by simp
  then show ?case by simp
qed

lemma burst_right:
  "burst er p q p' q' s a \<Longrightarrow> lk_right c = p \<Longrightarrow> lk_lr c = q \<Longrightarrow>
   (moves (left_step el) (right_step er))\<^sup>*\<^sup>* c
     (c\<lparr>lk_right := p', lk_lr := q', lk_rl := lk_rl c @ s, lk_rcalls := lk_rcalls c @ a\<rparr>)"
proof (induction arbitrary: c rule: burst.induct)
  case (burst_step p q p1 q1 s1 a1 p' q' s2 a2)
  let ?c = "c\<lparr>lk_right := p1, lk_lr := q1, lk_rl := lk_rl c @ s1, lk_rcalls := lk_rcalls c @ a1\<rparr>"
  have "moves (left_step el) (right_step er) c ?c"
    using burst_step party_any [OF burst_step.hyps(1)] by (intro second_moves) (simp add: right_step_def)
  with burst_step.IH [of ?c] burst_step.prems show ?case by (simp add: converse_rtranclp_into_rtranclp)
next
  case (burst_refl p q)
  then have "c\<lparr>lk_right := p, lk_lr := q\<rparr> = c" by simp
  then show ?case by simp
qed

end
