(* ===== verification/Hev_Handshake.thy ===== *)
theory Hev_Handshake
  imports Hev_Socks5_Client Hev_Socks5_Server Hev_Link
begin

text \<open>
  The client of the tunnel and the server of the library talking to each other. The handshake of
  the client is run against the handshake of the server over a connection that delivers each
  byte once and in order, after any delay; the results hold for every interleaving.
\<close>

section \<open>Bursts of a routine\<close>

lemma burst1: "party e False p q = Some (p', q', s, a) \<Longrightarrow> burst e p q p' q' s a"
  using burst_step [OF _ burst_refl] by fastforce

lemma burst_after:
  "burst e p q (Ret x) q1 s1 a1 \<Longrightarrow> burst e (k x) q1 p' q' s2 a2 \<Longrightarrow> s = s1 @ s2 \<Longrightarrow> a = a1 @ a2 \<Longrightarrow>
   burst e (io_bind p k) q p' q' s a"
  using burst_seq by fastforce

lemma burst_more: "burst e p q p' q' s a \<Longrightarrow> burst e p (q @ r) p' (q' @ r) s a"
  by (induction rule: burst.induct) (auto intro: burst.intros dest: party_more)

lemma burst_send: "env_fd e = fd \<Longrightarrow> burst e (k (int (length bs))) q p' q' s a \<Longrightarrow> burst e (Send fd bs k) q p' q' (bs @ s) a"
  using burst_step [of e "Send fd bs k" q "k (int (length bs))" q bs "[]"] by simp

lemma burst_recv:
  "env_fd e = fd \<Longrightarrow> length bs = n \<Longrightarrow> burst e (k (Data bs False)) q p' q' s a \<Longrightarrow> burst e (Recv fd n Waitall k) (bs @ q) p' q' s a"
  using burst_step [of e "Recv fd n Waitall k" "bs @ q" "k (Data bs False)" q "[]" "[]"] by simp

lemma burst_recv_take:
  "env_fd e = fd \<Longrightarrow> n \<le> length q \<Longrightarrow> burst e (k (Data (take n q) False)) (drop n q) p' q' s a \<Longrightarrow>
   burst e (Recv fd n Waitall k) q p' q' s a"
  using burst_recv [of e fd "take n q" n k "drop n q"] by simp

text \<open>The calls that do not concern the connection.\<close>

lemma burst_quiet:
  "party e False p q = Some (p1, q, [], a1) \<Longrightarrow> burst e p1 q p' q' s a \<Longrightarrow> burst e p q p' q' s (a1 @ a)"
  using burst_step [of e p q p1 q "[]" a1] by simp

lemma burst_local:
  "burst e (k (env_socket e)) q p' q' s a \<Longrightarrow> burst e (Socket t k) q p' q' s a"
  "burst e (k (env_setsockopt e)) q p' q' s a \<Longrightarrow> burst e (Setsockopt fd opt v k) q p' q' s a"
  "burst e (k (env_addfd e)) q p' q' s a \<Longrightarrow> burst e (Add_Fd fd k) q p' q' s a"
  "burst e (k 0) q p' q' s a \<Longrightarrow> burst e (Mod_Fd fd k) q p' q' s a"
  "burst e (k2 (env_resolve e name f)) q p' q' s a \<Longrightarrow> burst e (Getaddrinfo name f k2) q p' q' s a"
  "burst e k1 q p' q' s a \<Longrightarrow> burst e (Free x k1) q p' q' s a"
  "burst e k1 q p' q' s a \<Longrightarrow> burst e (Ref x k1) q p' q' s a"
  "burst e k1 q p' q' s a \<Longrightarrow> burst e (Unref x k1) q p' q' s a"
  by (rule burst_quiet [where ?a1.0 = "[]", simplified], simp, assumption)+

lemma burst_connect: "burst e (k (env_connect e)) q p' q' s a \<Longrightarrow> burst e (Connect fd d k) q p' q' s (d # a)"
  by (rule burst_quiet [where ?a1.0 = "[d]", simplified]) simp_all

section \<open>The server\<close>

text \<open>The bytes of the messages.\<close>

definition creds_bytes :: "cstring \<Rightarrow> cstring \<Rightarrow> u8 list" where
  "creds_bytes user pass = [1, of_nat (length user)] @ user @ [of_nat (length pass)] @ pass"

definition creds_ok :: "cstring \<Rightarrow> cstring \<Rightarrow> bool" where
  "creds_ok user pass \<longleftrightarrow> user \<noteq> [] \<and> length user \<le> 255 \<and> pass \<noteq> [] \<and> length pass \<le> 255"

abbreviation reply_bytes :: "sockaddr_in6 \<Rightarrow> u8 list" where
  "reply_bytes s \<equiv> [5, 0, 0] @ dest_bytes (saddr_dest s)"

lemma read_auth_method_burst:
  assumes "env_fd e = sv_fd self" and "length ms \<le> 255"
  shows "burst e (hev_socks5_server_read_auth_method self) ([5, of_nat (length ms)] @ ms)
    (Ret (let m = (if sv_obj self \<noteq> NoObj then 2 else 0) in if word_of_int m \<in> set ms then m else -1)) [] [] []"
proof -
  have m: "burst e (Recv (sv_fd self) (length ms) Waitall (\<lambda>r.
      if rx_res r \<noteq> int (length ms) then Ret (-1)
      else let m = (if sv_obj self \<noteq> NoObj then 2 else 0) in if word_of_int m \<in> set (rx_data r) then Ret m else Ret (-1)))
    (ms @ []) (Ret (let m = (if sv_obj self \<noteq> NoObj then 2 else 0) in if word_of_int m \<in> set ms then m else -1)) [] [] []"
    using assms(1) by (intro burst_recv) (auto simp: Let_def intro: burst_refl)
  show ?thesis unfolding hev_socks5_server_read_auth_method_def
    using assms m by (intro burst_recv) (simp_all add: Let_def)
qed

lemma send_burst:
  "env_fd e = fd \<Longrightarrow> bs \<noteq> [] \<Longrightarrow> burst e (Send fd bs (\<lambda>res. if res \<le> 0 then Ret (-1) else Ret 0)) q (Ret 0) q bs []"
  using burst_send [of e fd "\<lambda>res. if res \<le> 0 then Ret (-1) else Ret 0" bs q "Ret 0" q "[]" "[]"] burst_refl
  by fastforce

text \<open>What the check of the credentials decides: the user that is admitted.\<close>

definition admitted :: "HevSocks5Authenticator \<Rightarrow> cstring \<Rightarrow> cstring \<Rightarrow> addr option" where
  "admitted auth user pass = (case hev_socks5_authenticator_get auth user of
     Some u \<Rightarrow> (case auth_users auth u of Some x \<Rightarrow> if u \<noteq> NULL \<and> u_pass x = pass then Some u else None | None \<Rightarrow> None)
   | None \<Rightarrow> None)"

lemma user_check_neg: "hev_socks5_user_check x p < 0 \<longleftrightarrow> u_pass x \<noteq> p"
  using user_check_iff [of x p] by (auto simp: hev_socks5_user_check_def hev_socks5_user_checker_def)

lemma check_burst:
  assumes "auth_rep auth m"
  shows "burst e (case hev_socks5_authenticator_get auth user of
        None \<Rightarrow> Crash
      | Some u \<Rightarrow>
          if u = NULL then Ret (self, -1)
          else case deref (auth_users auth) u of
            None \<Rightarrow> Crash
          | Some x \<Rightarrow>
              if hev_socks5_user_check x pass < 0 then Ret (self, -1)
              else Ref u (Unref a (Ret (self\<lparr>sv_obj := UserObj u\<rparr>, 0)))) q
    (Ret (case admitted auth user pass of None \<Rightarrow> (self, -1) | Some u \<Rightarrow> (self\<lparr>sv_obj := UserObj u\<rparr>, 0))) q [] []"
proof (cases "m user")
  case (Some u)
  with rep_user [OF assms Some] show ?thesis
    by (auto simp: admitted_def get_rep [OF assms] user_check_neg deref_def split: if_splits intro!: burst_local burst_refl)
qed (auto simp: get_rep [OF assms] burst_refl admitted_def split: option.splits)

lemma read_auth_user_burst:
  assumes e: "env_fd e = sv_fd self" and c: "creds_ok user pass" and obj: "sv_obj self = AuthObj a auth" "auth_rep auth m"
  shows "burst e (hev_socks5_server_read_auth_user self) (creds_bytes user pass)
    (Ret (case admitted auth user pass of None \<Rightarrow> (self, -1) | Some u \<Rightarrow> (self\<lparr>sv_obj := UserObj u\<rparr>, 0))) [] [] []"
proof -
  have n: "user \<noteq> []" "length user \<le> 255" "pass \<noteq> []" "length pass \<le> 255" using c by (auto simp: creds_ok_def)
  have "burst e (hev_socks5_server_read_auth_user self)
      ([1, of_nat (length user)] @ (user @ [of_nat (length pass)]) @ pass @ [])
      (Ret (case admitted auth user pass of None \<Rightarrow> (self, -1) | Some u \<Rightarrow> (self\<lparr>sv_obj := UserObj u\<rparr>, 0))) [] [] []"
    unfolding hev_socks5_server_read_auth_user_def Let_def using n obj(1)
    apply (intro burst_recv_take [OF e], simp, simp)
    apply (intro burst_recv_take [OF e], simp, simp add: nth_append)
    apply (intro burst_recv_take [OF e], simp, simp cong: if_cong option.case_cong)
    apply (rule check_burst [OF obj(2)])
    done
  then show ?thesis by (simp add: creds_bytes_def)
qed

text \<open>
  The outcome of the authentication: what the server remembers of the client, or none when it is
  refused. A server without an authenticator takes only clients without credentials.
\<close>

fun auth_outcome :: "server_obj \<Rightarrow> (cstring \<times> cstring) option \<Rightarrow> server_obj option" where
  "auth_outcome NoObj None = Some NoObj"
| "auth_outcome (AuthObj a auth) (Some (user, pass)) = map_option UserObj (admitted auth user pass)"
| "auth_outcome _ _ = None"

fun obj_ok :: "server_obj \<Rightarrow> bool" where
  "obj_ok (AuthObj a auth) \<longleftrightarrow> (\<exists>m. auth_rep auth m)"
| "obj_ok (UserObj u) \<longleftrightarrow> False"
| "obj_ok NoObj \<longleftrightarrow> True"

text \<open>The messages of the authentication.\<close>

abbreviation client_method :: "(cstring \<times> cstring) option \<Rightarrow> u8" where
  "client_method cr \<equiv> (if cr = None then 0 else 2)"

abbreviation server_method :: "server_obj \<Rightarrow> u8" where
  "server_method obj \<equiv> (if obj = NoObj then 0 else 2)"

fun creds_sent :: "(cstring \<times> cstring) option \<Rightarrow> u8 list" where
  "creds_sent None = []"
| "creds_sent (Some (user, pass)) = creds_bytes user pass"

fun cred_ok :: "(cstring \<times> cstring) option \<Rightarrow> bool" where
  "cred_ok None \<longleftrightarrow> True"
| "cred_ok (Some (user, pass)) \<longleftrightarrow> creds_ok user pass"

lemma read_method_burst:
  assumes "env_fd e = sv_fd self"
  shows "burst e (hev_socks5_server_read_auth_method self) [5, 1, x]
    (Ret (if x = server_method (sv_obj self) then uint x else -1)) [] [] []"
  using read_auth_method_burst [OF assms, of "[x]"] by (auto simp: Let_def)

lemma write_method_burst:
  "env_fd e = sv_fd self \<Longrightarrow> burst e (hev_socks5_server_write_auth_method self m) q (Ret 0) q [5, word_of_int m] []"
  unfolding hev_socks5_server_write_auth_method_def by (rule send_burst) simp_all

lemma write_auth_user_burst:
  "env_fd e = sv_fd self \<Longrightarrow> burst e (hev_socks5_server_write_auth_user self m) q (Ret 0) q [1, word_of_int m] []"
  unfolding hev_socks5_server_write_auth_user_def by (rule send_burst) simp_all

lemma server_auth_refuses_method:
  assumes "env_fd e = sv_fd self" and "x \<noteq> server_method (sv_obj self)"
  shows "burst e (hev_socks5_server_auth self) [5, 1, x] (Ret (self, -1)) [] [5, 255] []"
proof -
  note read = read_method_burst [OF assms(1), of x, unfolded if_not_P [OF assms(2)]]
  show ?thesis unfolding hev_socks5_server_auth_def
    by (rule burst_after [OF read], rule burst_after [OF write_method_burst [OF assms(1)]]) (simp_all add: burst_refl)
qed

lemma server_auth_none:
  assumes "env_fd e = sv_fd self" and "sv_obj self = NoObj"
  shows "burst e (hev_socks5_server_auth self) [5, 1, 0] (Ret (self, 0)) [] [5, 0] []"
proof -
  have read: "burst e (hev_socks5_server_read_auth_method self) [5, 1, 0] (Ret 0) [] [] []"
    using read_method_burst [OF assms(1), of 0] assms(2) by simp
  show ?thesis unfolding hev_socks5_server_auth_def
    by (rule burst_after [OF read], rule burst_after [OF write_method_burst [OF assms(1)]]) (simp_all add: burst_refl)
qed

lemma server_auth_user:
  assumes e: "env_fd e = sv_fd self" and obj: "sv_obj self = AuthObj a auth" "auth_rep auth m" and c: "creds_ok user pass"
  shows "\<exists>p. burst e (hev_socks5_server_auth self) [5, 1, 2] p [] [5, 2] [] \<and>
    burst e p (creds_bytes user pass)
      (Ret (case admitted auth user pass of None \<Rightarrow> (self, -1) | Some u \<Rightarrow> (self\<lparr>sv_obj := UserObj u\<rparr>, 0))) []
      [1, if admitted auth user pass = None then 255 else 0] []"
proof -
  let ?p = "io_bind (hev_socks5_server_read_auth_user self) (\<lambda>(self, res).
    io_bind (hev_socks5_server_write_auth_user self res) (\<lambda>res2. if res OR res2 < 0 then Ret (self, -1) else Ret (self, 0)))"
  have read: "burst e (hev_socks5_server_read_auth_method self) [5, 1, 2] (Ret 2) [] [] []"
    using read_method_burst [OF e, of 2] obj by simp
  have "burst e (hev_socks5_server_auth self) [5, 1, 2] ?p [] [5, 2] []"
    unfolding hev_socks5_server_auth_def
    by (rule burst_after [OF read], rule burst_after [OF write_method_burst [OF e]]) (simp_all add: burst_refl)
  moreover have "burst e ?p (creds_bytes user pass)
      (Ret (case admitted auth user pass of None \<Rightarrow> (self, -1) | Some u \<Rightarrow> (self\<lparr>sv_obj := UserObj u\<rparr>, 0))) []
      [1, if admitted auth user pass = None then 255 else 0] []"
    by (rule burst_after [OF read_auth_user_burst [OF e c obj]], cases "admitted auth user pass")
      (auto simp: e intro!: burst_after [OF write_auth_user_burst] burst_refl)
  ultimately show ?thesis by blast
qed

section \<open>The destination\<close>

text \<open>
  The socket address that the server finds for a destination, and its family: numeric ones as
  they are, names by \<open>inet_pton\<close> and then by the resolver of its environment.
\<close>

fun dest_answer :: "pton \<Rightarrow> env \<Rightarrow> int \<Rightarrow> dest \<Rightarrow> (sockaddr_in6 \<times> int) option" where
  "dest_answer pton e family (Domain name port) =
     (let found = (\<lambda>a f. Some (\<lparr>sin6_family = AF_INET6, sin6_port = port, sin6_addr = a\<rparr>, f))
      in case pton AF_INET name of Some b \<Rightarrow> found (v4mapped b) HEV_SOCKS5_ADDR_FAMILY_IPV4
      | None \<Rightarrow> (case pton AF_INET6 name of Some b \<Rightarrow> found b HEV_SOCKS5_ADDR_FAMILY_IPV6
      | None \<Rightarrow> (case env_resolve e name family of
          Some (f, sa) \<Rightarrow>
            if f = AF_INET \<and> 4 \<le> length sa then found (v4mapped (take 4 sa)) HEV_SOCKS5_ADDR_FAMILY_IPV4
            else if f = AF_INET6 \<and> 16 \<le> length sa then found (take 16 sa) HEV_SOCKS5_ADDR_FAMILY_IPV6
            else None
        | None \<Rightarrow> None)))"
| "dest_answer pton e family d = Some (dest_saddr d, dest_family d)"

lemma htons_ntohs [simp]: "htons (ntohs p) = p"
  by (simp add: swap16_swap16)

lemma v4_write_swap:
  assumes "length s6 = 16" and "length ip = 4"
  shows "(memcpy_at (memcpy_at s6 0 (replicate 10 0)) 12 ip)[10 := 0xff, 11 := 0xff] = v4mapped ip"
  unfolding v4_write [OF assms, symmetric] using assms by (simp add: memcpy_at_def list_update_append take_update_swap)

lemma saddr_set [simp]: "(s :: sockaddr_in6)\<lparr>sin6_family := f, sin6_port := p, sin6_addr := a\<rparr> = \<lparr>sin6_family = f, sin6_port = p, sin6_addr = a\<rparr>"
  by (cases s) simp

lemma name_into_burst:
  assumes "pton_ok pton" and "length (sin6_addr stk) = 16" and "dest_answer pton e family (Domain name port) = Some (s, f)"
  shows "burst e (hev_socks5_name_into_sockaddr6 pton name (ntohs port) stk family) q (Ret (s, f, 0)) q [] []"
proof (cases "pton AF_INET name")
  case (Some b)
  then have "length b = 4" using assms(1) by (auto simp: pton_ok_def)
  with Some assms(2,3) show ?thesis
    by (auto simp: hev_socks5_name_into_sockaddr6_def hev_socks5_name_resolve_ipv4_def v4_write_swap Let_def intro: burst_refl)
next
  case None
  show ?thesis
  proof (cases "pton AF_INET6 name")
    case (Some b)
    then have "length b = 16" using assms(1) by (auto simp: pton_ok_def)
    with None Some assms(2,3) show ?thesis
      by (auto simp: hev_socks5_name_into_sockaddr6_def hev_socks5_name_resolve_ipv4_def hev_socks5_name_resolve_ipv6_def
        memcpy_at_0 Let_def intro: burst_refl)
  next
    case None6: None
    with None assms(2,3) show ?thesis
      by (auto simp: hev_socks5_name_into_sockaddr6_def hev_socks5_name_resolve_ipv4_def hev_socks5_name_resolve_ipv6_def
        hev_socks5_name_resolve_name_def memcpy_at_0 v4_write [unfolded memcpy_at_0, simplified] Let_def split: option.splits if_splits intro!: burst_local burst_refl)
  qed
qed

lemma addr_into_burst:
  assumes "addr_is d addr" and "pton_ok pton" and "length (sin6_addr stk) = 16" and "dest_answer pton e family d = Some (s, f)"
  shows "burst e (hev_socks5_addr_into_sockaddr6 pton addr stk family) q (Ret (s, f, 0)) q [] []"
proof (cases "is_domain d")
  case True
  then obtain name port where "d = Domain name port" by (cases d) auto
  with assms show ?thesis by (simp add: into_sockaddr6_domain name_into_burst del: dest_answer.simps)
next
  case False
  with assms show ?thesis by (cases d) (auto simp: into_sockaddr6_numeric intro: burst_refl)
qed

lemma dest_answer_len:
  assumes "dest_answer pton e family d = Some (s, f)" and "dest_ok d" and "pton_ok pton"
  shows "length (sin6_addr s) = 16"
  using assms by (cases d) (auto simp: Let_def v4mapped_def pton_ok_def split: option.splits if_splits)

section \<open>The request\<close>

lemma read_request_burst:
  assumes e: "env_fd e = sv_fd self" and d: "dest_ok d" and p: "pton_ok pton" and l: "length (sin6_addr (rq_addr rq)) = 16"
    and s: "dest_answer pton e (s5_addr_family (sv_base self)) d = Some (s, f)"
  shows "burst e (hev_socks5_server_read_request pton self rq) ([5, cmd, 0] @ dest_bytes d)
    (Ret (self\<lparr>sv_base := hev_socks5_set_addr_family (sv_base self) f\<rparr>, rq\<lparr>rq_addr := s, rq_cmd := Some cmd\<rparr>, 0)) [] [] []"
proof -
  obtain t x bs where b: "dest_bytes d = t # x # bs"
    using dest_bytes_len [OF d] by (cases "dest_bytes d" rule: remdups_adj.cases) auto
  have a: "addr_is d ([t, x] @ bs)" using d b by (simp add: addr_is_def)
  have b': "length bs + 2 = length (dest_bytes d)" "t = dest_bytes d ! 0" "x = dest_bytes d ! 1" by (simp_all add: b)
  have n: "length bs = (if t = 1 then 5 else if t = 4 then 17 else 2 + unat x)" "t = 1 \<or> t = 4 \<or> t = 3"
    using d b' by (cases d; simp)+
  let ?res = "Ret (self\<lparr>sv_base := hev_socks5_set_addr_family (sv_base self) f\<rparr>, rq\<lparr>rq_addr := s, rq_cmd := Some cmd\<rparr>, 0)"
  have rest: "burst e (Recv (sv_fd self) (length bs) Waitall (\<lambda>r.
      if rx_res r \<noteq> int (length bs) then Ret (self, rq\<lparr>rq_rep := HEV_SOCKS5_RES_REP_ADDR\<rparr>, 0)
      else io_bind (hev_socks5_addr_into_sockaddr6 pton ([t, x] @ rx_data r) (rq_addr rq) (hev_socks5_get_addr_family (sv_base self)))
        (\<lambda>(saddr, addr_family, res).
           if res < 0 then Ret (self, rq\<lparr>rq_addr := saddr, rq_rep := HEV_SOCKS5_RES_REP_ADDR\<rparr>, 0)
           else Ret (self\<lparr>sv_base := hev_socks5_set_addr_family (sv_base self) addr_family\<rparr>,
             rq\<lparr>rq_addr := saddr, rq_cmd := Some cmd\<rparr>, 0)))) bs ?res [] [] []"
    by (rule burst_recv_take [OF e], simp)
      (auto simp: hev_socks5_get_addr_family_def intro!: burst_after [OF addr_into_burst [OF a p l s, simplified]] burst_refl)
  have "burst e (hev_socks5_server_read_request pton self rq) ([5, cmd, 0, t, x] @ bs) ?res [] [] []"
    unfolding hev_socks5_server_read_request_def using n rest
    by (intro burst_recv [OF e]) (auto simp: Let_def split: if_splits cong: if_cong)
  then show ?thesis by (simp add: b)
qed

text \<open>The state of the server's environment in which it can open a connection.\<close>

definition can_connect :: "env \<Rightarrow> bool" where
  "can_connect e \<longleftrightarrow> 0 \<le> env_socket e \<and> 0 \<le> env_setsockopt e \<and> 0 \<le> env_connect e"

lemma socket_burst:
  "0 \<le> env_socket e \<Longrightarrow> 0 \<le> env_setsockopt e \<Longrightarrow> burst e (hev_socks5_socket c SOCK_STREAM) q (Ret (env_socket e)) q [] []"
  by (auto simp: hev_socks5_socket_def Let_def intro!: burst_local burst_refl)

definition server_connected :: "env \<Rightarrow> socks5_settings \<Rightarrow> HevSocks5Server \<Rightarrow> HevSocks5Server" where
  "server_connected e c self =
     self\<lparr>sv_base := hev_socks5_set_timeout (sv_base self) (hev_socks5_get_tcp_timeout c), sv_fds0 := env_socket e\<rparr>"

lemma server_connect_burst:
  "can_connect e \<Longrightarrow> burst e (hev_socks5_server_connect hev_socks5_bind c self s) q
    (Ret (server_connected e c self, 0)) q [] [s]"
  unfolding hev_socks5_server_connect_def can_connect_def
  by (rule burst_after [OF socket_burst])
    (auto simp: hev_socks5_bind_def server_connected_def hev_socks5_set_timeout_def Let_def intro!: burst_connect burst_refl)

lemma server_reply_burst:
  assumes "env_fd e = sv_fd self" and "length (sin6_addr s) = 16"
  shows "burst e (server_reply self 0 s) q (Ret (self, 0)) q (reply_bytes s) []"
proof -
  have "19 \<le> length (replicate addr_size (0 :: u8))" by (simp add: addr_size_def)
  from addr_from_sockaddr6 [OF assms(2) this]
  have "take (nat (snd (hev_socks5_addr_from_sockaddr6 (replicate addr_size 0) s)))
      (fst (hev_socks5_addr_from_sockaddr6 (replicate addr_size 0) s)) = dest_bytes (saddr_dest s)"
    by (simp add: addr_is_def)
  then have "burst e (hev_socks5_server_write_response self 0 s) q (Ret 0) q (reply_bytes s) []"
    unfolding hev_socks5_server_write_response_def using assms(1)
    by (auto simp: case_prod_beta Let_def intro!: send_burst [of _ _ "_ # _", simplified])
  then show ?thesis unfolding server_reply_def by (rule burst_after) (auto intro: burst_refl)
qed

text \<open>The server from a request to connect to its reply.\<close>

definition server_session :: "env \<Rightarrow> socks5_settings \<Rightarrow> int \<Rightarrow> HevSocks5Server \<Rightarrow> HevSocks5Server" where
  "server_session e c f self =
     set_type (server_connected e c (self\<lparr>sv_base := hev_socks5_set_addr_family (sv_base self) f\<rparr>)) HEV_SOCKS5_TYPE_TCP"

lemma server_request_burst:
  assumes e: "env_fd e = sv_fd self" "can_connect e" and d: "dest_ok d" and p: "pton_ok pton" and l: "length (sin6_addr stk) = 16"
    and s: "dest_answer pton e (s5_addr_family (sv_base self)) d = Some (s, f)"
  shows "burst e (io_bind (hev_socks5_server_read_request pton self \<lparr>rq_cmd = None, rq_rep = 0, rq_addr = stk\<rparr>)
      (\<lambda>(self, rq, res). if res < 0 then Ret (self, -1) else server_request hev_socks5_bind c self rq))
    ([5, 1, 0] @ dest_bytes d) (Ret (server_session e c f self, 0)) [] (reply_bytes s) [s]"
proof (rule burst_after [OF read_request_burst [OF e(1) d p _ s]])
  let ?self = "self\<lparr>sv_base := hev_socks5_set_addr_family (sv_base self) f\<rparr>"
  have "env_fd e = sv_fd (server_session e c f self)"
    using e(1) by (simp add: server_session_def set_type_def server_connected_def hev_socks5_set_addr_family_def hev_socks5_set_timeout_def)
  note reply = server_reply_burst [OF this dest_answer_len [OF s d p], of "[]", unfolded server_session_def]
  have "burst e (io_bind (hev_socks5_server_connect hev_socks5_bind c ?self s) (\<lambda>(self, res).
      server_reply (set_type self HEV_SOCKS5_TYPE_TCP) (if res < 0 then HEV_SOCKS5_RES_REP_HOST else HEV_SOCKS5_RES_REP_SUCC) s)) []
    (Ret (server_session e c f self, 0)) [] (reply_bytes s) [s]"
    by (rule burst_after [OF server_connect_burst [OF e(2)]]) (use reply in \<open>simp_all add: server_session_def\<close>)
  then show "burst e (case (?self, \<lparr>rq_cmd = None, rq_rep = 0, rq_addr = stk\<rparr>\<lparr>rq_addr := s, rq_cmd := Some 1\<rparr>, 0 :: int) of
      (self, rq, res) \<Rightarrow> if res < 0 then Ret (self, -1) else server_request hev_socks5_bind c self rq) []
    (Ret (server_session e c f self, 0)) [] (reply_bytes s) [s]"
    by (simp add: server_request_def)
qed (use l in simp_all)

section \<open>The client\<close>

definition client_creds :: "HevSocks5Client \<Rightarrow> (cstring \<times> cstring) option" where
  "client_creds self = (case (cl_user self, cl_pass self) of (Some user, Some pass) \<Rightarrow> Some (user, pass) | _ \<Rightarrow> None)"

lemma write_methods_burst:
  "env_fd e = cl_fd self \<Longrightarrow>
   burst e (hev_socks5_client_write_auth_methods self) q (Ret 0) q [5, 1, client_method (client_creds self)] []"
  unfolding hev_socks5_client_write_auth_methods_def Let_def
  by (cases "cl_user self"; cases "cl_pass self") (auto simp: client_creds_def intro!: send_burst)

lemma write_creds_burst:
  assumes "env_fd e = cl_fd self" and "cred_ok (client_creds self)"
  shows "burst e (hev_socks5_client_write_auth_creds self) q (Ret 0) q (creds_sent (client_creds self)) []"
proof (cases "client_creds self")
  case None
  then show ?thesis
    by (auto simp: hev_socks5_client_write_auth_creds_def client_creds_def burst_refl split: option.splits)
next
  case (Some up)
  then show ?thesis using assms
    by (cases up) (auto simp: hev_socks5_client_write_auth_creds_def client_creds_def Let_def creds_bytes_def creds_ok_def
      split: option.splits intro!: send_burst)
qed

lemma read_method_reply_burst:
  "env_fd e = cl_fd self \<Longrightarrow> burst e (hev_socks5_client_read_auth_method self) [5, x] (Ret (uint x)) [] [] []"
  unfolding hev_socks5_client_read_auth_method_def
  by (rule burst_recv_take) (auto intro: burst_refl)

lemma read_creds_reply_burst:
  "env_fd e = cl_fd self \<Longrightarrow>
   burst e (hev_socks5_client_read_auth_creds self) [1, x] (Ret (if x = 0 then 0 else -1)) [] [] []"
  unfolding hev_socks5_client_read_auth_creds_def
  by (rule burst_recv_take) (auto intro: burst_refl)

text \<open>A TCP client that has not sent its request yet.\<close>

definition client_for :: "env \<Rightarrow> HevSocks5Client \<Rightarrow> dest \<Rightarrow> bool" where
  "client_for e self d \<longleftrightarrow> env_fd e = cl_fd self \<and> s5_type (cl_base self) = HEV_SOCKS5_TYPE_TCP \<and> dest_ok d \<and>
     cred_ok (client_creds self) \<and> (\<exists>p. cl_kind self = ClientTCP (Some (p, dest_bytes d)))"

abbreviation client_sent :: "HevSocks5Client \<Rightarrow> HevSocks5Client" where
  "client_sent self \<equiv> self\<lparr>cl_kind := ClientTCP None\<rparr>"

abbreviation request_bytes :: "dest \<Rightarrow> u8 list" where
  "request_bytes d \<equiv> [5, 1, 0] @ dest_bytes d"

lemma write_request_burst:
  assumes "client_for e self d"
  shows "burst e (hev_socks5_client_write_request self) q (Ret (client_sent self, 0)) q (request_bytes d) []"
proof -
  from assms obtain p where c: "env_fd e = cl_fd self" "s5_type (cl_base self) = HEV_SOCKS5_TYPE_TCP" "dest_ok d"
    "cl_kind self = ClientTCP (Some (p, dest_bytes d))" by (auto simp: client_for_def)
  have "burst e (Send (cl_fd self) (request_bytes d) (\<lambda>ret. if ret \<le> 0 then Ret (client_sent self, -1)
      else Free p (Ret (client_sent self, 0)))) q (Ret (client_sent self, 0)) q (request_bytes d @ []) []"
    by (rule burst_send [OF c(1)]) (auto intro: burst_local burst_refl)
  then show ?thesis using c
    by (cases d) (auto simp: hev_socks5_client_write_request_def get_upstream_addr_def
      hev_socks5_client_tcp_get_upstream_addr_def addr_atype_def domain_len_def)
qed

lemma read_response_burst:
  assumes "env_fd e = cl_fd self" and "cl_kind self = ClientTCP x" and "length (sin6_addr s) = 16"
  shows "burst e (hev_socks5_client_read_response (set_upstream_addr pton bindf c) self) (reply_bytes s) (Ret (self, 0)) [] [] []"
proof -
  obtain t bs where b: "dest_bytes (saddr_dest s) = t # bs" by (cases "saddr_dest s") auto
  have n: "(t = 1 \<and> length bs = 6) \<or> (t = 4 \<and> length bs = 18)"
    using saddr_dest_ok [OF assms(3)] arg_cong [OF b, of length] arg_cong [OF b, of hd] by (cases "saddr_dest s") auto
  have rest: "burst e (Recv (cl_fd self) (length bs) Waitall (\<lambda>r.
      if rx_res r \<noteq> int (length bs) then Ret (self, -1)
      else io_bind (set_upstream_addr pton bindf c self (t # rx_data r)) (\<lambda>(self, ret).
        if ret < 0 then Ret (self, -1) else Ret (self, 0)))) bs (Ret (self, 0)) [] [] []"
    by (rule burst_recv_take [OF assms(1)])
      (auto simp: set_upstream_addr_def assms(2) hev_socks5_client_tcp_set_upstream_addr_def intro: burst_refl)
  have "burst e (hev_socks5_client_read_response (set_upstream_addr pton bindf c) self) ([5, 0, 0, t] @ bs) (Ret (self, 0)) [] [] []"
    unfolding hev_socks5_client_read_response_def using n rest
    by (intro burst_recv [OF assms(1)]) (auto simp: Let_def split: if_splits cong: if_cong)
  then show ?thesis by (simp add: b)
qed

text \<open>
  The phases of the client, for credentials \<open>cr\<close> and a destination \<open>d\<close>: it sends, reacts to the
  method, to the answer to its credentials and to the reply. Either it sends its three messages
  one at a time or all of them at once, before it has read anything. A refusal ends it.
\<close>

definition client_plays ::
  "env \<Rightarrow> (HevSocks5Client \<times> int) io \<Rightarrow> (cstring \<times> cstring) option \<Rightarrow> dest \<Rightarrow> HevSocks5Client \<Rightarrow> bool" where
  "client_plays e p cr d self' \<longleftrightarrow> (\<exists>CA CB CC o1 o2 o3 x.
     (o1 = [5, 1, client_method cr] \<and> o2 = creds_sent cr \<and> o3 = request_bytes d \<or>
      o1 = [5, 1, client_method cr] @ creds_sent cr @ request_bytes d \<and> o2 = [] \<and> o3 = []) \<and>
     s5_type (cl_base x) = HEV_SOCKS5_TYPE_TCP \<and>
     burst e p [] CA [] o1 [] \<and>
     burst e CA [5, client_method cr] CB [] o2 [] \<and>
     burst e CA [5, 255] (Ret (x, -1)) [] [] [] \<and>
     burst e CB (if cr = None then [] else [1, 0]) CC [] o3 [] \<and>
     (cr \<noteq> None \<longrightarrow> burst e CB [1, 255] (Ret (x, -1)) [] [] []) \<and>
     (\<forall>s. length (sin6_addr s) = 16 \<longrightarrow> burst e CC (reply_bytes s) (Ret (self', 0)) [] [] []))"

lemma client_playsI:
  assumes "o1 = [5, 1, client_method cr] \<and> o2 = creds_sent cr \<and> o3 = request_bytes d \<or>
      o1 = [5, 1, client_method cr] @ creds_sent cr @ request_bytes d \<and> o2 = [] \<and> o3 = []"
    and "s5_type (cl_base x) = HEV_SOCKS5_TYPE_TCP"
    and "burst e p [] CA [] o1 []"
    and "burst e CA [5, client_method cr] CB [] o2 []"
    and "burst e CA [5, 255] (Ret (x, -1)) [] [] []"
    and "burst e CB (if cr = None then [] else [1, 0]) CC [] o3 []"
    and "cr \<noteq> None \<Longrightarrow> burst e CB [1, 255] (Ret (x, -1)) [] [] []"
    and "\<And>s. length (sin6_addr s) = 16 \<Longrightarrow> burst e CC (reply_bytes s) (Ret (self', 0)) [] [] []"
  shows "client_plays e p cr d self'"
  unfolding client_plays_def using assms by blast

lemma client_plays_bind:
  assumes "client_plays e p cr d self'" and "s5_type (cl_base self') = HEV_SOCKS5_TYPE_TCP"
    and k: "\<And>x r. s5_type (cl_base x) = HEV_SOCKS5_TYPE_TCP \<Longrightarrow> k (x, r) = Ret (x, r)"
  shows "client_plays e (io_bind p k) cr d self'"
proof -
  from assms(1) obtain CA CB CC o1 o2 o3 x where p:
    "o1 = [5, 1, client_method cr] \<and> o2 = creds_sent cr \<and> o3 = request_bytes d \<or>
      o1 = [5, 1, client_method cr] @ creds_sent cr @ request_bytes d \<and> o2 = [] \<and> o3 = []"
    "s5_type (cl_base x) = HEV_SOCKS5_TYPE_TCP" "burst e p [] CA [] o1 []"
    "burst e CA [5, client_method cr] CB [] o2 []" "burst e CA [5, 255] (Ret (x, -1)) [] [] []"
    "burst e CB (if cr = None then [] else [1, 0]) CC [] o3 []"
    "cr \<noteq> None \<longrightarrow> burst e CB [1, 255] (Ret (x, -1)) [] [] []"
    "\<And>s. length (sin6_addr s) = 16 \<Longrightarrow> burst e CC (reply_bytes s) (Ret (self', 0)) [] [] []"
    unfolding client_plays_def by blast
  have fin: "burst e (io_bind D k) q (Ret (y, r)) [] [] []"
    if "burst e D q (Ret (y, r)) [] [] []" "s5_type (cl_base y) = HEV_SOCKS5_TYPE_TCP" for D q y r
    using burst_bind [OF that(1), of k] k [OF that(2)] by simp
  note b = p(3,4,6) [THEN burst_bind, of k]
  show ?thesis
    by (rule client_playsI [OF p(1,2) b(1,2) fin b(3)]) (use p fin assms(2) in auto)
qed

lemma standard_plays:
  assumes c: "client_for e self d"
  shows "client_plays e (hev_socks5_client_handshake_standard (set_upstream_addr pton bindf st) self) (client_creds self) d (client_sent self)"
proof -
  let ?request = "io_bind (hev_socks5_client_write_request self) (\<lambda>(self, res). if res < 0 then Ret (self, -1)
    else io_bind (hev_socks5_client_read_response (set_upstream_addr pton bindf st) self) (\<lambda>(self, res). if res < 0 then Ret (self, -1) else Ret (self, 0)))"
  let ?CB = "if client_creds self = None then ?request
    else io_bind (hev_socks5_client_read_auth_creds self) (\<lambda>res. if res < 0 then Ret (self, -1) else ?request)"
  let ?K = "\<lambda>res. if res < 0 then Ret (self, -1) else if res = HEV_SOCKS5_AUTH_METHOD_USER then
         io_bind (hev_socks5_client_write_auth_creds self) (\<lambda>res. if res < 0 then Ret (self, -1)
         else io_bind (hev_socks5_client_read_auth_creds self) (\<lambda>res. if res < 0 then Ret (self, -1) else ?request))
       else if res \<noteq> HEV_SOCKS5_AUTH_METHOD_NONE then Ret (self, -1)
       else ?request"
  let ?CA = "io_bind (hev_socks5_client_read_auth_method self) ?K"
  let ?CC = "io_bind (hev_socks5_client_read_response (set_upstream_addr pton bindf st) (client_sent self)) (\<lambda>(self, res).
    if res < 0 then Ret (self, -1) else Ret (self, 0))"
  note e = c [unfolded client_for_def, THEN conjunct1] and cr = c [unfolded client_for_def, THEN conjunct2, THEN conjunct2, THEN conjunct2, THEN conjunct1]
  have request: "burst e ?request [] ?CC [] (request_bytes d) []"
    by (rule burst_after [OF write_request_burst [OF c]]) (auto intro: burst_refl)
  show ?thesis
  proof (rule client_playsI [where CA = ?CA and CB = ?CB and CC = ?CC and x = self])
    show "burst e (hev_socks5_client_handshake_standard (set_upstream_addr pton bindf st) self) [] ?CA [] [5, 1, client_method (client_creds self)] []"
      unfolding hev_socks5_client_handshake_standard_def Let_def
      by (rule burst_after [OF write_methods_burst [OF e]]) (auto intro: burst_refl)
    show "burst e ?CA [5, client_method (client_creds self)] ?CB [] (creds_sent (client_creds self)) []"
      by (rule burst_after [OF read_method_reply_burst [OF e]])
        (auto intro!: burst_refl burst_after [OF write_creds_burst [OF e cr]])
    show "burst e ?CA [5, 255] (Ret (self, -1)) [] [] []"
      by (rule burst_after [OF read_method_reply_burst [OF e]]) (auto intro: burst_refl)
    show "burst e ?CB (if client_creds self = None then [] else [1, 0]) ?CC [] (request_bytes d) []"
      using request by (auto intro!: burst_after [OF read_creds_reply_burst [OF e]])
    show "burst e ?CB [1, 255] (Ret (self, -1)) [] [] []" if "client_creds self \<noteq> None"
      using that by (auto intro!: burst_refl burst_after [OF read_creds_reply_burst [OF e]])
    show "burst e ?CC (reply_bytes s) (Ret (client_sent self, 0)) [] [] []" if "length (sin6_addr s) = 16" for s
      by (rule burst_after [OF read_response_burst]) (use e that in \<open>auto intro: burst_refl\<close>)
  qed (use c in \<open>auto simp: client_for_def\<close>)
qed

lemma pipeline_plays:
  assumes c: "client_for e self d"
  shows "client_plays e (hev_socks5_client_handshake_pipeline (set_upstream_addr pton bindf st) self) (client_creds self) d (client_sent self)"
proof -
  let ?self = "client_sent self"
  let ?CC = "io_bind (hev_socks5_client_read_response (set_upstream_addr pton bindf st) ?self) (\<lambda>(self, res).
    if res < 0 then Ret (self, -1) else Ret (self, 0))"
  let ?creds = "io_bind (hev_socks5_client_read_auth_creds ?self) (\<lambda>res. if res < 0 then Ret (?self, -1) else ?CC)"
  let ?CB = "if client_creds self = None then ?CC else ?creds"
  let ?CA = "io_bind (hev_socks5_client_read_auth_method ?self) (\<lambda>res. if res < 0 then Ret (?self, -1)
    else if res = HEV_SOCKS5_AUTH_METHOD_USER then ?creds
    else if res \<noteq> HEV_SOCKS5_AUTH_METHOD_NONE then Ret (?self, -1)
    else ?CC)"
  note e = c [unfolded client_for_def, THEN conjunct1] and cr = c [unfolded client_for_def, THEN conjunct2, THEN conjunct2, THEN conjunct2, THEN conjunct1]
  then have e': "env_fd e = cl_fd ?self" by simp
  show ?thesis
  proof (rule client_playsI [where CA = ?CA and CB = ?CB and CC = ?CC and x = ?self])
    show "burst e (hev_socks5_client_handshake_pipeline (set_upstream_addr pton bindf st) self) [] ?CA []
        ([5, 1, client_method (client_creds self)] @ creds_sent (client_creds self) @ request_bytes d) []"
      unfolding hev_socks5_client_handshake_pipeline_def Let_def
      by (rule burst_after [OF write_methods_burst [OF e]])
        (auto intro!: burst_refl burst_after [OF write_creds_burst [OF e cr]] burst_after [OF write_request_burst [OF c]])
    show "burst e ?CA [5, client_method (client_creds self)] ?CB [] [] []"
      by (rule burst_after [OF read_method_reply_burst [OF e']]) (auto intro: burst_refl)
    show "burst e ?CA [5, 255] (Ret (?self, -1)) [] [] []"
      by (rule burst_after [OF read_method_reply_burst [OF e']]) (auto intro: burst_refl)
    show "burst e ?CB (if client_creds self = None then [] else [1, 0]) ?CC [] [] []"
      by (auto intro!: burst_refl burst_after [OF read_creds_reply_burst [OF e']])
    show "burst e ?CB [1, 255] (Ret (?self, -1)) [] [] []" if "client_creds self \<noteq> None"
      using that by (auto intro!: burst_refl burst_after [OF read_creds_reply_burst [OF e']])
    show "burst e ?CC (reply_bytes s) (Ret (?self, 0)) [] [] []" if "length (sin6_addr s) = 16" for s
      by (rule burst_after [OF read_response_burst]) (use e that in \<open>auto intro: burst_refl\<close>)
  qed (use c in \<open>auto simp: client_for_def\<close>)
qed

definition client_done :: "socks5_settings \<Rightarrow> HevSocks5Client \<Rightarrow> HevSocks5Client" where
  "client_done c self = client_sent (self\<lparr>cl_base := hev_socks5_set_timeout (cl_base self) (hev_socks5_get_tcp_timeout c)\<rparr>)"

lemma handshake_plays:
  assumes "client_for e self d"
  shows "client_plays e (hev_socks5_client_handshake (set_upstream_addr pton bindf st) st self pipeline) (client_creds self) d (client_done st self)"
proof -
  let ?self = "self\<lparr>cl_base := hev_socks5_set_timeout (cl_base self) (hev_socks5_get_tcp_timeout st)\<rparr>"
  have c: "client_for e ?self d" and cr: "client_creds ?self = client_creds self"
    using assms by (auto simp: client_for_def client_creds_def hev_socks5_set_timeout_def)
  then have t: "s5_type (cl_base (client_sent ?self)) = HEV_SOCKS5_TYPE_TCP" by (simp add: client_for_def)
  have "client_plays e (if pipeline then hev_socks5_client_handshake_pipeline (set_upstream_addr pton bindf st) ?self
    else hev_socks5_client_handshake_standard (set_upstream_addr pton bindf st) ?self) (client_creds self) d (client_sent ?self)"
    using pipeline_plays [OF c] standard_plays [OF c] by (simp add: cr)
  from client_plays_bind [OF this t] show ?thesis
    unfolding hev_socks5_client_handshake_def Let_def client_done_def by simp
qed

section \<open>The phases of the server\<close>

text \<open>
  The phases of the server for a client with credentials \<open>cr\<close>: admitted, it answers the method and
  the credentials and goes on with \<open>rest\<close>; refused, it answers and fails.
\<close>

lemma server_admits:
  assumes e: "env_fd e = sv_fd self" and obj: "obj_ok (sv_obj self)" and cr: "cred_ok cr"
    and "auth_outcome (sv_obj self) cr = Some obj"
  shows "\<exists>p. burst e (hev_socks5_server_auth self) [5, 1, client_method cr] p [] [5, client_method cr] [] \<and>
    burst e p (creds_sent cr) (Ret (self\<lparr>sv_obj := obj\<rparr>, 0)) [] (if cr = None then [] else [1, 0]) []"
proof (cases cr)
  case None
  with assms(4) have "sv_obj self = NoObj" "obj = NoObj" by (auto elim: auth_outcome.elims)
  moreover from this have "self\<lparr>sv_obj := obj\<rparr> = self" by simp
  then have "burst e (Ret (self, 0)) [] (Ret (self\<lparr>sv_obj := obj\<rparr>, 0)) [] [] []" by (simp only: burst_refl)
  ultimately show ?thesis using server_auth_none [OF e] None by (intro exI [of _ "Ret (self, 0)"]) simp
next
  case (Some up)
  with assms(4) obtain user pass a auth u where
    *: "cr = Some (user, pass)" "sv_obj self = AuthObj a auth" "admitted auth user pass = Some u" "obj = UserObj u"
    by (cases up; cases "sv_obj self") auto
  from * obj obtain m where "auth_rep auth m" by auto
  from server_auth_user [OF e *(2) this, of user pass] * cr show ?thesis by auto
qed

lemma server_refuses:
  assumes e: "env_fd e = sv_fd self" and obj: "obj_ok (sv_obj self)" and cr: "cred_ok cr"
    and "auth_outcome (sv_obj self) cr = None"
  shows "burst e (hev_socks5_server_auth self) [5, 1, client_method cr] (Ret (self, -1)) [] [5, 255] [] \<or>
    cr \<noteq> None \<and> (\<exists>p. burst e (hev_socks5_server_auth self) [5, 1, client_method cr] p [] [5, client_method cr] [] \<and>
    burst e p (creds_sent cr) (Ret (self, -1)) [] [1, 255] [])"
proof (cases "client_method cr = server_method (sv_obj self)")
  case False
  from server_auth_refuses_method [OF e False] show ?thesis ..
next
  case True
  with assms(4) obj obtain user pass a auth m where
    *: "cr = Some (user, pass)" "sv_obj self = AuthObj a auth" "admitted auth user pass = None" "auth_rep auth m"
    by (cases "sv_obj self"; cases cr) (auto split: if_splits)
  from server_auth_user [OF e *(2,4), of user pass] * cr show ?thesis by auto
qed

section \<open>The dialogue\<close>

lemma turn_left:
  "burst el p q p' [] s a \<Longrightarrow> (moves (left_step el) (right_step er))\<^sup>*\<^sup>*
     \<lparr>lk_left = p, lk_right = r, lk_lr = lr, lk_rl = q @ x, lk_lcalls = la, lk_rcalls = ra\<rparr>
     \<lparr>lk_left = p', lk_right = r, lk_lr = lr @ s, lk_rl = x, lk_lcalls = la @ a, lk_rcalls = ra\<rparr>"
  using burst_left [OF burst_more [of el p q p' "[]" s a x],
    of "\<lparr>lk_left = p, lk_right = r, lk_lr = lr, lk_rl = q @ x, lk_lcalls = la, lk_rcalls = ra\<rparr>" er] by simp

lemma turn_right:
  "burst er p q p' [] s a \<Longrightarrow> (moves (left_step el) (right_step er))\<^sup>*\<^sup>*
     \<lparr>lk_left = r, lk_right = p, lk_lr = q @ x, lk_rl = rl, lk_lcalls = la, lk_rcalls = ra\<rparr>
     \<lparr>lk_left = r, lk_right = p', lk_lr = x, lk_rl = rl @ s, lk_lcalls = la, lk_rcalls = ra @ a\<rparr>"
  using burst_right [OF burst_more [of er p q p' "[]" s a x],
    of "\<lparr>lk_left = r, lk_right = p, lk_lr = q @ x, lk_rl = rl, lk_lcalls = la, lk_rcalls = ra\<rparr>" el] by simp

definition session_start :: "('s \<times> int) io \<Rightarrow> ('t \<times> int) io \<Rightarrow> ('s \<times> int, 't \<times> int) link" where
  "session_start p r = \<lparr>lk_left = p, lk_right = r, lk_lr = [], lk_rl = [], lk_lcalls = [], lk_rcalls = []\<rparr>"

definition session_end :: "'s \<times> int \<Rightarrow> 't \<times> int \<Rightarrow> u8 list \<Rightarrow> sockaddr_in6 list \<Rightarrow> ('s \<times> int, 't \<times> int) link" where
  "session_end x y unread calls =
     \<lparr>lk_left = Ret x, lk_right = Ret y, lk_lr = unread, lk_rl = [], lk_lcalls = [], lk_rcalls = calls\<rparr>"

lemma session_ends:
  "(moves (left_step el) (right_step er))\<^sup>*\<^sup>* (session_start p r) (session_end x y unread calls) \<Longrightarrow>
   ends_in (left_step el) (right_step er) (session_start p r) (session_end x y unread calls)"
  by (rule ends.one_run_decides) (simp_all add: session_end_def left_step_def right_step_def)

lemma dialogue_ok:
  assumes "client_plays el p cr d c'"
    and auth: "burst er r [5, 1, client_method cr] r1 [] [5, client_method cr] []"
    and creds: "burst er r1 (creds_sent cr) r2 [] (if cr = None then [] else [1, 0]) []"
    and request: "burst er r2 (request_bytes d) (Ret (s', 0)) [] (reply_bytes s) [s]" and s: "length (sin6_addr s) = 16"
  shows "ends_in (left_step el) (right_step er) (session_start p r) (session_end (c', 0) (s', 0) [] [s])"
proof (rule session_ends)
  let ?L = "\<lambda>p r lr rl ra. \<lparr>lk_left = p, lk_right = r, lk_lr = lr, lk_rl = rl, lk_lcalls = [], lk_rcalls = ra\<rparr>"
  from assms(1) obtain CA CB CC o1 o2 o3 x where p:
    "o1 = [5, 1, client_method cr] \<and> o2 = creds_sent cr \<and> o3 = request_bytes d \<or>
      o1 = [5, 1, client_method cr] @ creds_sent cr @ request_bytes d \<and> o2 = [] \<and> o3 = []"
    "burst el p [] CA [] o1 []" "burst el CA [5, client_method cr] CB [] o2 []"
    "burst el CB (if cr = None then [] else [1, 0]) CC [] o3 []"
    "burst el CC (reply_bytes s) (Ret (c', 0)) [] [] []"
    unfolding client_plays_def using s by blast
  then obtain y z where o: "o1 = [5, 1, client_method cr] @ y" "y @ o2 = creds_sent cr @ z" "z @ o3 = request_bytes d" by fastforce
  note turns = turn_left [where er = er and x = "[]", simplified] turn_right [where el = el]
  have "(moves (left_step el) (right_step er))\<^sup>*\<^sup>* (?L p r [] [] []) (?L CA r ([5, 1, client_method cr] @ y) [] [])"
    using turns(1) [OF p(2), of r "[]" "[]" "[]"] by (simp add: o(1))
  also have "(moves (left_step el) (right_step er))\<^sup>*\<^sup>* \<dots> (?L CA r1 y [5, client_method cr] [])"
    using turns(2) [OF auth, of CA y "[]" "[]" "[]"] by simp
  also have "(moves (left_step el) (right_step er))\<^sup>*\<^sup>* \<dots> (?L CB r1 (creds_sent cr @ z) [] [])"
    using turns(1) [OF p(3), of r1 y "[]" "[]"] by (simp add: o(2))
  also have "(moves (left_step el) (right_step er))\<^sup>*\<^sup>* \<dots> (?L CB r2 z (if cr = None then [] else [1, 0]) [])"
    using turns(2) [OF creds, of CB z "[]" "[]" "[]"] by simp
  also have "(moves (left_step el) (right_step er))\<^sup>*\<^sup>* \<dots> (?L CC r2 (request_bytes d @ []) [] [])"
    using turns(1) [OF p(4), of r2 z "[]" "[]"] by (simp add: o(3))
  also have "(moves (left_step el) (right_step er))\<^sup>*\<^sup>* \<dots> (?L CC (Ret (s', 0)) [] (reply_bytes s) [s])"
    using turns(2) [OF request, of CC "[]" "[]" "[]" "[]"] by simp
  also have "(moves (left_step el) (right_step er))\<^sup>*\<^sup>* \<dots> (?L (Ret (c', 0)) (Ret (s', 0)) [] [] [s])"
    using turns(1) [OF p(5), of "Ret (s', 0)" "[]" "[]" "[s]"] by simp
  finally show "(moves (left_step el) (right_step er))\<^sup>*\<^sup>* (session_start p r) (session_end (c', 0) (s', 0) [] [s])"
    by (simp add: session_start_def session_end_def)
qed

lemma dialogue_refused:
  assumes "client_plays el p cr d c'"
    and "burst er r [5, 1, client_method cr] (Ret (s', -1)) [] [5, 255] [] \<or>
      cr \<noteq> None \<and> (\<exists>r1. burst er r [5, 1, client_method cr] r1 [] [5, client_method cr] [] \<and>
      burst er r1 (creds_sent cr) (Ret (s', -1)) [] [1, 255] [])"
  shows "\<exists>x unread. ends_in (left_step el) (right_step er) (session_start p r) (session_end (x, -1) (s', -1) unread [])"
proof -
  let ?L = "\<lambda>p r lr rl. \<lparr>lk_left = p, lk_right = r, lk_lr = lr, lk_rl = rl, lk_lcalls = [], lk_rcalls = []\<rparr>"
  from assms(1) obtain CA CB CC o1 o2 o3 x where p:
    "o1 = [5, 1, client_method cr] \<and> o2 = creds_sent cr \<and> o3 = request_bytes d \<or>
      o1 = [5, 1, client_method cr] @ creds_sent cr @ request_bytes d \<and> o2 = [] \<and> o3 = []"
    "burst el p [] CA [] o1 []" "burst el CA [5, client_method cr] CB [] o2 []"
    "burst el CA [5, 255] (Ret (x, -1)) [] [] []"
    "cr \<noteq> None \<longrightarrow> burst el CB [1, 255] (Ret (x, -1)) [] [] []"
    unfolding client_plays_def by blast
  then obtain y z where o: "o1 = [5, 1, client_method cr] @ y" "y @ o2 = creds_sent cr @ z" by fastforce
  note turns = turn_left [where er = er and x = "[]", simplified] turn_right [where el = el]
  have start: "(moves (left_step el) (right_step er))\<^sup>*\<^sup>* (?L p r [] []) (?L CA r ([5, 1, client_method cr] @ y) [])"
    using turns(1) [OF p(2), of r "[]" "[]" "[]"] by (simp add: o(1))
  from assms(2) have "\<exists>unread. (moves (left_step el) (right_step er))\<^sup>*\<^sup>* (?L p r [] []) (?L (Ret (x, -1)) (Ret (s', -1)) unread [])"
  proof (elim disjE conjE exE)
    assume no: "burst er r [5, 1, client_method cr] (Ret (s', -1)) [] [5, 255] []"
    have "(moves (left_step el) (right_step er))\<^sup>*\<^sup>* (?L p r [] []) (?L CA r ([5, 1, client_method cr] @ y) [])"
      by (fact start)
    also have "(moves (left_step el) (right_step er))\<^sup>*\<^sup>* \<dots> (?L CA (Ret (s', -1)) y [5, 255])"
      using turns(2) [OF no, of CA y "[]" "[]" "[]"] by simp
    also have "(moves (left_step el) (right_step er))\<^sup>*\<^sup>* \<dots> (?L (Ret (x, -1)) (Ret (s', -1)) y [])"
      using turns(1) [OF p(4), of "Ret (s', -1)" y "[]" "[]"] by simp
    finally show ?thesis ..
  next
    fix r1 assume cr: "cr \<noteq> None" and auth: "burst er r [5, 1, client_method cr] r1 [] [5, client_method cr] []"
      and no: "burst er r1 (creds_sent cr) (Ret (s', -1)) [] [1, 255] []"
    have "(moves (left_step el) (right_step er))\<^sup>*\<^sup>* (?L p r [] []) (?L CA r ([5, 1, client_method cr] @ y) [])"
      by (fact start)
    also have "(moves (left_step el) (right_step er))\<^sup>*\<^sup>* \<dots> (?L CA r1 y [5, client_method cr])"
      using turns(2) [OF auth, of CA y "[]" "[]" "[]"] by simp
    also have "(moves (left_step el) (right_step er))\<^sup>*\<^sup>* \<dots> (?L CB r1 (creds_sent cr @ z) [])"
      using turns(1) [OF p(3), of r1 y "[]" "[]"] by (simp add: o(2))
    also have "(moves (left_step el) (right_step er))\<^sup>*\<^sup>* \<dots> (?L CB (Ret (s', -1)) z [1, 255])"
      using turns(2) [OF no, of CB z "[]" "[]" "[]"] by simp
    also have "(moves (left_step el) (right_step er))\<^sup>*\<^sup>* \<dots> (?L (Ret (x, -1)) (Ret (s', -1)) z [])"
      using turns(1) [OF p(5) [rule_format, OF cr], of "Ret (s', -1)" z "[]" "[]"] by simp
    finally show ?thesis ..
  qed
  then show ?thesis using session_ends by (fastforce simp: session_start_def session_end_def)
qed

section \<open>Properties\<close>

text \<open>
  A server that waits for a client, with the resources to serve it: its descriptor is the one of
  the connection, it has no authenticator or one that is well formed, and the destination has an
  address for it.
\<close>

definition server_for :: "env \<Rightarrow> HevSocks5Server \<Rightarrow> bool" where
  "server_for e self \<longleftrightarrow> env_fd e = sv_fd self \<and> obj_ok (sv_obj self)"

text \<open>The session the server is in after the handshake.\<close>

definition server_done :: "env \<Rightarrow> socks5_settings \<Rightarrow> int \<Rightarrow> server_obj \<Rightarrow> HevSocks5Server \<Rightarrow> HevSocks5Server" where
  "server_done e c f obj self =
     self\<lparr>sv_base := (sv_base self)\<lparr>s5_timeout := tcp_timeout c, s5_addr_family := f, s5_type := HEV_SOCKS5_TYPE_TCP\<rparr>,
       sv_fds0 := env_socket e, sv_obj := obj\<rparr>"

lemma server_done_session:
  "server_session e c f (self\<lparr>sv_base := hev_socks5_set_timeout (sv_base self) (hev_socks5_get_tcp_timeout c), sv_obj := obj\<rparr>) =
   server_done e c f obj self"
  by (cases self) (simp add: server_session_def server_done_def server_connected_def set_type_def hev_socks5_set_timeout_def
    hev_socks5_set_addr_family_def hev_socks5_get_tcp_timeout_def)

definition demo_env :: "int \<Rightarrow> env" where
  "demo_env fd = \<lparr>env_fd = fd, env_socket = 9, env_setsockopt = 0, env_connect = 0, env_bind = 0,
     env_sockname = (-1, blank_saddr), env_addfd = 0, env_resolve = (\<lambda>s f. None), env_malloc = 0\<rparr>"

definition demo_client :: "cstring \<Rightarrow> HevSocks5Client" where
  "demo_client pass = \<lparr>cl_base = \<lparr>s5_fd = 7, s5_timeout = -1, s5_udp_associated = False, s5_type = HEV_SOCKS5_TYPE_TCP, s5_addr_family = 0\<rparr>,
     cl_user = Some [97, 98], cl_pass = Some pass, cl_kind = ClientTCP (Some (64, dest_bytes (IPv4 [10, 0, 0, 1] 0x5000)))\<rparr>"

definition demo_waiting :: HevSocks5Server where
  "demo_waiting = \<lparr>sv_base = \<lparr>s5_fd = 5, s5_timeout = -1, s5_udp_associated = False, s5_type = HEV_SOCKS5_TYPE_NONE, s5_addr_family = 0\<rparr>,
     sv_fds0 = -1, sv_fds1 = -1, sv_obj = AuthObj 16 demo_auth\<rparr>"

lemma demo_handshake:
  "creds_ok [97, 98] pass \<Longrightarrow> client_for (demo_env 7) (demo_client pass) (IPv4 [10, 0, 0, 1] 0x5000)"
  "server_for (demo_env 5) demo_waiting" "can_connect (demo_env 5)"
  using demo_auth_rep by (auto simp: client_for_def client_creds_def demo_client_def demo_env_def server_for_def
    demo_waiting_def can_connect_def)

lemma demo_outcome:
  "auth_outcome (sv_obj demo_waiting) (client_creds (demo_client pass)) = (if pass = [1, 2] then Some (UserObj 8) else None)"
proof -
  have "hev_socks5_authenticator_get demo_auth [97, 98] = Some 8" by (simp add: get_rep [OF demo_auth_rep])
  then show ?thesis
    by (simp add: demo_waiting_def client_creds_def demo_client_def admitted_def) (simp add: demo_auth_def)
qed



text \<open>
  C14: A client the server does not accept gets nowhere. With a wrong password, an unknown name,
  no credentials where the server asks for them or credentials where it knows none, every
  sequence of steps ends with both handshakes failed, and the server has opened no connection.
\<close>
theorem handshake_refused:
  assumes "client_for el client d" and "server_for er server"
    and "auth_outcome (sv_obj server) (client_creds client) = None"
  shows "\<exists>client' server' unread. ends_in (left_step el) (right_step er)
    (session_start (hev_socks5_client_handshake (set_upstream_addr pton bindf c) c client pipeline)
      (hev_socks5_server_handshake pton bindf' c' stk server))
    (session_end (client', -1) (server', -1) unread [])"
proof -
  let ?server = "server\<lparr>sv_base := hev_socks5_set_timeout (sv_base server) (hev_socks5_get_tcp_timeout c')\<rparr>"
  let ?K = "\<lambda>(self, res :: int). if res < 0 then Ret (self, -1)
      else io_bind (hev_socks5_server_read_request pton self \<lparr>rq_cmd = None, rq_rep = HEV_SOCKS5_RES_REP_SUCC, rq_addr = stk\<rparr>)
        (\<lambda>(self, rq, res). if res < 0 then Ret (self, -1) else server_request bindf' c' self rq)"
  have sv: "env_fd er = sv_fd ?server" "obj_ok (sv_obj ?server)" "auth_outcome (sv_obj ?server) (client_creds client) = None"
    and cr: "cred_ok (client_creds client)"
    using assms by (simp_all add: server_for_def client_for_def hev_socks5_set_timeout_def)
  have ret: "io_bind (Ret (?server, -1 :: int)) ?K = Ret (?server, -1)" by simp
  from server_refuses [OF sv(1,2) cr sv(3)]
  have refused: "burst er (io_bind (hev_socks5_server_auth ?server) ?K) [5, 1, client_method (client_creds client)] (Ret (?server, -1)) [] [5, 255] [] \<or>
    client_creds client \<noteq> None \<and> (\<exists>r1. burst er (io_bind (hev_socks5_server_auth ?server) ?K) [5, 1, client_method (client_creds client)]
        r1 [] [5, client_method (client_creds client)] [] \<and>
      burst er r1 (creds_sent (client_creds client)) (Ret (?server, -1)) [] [1, 255] [])"
  proof (elim disjE conjE exE)
    assume "burst er (hev_socks5_server_auth ?server) [5, 1, client_method (client_creds client)] (Ret (?server, -1)) [] [5, 255] []"
    from burst_bind [OF this, of ?K] show ?thesis unfolding ret ..
  next
    fix p assume p: "client_creds client \<noteq> None"
      "burst er (hev_socks5_server_auth ?server) [5, 1, client_method (client_creds client)] p [] [5, client_method (client_creds client)] []"
      "burst er p (creds_sent (client_creds client)) (Ret (?server, -1)) [] [1, 255] []"
    from p(1) burst_bind [OF p(2), of ?K] burst_bind [OF p(3), of ?K] show ?thesis unfolding ret by blast
  qed
  from dialogue_refused [OF handshake_plays [OF assms(1)] refused]
  show ?thesis unfolding hev_socks5_server_handshake_def Let_def by blast
qed

theorem handshake_refused_witness:
  "\<exists>client' server' unread. ends_in (left_step (demo_env 7)) (right_step (demo_env 5))
    (session_start (hev_socks5_client_handshake (set_upstream_addr (\<lambda>f s. None) hev_socks5_bind socks5_defaults) socks5_defaults (demo_client [1, 3]) False)
      (hev_socks5_server_handshake (\<lambda>f s. None) hev_socks5_bind socks5_defaults blank_saddr demo_waiting))
    (session_end (client', -1) (server', -1) unread [])"
  by (rule handshake_refused [OF demo_handshake(1) demo_handshake(2)]) (simp_all add: demo_outcome creds_ok_def)

end
