(* ===== verification/Hev_Config.thy ===== *)
theory Hev_Config
  imports Hev_Prelude
begin

text \<open>
  The configuration (\<open>hev-config.c\<close>): the static variables of the module, the sections of the
  document and what is derived from them. The document is the one \<open>libyaml\<close> loads: nodes that
  refer to each other by index.
\<close>

section \<open>Documents\<close>

datatype yaml_node = YAML_NO_NODE | YAML_SCALAR_NODE "u8 list" | YAML_SEQUENCE_NODE
  | YAML_MAPPING_NODE "(int \<times> int) list"

type_synonym yaml_document = "yaml_node list"

definition yaml_document_get_node :: "yaml_document \<Rightarrow> int \<Rightarrow> yaml_node option" where
  "yaml_document_get_node doc i = (if 0 < i \<and> nat i \<le> length doc then Some (doc ! nat (i - 1)) else None)"

definition yaml_document_get_root_node :: "yaml_document \<Rightarrow> yaml_node option" where
  "yaml_document_get_root_node doc = (if doc \<noteq> [] then Some (doc ! 0) else None)"

text \<open>
  The loop that every section has over the pairs of its mapping: it ends at the first pair that
  has no key or value or whose key or value is not a scalar.
\<close>

fun for_scalars :: "yaml_document \<Rightarrow> (cstring \<Rightarrow> cstring \<Rightarrow> 's \<Rightarrow> 's) \<Rightarrow> (int \<times> int) list \<Rightarrow> 's \<Rightarrow> 's" where
  "for_scalars doc body [] s = s"
| "for_scalars doc body ((k, v) # pairs) s =
     (if k = 0 \<or> v = 0 then s
      else case yaml_document_get_node doc k of
        Some (YAML_SCALAR_NODE key) \<Rightarrow>
          (case yaml_document_get_node doc v of
             Some (YAML_SCALAR_NODE val) \<Rightarrow> for_scalars doc body pairs (body (cstr key) (cstr val) s)
           | _ \<Rightarrow> s)
      | _ \<Rightarrow> s)"

section \<open>Functions of the C library\<close>

definition str :: "string \<Rightarrow> cstring" where
  "str s = map of_char s"

text \<open>\<open>strncpy\<close> into a buffer: the string, and zeros up to \<open>n\<close>.\<close>

definition strncpy :: "u8 list \<Rightarrow> cstring \<Rightarrow> nat \<Rightarrow> u8 list" where
  "strncpy buf s n = take n (s @ replicate n 0) @ drop n buf"

definition tolower :: "u8 \<Rightarrow> u8" where
  "tolower c = (if 65 \<le> c \<and> c \<le> 90 then c + 32 else c)"

fun strcasecmp :: "cstring \<Rightarrow> cstring \<Rightarrow> int" where
  "strcasecmp [] [] = 0"
| "strcasecmp [] (b # bs) = - uint (tolower b)"
| "strcasecmp (a # as) [] = uint (tolower a)"
| "strcasecmp (a # as) (b # bs) =
     (if tolower a = tolower b then strcasecmp as bs else uint (tolower a) - uint (tolower b))"

text \<open>
  \<open>strtoul\<close> on the 64-bit ABIs: white space, a sign, for base 0 the prefix of the base, and the
  digits there are; a number that is too large becomes the largest. \<open>strtol\<close> saturates likewise.
\<close>

definition isspace :: "u8 \<Rightarrow> bool" where
  "isspace c \<longleftrightarrow> c = 32 \<or> 9 \<le> c \<and> c \<le> 13"

definition digit_val :: "u8 \<Rightarrow> nat" where
  "digit_val c =
     (if 48 \<le> c \<and> c \<le> 57 then unat c - 48
      else if 97 \<le> tolower c \<and> tolower c \<le> 122 then unat (tolower c) - 87
      else 36)"

fun digits_val :: "nat \<Rightarrow> cstring \<Rightarrow> nat \<Rightarrow> nat" where
  "digits_val base [] acc = acc"
| "digits_val base (c # cs) acc = (if digit_val c < base then digits_val base cs (acc * base + digit_val c) else acc)"

definition signed_digits :: "cstring \<Rightarrow> bool \<times> cstring" where
  "signed_digits s =
     (case dropWhile isspace s of
        [] \<Rightarrow> (False, [])
      | c # cs \<Rightarrow> if c = 45 then (True, cs) else if c = 43 then (False, cs) else (False, c # cs))"

text \<open>Base 0: hexadecimal after \<open>0x\<close> and a hexadecimal digit, octal after \<open>0\<close>, else decimal.\<close>

definition detect_base :: "nat \<Rightarrow> cstring \<Rightarrow> nat \<times> cstring" where
  "detect_base base s =
     (if base \<noteq> 0 then (base, s)
      else case s of
        c0 # c1 # c2 # cs \<Rightarrow>
          if c0 = 48 \<and> tolower c1 = 120 \<and> digit_val c2 < 16 then (16, c2 # cs) else if c0 = 48 then (8, s) else (10, s)
      | c0 # cs \<Rightarrow> if c0 = 48 then (8, s) else (10, s)
      | [] \<Rightarrow> (10, s))"

definition strtoul :: "cstring \<Rightarrow> nat \<Rightarrow> 64 word" where
  "strtoul s base =
     (let (neg, ds) = signed_digits s; (b, ds) = detect_base base ds; n = digits_val b ds 0
      in if 2 ^ 64 \<le> n then -1 else if neg then - of_nat n else of_nat n)"

definition strtol :: "cstring \<Rightarrow> nat \<Rightarrow> int" where
  "strtol s base =
     (let (neg, ds) = signed_digits s; (b, ds) = detect_base base ds; n = int (digits_val b ds 0)
      in if neg then max (- n) (- (2 ^ 63)) else min n (2 ^ 63 - 1))"

text \<open>A value as an \<open>int\<close>: its 32 low bits, read with their sign.\<close>

definition int32 :: "int \<Rightarrow> int" where
  "int32 i = signed_take_bit 31 i"

definition ntohl :: "u32 \<Rightarrow> u32" where
  "ntohl v = push_bit 24 v OR (push_bit 8 v AND 0xff0000) OR (drop_bit 8 v AND 0xff00) OR drop_bit 24 v"

text \<open>The four bytes of an address as the integer the host reads.\<close>

definition load32 :: "u8 list \<Rightarrow> u32" where
  "load32 bs = ucast (bs ! 0) OR push_bit 8 (ucast (bs ! 1)) OR push_bit 16 (ucast (bs ! 2)) OR push_bit 24 (ucast (bs ! 3))"

section \<open>State\<close>

abbreviation (input) TCP_SND_BUF :: int where "TCP_SND_BUF \<equiv> 65528"
abbreviation (input) UDP_BUF_SIZE :: int where "UDP_BUF_SIZE \<equiv> 1500"
abbreviation (input) TASK_STACK_SIZE :: int where "TASK_STACK_SIZE \<equiv> 20480"

text \<open>
  The user and the password point to arrays of the parser, given with their contents, or are null.
\<close>

record HevConfigServer =
  srv_user :: "u8 list option"
  srv_pass :: "u8 list option"
  srv_mark :: u32
  srv_udp_in_udp :: bool
  srv_port :: u16
  srv_pipeline :: bool
  srv_udp_addr :: "u8 list"
  srv_addr :: "u8 list"

datatype HevLoggerLevel = HEV_LOGGER_DEBUG | HEV_LOGGER_INFO | HEV_LOGGER_WARN | HEV_LOGGER_ERROR | HEV_LOGGER_UNSET

record config =
  tun_name :: "u8 list"
  tun_mtu :: u32
  multi_queue :: int
  tun_ipv4_address :: "u8 list"
  tun_ipv6_address :: "u8 list"
  tun_post_up_script :: "u8 list"
  tun_pre_down_script :: "u8 list"
  srv :: HevConfigServer
  user_buf :: "u8 list"
  pass_buf :: "u8 list"
  mapdns_address :: u32
  mapdns_port :: int
  mapdns_network :: u32
  mapdns_netmask :: u32
  mapdns_cache_size :: int
  log_file :: "u8 list"
  pid_file :: "u8 list"
  max_session_count :: int
  cfg_task_stack_size :: int
  tcp_buffer_size :: int
  cfg_udp_recv_buffer_size :: int
  cfg_udp_copy_buffer_nums :: int
  cfg_connect_timeout :: int
  tcp_read_write_timeout :: int
  udp_read_write_timeout :: int
  limit_nofile :: int
  log_level :: HevLoggerLevel

definition config_initial :: config where
  "config_initial = \<lparr>tun_name = replicate 64 0, tun_mtu = 8500, multi_queue = 0,
     tun_ipv4_address = replicate 16 0, tun_ipv6_address = replicate 64 0,
     tun_post_up_script = replicate 1024 0, tun_pre_down_script = replicate 1024 0,
     srv = \<lparr>srv_user = None, srv_pass = None, srv_mark = 0, srv_udp_in_udp = False, srv_port = 0, srv_pipeline = False,
       srv_udp_addr = replicate 256 0, srv_addr = replicate 256 0\<rparr>,
     user_buf = replicate 256 0, pass_buf = replicate 256 0,
     mapdns_address = 0, mapdns_port = 0, mapdns_network = 0, mapdns_netmask = 0, mapdns_cache_size = 0,
     log_file = replicate 1024 0, pid_file = replicate 1024 0, max_session_count = 0,
     cfg_task_stack_size = 86016, tcp_buffer_size = 65536, cfg_udp_recv_buffer_size = 524288, cfg_udp_copy_buffer_nums = 10,
     cfg_connect_timeout = 10000, tcp_read_write_timeout = 300000, udp_read_write_timeout = 60000,
     limit_nofile = 65535, log_level = HEV_LOGGER_WARN\<rparr>"

section \<open>The sections\<close>

text \<open>A section that is not a mapping is an error.\<close>

definition hev_config_parse_tunnel_ipv4 :: "yaml_document \<Rightarrow> yaml_node option \<Rightarrow> config \<Rightarrow> config \<times> int" where
  "hev_config_parse_tunnel_ipv4 doc base c =
     (case base of
        Some (YAML_MAPPING_NODE pairs) \<Rightarrow>
          (for_scalars doc (\<lambda>key val c.
             if key = str ''address'' then c\<lparr>tun_ipv4_address := strncpy (tun_ipv4_address c) val 15\<rparr> else c) pairs c, 0)
      | _ \<Rightarrow> (c, -1))"

definition hev_config_parse_tunnel_ipv6 :: "yaml_document \<Rightarrow> yaml_node option \<Rightarrow> config \<Rightarrow> config \<times> int" where
  "hev_config_parse_tunnel_ipv6 doc base c =
     (case base of
        Some (YAML_MAPPING_NODE pairs) \<Rightarrow>
          (for_scalars doc (\<lambda>key val c.
             if key = str ''address'' then c\<lparr>tun_ipv6_address := strncpy (tun_ipv6_address c) val 63\<rparr> else c) pairs c, 0)
      | _ \<Rightarrow> (c, -1))"

definition tunnel_scalar :: "cstring \<Rightarrow> cstring \<Rightarrow> config \<Rightarrow> config" where
  "tunnel_scalar key val c =
     (if key = str ''name'' then c\<lparr>tun_name := strncpy (tun_name c) val 63\<rparr>
      else if key = str ''mtu'' then c\<lparr>tun_mtu := ucast (strtoul val 10)\<rparr>
      else if key = str ''multi-queue'' then c\<lparr>multi_queue := strcasecmp val (str ''false'')\<rparr>
      else if key = str ''ipv4'' then c\<lparr>tun_ipv4_address := strncpy (tun_ipv4_address c) val 15\<rparr>
      else if key = str ''ipv6'' then c\<lparr>tun_ipv6_address := strncpy (tun_ipv6_address c) val 63\<rparr>
      else if key = str ''post-up-script'' then c\<lparr>tun_post_up_script := strncpy (tun_post_up_script c) val 63\<rparr>
      else if key = str ''pre-down-script'' then c\<lparr>tun_pre_down_script := strncpy (tun_pre_down_script c) val 63\<rparr>
      else c)"

text \<open>The values of this section may be mappings themselves.\<close>

fun tunnel_pairs :: "yaml_document \<Rightarrow> (int \<times> int) list \<Rightarrow> config \<Rightarrow> config" where
  "tunnel_pairs doc [] c = c"
| "tunnel_pairs doc ((k, v) # pairs) c =
     (if k = 0 \<or> v = 0 then c
      else case yaml_document_get_node doc k of
        Some (YAML_SCALAR_NODE k') \<Rightarrow>
          let key = cstr k'
          in (case yaml_document_get_node doc v of
            None \<Rightarrow> c
          | Some (YAML_SCALAR_NODE val) \<Rightarrow> tunnel_pairs doc pairs (tunnel_scalar key (cstr val) c)
          | Some node \<Rightarrow> tunnel_pairs doc pairs
              (if key = str ''ipv4'' then fst (hev_config_parse_tunnel_ipv4 doc (Some node) c)
               else if key = str ''ipv6'' then fst (hev_config_parse_tunnel_ipv6 doc (Some node) c)
               else c))
      | _ \<Rightarrow> c)"

definition hev_config_parse_tunnel :: "yaml_document \<Rightarrow> yaml_node option \<Rightarrow> config \<Rightarrow> config \<times> int" where
  "hev_config_parse_tunnel doc base c =
     (case base of Some (YAML_MAPPING_NODE pairs) \<Rightarrow> (tunnel_pairs doc pairs c, 0) | _ \<Rightarrow> (c, -1))"

text \<open>The values of the section of the server, as its loop collects them.\<close>

record socks5_values =
  v_addr :: "cstring option"
  v_port :: "cstring option"
  v_udpm :: "cstring option"
  v_udpa :: "cstring option"
  v_user :: "cstring option"
  v_pass :: "cstring option"
  v_mark :: "cstring option"
  v_pipe :: "cstring option"

definition no_values :: socks5_values where
  "no_values = \<lparr>v_addr = None, v_port = None, v_udpm = None, v_udpa = None, v_user = None, v_pass = None, v_mark = None, v_pipe = None\<rparr>"

definition socks5_scalar :: "cstring \<Rightarrow> cstring \<Rightarrow> socks5_values \<Rightarrow> socks5_values" where
  "socks5_scalar key val v =
     (if key = str ''port'' then v\<lparr>v_port := Some val\<rparr>
      else if key = str ''address'' then v\<lparr>v_addr := Some val\<rparr>
      else if key = str ''udp'' then v\<lparr>v_udpm := Some val\<rparr>
      else if key = str ''udp-address'' then v\<lparr>v_udpa := Some val\<rparr>
      else if key = str ''pipeline'' then v\<lparr>v_pipe := Some val\<rparr>
      else if key = str ''username'' then v\<lparr>v_user := Some val\<rparr>
      else if key = str ''password'' then v\<lparr>v_pass := Some val\<rparr>
      else if key = str ''mark'' then v\<lparr>v_mark := Some val\<rparr>
      else v)"

text \<open>The assignments to the server once the values were found to be complete.\<close>

definition set_pipeline :: "cstring option \<Rightarrow> HevConfigServer \<Rightarrow> HevConfigServer" where
  "set_pipeline pipe s = (case pipe of
     Some p \<Rightarrow> if strcasecmp p (str ''true'') = 0 then s\<lparr>srv_pipeline := True\<rparr> else s | None \<Rightarrow> s)"

definition set_udp_mode :: "cstring option \<Rightarrow> HevConfigServer \<Rightarrow> HevConfigServer" where
  "set_udp_mode udpm s = (case udpm of
     Some m \<Rightarrow> if strcasecmp m (str ''udp'') = 0 then s\<lparr>srv_udp_in_udp := True\<rparr> else s | None \<Rightarrow> s)"

definition set_udp_addr :: "cstring option \<Rightarrow> HevConfigServer \<Rightarrow> HevConfigServer" where
  "set_udp_addr udpa s = (case udpa of Some a \<Rightarrow> s\<lparr>srv_udp_addr := strncpy (srv_udp_addr s) a 255\<rparr> | None \<Rightarrow> s)"

definition set_creds :: "cstring option \<Rightarrow> cstring option \<Rightarrow> config \<Rightarrow> config" where
  "set_creds user pass c = (case (user, pass) of
     (Some u, Some p) \<Rightarrow>
       let ub = strncpy (user_buf c) u 255; pb = strncpy (pass_buf c) p 255
       in c\<lparr>user_buf := ub, pass_buf := pb, srv := (srv c)\<lparr>srv_user := Some ub, srv_pass := Some pb\<rparr>\<rparr>
   | _ \<Rightarrow> c)"

definition set_mark :: "cstring option \<Rightarrow> HevConfigServer \<Rightarrow> HevConfigServer" where
  "set_mark mark s = (case mark of Some m \<Rightarrow> s\<lparr>srv_mark := ucast (strtoul m 0)\<rparr> | None \<Rightarrow> s)"

definition set_server :: "socks5_values \<Rightarrow> cstring \<Rightarrow> cstring \<Rightarrow> config \<Rightarrow> config" where
  "set_server v addr port c =
     (let s = (srv c)\<lparr>srv_addr := strncpy (srv_addr (srv c)) addr 255, srv_port := ucast (strtoul port 10)\<rparr>;
          c = c\<lparr>srv := set_udp_addr (v_udpa v) (set_udp_mode (v_udpm v) (set_pipeline (v_pipe v) s))\<rparr>;
          c = set_creds (v_user v) (v_pass v) c
      in c\<lparr>srv := set_mark (v_mark v) (srv c)\<rparr>)"

definition hev_config_parse_socks5 :: "yaml_document \<Rightarrow> yaml_node option \<Rightarrow> config \<Rightarrow> config \<times> int" where
  "hev_config_parse_socks5 doc base c =
     (case base of
        Some (YAML_MAPPING_NODE pairs) \<Rightarrow>
          let v = for_scalars doc socks5_scalar pairs no_values
          in (case v_port v of
            None \<Rightarrow> (c, -1)
          | Some port \<Rightarrow> (case v_addr v of
              None \<Rightarrow> (c, -1)
            | Some addr \<Rightarrow>
                if (v_user v \<noteq> None) \<noteq> (v_pass v \<noteq> None) then (c, -1)
                else (set_server v addr port c, 0)))
      | _ \<Rightarrow> (c, -1))"

definition mapdns_scalar :: "(cstring \<Rightarrow> u8 list option) \<Rightarrow> cstring \<Rightarrow> cstring \<Rightarrow> config \<Rightarrow> config" where
  "mapdns_scalar pton key val c =
     (if key = str ''address'' then
        (case pton val of Some b \<Rightarrow> c\<lparr>mapdns_address := load32 b\<rparr> | None \<Rightarrow> c)
      else if key = str ''port'' then c\<lparr>mapdns_port := int32 (uint (strtoul val 10))\<rparr>
      else if key = str ''network'' then
        (case pton val of Some b \<Rightarrow> c\<lparr>mapdns_network := load32 b\<rparr> | None \<Rightarrow> c)
      else if key = str ''netmask'' then
        (case pton val of Some b \<Rightarrow> c\<lparr>mapdns_netmask := load32 b\<rparr> | None \<Rightarrow> c)
      else if key = str ''cache-size'' then c\<lparr>mapdns_cache_size := int32 (uint (strtoul val 10))\<rparr>
      else c)"

text \<open>\<open>pton\<close> stands for \<open>inet_pton\<close> with \<open>AF_INET\<close>.\<close>

definition hev_config_parse_mapdns ::
  "(cstring \<Rightarrow> u8 list option) \<Rightarrow> yaml_document \<Rightarrow> yaml_node option \<Rightarrow> config \<Rightarrow> config \<times> int" where
  "hev_config_parse_mapdns pton doc base c =
     (case base of
        Some (YAML_MAPPING_NODE pairs) \<Rightarrow>
          let c = for_scalars doc (mapdns_scalar pton) pairs c
          in (c\<lparr>mapdns_network := ntohl (mapdns_network c), mapdns_netmask := ntohl (mapdns_netmask c)\<rparr>, 0)
      | _ \<Rightarrow> (c, -1))"

definition hev_config_parse_log_level :: "cstring \<Rightarrow> HevLoggerLevel" where
  "hev_config_parse_log_level val =
     (if val = str ''debug'' then HEV_LOGGER_DEBUG
      else if val = str ''info'' then HEV_LOGGER_INFO
      else if val = str ''error'' then HEV_LOGGER_ERROR
      else HEV_LOGGER_WARN)"

text \<open>The three timeouts of the section are variables of its function.\<close>

record timeouts =
  t_rw :: int
  t_tcp_rw :: int
  t_udp_rw :: int

definition misc_scalar :: "cstring \<Rightarrow> cstring \<Rightarrow> config \<times> timeouts \<Rightarrow> config \<times> timeouts" where
  "misc_scalar key val s =
     (let (c, t) = s; n = int32 (uint (strtoul val 10))
      in if key = str ''task-stack-size'' then (c\<lparr>cfg_task_stack_size := n\<rparr>, t)
      else if key = str ''tcp-buffer-size'' then (c\<lparr>tcp_buffer_size := n\<rparr>, t)
      else if key = str ''udp-recv-buffer-size'' then (c\<lparr>cfg_udp_recv_buffer_size := n\<rparr>, t)
      else if key = str ''udp-copy-buffer-nums'' then (c\<lparr>cfg_udp_copy_buffer_nums := n\<rparr>, t)
      else if key = str ''max-session-count'' then (c\<lparr>max_session_count := n\<rparr>, t)
      else if key = str ''connect-timeout'' then (c\<lparr>cfg_connect_timeout := n\<rparr>, t)
      else if key = str ''read-write-timeout'' then (c, t\<lparr>t_rw := n\<rparr>)
      else if key = str ''tcp-read-write-timeout'' then (c, t\<lparr>t_tcp_rw := n\<rparr>)
      else if key = str ''udp-read-write-timeout'' then (c, t\<lparr>t_udp_rw := n\<rparr>)
      else if key = str ''pid-file'' then (c\<lparr>pid_file := strncpy (pid_file c) val 1023\<rparr>, t)
      else if key = str ''log-file'' then (c\<lparr>log_file := strncpy (log_file c) val 1023\<rparr>, t)
      else if key = str ''log-level'' then (c\<lparr>log_level := hev_config_parse_log_level val\<rparr>, t)
      else if key = str ''limit-nofile'' then (c\<lparr>limit_nofile := int32 (strtol val 10)\<rparr>, t)
      else (c, t))"

definition hev_config_parse_misc :: "yaml_document \<Rightarrow> yaml_node option \<Rightarrow> config \<Rightarrow> config \<times> int" where
  "hev_config_parse_misc doc base c =
     (case base of
        Some (YAML_MAPPING_NODE pairs) \<Rightarrow>
          let (c, t) = for_scalars doc misc_scalar pairs (c, \<lparr>t_rw = -1, t_tcp_rw = -1, t_udp_rw = -1\<rparr>);
              tcp = (if t_tcp_rw t \<le> 0 then t_rw t else t_tcp_rw t);
              udp = (if t_udp_rw t \<le> 0 then t_rw t else t_udp_rw t);
              c = (if 0 < tcp then c\<lparr>tcp_read_write_timeout := tcp\<rparr> else c);
              c = (if 0 < udp then c\<lparr>udp_read_write_timeout := udp\<rparr> else c)
          in (c, 0)
      | _ \<Rightarrow> (c, -1))"

section \<open>The document\<close>

text \<open>
  The loop over the sections, which ends early at a pair without a key or value or whose key is not
  a scalar, and fails when a section fails.
\<close>

fun doc_pairs :: "(cstring \<Rightarrow> u8 list option) \<Rightarrow> yaml_document \<Rightarrow> (int \<times> int) list \<Rightarrow> config \<Rightarrow> config \<times> int" where
  "doc_pairs pton doc [] c = (c, 0)"
| "doc_pairs pton doc ((k, v) # pairs) c =
     (if k = 0 \<or> v = 0 then (c, 0)
      else case yaml_document_get_node doc k of
        Some (YAML_SCALAR_NODE k') \<Rightarrow>
          let key = cstr k';
              node = yaml_document_get_node doc v;
              (c, res) = (if key = str ''tunnel'' then hev_config_parse_tunnel doc node c
                else if key = str ''socks5'' then hev_config_parse_socks5 doc node c
                else if key = str ''mapdns'' then hev_config_parse_mapdns pton doc node c
                else if key = str ''misc'' then hev_config_parse_misc doc node c
                else (c, 0))
          in if res < 0 then (c, -1) else doc_pairs pton doc pairs c
      | _ \<Rightarrow> (c, 0))"

text \<open>
  The sizes that are derived at the end; the product and the sums wrap where the arithmetic of
  \<open>int\<close> overflows.
\<close>

definition fit_sizes :: "config \<Rightarrow> config" where
  "fit_sizes c =
     (let c = (if TCP_SND_BUF < tcp_buffer_size c then c\<lparr>tcp_buffer_size := TCP_SND_BUF\<rparr> else c);
          udp_buffer_size = int32 (UDP_BUF_SIZE * cfg_udp_copy_buffer_nums c);
          min_task_stack_size = (if udp_buffer_size < tcp_buffer_size c then int32 (TASK_STACK_SIZE + tcp_buffer_size c)
            else int32 (TASK_STACK_SIZE + udp_buffer_size))
      in if cfg_task_stack_size c < min_task_stack_size then c\<lparr>cfg_task_stack_size := min_task_stack_size\<rparr> else c)"

definition hev_config_parse_doc :: "(cstring \<Rightarrow> u8 list option) \<Rightarrow> yaml_document \<Rightarrow> config \<Rightarrow> config \<times> int" where
  "hev_config_parse_doc pton doc c =
     (case yaml_document_get_root_node doc of
        Some (YAML_MAPPING_NODE pairs) \<Rightarrow>
          let (c, res) = doc_pairs pton doc pairs c in if res < 0 then (c, -1) else (fit_sizes c, 0)
      | _ \<Rightarrow> (c, -1))"

text \<open>
  \<open>libyaml\<close> is the function \<open>load\<close> from the text to the document, with no result where initialising
  or loading fails; \<open>fopen\<close> gives the text of a file or fails.
\<close>

definition hev_config_init_from_str ::
  "(cstring \<Rightarrow> u8 list option) \<Rightarrow> (u8 list \<Rightarrow> yaml_document option) \<Rightarrow> u8 list \<Rightarrow> config \<Rightarrow> config \<times> int" where
  "hev_config_init_from_str pton load config_str c =
     (case load config_str of None \<Rightarrow> (c, -1) | Some doc \<Rightarrow> hev_config_parse_doc pton doc c)"

definition hev_config_init_from_file ::
  "(cstring \<Rightarrow> u8 list option) \<Rightarrow> (u8 list \<Rightarrow> yaml_document option) \<Rightarrow> (cstring \<Rightarrow> u8 list option) \<Rightarrow> cstring \<Rightarrow> config \<Rightarrow>
   config \<times> int" where
  "hev_config_init_from_file pton load fopen config_path c =
     (case fopen config_path of
        None \<Rightarrow> (c, -1)
      | Some text \<Rightarrow> (case load text of None \<Rightarrow> (c, -1) | Some doc \<Rightarrow> hev_config_parse_doc pton doc c))"

section \<open>Reading the configuration\<close>

text \<open>A string that was not set is the null pointer.\<close>

definition opt_string :: "u8 list \<Rightarrow> cstring option" where
  "opt_string buf = (if buf ! 0 = 0 then None else Some (cstr buf))"

definition hev_config_get_tunnel_name :: "config \<Rightarrow> cstring option" where
  "hev_config_get_tunnel_name c = opt_string (tun_name c)"

definition hev_config_get_tunnel_mtu :: "config \<Rightarrow> u32" where
  "hev_config_get_tunnel_mtu c = tun_mtu c"

definition hev_config_get_tunnel_multi_queue :: "config \<Rightarrow> int" where
  "hev_config_get_tunnel_multi_queue c = multi_queue c"

definition hev_config_get_tunnel_ipv4_address :: "config \<Rightarrow> cstring option" where
  "hev_config_get_tunnel_ipv4_address c = opt_string (tun_ipv4_address c)"

definition hev_config_get_tunnel_ipv6_address :: "config \<Rightarrow> cstring option" where
  "hev_config_get_tunnel_ipv6_address c = opt_string (tun_ipv6_address c)"

definition hev_config_get_tunnel_post_up_script :: "config \<Rightarrow> cstring option" where
  "hev_config_get_tunnel_post_up_script c = opt_string (tun_post_up_script c)"

definition hev_config_get_tunnel_pre_down_script :: "config \<Rightarrow> cstring option" where
  "hev_config_get_tunnel_pre_down_script c = opt_string (tun_pre_down_script c)"

definition hev_config_get_socks5_server :: "config \<Rightarrow> HevConfigServer" where
  "hev_config_get_socks5_server c = srv c"

definition hev_config_get_mapdns_address :: "config \<Rightarrow> u32" where
  "hev_config_get_mapdns_address c = mapdns_address c"

definition hev_config_get_mapdns_port :: "config \<Rightarrow> int" where
  "hev_config_get_mapdns_port c = mapdns_port c"

definition hev_config_get_mapdns_network :: "config \<Rightarrow> u32" where
  "hev_config_get_mapdns_network c = mapdns_network c"

definition hev_config_get_mapdns_netmask :: "config \<Rightarrow> u32" where
  "hev_config_get_mapdns_netmask c = mapdns_netmask c"

definition hev_config_get_mapdns_cache_size :: "config \<Rightarrow> int" where
  "hev_config_get_mapdns_cache_size c = mapdns_cache_size c"

definition hev_config_get_misc_task_stack_size :: "config \<Rightarrow> int" where
  "hev_config_get_misc_task_stack_size c = cfg_task_stack_size c"

definition hev_config_get_misc_tcp_buffer_size :: "config \<Rightarrow> int" where
  "hev_config_get_misc_tcp_buffer_size c = tcp_buffer_size c"

definition hev_config_get_misc_udp_recv_buffer_size :: "config \<Rightarrow> int" where
  "hev_config_get_misc_udp_recv_buffer_size c = cfg_udp_recv_buffer_size c"

definition hev_config_get_misc_udp_copy_buffer_nums :: "config \<Rightarrow> int" where
  "hev_config_get_misc_udp_copy_buffer_nums c = cfg_udp_copy_buffer_nums c"

definition hev_config_get_misc_max_session_count :: "config \<Rightarrow> int" where
  "hev_config_get_misc_max_session_count c = max_session_count c"

definition hev_config_get_misc_connect_timeout :: "config \<Rightarrow> int" where
  "hev_config_get_misc_connect_timeout c = cfg_connect_timeout c"

definition hev_config_get_misc_tcp_read_write_timeout :: "config \<Rightarrow> int" where
  "hev_config_get_misc_tcp_read_write_timeout c = tcp_read_write_timeout c"

definition hev_config_get_misc_udp_read_write_timeout :: "config \<Rightarrow> int" where
  "hev_config_get_misc_udp_read_write_timeout c = udp_read_write_timeout c"

definition hev_config_get_misc_limit_nofile :: "config \<Rightarrow> int" where
  "hev_config_get_misc_limit_nofile c = limit_nofile c"

definition hev_config_get_misc_pid_file :: "config \<Rightarrow> cstring option" where
  "hev_config_get_misc_pid_file c = opt_string (pid_file c)"

definition hev_config_get_misc_log_file :: "config \<Rightarrow> cstring" where
  "hev_config_get_misc_log_file c = (if log_file c ! 0 = 0 then str ''stderr'' else cstr (log_file c))"

definition hev_config_get_misc_log_level :: "config \<Rightarrow> HevLoggerLevel" where
  "hev_config_get_misc_log_level c = log_level c"

section \<open>Well-formed buffers\<close>

text \<open>An array of \<open>n\<close> bytes that holds a terminated string.\<close>

definition arr :: "nat \<Rightarrow> u8 list \<Rightarrow> bool" where
  "arr n buf \<longleftrightarrow> length buf = n \<and> 0 < n \<and> buf ! (n - 1) = 0"

lemma length_strncpy: "n \<le> length buf \<Longrightarrow> length (strncpy buf s n) = length buf"
  by (simp add: strncpy_def)

lemma arr_strncpy [intro]: "arr n buf \<Longrightarrow> k < n \<Longrightarrow> arr n (strncpy buf s k)"
  unfolding arr_def by (auto simp: length_strncpy) (auto simp: strncpy_def nth_append min_def)

lemma arr_replicate [simp]: "0 < n \<Longrightarrow> arr n (replicate n 0)"
  by (simp add: arr_def)

lemma cstr_takeD: "is_cstring s \<Longrightarrow> cstr (s @ replicate n 0 @ r) = (if n = 0 then cstr (s @ r) else s)"
  by (cases n) (auto simp: cstr_append)

text \<open>The string a terminated array holds after \<open>strncpy\<close>.\<close>

lemma cstr_strncpy:
  assumes "arr (Suc n) buf" and "is_cstring s"
  shows "cstr (strncpy buf s n) = take n s"
proof -
  have "drop n buf = [0]"
    using assms(1) by (simp add: arr_def Cons_nth_drop_Suc [symmetric])
  moreover have "is_cstring (take n s)" using assms(2) by (auto simp: is_cstring_def dest: in_set_takeD)
  ultimately show ?thesis
    using cstr_takeD [of "take n s" "n - length s" "[0]"] cstr_append [of "take n s" "[]"]
    by (simp add: strncpy_def)
qed

lemma cstr_length: "arr n buf \<Longrightarrow> length (cstr buf) < n"
proof -
  assume a: "arr n buf"
  then have "0 \<in> set buf" by (metis arr_def diff_less nth_mem zero_less_one)
  then have "length (takeWhile (\<lambda>b. b \<noteq> 0) buf) < length buf"
    by (metis (mono_tags, lifting) in_set_conv_decomp length_takeWhile_le nat_less_le set_takeWhileD takeWhile_eq_take take_all_iff order_refl)
  with a show ?thesis by (simp add: cstr_def arr_def)
qed

text \<open>The invariant of the module's variables.\<close>

definition server_ok :: "HevConfigServer \<Rightarrow> bool" where
  "server_ok s \<longleftrightarrow> arr 256 (srv_addr s) \<and> arr 256 (srv_udp_addr s) \<and> (srv_user s = None \<longleftrightarrow> srv_pass s = None) \<and>
     (\<forall>b. srv_user s = Some b \<or> srv_pass s = Some b \<longrightarrow> arr 256 b)"

definition config_ok :: "config \<Rightarrow> bool" where
  "config_ok c \<longleftrightarrow> arr 64 (tun_name c) \<and> arr 16 (tun_ipv4_address c) \<and> arr 64 (tun_ipv6_address c) \<and>
     arr 1024 (tun_post_up_script c) \<and> arr 1024 (tun_pre_down_script c) \<and> arr 1024 (log_file c) \<and> arr 1024 (pid_file c) \<and>
     arr 256 (user_buf c) \<and> arr 256 (pass_buf c) \<and> server_ok (srv c)"

lemma config_ok_if: "(b \<Longrightarrow> config_ok c) \<Longrightarrow> (\<not> b \<Longrightarrow> config_ok d) \<Longrightarrow> config_ok (if b then c else d)"
  by simp

lemma config_ok_fields:
  "config_ok c \<Longrightarrow> config_ok (c\<lparr>tun_ipv4_address := strncpy (tun_ipv4_address c) val 15\<rparr>)"
  "config_ok c \<Longrightarrow> config_ok (c\<lparr>tun_ipv6_address := strncpy (tun_ipv6_address c) val 63\<rparr>)"
  by (simp_all add: config_ok_def arr_strncpy)

lemma for_scalars_inv:
  "(\<And>key val s. P s \<Longrightarrow> P (body key val s)) \<Longrightarrow> P s \<Longrightarrow> P (for_scalars doc body pairs s)"
  by (induction doc body pairs s rule: for_scalars.induct) (simp split: option.split yaml_node.split)+

lemma config_ok_scalars:
  "(\<And>key val s. config_ok s \<Longrightarrow> config_ok (body key val s)) \<Longrightarrow> config_ok s \<Longrightarrow> config_ok (for_scalars doc body pairs s)"
  by (rule for_scalars_inv)

lemma ipv4_ok: "config_ok c \<Longrightarrow> config_ok (fst (hev_config_parse_tunnel_ipv4 doc base c))"
  unfolding hev_config_parse_tunnel_ipv4_def
  by (simp split: option.split yaml_node.split) (intro impI allI config_ok_scalars config_ok_if config_ok_fields)

lemma ipv6_ok: "config_ok c \<Longrightarrow> config_ok (fst (hev_config_parse_tunnel_ipv6 doc base c))"
  unfolding hev_config_parse_tunnel_ipv6_def
  by (simp split: option.split yaml_node.split) (intro impI allI config_ok_scalars config_ok_if config_ok_fields)

lemma tunnel_scalar_ok: "config_ok c \<Longrightarrow> config_ok (tunnel_scalar key val c)"
  unfolding tunnel_scalar_def by (intro config_ok_if) (simp_all add: config_ok_def arr_strncpy)

lemma tunnel_pairs_ok: "config_ok c \<Longrightarrow> config_ok (tunnel_pairs doc pairs c)"
proof (induction pairs arbitrary: c)
  case (Cons kv pairs)
  show ?case
    by (cases kv) (simp add: Let_def Cons tunnel_scalar_ok ipv4_ok ipv6_ok split: option.split yaml_node.split)
qed simp

lemma tunnel_ok: "config_ok c \<Longrightarrow> config_ok (fst (hev_config_parse_tunnel doc base c))"
  unfolding hev_config_parse_tunnel_def by (simp add: tunnel_pairs_ok split: option.split yaml_node.split)

lemma set_server_steps_ok:
  "server_ok s \<Longrightarrow> server_ok (set_pipeline pipe s)" "server_ok s \<Longrightarrow> server_ok (set_udp_mode udpm s)"
  "server_ok s \<Longrightarrow> server_ok (set_udp_addr udpa s)" "server_ok s \<Longrightarrow> server_ok (set_mark mark s)"
  unfolding set_pipeline_def set_udp_mode_def set_udp_addr_def set_mark_def
  by (simp_all add: server_ok_def arr_strncpy split: option.split)

lemma set_creds_ok: "config_ok c \<Longrightarrow> config_ok (set_creds user pass c)"
  unfolding set_creds_def Let_def by (auto simp: config_ok_def server_ok_def arr_strncpy split: option.split)

lemma set_server_ok: "config_ok c \<Longrightarrow> config_ok (set_server v addr port c)"
proof -
  have set: "config_ok d \<Longrightarrow> server_ok s \<Longrightarrow> config_ok (d\<lparr>srv := s\<rparr>)" for d s by (simp add: config_ok_def)
  have get: "config_ok d \<Longrightarrow> server_ok (srv d)" for d by (simp add: config_ok_def)
  assume c: "config_ok c"
  then have "server_ok ((srv c)\<lparr>srv_addr := strncpy (srv_addr (srv c)) addr 255, srv_port := ucast (strtoul port 10)\<rparr>)"
    by (simp add: config_ok_def server_ok_def arr_strncpy)
  with c show ?thesis unfolding set_server_def Let_def by (intro set get set_creds_ok set_server_steps_ok)
qed

lemma socks5_ok: "config_ok c \<Longrightarrow> config_ok (fst (hev_config_parse_socks5 doc base c))"
  unfolding hev_config_parse_socks5_def
  by (simp add: Let_def set_server_ok split: option.split yaml_node.split)

lemma mapdns_scalar_ok: "config_ok c \<Longrightarrow> config_ok (mapdns_scalar pton key val c)"
  unfolding mapdns_scalar_def by (intro config_ok_if) (simp_all add: config_ok_def split: option.split)

lemma mapdns_ok: "config_ok c \<Longrightarrow> config_ok (fst (hev_config_parse_mapdns pton doc base c))"
proof -
  have n: "config_ok d \<Longrightarrow> config_ok (d\<lparr>mapdns_network := x, mapdns_netmask := y\<rparr>)" for d x y
    by (simp add: config_ok_def)
  assume "config_ok c"
  then show ?thesis unfolding hev_config_parse_mapdns_def Let_def
    by (simp split: option.split yaml_node.split) (blast intro: n config_ok_scalars mapdns_scalar_ok)
qed

lemma misc_scalar_ok: "config_ok (fst s) \<Longrightarrow> config_ok (fst (misc_scalar key val s))"
proof -
  have i: "(b \<Longrightarrow> config_ok (fst x)) \<Longrightarrow> (\<not> b \<Longrightarrow> config_ok (fst y)) \<Longrightarrow> config_ok (fst (if b then x else y))"
    for b and x y :: "config \<times> timeouts" by simp
  show "config_ok (fst s) \<Longrightarrow> ?thesis"
    unfolding misc_scalar_def Let_def case_prod_beta by (intro i) (simp_all add: config_ok_def arr_strncpy)
qed

lemma misc_ok: "config_ok c \<Longrightarrow> config_ok (fst (hev_config_parse_misc doc base c))"
proof -
  assume c: "config_ok c"
  have m: "config_ok (fst (for_scalars doc misc_scalar pairs (c, t)))" for pairs t
    by (rule for_scalars_inv [where P = "\<lambda>s. config_ok (fst s)"]) (simp_all add: misc_scalar_ok c)
  have f: "config_ok d \<Longrightarrow> config_ok (d\<lparr>tcp_read_write_timeout := x\<rparr>)"
    "config_ok d \<Longrightarrow> config_ok (d\<lparr>udp_read_write_timeout := x\<rparr>)" for d x
    by (simp_all add: config_ok_def)
  show ?thesis
    unfolding hev_config_parse_misc_def Let_def case_prod_beta
    by (simp add: c split: option.split yaml_node.split) (intro impI allI conjI f m)
qed

lemma doc_pairs_ok: "config_ok c \<Longrightarrow> config_ok (fst (doc_pairs pton doc pairs c))"
proof (induction pton doc pairs c rule: doc_pairs.induct)
  case (2 pton doc k v pairs c)
  let ?r = "\<lambda>key node. if key = str ''tunnel'' then hev_config_parse_tunnel doc node c
    else if key = str ''socks5'' then hev_config_parse_socks5 doc node c
    else if key = str ''mapdns'' then hev_config_parse_mapdns pton doc node c
    else if key = str ''misc'' then hev_config_parse_misc doc node c
    else (c, 0)"
  have r: "config_ok (fst (?r key node))" for key node
    using 2(2) tunnel_ok socks5_ok mapdns_ok misc_ok by simp
  show ?case
  proof (cases "k \<noteq> 0 \<and> v \<noteq> 0 \<and> (\<exists>b. yaml_document_get_node doc k = Some (YAML_SCALAR_NODE b))")
    case True
    then obtain b where b: "yaml_document_get_node doc k = Some (YAML_SCALAR_NODE b)" "k \<noteq> 0" "v \<noteq> 0" by blast
    show ?thesis
      using 2 b r [of "cstr b" "yaml_document_get_node doc v"] by (cases "?r (cstr b) (yaml_document_get_node doc v)") (simp add: Let_def)
  qed (use 2(2) in \<open>auto split: option.split yaml_node.split\<close>)
qed simp

lemma parse_doc_ok: "config_ok c \<Longrightarrow> config_ok (fst (hev_config_parse_doc pton doc c))"
proof -
  have f: "config_ok d \<Longrightarrow> config_ok (fit_sizes d)" for d
    unfolding fit_sizes_def Let_def by (simp add: config_ok_def)
  show "config_ok c \<Longrightarrow> ?thesis"
    using doc_pairs_ok unfolding hev_config_parse_doc_def Let_def case_prod_beta
    by (simp add: f split: option.split yaml_node.split)
qed

section \<open>The values of a section\<close>

text \<open>The pairs a section reads, and the last value it reads for a key.\<close>

fun scalar_pairs :: "yaml_document \<Rightarrow> (int \<times> int) list \<Rightarrow> (cstring \<times> cstring) list" where
  "scalar_pairs doc [] = []"
| "scalar_pairs doc ((k, v) # pairs) =
     (if k = 0 \<or> v = 0 then []
      else case (yaml_document_get_node doc k, yaml_document_get_node doc v) of
        (Some (YAML_SCALAR_NODE key), Some (YAML_SCALAR_NODE val)) \<Rightarrow> (cstr key, cstr val) # scalar_pairs doc pairs
      | _ \<Rightarrow> [])"

definition last_value :: "(cstring \<times> cstring) list \<Rightarrow> string \<Rightarrow> cstring option" where
  "last_value kvs key = map_of (rev kvs) (str key)"

lemma for_scalars_fold: "for_scalars doc body pairs s = fold (\<lambda>(k, v). body k v) (scalar_pairs doc pairs) s"
  by (induction doc body pairs s rule: for_scalars.induct) (simp split: option.split yaml_node.split)+

lemma last_value_snoc: "last_value (kvs @ [(k, v)]) key = (if k = str key then Some v else last_value kvs key)"
  by (simp add: last_value_def)

lemma scalar_pairs_cstring: "(k, v) \<in> set (scalar_pairs doc pairs) \<Longrightarrow> is_cstring k \<and> is_cstring v"
  by (induction doc pairs rule: scalar_pairs.induct) (auto split: if_splits option.splits yaml_node.splits)

lemma last_value_cstring: "last_value (scalar_pairs doc pairs) key = Some v \<Longrightarrow> is_cstring v"
  unfolding last_value_def by (auto dest!: map_of_SomeD scalar_pairs_cstring)

lemma of_char_u8 [simp]: "(of_char c :: u8) = of_char d \<longleftrightarrow> c = d"
proof
  assume *: "(of_char c :: u8) = of_char d"
  have "unat (of_char c :: u8) = of_char c" for c
  proof -
    have "unat (of_nat (of_char c) :: u8) = of_char c"
      using take_bit_nat_eq_self [of "of_char c" 8] by (simp only: unsigned_of_nat of_nat_id) simp
    then show ?thesis by (simp only: of_nat_of_char)
  qed
  with * have "(of_char c :: nat) = of_char d" by metis
  then show "c = d" by simp
qed simp

lemma str_inj [simp]: "str s = str t \<longleftrightarrow> s = t"
  unfolding str_def by (rule inj_map_eq_map) (simp add: inj_def)

lemma socks5_values_fold:
  "fold (\<lambda>(k, v). socks5_scalar k v) kvs no_values =
    \<lparr>v_addr = last_value kvs ''address'', v_port = last_value kvs ''port'', v_udpm = last_value kvs ''udp'',
     v_udpa = last_value kvs ''udp-address'', v_user = last_value kvs ''username'', v_pass = last_value kvs ''password'',
     v_mark = last_value kvs ''mark'', v_pipe = last_value kvs ''pipeline''\<rparr>"
proof (induction kvs rule: rev_induct)
  case (snoc kv kvs)
  then show ?case by (cases kv) (simp add: socks5_scalar_def last_value_snoc)
qed (simp add: no_values_def last_value_def)

lemma set_server_fields:
  "srv_addr (srv (set_server v addr port c)) = strncpy (srv_addr (srv c)) addr 255"
  "srv_port (srv (set_server v addr port c)) = ucast (strtoul port 10)"
  "srv_pipeline (srv (set_server v addr port c)) \<longleftrightarrow> srv_pipeline (srv c) \<or> (\<exists>p. v_pipe v = Some p \<and> strcasecmp p (str ''true'') = 0)"
  "srv_udp_in_udp (srv (set_server v addr port c)) \<longleftrightarrow> srv_udp_in_udp (srv c) \<or> (\<exists>m. v_udpm v = Some m \<and> strcasecmp m (str ''udp'') = 0)"
  "srv_udp_addr (srv (set_server v addr port c)) =
     (case v_udpa v of Some a \<Rightarrow> strncpy (srv_udp_addr (srv c)) a 255 | None \<Rightarrow> srv_udp_addr (srv c))"
  "srv_mark (srv (set_server v addr port c)) = (case v_mark v of Some m \<Rightarrow> ucast (strtoul m 0) | None \<Rightarrow> srv_mark (srv c))"
proof -
  have steps: "srv_addr (set_pipeline p s) = srv_addr s" "srv_port (set_pipeline p s) = srv_port s"
      "srv_pipeline (set_pipeline p s) \<longleftrightarrow> srv_pipeline s \<or> (\<exists>x. p = Some x \<and> strcasecmp x (str ''true'') = 0)"
      "srv_udp_in_udp (set_pipeline p s) = srv_udp_in_udp s" "srv_udp_addr (set_pipeline p s) = srv_udp_addr s"
      "srv_mark (set_pipeline p s) = srv_mark s"
      "srv_addr (set_udp_mode p s) = srv_addr s" "srv_port (set_udp_mode p s) = srv_port s"
      "srv_udp_in_udp (set_udp_mode p s) \<longleftrightarrow> srv_udp_in_udp s \<or> (\<exists>x. p = Some x \<and> strcasecmp x (str ''udp'') = 0)"
      "srv_pipeline (set_udp_mode p s) = srv_pipeline s" "srv_udp_addr (set_udp_mode p s) = srv_udp_addr s"
      "srv_mark (set_udp_mode p s) = srv_mark s"
      "srv_addr (set_udp_addr p s) = srv_addr s" "srv_port (set_udp_addr p s) = srv_port s"
      "srv_pipeline (set_udp_addr p s) = srv_pipeline s" "srv_udp_in_udp (set_udp_addr p s) = srv_udp_in_udp s"
      "srv_udp_addr (set_udp_addr p s) = (case p of Some a \<Rightarrow> strncpy (srv_udp_addr s) a 255 | None \<Rightarrow> srv_udp_addr s)"
      "srv_mark (set_udp_addr p s) = srv_mark s"
      "srv_addr (set_mark p s) = srv_addr s" "srv_port (set_mark p s) = srv_port s"
      "srv_pipeline (set_mark p s) = srv_pipeline s" "srv_udp_in_udp (set_mark p s) = srv_udp_in_udp s"
      "srv_udp_addr (set_mark p s) = srv_udp_addr s"
      "srv_mark (set_mark p s) = (case p of Some m \<Rightarrow> ucast (strtoul m 0) | None \<Rightarrow> srv_mark s)" for p s
    unfolding set_pipeline_def set_udp_mode_def set_udp_addr_def set_mark_def by (simp_all split: option.split)
  have creds: "srv_addr (srv (set_creds u p d)) = srv_addr (srv d)" "srv_port (srv (set_creds u p d)) = srv_port (srv d)"
      "srv_pipeline (srv (set_creds u p d)) = srv_pipeline (srv d)" "srv_udp_in_udp (srv (set_creds u p d)) = srv_udp_in_udp (srv d)"
      "srv_udp_addr (srv (set_creds u p d)) = srv_udp_addr (srv d)" "srv_mark (srv (set_creds u p d)) = srv_mark (srv d)" for u p d
    unfolding set_creds_def Let_def by (simp_all split: option.split)
  note defs = set_server_def Let_def creds steps
  show "srv_addr (srv (set_server v addr port c)) = strncpy (srv_addr (srv c)) addr 255" by (simp add: defs)
  show "srv_port (srv (set_server v addr port c)) = ucast (strtoul port 10)" by (simp add: defs)
  show "srv_pipeline (srv (set_server v addr port c)) \<longleftrightarrow> srv_pipeline (srv c) \<or> (\<exists>p. v_pipe v = Some p \<and> strcasecmp p (str ''true'') = 0)"
    by (simp add: defs)
  show "srv_udp_in_udp (srv (set_server v addr port c)) \<longleftrightarrow> srv_udp_in_udp (srv c) \<or> (\<exists>m. v_udpm v = Some m \<and> strcasecmp m (str ''udp'') = 0)"
    by (simp add: defs)
  show "srv_udp_addr (srv (set_server v addr port c)) =
     (case v_udpa v of Some a \<Rightarrow> strncpy (srv_udp_addr (srv c)) a 255 | None \<Rightarrow> srv_udp_addr (srv c))" by (simp add: defs split: option.split)
  show "srv_mark (srv (set_server v addr port c)) = (case v_mark v of Some m \<Rightarrow> ucast (strtoul m 0) | None \<Rightarrow> srv_mark (srv c))"
    by (simp add: defs split: option.split)
qed

lemma set_server_creds:
  "v_user v = Some u \<Longrightarrow> v_pass v = Some p \<Longrightarrow> srv_user (srv (set_server v addr port c)) = Some (strncpy (user_buf c) u 255) \<and>
     srv_pass (srv (set_server v addr port c)) = Some (strncpy (pass_buf c) p 255)"
  "v_user v = None \<or> v_pass v = None \<Longrightarrow> srv_user (srv (set_server v addr port c)) = srv_user (srv c) \<and>
     srv_pass (srv (set_server v addr port c)) = srv_pass (srv c)"
proof -
  have steps: "srv_user (set_pipeline p s) = srv_user s" "srv_pass (set_pipeline p s) = srv_pass s"
    "srv_user (set_udp_mode p s) = srv_user s" "srv_pass (set_udp_mode p s) = srv_pass s"
    "srv_user (set_udp_addr p s) = srv_user s" "srv_pass (set_udp_addr p s) = srv_pass s"
    "srv_user (set_mark p s) = srv_user s" "srv_pass (set_mark p s) = srv_pass s" for p s
    unfolding set_pipeline_def set_udp_mode_def set_udp_addr_def set_mark_def by (simp_all split: option.split)
  show "v_user v = Some u \<Longrightarrow> v_pass v = Some p \<Longrightarrow> srv_user (srv (set_server v addr port c)) = Some (strncpy (user_buf c) u 255) \<and>
     srv_pass (srv (set_server v addr port c)) = Some (strncpy (pass_buf c) p 255)"
    by (simp add: set_server_def set_creds_def Let_def steps)
  show "v_user v = None \<or> v_pass v = None \<Longrightarrow> srv_user (srv (set_server v addr port c)) = srv_user (srv c) \<and>
     srv_pass (srv (set_server v addr port c)) = srv_pass (srv c)"
    by (cases "v_user v"; cases "v_pass v") (simp_all add: set_server_def set_creds_def Let_def steps)
qed

section \<open>Properties\<close>


lemma config_initial_ok: "config_ok config_initial"
  by (simp add: config_ok_def config_initial_def server_ok_def)


text \<open>
  C18: The section of the server. For every key the last value read counts. Without a port or an
  address, or with one of user name and password only, the section is an error that changes nothing;
  otherwise the server has exactly the values of the section, strings cut to 255 bytes, and keeps
  what the section does not mention.
\<close>
theorem config_server_values:
  assumes "config_ok c"
  shows "((last_value (scalar_pairs doc pairs) ''port'' = None \<or> last_value (scalar_pairs doc pairs) ''address'' = None \<or>
      (last_value (scalar_pairs doc pairs) ''username'' = None) \<noteq> (last_value (scalar_pairs doc pairs) ''password'' = None)) \<and>
      hev_config_parse_socks5 doc (Some (YAML_MAPPING_NODE pairs)) c = (c, -1)) \<or>
    (\<exists>port addr c'. last_value (scalar_pairs doc pairs) ''port'' = Some port \<and> last_value (scalar_pairs doc pairs) ''address'' = Some addr \<and>
      (last_value (scalar_pairs doc pairs) ''username'' = None) = (last_value (scalar_pairs doc pairs) ''password'' = None) \<and>
      hev_config_parse_socks5 doc (Some (YAML_MAPPING_NODE pairs)) c = (c', 0) \<and>
      cstr (srv_addr (srv c')) = take 255 addr \<and> srv_port (srv c') = ucast (strtoul port 10) \<and>
      (srv_pipeline (srv c') \<longleftrightarrow> srv_pipeline (srv c) \<or>
        (\<exists>v. last_value (scalar_pairs doc pairs) ''pipeline'' = Some v \<and> strcasecmp v (str ''true'') = 0)) \<and>
      (srv_udp_in_udp (srv c') \<longleftrightarrow> srv_udp_in_udp (srv c) \<or>
        (\<exists>v. last_value (scalar_pairs doc pairs) ''udp'' = Some v \<and> strcasecmp v (str ''udp'') = 0)) \<and>
      cstr (srv_udp_addr (srv c')) = (case last_value (scalar_pairs doc pairs) ''udp-address'' of
        Some v \<Rightarrow> take 255 v | None \<Rightarrow> cstr (srv_udp_addr (srv c))) \<and>
      map_option cstr (srv_user (srv c')) = (case last_value (scalar_pairs doc pairs) ''username'' of
        Some v \<Rightarrow> Some (take 255 v) | None \<Rightarrow> map_option cstr (srv_user (srv c))) \<and>
      map_option cstr (srv_pass (srv c')) = (case last_value (scalar_pairs doc pairs) ''password'' of
        Some v \<Rightarrow> Some (take 255 v) | None \<Rightarrow> map_option cstr (srv_pass (srv c))) \<and>
      srv_mark (srv c') = (case last_value (scalar_pairs doc pairs) ''mark'' of
        Some v \<Rightarrow> ucast (strtoul v 0) | None \<Rightarrow> srv_mark (srv c)))"
proof -
  let ?get = "last_value (scalar_pairs doc pairs)"
  have a: "arr (Suc 255) (srv_addr (srv c))" "arr (Suc 255) (srv_udp_addr (srv c))" "arr (Suc 255) (user_buf c)" "arr (Suc 255) (pass_buf c)"
    using assms by (simp_all add: config_ok_def server_ok_def)
  note cs = last_value_cstring [of doc pairs]
  note vals = for_scalars_fold [of doc socks5_scalar pairs no_values] socks5_values_fold [of "scalar_pairs doc pairs"]
  show ?thesis
  proof (cases "?get ''port'' = None \<or> ?get ''address'' = None \<or> (?get ''username'' = None) \<noteq> (?get ''password'' = None)")
    case True
    then show ?thesis by (auto simp: hev_config_parse_socks5_def vals Let_def split: option.split)
  next
    case False
    then obtain port addr where pa: "?get ''port'' = Some port" "?get ''address'' = Some addr" by auto
    with False show ?thesis
      apply (intro disjI2)
      apply (rule exI [of _ port], rule exI [of _ addr], rule exI [of _ "set_server \<lparr>v_addr = ?get ''address'', v_port = ?get ''port'', v_udpm = ?get ''udp'',
     v_udpa = ?get ''udp-address'', v_user = ?get ''username'', v_pass = ?get ''password'',
     v_mark = ?get ''mark'', v_pipe = ?get ''pipeline''\<rparr> addr port c"])
      apply (simp add: hev_config_parse_socks5_def vals Let_def)
      apply (cases "?get ''username''"; cases "?get ''password''")
      apply (auto simp: set_server_fields set_server_creds cstr_strncpy [OF a(1) cs] cstr_strncpy [OF a(2) cs]
        cstr_strncpy [OF a(3) cs] cstr_strncpy [OF a(4) cs] split: option.split)
      done
  qed
qed

definition demo_nodes :: yaml_document where
  "demo_nodes = [YAML_SCALAR_NODE (str ''port''), YAML_SCALAR_NODE (str ''1080''), YAML_SCALAR_NODE (str ''address''),
     YAML_SCALAR_NODE (str ''127.0.0.1''), YAML_SCALAR_NODE (str ''mark''), YAML_SCALAR_NODE (str ''0x1F'')]"

lemma demo_pairs:
  "last_value (scalar_pairs demo_nodes [(1, 2), (3, 4), (5, 6)]) ''port'' = Some (str ''1080'')"
  "last_value (scalar_pairs demo_nodes [(1, 2), (3, 4), (5, 6)]) ''address'' = Some (str ''127.0.0.1'')"
  "last_value (scalar_pairs demo_nodes [(1, 2), (3, 4), (5, 6)]) ''mark'' = Some (str ''0x1F'')"
  "last_value (scalar_pairs demo_nodes [(1, 2), (3, 4), (5, 6)]) ''username'' = None"
  "last_value (scalar_pairs demo_nodes [(1, 2), (3, 4), (5, 6)]) ''password'' = None"
  by code_simp+

lemma strtoul_dec:
  "signed_digits s = (False, s) \<Longrightarrow> digits_val 10 s 0 = n \<Longrightarrow> n < 2 ^ 64 \<Longrightarrow> strtoul s 10 = of_nat n"
  by (simp add: strtoul_def detect_base_def)

lemma demo_numbers: "ucast (strtoul (str ''1080'') 10) = (1080 :: u16)" "ucast (strtoul (str ''0x1F'') 0) = (31 :: u32)"
proof -
  have "signed_digits (str ''1080'') = (False, str ''1080'')" "digits_val 10 (str ''1080'') 0 = 1080"
    "signed_digits (str ''0x1F'') = (False, str ''0x1F'')" "detect_base 0 (str ''0x1F'') = (16, str ''1F'')"
    "digits_val 16 (str ''1F'') 0 = 31" by code_simp+
  then show "ucast (strtoul (str ''1080'') 10) = (1080 :: u16)" "ucast (strtoul (str ''0x1F'') 0) = (31 :: u32)"
    by (simp_all add: strtoul_dec) (simp add: strtoul_def)
qed

theorem config_server_values_witness:
  "\<exists>c'. hev_config_parse_socks5 demo_nodes (Some (YAML_MAPPING_NODE [(1, 2), (3, 4), (5, 6)])) config_initial = (c', 0) \<and>
     srv_port (srv c') = 1080 \<and> cstr (srv_addr (srv c')) = take 255 (str ''127.0.0.1'') \<and> srv_mark (srv c') = 31"
  using config_server_values [OF config_initial_ok, of demo_nodes "[(1, 2), (3, 4), (5, 6)]"]
  by (auto simp: demo_pairs demo_numbers simp del: scalar_pairs.simps)

text \<open>
  C33: The stack of a session is large enough for its buffer. A configuration that was accepted, with
  a number of UDP buffers that the product of the sizes can hold, leaves the tasks a stack with room for the
  TCP buffer and for the UDP buffers beyond the base size, and the TCP buffer is never larger than
  what lwIP accepts for sending.
\<close>
theorem config_stack_suffices:
  assumes "hev_config_parse_doc pton doc c = (c', 0)"
    and "0 \<le> hev_config_get_misc_udp_copy_buffer_nums c'" and "hev_config_get_misc_udp_copy_buffer_nums c' \<le> 1431642"
  shows "TASK_STACK_SIZE + UDP_BUF_SIZE * hev_config_get_misc_udp_copy_buffer_nums c' \<le> hev_config_get_misc_task_stack_size c' \<and>
    TASK_STACK_SIZE + hev_config_get_misc_tcp_buffer_size c' \<le> hev_config_get_misc_task_stack_size c' \<and>
    hev_config_get_misc_tcp_buffer_size c' \<le> TCP_SND_BUF"
proof -
  from assms(1) obtain d where d: "c' = fit_sizes d"
    by (auto simp: hev_config_parse_doc_def Let_def split: option.splits yaml_node.splits prod.splits if_splits)
  have n: "cfg_udp_copy_buffer_nums c' = cfg_udp_copy_buffer_nums d" by (simp add: d fit_sizes_def Let_def)
  have small: "int32 i = i" if "0 \<le> i" "i < 2147483648" for i
    unfolding int32_def using that by (intro signed_take_bit_int_eq_self) simp_all
  have "int32 (1500 * cfg_udp_copy_buffer_nums d) = 1500 * cfg_udp_copy_buffer_nums d"
    and "int32 (20480 + 1500 * cfg_udp_copy_buffer_nums d) = 20480 + 1500 * cfg_udp_copy_buffer_nums d"
    using assms(2,3) n by (intro small; simp add: hev_config_get_misc_udp_copy_buffer_nums_def)+
  moreover have "1500 * cfg_udp_copy_buffer_nums d < t \<Longrightarrow> t \<le> 65528 \<Longrightarrow> int32 (20480 + t) = 20480 + t" for t
    using assms(2) n by (intro small) (simp_all add: hev_config_get_misc_udp_copy_buffer_nums_def)
  moreover have "int32 86008 = 86008" by (rule small) simp_all
  ultimately show ?thesis
    unfolding hev_config_get_misc_udp_copy_buffer_nums_def hev_config_get_misc_task_stack_size_def hev_config_get_misc_tcp_buffer_size_def n
    by (auto simp: d fit_sizes_def Let_def)
qed

theorem config_stack_suffices_witness:
  "\<exists>c'. hev_config_parse_doc (\<lambda>_. None) [YAML_MAPPING_NODE []] config_initial = (c', 0) \<and>
     hev_config_get_misc_tcp_buffer_size c' = 65528 \<and> TASK_STACK_SIZE + 65528 \<le> hev_config_get_misc_task_stack_size c'"
proof -
  have e: "hev_config_parse_doc (\<lambda>_. None) [YAML_MAPPING_NODE []] config_initial = (config_initial\<lparr>tcp_buffer_size := 65528\<rparr>, 0)"
    by (simp add: hev_config_parse_doc_def yaml_document_get_root_node_def fit_sizes_def config_initial_def int32_def)
  from config_stack_suffices [OF e] show ?thesis
    using e by (simp add: hev_config_get_misc_udp_copy_buffer_nums_def hev_config_get_misc_task_stack_size_def
      hev_config_get_misc_tcp_buffer_size_def config_initial_def)
qed

text \<open>
  Beyond that number the sizes overflow. The document that asks for 1431656 buffers is accepted,
  and the stack stays at its default of 86016 bytes, which is less than the buffers of one call need.
\<close>
theorem config_stack_overflow:
  "\<exists>doc c'. hev_config_parse_doc pton doc config_initial = (c', 0) \<and>
     hev_config_get_misc_udp_copy_buffer_nums c' = 1431656 \<and> hev_config_get_misc_task_stack_size c' = 86016 \<and>
     hev_config_get_misc_task_stack_size c' < UDP_BUF_SIZE * hev_config_get_misc_udp_copy_buffer_nums c'"
proof -
  let ?doc = "[YAML_MAPPING_NODE [(2, 3)], YAML_SCALAR_NODE (str ''misc''), YAML_MAPPING_NODE [(4, 5)],
    YAML_SCALAR_NODE (str ''udp-copy-buffer-nums''), YAML_SCALAR_NODE (str ''1431656'')]"
  have b: "str ''1431656'' = [49, 52, 51, 49, 54, 53, 54]" by code_simp
  have n: "signed_digits (str ''1431656'') = (False, str ''1431656'')" "digits_val 10 (str ''1431656'') 0 = 1431656"
    by (simp_all add: b signed_digits_def isspace_def digit_val_def)
  have n': "is_cstring (str ''misc'')" "is_cstring (str ''udp-copy-buffer-nums'')" "is_cstring (str ''1431656'')" by code_simp+
  have num: "int32 (uint (strtoul (str ''1431656'') 10)) = 1431656"
    by (simp add: strtoul_dec [OF n(1,2)] int32_def)
  have c: "is_cstring s \<Longrightarrow> cstr s = s" for s by (auto simp: cstr_def is_cstring_def takeWhile_eq_all_conv)
  have misc: "hev_config_parse_misc ?doc (Some (YAML_MAPPING_NODE [(4, 5)])) config_initial =
      (config_initial\<lparr>cfg_udp_copy_buffer_nums := 1431656\<rparr>, 0)"
    by (simp add: hev_config_parse_misc_def yaml_document_get_node_def c [OF n'(2)] c [OF n'(3)] misc_scalar_def num)
  have "hev_config_parse_doc pton ?doc config_initial = (config_initial\<lparr>cfg_udp_copy_buffer_nums := 1431656, tcp_buffer_size := 65528\<rparr>, 0)"
    using misc by (simp add: hev_config_parse_doc_def yaml_document_get_root_node_def yaml_document_get_node_def c [OF n'(1)]
      fit_sizes_def int32_def config_initial_def)
  then show ?thesis
    by (intro exI [of _ ?doc] exI [of _ "config_initial\<lparr>cfg_udp_copy_buffer_nums := 1431656, tcp_buffer_size := 65528\<rparr>"])
      (simp add: hev_config_get_misc_udp_copy_buffer_nums_def hev_config_get_misc_task_stack_size_def config_initial_def)
qed

end
