(* ===== verification/Hev_Session.thy ===== *)
theory Hev_Session
  imports Hev_Socks5_Client Hev_Config Hev_DNS_Handle
begin

text \<open>
  What the sessions of the tunnel share: \<open>hev-socks5-session.c\<close>, the conversions between the
  addresses of lwIP and of SOCKS5 in \<open>hev-utils.c\<close>, and the functions by which the session
  classes replace those of the client.
\<close>

section \<open>Addresses of lwIP\<close>

text \<open>An address is its bytes in network order and its type.\<close>

datatype ip_addr = IPADDR_TYPE_V4 "u8 list" | IPADDR_TYPE_V6 "u8 list" | IPADDR_TYPE_ANY

text \<open>
  The destination of a packet as a SOCKS5 address: an address of the mapped DNS becomes the name it
  stands for. \<open>buf\<close> is what the result held before; the cache, when there is one, is searched.
\<close>

definition hev_socks5_addr_from_lwip ::
  "HevMappedDNS option \<Rightarrow> HevSocks5Addr \<Rightarrow> ip_addr \<Rightarrow> u16 \<Rightarrow> (HevMappedDNS option \<times> HevSocks5Addr \<times> int) option" where
  "hev_socks5_addr_from_lwip dns buf ip port =
     (case ip of
        IPADDR_TYPE_V4 b \<Rightarrow>
          (case dns of
             None \<Rightarrow> Some (None, fst (hev_socks5_addr_from_ipv4 buf b (htons port)), 0)
           | Some d \<Rightarrow> (case hev_mapped_dns_lookup d (ntohl (load32 b)) of
               None \<Rightarrow> None
             | Some (d, None) \<Rightarrow> Some (Some d, fst (hev_socks5_addr_from_ipv4 buf b (htons port)), 0)
             | Some (d, Some name) \<Rightarrow>
                 (case hev_socks5_addr_from_name buf name (htons port) of
                    None \<Rightarrow> None
                  | Some (addr, n) \<Rightarrow> Some (Some d, addr, 0))))
      | IPADDR_TYPE_V6 b \<Rightarrow> Some (dns, fst (hev_socks5_addr_from_ipv6 buf b (htons port)), 0)
      | IPADDR_TYPE_ANY \<Rightarrow> Some (dns, buf, -1))"

definition hev_socks5_addr_into_lwip :: "HevSocks5Addr \<Rightarrow> (ip_addr \<times> u16) option" where
  "hev_socks5_addr_into_lwip addr =
     (if addr_atype addr = HEV_SOCKS5_ADDR_TYPE_IPV4 then Some (IPADDR_TYPE_V4 (ipv4_addr addr), ntohs (ipv4_port addr))
      else if addr_atype addr = HEV_SOCKS5_ADDR_TYPE_IPV6 then Some (IPADDR_TYPE_V6 (ipv6_addr addr), ntohs (ipv6_port addr))
      else None)"

section \<open>Functions of the session classes\<close>

definition set_sock_mark :: "int \<Rightarrow> u32 \<Rightarrow> int io" where
  "set_sock_mark fd m = Setsockopt fd SO_MARK (uint m) Ret"

definition hev_socks5_session_tcp_bind :: "HevConfigServer \<Rightarrow> bindf" where
  "hev_socks5_session_tcp_bind sv self fd dest =
     (if srv_mark sv \<noteq> 0 then io_bind (set_sock_mark fd (srv_mark sv)) (\<lambda>res. if res < 0 then Ret (-1) else Ret 0)
      else Ret 0)"

definition hev_socks5_session_udp_bind :: "HevConfigServer \<Rightarrow> bindf" where
  "hev_socks5_session_udp_bind sv self fd dest =
     (if srv_mark sv \<noteq> 0 then io_bind (set_sock_mark fd (srv_mark sv)) (\<lambda>res. if res < 0 then Ret (-1) else Ret 0)
      else Ret 0)"

definition hev_socks5_addr_get_port :: "HevSocks5Addr \<Rightarrow> u16" where
  "hev_socks5_addr_get_port addr =
     (if addr_atype addr = HEV_SOCKS5_ADDR_TYPE_IPV4 then ipv4_port addr
      else if addr_atype addr = HEV_SOCKS5_ADDR_TYPE_IPV6 then ipv6_port addr
      else if addr_atype addr = HEV_SOCKS5_ADDR_TYPE_NAME then
        load16 (domain_addr addr ! unat (domain_len addr)) (domain_addr addr ! (unat (domain_len addr) + 1))
      else 0)"

text \<open>
  A UDP session may override the address the server replied; the reply is in a buffer that holds any
  address, whose other bytes are \<open>stk\<close>.
\<close>

definition hev_socks5_session_udp_set_upstream_addr ::
  "pton \<Rightarrow> HevConfigServer \<Rightarrow> u8 list \<Rightarrow> socks5_settings \<Rightarrow> upstreamf" where
  "hev_socks5_session_udp_set_upstream_addr pton sv stk c self addr =
     (let up = hev_socks5_client_udp_set_upstream_addr pton (hev_socks5_session_udp_bind sv) c self
      in if srv_udp_in_udp sv \<and> srv_udp_addr sv ! 0 \<noteq> 0 then
        (case hev_socks5_addr_from_name (take addr_size (addr @ stk)) (cstr (srv_udp_addr sv)) (hev_socks5_addr_get_port addr) of
           None \<Rightarrow> Crash
         | Some (addr, n) \<Rightarrow> up addr)
      else up addr)"

section \<open>Running a session\<close>

definition session_auth :: "HevConfigServer \<Rightarrow> HevSocks5Client \<Rightarrow> HevSocks5Client" where
  "session_auth sv self = (case (srv_user sv, srv_pass sv) of
     (Some user, Some pass) \<Rightarrow> hev_socks5_client_set_auth self (Some (cstr user)) (Some (cstr pass))
   | _ \<Rightarrow> self)"

text \<open>
  The connection to the SOCKS5 server, the credentials, the handshake, and then \<open>splicer\<close>, the
  splicer of the class.
\<close>

definition hev_socks5_session_run ::
  "pton \<Rightarrow> bindf \<Rightarrow> upstreamf \<Rightarrow> socks5_settings \<Rightarrow> HevConfigServer \<Rightarrow> (HevSocks5Client \<Rightarrow> HevSocks5Client io) \<Rightarrow>
   HevSocks5Client \<Rightarrow> HevSocks5Client io" where
  "hev_socks5_session_run pton bindf upstream c sv splicer self =
     io_bind (hev_socks5_client_connect pton bindf c self (cstr (srv_addr sv)) (srv_port sv)) (\<lambda>(self, res).
       if res < 0 then Ret self
       else
         let self = session_auth sv self
         in io_bind (hev_socks5_client_handshake upstream c self (srv_pipeline sv)) (\<lambda>(self, res).
           if res < 0 then Ret self else splicer self))"

section \<open>Resources\<close>

lemma set_sock_mark_ok: "fd \<in> w_fds w \<Longrightarrow> (\<And>r. Q r w) \<Longrightarrow> io_ok Q (set_sock_mark fd m) w"
  by (simp add: set_sock_mark_def io_rules)

lemma session_bind_ok: "bind_ok (hev_socks5_session_tcp_bind sv)" "bind_ok (hev_socks5_session_udp_bind sv)"
  by (auto simp: bind_ok_def hev_socks5_session_tcp_bind_def hev_socks5_session_udp_bind_def io_ok_bind intro!: set_sock_mark_ok)

text \<open>What an operation of the client keeps: the kind and type of the object, and its descriptor.\<close>

definition cl_same :: "HevSocks5Client \<Rightarrow> HevSocks5Client \<Rightarrow> bool" where
  "cl_same a b \<longleftrightarrow> cl_fd b = cl_fd a \<and> cl_kind b = cl_kind a \<and> s5_type (cl_base b) = s5_type (cl_base a)"

lemma client_connect_ok:
  assumes "world_ok w" and "bind_ok bindf"
    and "\<And>self'. cl_same self self' \<Longrightarrow> Q (self', -1) w"
    and "\<And>self' fd. 0 \<le> fd \<Longrightarrow> fd \<notin> w_fds w \<Longrightarrow> cl_same (self\<lparr>cl_base := (cl_base self)\<lparr>s5_fd := fd\<rparr>\<rparr>) self' \<Longrightarrow>
      Q (self', 0) (with_fd fd w)"
  shows "io_ok Q (hev_socks5_client_connect pton bindf c self addr port) w"
proof -
  let ?self = "self\<lparr>cl_base := hev_socks5_set_timeout (cl_base self) (hev_socks5_get_connect_timeout c)\<rparr>"
  have same: "cl_same self ?self" by (simp add: cl_same_def hev_socks5_set_timeout_def)
  have fam: "cl_same (self\<lparr>cl_base := (cl_base self)\<lparr>s5_fd := fd\<rparr>\<rparr>)
      (?self\<lparr>cl_base := hev_socks5_set_addr_family ((cl_base ?self)\<lparr>s5_fd := fd\<rparr>) f\<rparr>)" for fd f
    by (simp add: cl_same_def hev_socks5_set_timeout_def hev_socks5_set_addr_family_def)
  have after: "io_ok Q (io_bind (bindf (cl_base ?self) fd saddr) (\<lambda>res.
        if res < 0 then Del_Fd fd (Close fd (Ret (?self, -1)))
        else Connect fd saddr (\<lambda>res.
          if res < 0 then Del_Fd fd (Close fd (Ret (?self, -1)))
          else Ret (?self\<lparr>cl_base := hev_socks5_set_addr_family ((cl_base ?self)\<lparr>s5_fd := fd\<rparr>) f\<rparr>, 0)))) (with_fd fd w)"
    if fd: "0 \<le> fd" "fd \<notin> w_fds w" for fd saddr f
    unfolding io_ok_bind [of Q]
  proof (rule bind_okD [OF assms(2)], simp, goal_cases)
    case (1 r)
    show ?case using assms(1) fd assms(3) [OF same] assms(4) [OF fd fam] by (simp add: io_rules)
  qed
  show ?thesis
    unfolding hev_socks5_client_connect_def Let_def io_ok_bind [of Q]
  proof (rule name_into_ok, goal_cases)
    case (1 r)
    show ?case
    proof (cases r)
      case (fields saddr f res)
      have "io_ok Q (io_bind (hev_socks5_socket c SOCK_STREAM) (\<lambda>fd. if fd < 0 then Ret (?self, -1)
          else io_bind (bindf (cl_base ?self) fd saddr) (\<lambda>res.
            if res < 0 then Del_Fd fd (Close fd (Ret (?self, -1)))
            else Connect fd saddr (\<lambda>res.
              if res < 0 then Del_Fd fd (Close fd (Ret (?self, -1)))
              else Ret (?self\<lparr>cl_base := hev_socks5_set_addr_family ((cl_base ?self)\<lparr>s5_fd := fd\<rparr>) f\<rparr>, 0))))) w"
        unfolding io_ok_bind [of Q]
        by (rule socket_ok [OF assms(1)]) (use after assms(3) [OF same] in \<open>auto simp: io_ok_bind [of Q]\<close>)
      with fields assms(3) [OF same] show ?thesis by simp
    qed
  qed
qed

lemma write_request_ok:
  assumes "cl_fd self \<in> w_fds w" and "cl_kind self = ClientTCP (Some (p, a))" and "p \<in> w_blocks w"
    and "s5_type (cl_base self) = HEV_SOCKS5_TYPE_TCP"
    and "\<And>r. Q (self\<lparr>cl_kind := ClientTCP None\<rparr>, -1) w" and "Q (self\<lparr>cl_kind := ClientTCP None\<rparr>, 0) (w\<lparr>w_blocks := w_blocks w - {p}\<rparr>)"
  shows "io_ok Q (hev_socks5_client_write_request self) w"
  using assms
  by (simp add: hev_socks5_client_write_request_def get_upstream_addr_def hev_socks5_client_tcp_get_upstream_addr_def io_rules Let_def)

lemma client_messages_ok:
  assumes "cl_fd self \<in> w_fds w" and "\<And>r. Q r w"
  shows "io_ok Q (hev_socks5_client_write_auth_methods self) w" "io_ok Q (hev_socks5_client_write_auth_creds self) w"
    "io_ok Q (hev_socks5_client_read_auth_method self) w" "io_ok Q (hev_socks5_client_read_auth_creds self) w"
  using assms by (auto simp: hev_socks5_client_write_auth_methods_def hev_socks5_client_write_auth_creds_def
      hev_socks5_client_read_auth_method_def hev_socks5_client_read_auth_creds_def io_rules Let_def split: option.split)

lemma read_response_ok:
  assumes "cl_fd self \<in> w_fds w" and "cl_kind self = ClientTCP x" and "\<And>r. Q (self, r) w"
  shows "io_ok Q (hev_socks5_client_read_response (set_upstream_addr pton bindf c) self) w"
  using assms by (auto simp: hev_socks5_client_read_response_def set_upstream_addr_def hev_socks5_client_tcp_set_upstream_addr_def
      io_rules Let_def)

text \<open>The outcomes of a handshake, by when it ended.\<close>

definition handshake_post :: "(HevSocks5Client \<times> int \<Rightarrow> world \<Rightarrow> bool) \<Rightarrow> HevSocks5Client \<Rightarrow> addr \<Rightarrow> world \<Rightarrow> bool" where
  "handshake_post Q self p w \<longleftrightarrow>
     (\<forall>self'. cl_same self self' \<longrightarrow> Q (self', -1) w) \<and>
     (\<forall>self'. cl_same (self\<lparr>cl_kind := ClientTCP None\<rparr>) self' \<longrightarrow> Q (self', -1) w) \<and>
     (\<forall>self' r. cl_same (self\<lparr>cl_kind := ClientTCP None\<rparr>) self' \<longrightarrow> Q (self', r) (w\<lparr>w_blocks := w_blocks w - {p}\<rparr>))"

lemma cl_same_refl [simp]: "cl_same self self"
  by (simp add: cl_same_def)

lemma handshake_postD:
  "handshake_post Q self p w \<Longrightarrow> Q (self, -1) w" "handshake_post Q self p w \<Longrightarrow> Q (self\<lparr>cl_kind := ClientTCP None\<rparr>, -1) w"
  "handshake_post Q self p w \<Longrightarrow> Q (self\<lparr>cl_kind := ClientTCP None\<rparr>, r) (w\<lparr>w_blocks := w_blocks w - {p}\<rparr>)"
  by (simp_all add: handshake_post_def)

definition tcp_client :: "HevSocks5Client \<Rightarrow> addr \<Rightarrow> world \<Rightarrow> bool" where
  "tcp_client self p w \<longleftrightarrow> cl_fd self \<in> w_fds w \<and> (\<exists>a. cl_kind self = ClientTCP (Some (p, a))) \<and> p \<in> w_blocks w \<and>
     s5_type (cl_base self) = HEV_SOCKS5_TYPE_TCP"

lemma client_request_ok:
  assumes "tcp_client self p w" and "handshake_post Q self p w"
    and "io_ok Q (rest (self\<lparr>cl_kind := ClientTCP None\<rparr>)) (w\<lparr>w_blocks := w_blocks w - {p}\<rparr>)"
  shows "io_ok Q (io_bind (hev_socks5_client_write_request self) (\<lambda>(self, res). if res < 0 then Ret (self, -1) else rest self)) w"
  unfolding io_ok_bind [of Q]
proof -
  from assms(1) obtain a where c: "cl_fd self \<in> w_fds w" "cl_kind self = ClientTCP (Some (p, a))" "p \<in> w_blocks w"
    "s5_type (cl_base self) = HEV_SOCKS5_TYPE_TCP" by (auto simp: tcp_client_def)
  show "io_ok (\<lambda>x. io_ok Q (case x of (self, res) \<Rightarrow> if res < 0 then Ret (self, -1) else rest self)) (hev_socks5_client_write_request self) w"
    by (rule write_request_ok [OF c]) (use assms handshake_postD [OF assms(2)] in simp_all)
qed

lemma client_response_ok:
  assumes "tcp_client self p w" and "handshake_post Q self p w"
  shows "io_ok Q (io_bind (hev_socks5_client_read_response (set_upstream_addr pton bindf c) (self\<lparr>cl_kind := ClientTCP None\<rparr>))
      (\<lambda>(self, res). if res < 0 then Ret (self, -1) else Ret (self, 0))) (w\<lparr>w_blocks := w_blocks w - {p}\<rparr>)"
  unfolding io_ok_bind [of Q]
  by (rule read_response_ok [where x = None]) (use assms(1) handshake_postD [OF assms(2)] in \<open>auto simp: tcp_client_def\<close>)

text \<open>A message whose outcome is checked, and the rest.\<close>

lemma checked_ok:
  assumes "\<And>R. (\<And>r. R r w) \<Longrightarrow> io_ok R p w" and "Q x w" and "\<And>r. io_ok Q (k r) w"
  shows "io_ok Q (io_bind p (\<lambda>res. if res < (0 :: int) then Ret x else k res)) w"
  unfolding io_ok_bind [of Q] by (rule assms(1)) (use assms(2,3) in simp)

lemma choice_ok: "io_ok Q a w \<Longrightarrow> io_ok Q b w \<Longrightarrow> io_ok Q (if c then a else b) w"
  by simp

lemma handshake_standard_ok:
  assumes t: "tcp_client self p w" and q: "handshake_post Q self p w"
  shows "io_ok Q (hev_socks5_client_handshake_standard (set_upstream_addr pton bindf c) self) w"
proof -
  note fd = t [unfolded tcp_client_def, THEN conjunct1]
  have ret: "io_ok Q (Ret (self, -1)) w" "Q (self, -1) w" using handshake_postD [OF q] by simp_all
  note request = client_request_ok [OF t q, where rest = "\<lambda>self. io_bind (hev_socks5_client_read_response (set_upstream_addr pton bindf c) self)
    (\<lambda>(self, res). if res < 0 then Ret (self, -1) else Ret (self, 0))", OF client_response_ok [OF t q]]
  show ?thesis unfolding hev_socks5_client_handshake_standard_def Let_def
    by (intro checked_ok choice_ok ret request) (erule client_messages_ok [OF fd])+
qed

lemma handshake_pipeline_ok:
  assumes t: "tcp_client self p w" and q: "handshake_post Q self p w"
  shows "io_ok Q (hev_socks5_client_handshake_pipeline (set_upstream_addr pton bindf c) self) w"
proof -
  let ?self = "self\<lparr>cl_kind := ClientTCP None\<rparr>" and ?w = "w\<lparr>w_blocks := w_blocks w - {p}\<rparr>"
  note fd = t [unfolded tcp_client_def, THEN conjunct1]
  have fd': "cl_fd ?self \<in> w_fds ?w" using fd by simp
  have ret: "io_ok Q (Ret (self, -1)) w" "Q (self, -1) w" "io_ok Q (Ret (?self, -1)) ?w" "Q (?self, -1) ?w"
    using handshake_postD [OF q] by simp_all
  show ?thesis unfolding hev_socks5_client_handshake_pipeline_def Let_def
    apply (rule checked_ok, erule client_messages_ok [OF fd], rule ret)
    apply (rule checked_ok, erule client_messages_ok [OF fd], rule ret)
    apply (rule client_request_ok [OF t q])
    apply (intro checked_ok choice_ok ret client_response_ok [OF t q]; erule client_messages_ok [OF fd'])
    done
qed

lemma client_handshake_ok:
  assumes t: "tcp_client self p w" and q: "handshake_post Q self p w"
  shows "io_ok Q (hev_socks5_client_handshake (set_upstream_addr pton bindf c) c self pipeline) w"
proof -
  let ?self = "self\<lparr>cl_base := hev_socks5_set_timeout (cl_base self) (hev_socks5_get_tcp_timeout c)\<rparr>"
  let ?Q = "\<lambda>r w. s5_type (cl_base (fst r)) = HEV_SOCKS5_TYPE_TCP \<and> Q r w"
  have t': "tcp_client ?self p w" using t by (auto simp: tcp_client_def hev_socks5_set_timeout_def)
  have "s5_type (cl_base self) = HEV_SOCKS5_TYPE_TCP" using t by (simp add: tcp_client_def)
  moreover have "cl_same ?self x \<Longrightarrow> cl_same self x" "cl_same (?self\<lparr>cl_kind := ClientTCP None\<rparr>) x \<Longrightarrow> cl_same (self\<lparr>cl_kind := ClientTCP None\<rparr>) x" for x
    by (simp_all add: cl_same_def hev_socks5_set_timeout_def)
  ultimately have q': "handshake_post ?Q ?self p w"
    using q unfolding handshake_post_def by (auto simp: cl_same_def)
  from handshake_standard_ok [OF t' q'] handshake_pipeline_ok [OF t' q']
  have "io_ok ?Q (if pipeline then hev_socks5_client_handshake_pipeline (set_upstream_addr pton bindf c) ?self
      else hev_socks5_client_handshake_standard (set_upstream_addr pton bindf c) ?self) w" by simp
  then show ?thesis
    unfolding hev_socks5_client_handshake_def Let_def io_ok_bind [of Q] by (rule io_ok_mono) auto
qed

text \<open>What a splicer of TCP sessions keeps.\<close>

definition splicer_ok :: "(HevSocks5Client \<Rightarrow> HevSocks5Client io) \<Rightarrow> bool" where
  "splicer_ok splicer \<longleftrightarrow> (\<forall>self w. cl_fd self \<in> w_fds w \<longrightarrow> io_ok (\<lambda>self' w'. cl_same self self' \<and> w' = w) (splicer self) w)"

lemma tcp_destruct_ok:
  "0 \<le> cl_fd self \<Longrightarrow> cl_fd self \<in> w_fds w \<Longrightarrow> cl_kind self = ClientTCP None \<Longrightarrow>
    io_ok Q (client_destruct self) w \<longleftrightarrow> Q () (without_fd (cl_fd self) w)"
  "0 \<le> cl_fd self \<Longrightarrow> cl_fd self \<in> w_fds w \<Longrightarrow> cl_kind self = ClientTCP (Some (p, a)) \<Longrightarrow> p \<in> w_blocks w \<Longrightarrow>
    io_ok Q (client_destruct self) w \<longleftrightarrow> Q () (without_fd (cl_fd self) (w\<lparr>w_blocks := w_blocks w - {p}\<rparr>))"
  "cl_fd self < 0 \<Longrightarrow> cl_kind self = ClientTCP (Some (p, a)) \<Longrightarrow> p \<in> w_blocks w \<Longrightarrow>
    io_ok Q (client_destruct self) w \<longleftrightarrow> Q () (w\<lparr>w_blocks := w_blocks w - {p}\<rparr>)"
  by (simp_all add: client_destruct_def hev_socks5_client_tcp_destruct_def hev_socks5_client_destruct_def io_rules destruct_ok)

section \<open>Names of the mapped DNS\<close>

lemma masks: "(0xff0000 :: u32) = push_bit 16 (mask 8)" "(0xff00 :: u32) = push_bit 8 (mask 8)"
  by (simp_all add: mask_eq_exp_minus_1)

lemma load32_write: "load32 (write_u32 v) = ntohl v"
proof (rule bit_word_eqI)
  fix n assume n: "n < LENGTH(32)"
  have v: "8 \<le> n \<Longrightarrow> \<not> bit v (n + 24)" "24 \<le> n \<Longrightarrow> \<not> bit v (n + 8)"
    using bit_imp_le_length [of v "n + 24"] bit_imp_le_length [of v "n + 8"] by auto
  consider "n < 8" | "8 \<le> n" "n < 16" | "16 \<le> n" "n < 24" | "24 \<le> n" "n < 32" using n by force
  then show "bit (load32 (write_u32 v)) n \<longleftrightarrow> bit (ntohl v) n"
    unfolding load32_def write_u32_def ntohl_def masks
    by cases (auto simp: bit_simps add.commute v)
qed
lemma ntohl_ntohl: "ntohl (ntohl v) = v"
proof (rule bit_word_eqI)
  fix n assume n: "n < LENGTH(32)"
  have v: "8 \<le> n \<Longrightarrow> \<not> bit v (n + 24)" "24 \<le> n \<Longrightarrow> \<not> bit v (n + 8)" "16 \<le> n \<Longrightarrow> \<not> bit v (n + 16)"
    using bit_imp_le_length [of v "n + 24"] bit_imp_le_length [of v "n + 8"] bit_imp_le_length [of v "n + 16"] by auto
  consider "n < 8" | "8 \<le> n" "n < 16" | "16 \<le> n" "n < 24" | "24 \<le> n" "n < 32" using n by force
  then show "bit (ntohl (ntohl v)) n \<longleftrightarrow> bit v n"
    unfolding ntohl_def masks
    by cases (auto simp: bit_simps add.commute v)
qed
lemma ntohl_load32: "ntohl (load32 (write_u32 v)) = v"
  by (simp add: load32_write ntohl_ntohl)

lemma session_auth_fields:
  "cl_fd (session_auth sv x) = cl_fd x" "cl_kind (session_auth sv x) = cl_kind x" "s5_type (cl_base (session_auth sv x)) = s5_type (cl_base x)"
  by (simp_all add: session_auth_def hev_socks5_client_set_auth_def split: option.split)

lemma without_with_fd_blocks:
  "fd \<notin> w_fds w \<Longrightarrow> world_ok w \<Longrightarrow> without_fd fd (with_fd fd w\<lparr>w_blocks := B\<rparr>) = w\<lparr>w_blocks := B\<rparr>"
  by (auto simp: with_fd_def without_fd_def world_ok_def intro!: world.equality)

section \<open>Properties\<close>


definition demo_session :: HevSocks5Client where
  "demo_session = \<lparr>cl_base = \<lparr>s5_fd = -1, s5_timeout = -1, s5_udp_associated = False, s5_type = HEV_SOCKS5_TYPE_TCP, s5_addr_family = 0\<rparr>,
     cl_user = None, cl_pass = None, cl_kind = ClientTCP (Some (64, [1, 10, 0, 0, 1, 0, 80]))\<rparr>"


text \<open>
  The block is indeed lost. When sending the request of a TCP client fails, the target address
  is still allocated after the client was destroyed, and nothing refers to it any more.
\<close>
theorem request_failure_leaks:
  assumes "cl_fd self \<in> w_fds w" and "0 \<le> cl_fd self" and "s5_type (cl_base self) = HEV_SOCKS5_TYPE_TCP"
    and "cl_kind self = ClientTCP (Some (p, a))" and "p \<in> w_blocks w" and "addr_atype a = HEV_SOCKS5_ADDR_TYPE_IPV4"
  shows "\<exists>self' w'. io_steps (hev_socks5_client_write_request self) w (Ret (self', -1)) w \<and>
    cl_kind self' = ClientTCP None \<and> io_steps (client_destruct self') w (Ret ()) w' \<and> p \<in> w_blocks w'"
proof -
  let ?self = "self\<lparr>cl_kind := ClientTCP None\<rparr>"
  have "io_step (hev_socks5_client_write_request self) w (Ret (?self, -1)) w"
    using assms by (simp add: hev_socks5_client_write_request_def get_upstream_addr_def hev_socks5_client_tcp_get_upstream_addr_def
      Let_def io_step_simps) (rule exI [of _ "-1"], simp)
  moreover have "io_steps (client_destruct ?self) w (Ret ()) (without_fd (cl_fd self) w)"
    using assms unfolding without_fd_def
    by (auto simp: client_destruct_def hev_socks5_client_tcp_destruct_def hev_socks5_client_destruct_def hev_socks5_destruct_def
      io_step_simps intro!: io_steps_step [of _ w "Close (cl_fd self) (Ret ())" "w\<lparr>w_polled := w_polled w - {cl_fd self}\<rparr>"]
      io_steps_step [of _ "w\<lparr>w_polled := w_polled w - {cl_fd self}\<rparr>" "Ret ()"] io_steps_refl)
  ultimately show ?thesis using assms(5)
    by (intro exI [of _ ?self] exI [of _ "without_fd (cl_fd self) w"]) (auto intro: io_steps.intros)
qed

theorem request_failure_leaks_witness:
  "\<exists>self' w'. io_steps (hev_socks5_client_write_request (demo_session\<lparr>cl_base := (cl_base demo_session)\<lparr>s5_fd := 3\<rparr>\<rparr>))
      \<lparr>w_fds = {3}, w_polled = {3}, w_blocks = {64}, w_refs = (\<lambda>_. 0)\<rparr> (Ret (self', -1))
      \<lparr>w_fds = {3}, w_polled = {3}, w_blocks = {64}, w_refs = (\<lambda>_. 0)\<rparr> \<and> cl_kind self' = ClientTCP None \<and>
    io_steps (client_destruct self') \<lparr>w_fds = {3}, w_polled = {3}, w_blocks = {64}, w_refs = (\<lambda>_. 0)\<rparr> (Ret ()) w' \<and> 64 \<in> w_blocks w'"
  by (rule request_failure_leaks [of _ _ 64 "[1, 10, 0, 0, 1, 0, 80]"]) (simp_all add: demo_session_def addr_atype_def)

text \<open>
  A datagram session does not survive a failed allocation. Its request takes the address of the
  allocator without a check, and when there is no memory it is read through the null pointer.
\<close>
theorem udp_request_null:
  assumes "cl_kind self = ClientUDP fd" and "s5_type (cl_base self) = HEV_SOCKS5_TYPE_UDP_IN_UDP"
    and "s5_addr_family (cl_base self) = HEV_SOCKS5_ADDR_FAMILY_IPV4"
  shows "io_steps (hev_socks5_client_write_request self) w Crash w"
proof -
  have "io_step (hev_socks5_client_write_request self) w Crash w"
    using assms by (simp add: hev_socks5_client_write_request_def get_upstream_addr_def hev_socks5_client_udp_get_upstream_addr_def
      hev_socks5_get_addr_family_def io_step_simps)
  then show ?thesis by (auto intro: io_steps.intros)
qed

theorem udp_request_null_witness:
  "io_steps (hev_socks5_client_write_request \<lparr>cl_base = \<lparr>s5_fd = 3, s5_timeout = -1, s5_udp_associated = False,
      s5_type = HEV_SOCKS5_TYPE_UDP_IN_UDP, s5_addr_family = 2\<rparr>, cl_user = None, cl_pass = None, cl_kind = ClientUDP (-1)\<rparr>)
    \<lparr>w_fds = {3}, w_polled = {3}, w_blocks = {}, w_refs = (\<lambda>_. 0)\<rparr> Crash
    \<lparr>w_fds = {3}, w_polled = {3}, w_blocks = {}, w_refs = (\<lambda>_. 0)\<rparr>"
  by (rule udp_request_null [of _ "-1"]) simp_all



end
