(* ===== verification/Hev_Session_TCP.thy ===== *)
theory Hev_Session_TCP
  imports Hev_Ring_Buffer Hev_Session
begin

text \<open>
  The TCP session of \<open>src/hev-socks5-session-tcp.c\<close>: the splicer that moves bytes between a
  connection of the local TCP stack (lwIP) and the socket to the SOCKS5 server, and the handlers
  lwIP calls in between. Tasks are cooperative: a handler runs only while the splicer waits. So the
  object is passed to the tasks that run meanwhile at every \<open>Wait\<close>, and comes back changed.

  The state of lwIP and of the socket is a record with the bytes that went each way. A step
  relation says what each call does to it and what it requires; what the handlers may be called
  with is the relation \<open>lwip_event\<close>.
\<close>

unbundle bit_operations_syntax

section \<open>Packet buffers\<close>

text \<open>
  A chain of packet buffers is the list of its payloads, \<open>NULL\<close> the empty one. Its \<open>tot_len\<close> has 16 bits.
\<close>

type_synonym pbufs = "u8 list list"

definition tot_len :: "pbufs \<Rightarrow> u16" where
  "tot_len ps = of_nat (length (concat ps))"

fun pbuf_free_header :: "pbufs \<Rightarrow> u16 \<Rightarrow> pbufs" where
  "pbuf_free_header [] free_left = []"
| "pbuf_free_header (p # ps) free_left =
     (if free_left = 0 then p # ps
      else if length p \<le> unat free_left then pbuf_free_header ps (free_left - of_nat (length p))
      else drop (unat free_left) p # ps)"

section \<open>The session object\<close>

record HevSocks5SessionData =
  sd_node :: addr
  sd_task :: addr
  sd_self :: addr

record HevSocks5SessionTCP =
  st_base :: HevSocks5Client
  st_data :: HevSocks5SessionData
  st_queue :: pbufs
  st_pcb :: addr
  st_mutex :: addr
  st_buffer :: "HevRingBuffer option"
  st_pcb_eof :: bool

abbreviation st_fd :: "HevSocks5SessionTCP \<Rightarrow> int" where
  "st_fd self \<equiv> cl_fd (st_base self)"

definition hev_socks5_session_tcp_get_task :: "HevSocks5SessionTCP \<Rightarrow> addr" where
  "hev_socks5_session_tcp_get_task self = sd_task (st_data self)"

definition hev_socks5_session_tcp_set_task :: "HevSocks5SessionTCP \<Rightarrow> addr \<Rightarrow> HevSocks5SessionTCP" where
  "hev_socks5_session_tcp_set_task self task = self\<lparr>st_data := (st_data self)\<lparr>sd_task := task\<rparr>\<rparr>"

definition hev_socks5_session_tcp_get_node :: "HevSocks5SessionTCP \<Rightarrow> addr" where
  "hev_socks5_session_tcp_get_node self = sd_node (st_data self)"

text \<open>Termination: the timeout becomes 0, and the task is woken, which a waiting task may be at any time.\<close>

definition session_terminate :: "HevSocks5Client \<Rightarrow> HevSocks5Client" where
  "session_terminate self = self\<lparr>cl_base := hev_socks5_set_timeout (cl_base self) 0\<rparr>"

definition hev_socks5_session_terminate :: "HevSocks5SessionTCP \<Rightarrow> HevSocks5SessionTCP" where
  "hev_socks5_session_terminate self = self\<lparr>st_base := session_terminate (st_base self)\<rparr>"

section \<open>The handlers lwIP calls\<close>

abbreviation (input) ERR_OK :: int where "ERR_OK \<equiv> 0"
abbreviation (input) ERR_WOULDBLOCK :: int where "ERR_WOULDBLOCK \<equiv> -7"
abbreviation (input) TCP_WND_MAX :: nat where "TCP_WND_MAX \<equiv> 65528"

text \<open>No buffer means that the peer has closed its direction.\<close>

definition tcp_recv_handler :: "HevSocks5SessionTCP \<Rightarrow> pbufs option \<Rightarrow> HevSocks5SessionTCP \<times> int" where
  "tcp_recv_handler self p =
     (case p of
        Some ps \<Rightarrow>
          if st_queue self = [] then (self\<lparr>st_queue := ps\<rparr>, ERR_OK)
          else if unat (tot_len (st_queue self)) > TCP_WND_MAX then (self, ERR_WOULDBLOCK)
          else (self\<lparr>st_queue := st_queue self @ ps\<rparr>, ERR_OK)
      | None \<Rightarrow> (self\<lparr>st_pcb_eof := True\<rparr>, ERR_OK))"

definition tcp_sent_handler :: "HevSocks5SessionTCP \<Rightarrow> u16 \<Rightarrow> HevSocks5SessionTCP option" where
  "tcp_sent_handler self len =
     (case st_buffer self of
        None \<Rightarrow> None
      | Some b \<Rightarrow> Some (self\<lparr>st_buffer := Some (hev_ring_buffer_read_release b (ucast len))\<rparr>))"

definition tcp_err_handler :: "HevSocks5SessionTCP \<Rightarrow> HevSocks5SessionTCP" where
  "tcp_err_handler self = hev_socks5_session_terminate (self\<lparr>st_pcb := NULL\<rparr>)"

section \<open>Programs of a session task\<close>

text \<open>
  A routine of the task as a tree of its calls. \<open>Wait\<close> runs a program that only waits, and gives
  the object to the other tasks meanwhile.
\<close>

datatype 'a ses =
    Done 'a
  | Invalid
  | Writev int pbufs "int \<times> bool \<Rightarrow> 'a ses"
  | Readv int "nat list" "rx \<Rightarrow> 'a ses"
  | Shutdown_Wr int "'a ses"
  | Lock "'a ses"
  | Unlock "'a ses"
  | Tcp_Recved addr u16 "'a ses"
  | Tcp_Write addr "u8 list" "int \<Rightarrow> 'a ses"
  | Tcp_Output addr "int \<Rightarrow> 'a ses"
  | Tcp_Shutdown addr "'a ses"
  | Tcp_Unhook addr "'a ses"
  | Tcp_Abort addr "'a ses"
  | Pbuf_Free pbufs "'a ses"
  | Class_Destruct HevSocks5Client "'a ses"
  | Update addr "'a ses"
  | Wait "int io" HevSocks5SessionTCP "HevSocks5SessionTCP \<times> int \<Rightarrow> 'a ses"

primrec ses_bind :: "'a ses \<Rightarrow> ('a \<Rightarrow> 'b ses) \<Rightarrow> 'b ses" where
  "ses_bind (Done x) c = c x"
| "ses_bind Invalid c = Invalid"
| "ses_bind (Writev fd bss k) c = Writev fd bss (\<lambda>r. ses_bind (k r) c)"
| "ses_bind (Readv fd ns k) c = Readv fd ns (\<lambda>r. ses_bind (k r) c)"
| "ses_bind (Shutdown_Wr fd k) c = Shutdown_Wr fd (ses_bind k c)"
| "ses_bind (Lock k) c = Lock (ses_bind k c)"
| "ses_bind (Unlock k) c = Unlock (ses_bind k c)"
| "ses_bind (Tcp_Recved pcb n k) c = Tcp_Recved pcb n (ses_bind k c)"
| "ses_bind (Tcp_Write pcb bs k) c = Tcp_Write pcb bs (\<lambda>r. ses_bind (k r) c)"
| "ses_bind (Tcp_Output pcb k) c = Tcp_Output pcb (\<lambda>r. ses_bind (k r) c)"
| "ses_bind (Tcp_Shutdown pcb k) c = Tcp_Shutdown pcb (ses_bind k c)"
| "ses_bind (Tcp_Unhook pcb k) c = Tcp_Unhook pcb (ses_bind k c)"
| "ses_bind (Tcp_Abort pcb k) c = Tcp_Abort pcb (ses_bind k c)"
| "ses_bind (Pbuf_Free ps k) c = Pbuf_Free ps (ses_bind k c)"
| "ses_bind (Class_Destruct b k) c = Class_Destruct b (ses_bind k c)"
| "ses_bind (Update node k) c = Update node (ses_bind k c)"
| "ses_bind (Wait p self k) c = Wait p self (\<lambda>r. ses_bind (k r) c)"

section \<open>The splicer\<close>

text \<open>Waiting, and moving the session to the end of the session list.\<close>

definition tcp_task_io_yielder :: "HevTaskYieldType \<Rightarrow> HevSocks5SessionTCP \<Rightarrow> (HevSocks5SessionTCP \<times> int) ses" where
  "tcp_task_io_yielder type self =
     Wait (hev_socks5_task_io_yielder type (cl_base (st_base self))) self
       (\<lambda>(self, res). Update (hev_socks5_session_tcp_get_node self) (Done (self, res)))"

text \<open>Forward: from the queue to the socket.\<close>

definition tcp_splice_f :: "HevSocks5SessionTCP \<Rightarrow> (HevSocks5SessionTCP \<times> int) ses" where
  "tcp_splice_f self =
     (let iov = take 64 (st_queue self);
          res = (if st_queue self \<noteq> [] then 1 else if st_pcb_eof self then -1 else 0)
      in if iov \<noteq> [] then
           Writev (st_fd self) iov (\<lambda>(s, again).
             if s \<le> 0 then (if s < 0 \<and> again then Done (self, 0) else Done (self, -1))
             else Lock (
               let self = self\<lparr>st_queue := pbuf_free_header (st_queue self) (word_of_int s)\<rparr>
               in if st_pcb self \<noteq> NULL then Tcp_Recved (st_pcb self) (word_of_int s) (Unlock (Done (self, 1)))
               else Unlock (Done (self, 1))))
         else if res < 0 then Shutdown_Wr (st_fd self) (Done (self, res))
         else Done (self, res))"

text \<open>Backward: from the socket to the ring buffer, and from there to the connection.\<close>

definition splice_read :: "HevSocks5SessionTCP \<Rightarrow> HevRingBuffer \<Rightarrow> (HevRingBuffer \<times> int) ses" where
  "splice_read self b =
     (let iov = hev_ring_buffer_writing b
      in if iov \<noteq> [] then
           Readv (st_fd self) (map (unat \<circ> snd) iov) (\<lambda>r.
             if rx_res r \<le> 0 then Done (b, if rx_res r < 0 \<and> rx_again r then 0 else -1)
             else Done (hev_ring_buffer_write_finish
               (b\<lparr>rb_data := readv_into (rb_data b) iov (rx_data r)\<rparr>) (word_of_int (rx_res r)), 1))
         else Done (b, 0))"

text \<open>
  The areas to read go to \<open>tcp_write\<close> one by one, without copying; its length argument has 16 bits.
\<close>

fun write_areas :: "addr \<Rightarrow> u8 list \<Rightarrow> iovec list \<Rightarrow> int \<Rightarrow> 64 word \<Rightarrow> (int \<times> 64 word \<Rightarrow> 'a ses) \<Rightarrow> 'a ses" where
  "write_areas pcb mem [] err s k = k (err, s)"
| "write_areas pcb mem ((base, len) # iov) err s k =
     Tcp_Write pcb (iov_bytes mem (base, ucast (ucast len :: u16)))
       (\<lambda>e. write_areas pcb mem iov (err OR e) (s + len) k)"

definition splice_write :: "HevSocks5SessionTCP \<Rightarrow> HevRingBuffer \<Rightarrow> int \<Rightarrow> (HevSocks5SessionTCP \<times> int \<times> int) ses" where
  "splice_write self b res =
     (let self = self\<lparr>st_buffer := Some b\<rparr>
      in if st_pcb self \<noteq> NULL then
           let iov = hev_ring_buffer_reading b
           in if iov \<noteq> [] then
             write_areas (st_pcb self) (rb_data b) iov ERR_OK 0 (\<lambda>(err, s).
               let self = self\<lparr>st_buffer := Some (hev_ring_buffer_read_finish b s)\<rparr>
               in Tcp_Output (st_pcb self) (\<lambda>e. Done (self, 1, err OR e)))
           else if res < 0 then Tcp_Shutdown (st_pcb self) (Done (self, res, ERR_OK))
           else Done (self, res, ERR_OK)
         else Done (self, res, ERR_OK))"

fun splice_end :: "HevSocks5SessionTCP \<times> int \<times> int \<Rightarrow> (HevSocks5SessionTCP \<times> int) ses" where
  "splice_end (self, res, err) = Unlock (Done (self, if st_pcb self = NULL \<or> err \<noteq> ERR_OK then -1 else res))"

definition tcp_splice_b :: "HevSocks5SessionTCP \<Rightarrow> (HevSocks5SessionTCP \<times> int) ses" where
  "tcp_splice_b self =
     (case st_buffer self of
        None \<Rightarrow> Invalid
      | Some b \<Rightarrow> ses_bind (splice_read self b) (\<lambda>(b, res).
          Lock (ses_bind (splice_write self b res) splice_end)))"

text \<open>
  The loops run as long as data and acknowledgements come; \<open>n\<close> bounds the number of iterations
  looked at, and the result is missing when they are used up.
\<close>

fun splice_drain :: "nat \<Rightarrow> HevSocks5SessionTCP \<Rightarrow> HevSocks5SessionTCP option ses" where
  "splice_drain 0 self = Done None"
| "splice_drain (Suc n) self =
     (if st_pcb self = NULL then Done (Some self)
      else case st_buffer self of
        None \<Rightarrow> Invalid
      | Some b \<Rightarrow>
          if hev_ring_buffer_get_use_size b = 0 then Done (Some self)
          else ses_bind (tcp_task_io_yielder HEV_TASK_WAITIO self) (\<lambda>(self, res).
            if res < 0 then Done (Some self) else splice_drain n self))"

fun splice_loop :: "nat \<Rightarrow> int \<Rightarrow> int \<Rightarrow> HevSocks5SessionTCP \<Rightarrow> HevSocks5SessionTCP option ses" where
  "splice_loop 0 res_f res_b self = Done None"
| "splice_loop (Suc n) res_f res_b self =
     ses_bind (if 0 \<le> res_f then tcp_splice_f self else Done (self, res_f)) (\<lambda>(self, res_f).
     ses_bind (if 0 \<le> res_b then tcp_splice_b self else Done (self, res_b)) (\<lambda>(self, res_b).
       if 0 < res_f \<or> 0 < res_b then
         ses_bind (tcp_task_io_yielder HEV_TASK_YIELD self) (\<lambda>(self, res).
           if res < 0 then splice_drain n self else splice_loop n res_f res_b self)
       else if res_f AND res_b = 0 then
         ses_bind (tcp_task_io_yielder HEV_TASK_WAITIO self) (\<lambda>(self, res).
           if res < 0 then splice_drain n self else splice_loop n res_f res_b self)
       else splice_drain n self))"

text \<open>\<open>mem\<close> is the memory of the task stack the ring buffer is allocated in.\<close>

definition hev_socks5_session_tcp_splice ::
  "config \<Rightarrow> u8 list \<Rightarrow> nat \<Rightarrow> HevSocks5SessionTCP \<Rightarrow> HevSocks5SessionTCP option ses" where
  "hev_socks5_session_tcp_splice c mem n self =
     (if st_pcb self = NULL then Done (Some self)
      else let tcp_buffer_size = word_of_int (hev_config_get_misc_tcp_buffer_size c);
               self = self\<lparr>st_buffer := Some (hev_ring_buffer_alloca tcp_buffer_size mem)\<rparr>
      in splice_loop n 1 1 self)"

section \<open>Construction and destruction\<close>

text \<open>
  Construction for a connection with its local address; \<open>stk\<close> is what the address on the stack
  held before. A successful construction registers the object and the three handlers with the
  connection.
\<close>

definition session_tcp_object :: "addr \<Rightarrow> HevSocks5Client \<Rightarrow> addr \<Rightarrow> addr \<Rightarrow> HevSocks5SessionTCP" where
  "session_tcp_object obj b pcb mutex = \<lparr>st_base = b, st_data = \<lparr>sd_node = obj, sd_task = NULL, sd_self = obj\<rparr>,
     st_queue = [], st_pcb = pcb, st_mutex = mutex, st_buffer = None, st_pcb_eof = False\<rparr>"

definition hev_socks5_session_tcp_construct ::
  "HevMappedDNS option \<Rightarrow> HevSocks5Addr \<Rightarrow> addr \<Rightarrow> addr \<Rightarrow> ip_addr \<Rightarrow> u16 \<Rightarrow> addr \<Rightarrow> int \<Rightarrow>
   (HevMappedDNS option \<times> HevSocks5SessionTCP option) io" where
  "hev_socks5_session_tcp_construct dns stk obj pcb local_ip local_port mutex base =
     (case hev_socks5_addr_from_lwip dns stk local_ip local_port of
        None \<Rightarrow> Crash
      | Some (dns, addr, res) \<Rightarrow>
          if res < 0 then Ret (dns, None)
          else io_bind (hev_socks5_client_tcp_construct base addr) (\<lambda>(b, res).
            if res < 0 then Ret (dns, None)
            else Ret (dns, Some (session_tcp_object obj b pcb mutex))))"

definition hev_socks5_session_tcp_new ::
  "HevMappedDNS option \<Rightarrow> HevSocks5Addr \<Rightarrow> addr \<Rightarrow> ip_addr \<Rightarrow> u16 \<Rightarrow> addr \<Rightarrow> int \<Rightarrow>
   (HevMappedDNS option \<times> HevSocks5SessionTCP option) io" where
  "hev_socks5_session_tcp_new dns stk pcb local_ip local_port mutex base =
     Malloc (\<lambda>obj. if obj = NULL then Ret (dns, None)
       else io_bind (hev_socks5_session_tcp_construct dns stk obj pcb local_ip local_port mutex base) (\<lambda>(dns, self).
         case self of None \<Rightarrow> Free obj (Ret (dns, None)) | Some self \<Rightarrow> Ret (dns, Some self)))"

definition hev_socks5_session_tcp_destruct :: "HevSocks5SessionTCP \<Rightarrow> unit ses" where
  "hev_socks5_session_tcp_destruct self =
     Lock (ses_bind
       (if st_pcb self \<noteq> NULL then Tcp_Unhook (st_pcb self) (Tcp_Abort (st_pcb self) (Done ())) else Done ()) (\<lambda>_.
       ses_bind (if st_queue self \<noteq> [] then Pbuf_Free (st_queue self) (Done ()) else Done ()) (\<lambda>_.
         Unlock (Class_Destruct (st_base self) (Done ())))))"

section \<open>Steps\<close>

text \<open>
  The socket and the connection. \<open>lw_in\<close> are the bytes lwIP has handed to the session, \<open>lw_out\<close>
  those written to the socket, \<open>lw_src\<close> those read from it, \<open>lw_sent\<close> those \<open>tcp_write\<close> has
  accepted, the first \<open>lw_acked\<close> of which the peer has acknowledged; \<open>lw_wnd\<close> is the receive window,
  \<open>lw_pcb\<close> the connection while it exists. The flags record what has happened: the peer has closed
  (\<open>lw_eof\<close>), the session has closed (\<open>lw_fin\<close>), the same for the socket (\<open>lw_done\<close>, \<open>lw_shut\<close>),
  a socket error, a refused \<open>tcp_write\<close> or \<open>tcp_output\<close>, a timeout, a refused packet, an
  invalid access in a handler.
\<close>

record lwip =
  lw_fd :: int
  lw_locked :: bool
  lw_pcb :: addr
  lw_hooked :: bool
  lw_wnd :: nat
  lw_in :: "u8 list"
  lw_out :: "u8 list"
  lw_src :: "u8 list"
  lw_sent :: "u8 list"
  lw_acked :: nat
  lw_eof :: bool
  lw_fin :: bool
  lw_done :: bool
  lw_shut :: bool
  lw_broken :: bool
  lw_failed :: bool
  lw_expired :: bool
  lw_refused :: bool
  lw_fault :: bool
  lw_freed :: "u8 list"

text \<open>
  What lwIP and the rest of the program may do while the session waits. lwIP hands over no more than
  the window, nothing after the end of the stream, reports as sent what was written and not yet
  reported, and after the error handler the connection is gone.
\<close>

inductive lwip_event :: "HevSocks5SessionTCP \<times> lwip \<Rightarrow> HevSocks5SessionTCP \<times> lwip \<Rightarrow> bool" where
  recv: "lw_pcb w \<noteq> NULL \<Longrightarrow> lw_hooked w \<Longrightarrow> \<not> lw_eof w \<Longrightarrow> concat ps \<noteq> [] \<Longrightarrow> length (concat ps) \<le> lw_wnd w \<Longrightarrow>
    tcp_recv_handler self (Some ps) = (self', ERR_OK) \<Longrightarrow>
    lwip_event (self, w) (self', w\<lparr>lw_in := lw_in w @ concat ps, lw_wnd := lw_wnd w - length (concat ps)\<rparr>)"
| refused: "lw_pcb w \<noteq> NULL \<Longrightarrow> lw_hooked w \<Longrightarrow> \<not> lw_eof w \<Longrightarrow> concat ps \<noteq> [] \<Longrightarrow> length (concat ps) \<le> lw_wnd w \<Longrightarrow>
    tcp_recv_handler self (Some ps) = (self', e) \<Longrightarrow> e \<noteq> ERR_OK \<Longrightarrow>
    lwip_event (self, w) (self', w\<lparr>lw_refused := True\<rparr>)"
| eof: "lw_pcb w \<noteq> NULL \<Longrightarrow> lw_hooked w \<Longrightarrow> tcp_recv_handler self None = (self', e) \<Longrightarrow>
    lwip_event (self, w) (self', w\<lparr>lw_eof := True\<rparr>)"
| sent: "lw_pcb w \<noteq> NULL \<Longrightarrow> lw_hooked w \<Longrightarrow> 0 < unat len \<Longrightarrow> lw_acked w + unat len \<le> length (lw_sent w) \<Longrightarrow>
    tcp_sent_handler self len = Some self' \<Longrightarrow>
    lwip_event (self, w) (self', w\<lparr>lw_acked := lw_acked w + unat len\<rparr>)"
| sent_fault: "lw_pcb w \<noteq> NULL \<Longrightarrow> lw_hooked w \<Longrightarrow> 0 < unat len \<Longrightarrow> lw_acked w + unat len \<le> length (lw_sent w) \<Longrightarrow>
    tcp_sent_handler self len = None \<Longrightarrow> lwip_event (self, w) (self, w\<lparr>lw_fault := True\<rparr>)"
| err: "lw_pcb w \<noteq> NULL \<Longrightarrow> lw_hooked w \<Longrightarrow> lwip_event (self, w) (tcp_err_handler self, w\<lparr>lw_pcb := NULL\<rparr>)"
| terminate: "lwip_event (self, w) (hev_socks5_session_terminate self, w)"

text \<open>
  The results a program that only waits may have; the remaining time \<open>hev_task_sleep\<close> returns is
  at most the time asked for.
\<close>

fun wakes :: "int io \<Rightarrow> int \<Rightarrow> bool" where
  "wakes (Yield k) res \<longleftrightarrow> k = Ret res"
| "wakes (Waitio k) res \<longleftrightarrow> k = Ret res"
| "wakes (Sleep t k) res \<longleftrightarrow> (\<exists>left \<le> t. k left = Ret res)"
| "wakes p res \<longleftrightarrow> False"

text \<open>
  The steps of a session task among events \<open>E\<close> of its surroundings. A call of lwIP needs the lock and
  a connection that exists, taking the lock one that is free, waiting one that is not held.
\<close>

definition can_call :: "addr \<Rightarrow> lwip \<Rightarrow> bool" where
  "can_call pcb w \<longleftrightarrow> lw_locked w \<and> pcb = lw_pcb w \<and> pcb \<noteq> NULL"

inductive ses_step ::
  "(HevSocks5SessionTCP \<times> lwip \<Rightarrow> HevSocks5SessionTCP \<times> lwip \<Rightarrow> bool) \<Rightarrow> 'a ses \<Rightarrow> lwip \<Rightarrow> 'a ses \<Rightarrow> lwip \<Rightarrow> bool" for E where
  writev: "fd = lw_fd w \<Longrightarrow> 0 \<le> fd \<Longrightarrow> r \<le> int (length (concat bss)) \<Longrightarrow>
    ses_step E (Writev fd bss k) w (k (r, again))
      (w\<lparr>lw_out := lw_out w @ take (nat r) (concat bss), lw_broken := lw_broken w \<or> r \<le> 0 \<and> (r < 0 \<longrightarrow> \<not> again)\<rparr>)"
| readv: "fd = lw_fd w \<Longrightarrow> 0 \<le> fd \<Longrightarrow> rx_ok (sum_list ns) r \<Longrightarrow>
    ses_step E (Readv fd ns k) w (k r)
      (w\<lparr>lw_src := lw_src w @ rx_data r, lw_done := lw_done w \<or> rx_res r = 0,
         lw_broken := lw_broken w \<or> rx_res r < 0 \<and> \<not> rx_again r\<rparr>)"
| shutdown: "fd = lw_fd w \<Longrightarrow> 0 \<le> fd \<Longrightarrow> ses_step E (Shutdown_Wr fd k1) w k1 (w\<lparr>lw_shut := True\<rparr>)"
| lock: "\<not> lw_locked w \<Longrightarrow> ses_step E (Lock k1) w k1 (w\<lparr>lw_locked := True\<rparr>)"
| unlock: "lw_locked w \<Longrightarrow> ses_step E (Unlock k1) w k1 (w\<lparr>lw_locked := False\<rparr>)"
| tcp_recved: "can_call pcb w \<Longrightarrow> ses_step E (Tcp_Recved pcb n k1) w k1 (w\<lparr>lw_wnd := lw_wnd w + unat n\<rparr>)"
| tcp_write: "can_call pcb w \<Longrightarrow> ses_step E (Tcp_Write pcb bs k2) w (k2 ERR_OK) (w\<lparr>lw_sent := lw_sent w @ bs\<rparr>)"
| tcp_write_err: "can_call pcb w \<Longrightarrow> e < 0 \<Longrightarrow> ses_step E (Tcp_Write pcb bs k2) w (k2 e) (w\<lparr>lw_failed := True\<rparr>)"
| tcp_output: "can_call pcb w \<Longrightarrow> e \<le> 0 \<Longrightarrow>
    ses_step E (Tcp_Output pcb k2) w (k2 e) (w\<lparr>lw_failed := lw_failed w \<or> e < 0\<rparr>)"
| tcp_shutdown: "can_call pcb w \<Longrightarrow> ses_step E (Tcp_Shutdown pcb k1) w k1 (w\<lparr>lw_fin := True\<rparr>)"
| tcp_unhook: "can_call pcb w \<Longrightarrow> ses_step E (Tcp_Unhook pcb k1) w k1 (w\<lparr>lw_hooked := False\<rparr>)"
| tcp_abort: "can_call pcb w \<Longrightarrow> \<not> lw_hooked w \<Longrightarrow> ses_step E (Tcp_Abort pcb k1) w k1 (w\<lparr>lw_pcb := NULL\<rparr>)"
| pbuf_free: "ps \<noteq> [] \<Longrightarrow> ses_step E (Pbuf_Free ps k1) w k1 (w\<lparr>lw_freed := lw_freed w @ concat ps\<rparr>)"
| class_destruct: "lw_pcb w = NULL \<Longrightarrow> cl_fd b = lw_fd w \<Longrightarrow> ses_step E (Class_Destruct b k1) w k1 (w\<lparr>lw_fd := -1\<rparr>)"
| update: "ses_step E (Update node k1) w k1 w"
| event: "\<not> lw_locked w \<Longrightarrow> E (self, w) (self', w') \<Longrightarrow> ses_step E (Wait p self k3) w (Wait p self' k3) w'"
| wake: "\<not> lw_locked w \<Longrightarrow> wakes p res \<Longrightarrow>
    ses_step E (Wait p self k3) w (k3 (self, res)) (w\<lparr>lw_expired := lw_expired w \<or> res < 0\<rparr>)"

inductive ses_steps ::
  "(HevSocks5SessionTCP \<times> lwip \<Rightarrow> HevSocks5SessionTCP \<times> lwip \<Rightarrow> bool) \<Rightarrow> 'a ses \<Rightarrow> lwip \<Rightarrow> 'a ses \<Rightarrow> lwip \<Rightarrow> bool" for E where
  ses_refl: "ses_steps E p w p w"
| ses_more: "ses_step E p w p1 w1 \<Longrightarrow> ses_steps E p1 w1 p2 w2 \<Longrightarrow> ses_steps E p w p2 w2"

inductive_simps ses_step_simps:
  "ses_step E (Done x) w p' w'" "ses_step E Invalid w p' w'" "ses_step E (Writev fd bss k) w p' w'"
  "ses_step E (Readv fd ns k) w p' w'" "ses_step E (Shutdown_Wr fd k1) w p' w'" "ses_step E (Lock k1) w p' w'"
  "ses_step E (Unlock k1) w p' w'" "ses_step E (Tcp_Recved pcb n k1) w p' w'" "ses_step E (Tcp_Write pcb bs k2) w p' w'"
  "ses_step E (Tcp_Output pcb k2) w p' w'" "ses_step E (Tcp_Shutdown pcb k1) w p' w'" "ses_step E (Tcp_Unhook pcb k1) w p' w'"
  "ses_step E (Tcp_Abort pcb k1) w p' w'" "ses_step E (Pbuf_Free ps k1) w p' w'" "ses_step E (Class_Destruct b k1) w p' w'"
  "ses_step E (Update node k1) w p' w'" "ses_step E (Wait p self k3) w p' w'"

text \<open>
  \<open>ses_ok E I Q p w\<close>: no run of \<open>p\<close> from \<open>w\<close> among events \<open>E\<close> gets stuck, \<open>I\<close> holds whenever the task
  waits, \<open>Q\<close> when it returns.
\<close>

primrec ses_ok ::
  "(HevSocks5SessionTCP \<times> lwip \<Rightarrow> HevSocks5SessionTCP \<times> lwip \<Rightarrow> bool) \<Rightarrow> (HevSocks5SessionTCP \<Rightarrow> lwip \<Rightarrow> bool) \<Rightarrow>
   ('a \<Rightarrow> lwip \<Rightarrow> bool) \<Rightarrow> 'a ses \<Rightarrow> lwip \<Rightarrow> bool" where
  "ses_ok E I Q (Done x) w \<longleftrightarrow> Q x w"
| "ses_ok E I Q Invalid w \<longleftrightarrow> False"
| "ses_ok E I Q (Writev fd bss k) w \<longleftrightarrow> fd = lw_fd w \<and> 0 \<le> fd \<and>
     (\<forall>r again. r \<le> int (length (concat bss)) \<longrightarrow> ses_ok E I Q (k (r, again))
       (w\<lparr>lw_out := lw_out w @ take (nat r) (concat bss), lw_broken := lw_broken w \<or> r \<le> 0 \<and> (r < 0 \<longrightarrow> \<not> again)\<rparr>))"
| "ses_ok E I Q (Readv fd ns k) w \<longleftrightarrow> fd = lw_fd w \<and> 0 \<le> fd \<and>
     (\<forall>r. rx_ok (sum_list ns) r \<longrightarrow> ses_ok E I Q (k r)
       (w\<lparr>lw_src := lw_src w @ rx_data r, lw_done := lw_done w \<or> rx_res r = 0,
          lw_broken := lw_broken w \<or> rx_res r < 0 \<and> \<not> rx_again r\<rparr>))"
| "ses_ok E I Q (Shutdown_Wr fd k) w \<longleftrightarrow> fd = lw_fd w \<and> 0 \<le> fd \<and> ses_ok E I Q k (w\<lparr>lw_shut := True\<rparr>)"
| "ses_ok E I Q (Lock k) w \<longleftrightarrow> \<not> lw_locked w \<and> ses_ok E I Q k (w\<lparr>lw_locked := True\<rparr>)"
| "ses_ok E I Q (Unlock k) w \<longleftrightarrow> lw_locked w \<and> ses_ok E I Q k (w\<lparr>lw_locked := False\<rparr>)"
| "ses_ok E I Q (Tcp_Recved pcb n k) w \<longleftrightarrow> can_call pcb w \<and> ses_ok E I Q k (w\<lparr>lw_wnd := lw_wnd w + unat n\<rparr>)"
| "ses_ok E I Q (Tcp_Write pcb bs k) w \<longleftrightarrow> can_call pcb w \<and> ses_ok E I Q (k ERR_OK) (w\<lparr>lw_sent := lw_sent w @ bs\<rparr>) \<and>
     (\<forall>e < 0. ses_ok E I Q (k e) (w\<lparr>lw_failed := True\<rparr>))"
| "ses_ok E I Q (Tcp_Output pcb k) w \<longleftrightarrow> can_call pcb w \<and>
     (\<forall>e \<le> 0. ses_ok E I Q (k e) (w\<lparr>lw_failed := lw_failed w \<or> e < 0\<rparr>))"
| "ses_ok E I Q (Tcp_Shutdown pcb k) w \<longleftrightarrow> can_call pcb w \<and> ses_ok E I Q k (w\<lparr>lw_fin := True\<rparr>)"
| "ses_ok E I Q (Tcp_Unhook pcb k) w \<longleftrightarrow> can_call pcb w \<and> ses_ok E I Q k (w\<lparr>lw_hooked := False\<rparr>)"
| "ses_ok E I Q (Tcp_Abort pcb k) w \<longleftrightarrow> can_call pcb w \<and> \<not> lw_hooked w \<and> ses_ok E I Q k (w\<lparr>lw_pcb := NULL\<rparr>)"
| "ses_ok E I Q (Pbuf_Free ps k) w \<longleftrightarrow> ps \<noteq> [] \<and> ses_ok E I Q k (w\<lparr>lw_freed := lw_freed w @ concat ps\<rparr>)"
| "ses_ok E I Q (Class_Destruct b k) w \<longleftrightarrow> lw_pcb w = NULL \<and> cl_fd b = lw_fd w \<and> ses_ok E I Q k (w\<lparr>lw_fd := -1\<rparr>)"
| "ses_ok E I Q (Update node k) w \<longleftrightarrow> ses_ok E I Q k w"
| "ses_ok E I Q (Wait p self k) w \<longleftrightarrow> (\<exists>res. wakes p res) \<and>
     (\<forall>self' w'. E\<^sup>*\<^sup>* (self, w) (self', w') \<longrightarrow> I self' w' \<and> \<not> lw_locked w' \<and>
       (\<forall>res. wakes p res \<longrightarrow> ses_ok E I Q (k (self', res)) (w'\<lparr>lw_expired := lw_expired w' \<or> res < 0\<rparr>)))"

lemma ses_ok_bind [simp]: "ses_ok E I Q (ses_bind p c) w \<longleftrightarrow> ses_ok E I (\<lambda>x. ses_ok E I Q (c x)) p w"
  by (induction p arbitrary: w) simp_all

lemma ses_ok_mono: "ses_ok E I P p w \<Longrightarrow> (\<And>x w'. P x w' \<Longrightarrow> Q x w') \<Longrightarrow> ses_ok E I Q p w"
  by (induction p arbitrary: w) fastforce+

lemma ses_ok_step: "ses_step E p w p' w' \<Longrightarrow> ses_ok E I Q p w \<Longrightarrow> ses_ok E I Q p' w'"
  by (induction rule: ses_step.induct) (auto intro: converse_rtranclp_into_rtranclp)

lemma rx_ok_some: "\<exists>r. rx_ok n r"
  using rx_ok_exists by blast

lemma ses_ok_progress:
  assumes "ses_ok E I Q p w"
  shows "(\<exists>x. p = Done x \<and> Q x w) \<or> (\<exists>p' w'. ses_step E p w p' w')"
  using assms
proof (cases p)
  case (Writev fd bss k)
  with assms show ?thesis by (auto simp: ses_step_simps intro!: exI [of _ "0 :: int"])
next
  case (Wait q self k)
  with assms have "\<not> lw_locked w" "\<exists>res. wakes q res" by (auto dest: spec [of _ self])
  with Wait show ?thesis by (auto simp: ses_step_simps)
qed (use rx_ok_some in \<open>auto simp: ses_step_simps\<close>)

lemma ses_ok_steps: "ses_steps E p w p' w' \<Longrightarrow> ses_ok E I Q p w \<Longrightarrow> ses_ok E I Q p' w'"
  by (induction rule: ses_steps.induct) (auto dest: ses_ok_step)

lemma ses_ok_wait: "ses_ok E I Q (Wait p self k) w \<Longrightarrow> I self w"
  by auto

text \<open>A run for given answers of the calls, computed.\<close>

datatype answer = A_count int bool | A_rx rx | A_err int | A_wake int

primrec ses_play :: "'a ses \<Rightarrow> answer list \<Rightarrow> lwip \<Rightarrow> ('a \<times> lwip) option" where
  "ses_play (Done x) as w = Some (x, w)"
| "ses_play Invalid as w = None"
| "ses_play (Writev fd bss k) as w = (case as of
     A_count r again # as \<Rightarrow> if fd = lw_fd w \<and> 0 \<le> fd \<and> r \<le> int (length (concat bss)) then ses_play (k (r, again)) as
       (w\<lparr>lw_out := lw_out w @ take (nat r) (concat bss), lw_broken := lw_broken w \<or> r \<le> 0 \<and> (r < 0 \<longrightarrow> \<not> again)\<rparr>) else None
   | _ \<Rightarrow> None)"
| "ses_play (Readv fd ns k) as w = (case as of
     A_rx r # as \<Rightarrow> if fd = lw_fd w \<and> 0 \<le> fd \<and> rx_ok (sum_list ns) r then ses_play (k r) as
       (w\<lparr>lw_src := lw_src w @ rx_data r, lw_done := lw_done w \<or> rx_res r = 0,
          lw_broken := lw_broken w \<or> rx_res r < 0 \<and> \<not> rx_again r\<rparr>) else None
   | _ \<Rightarrow> None)"
| "ses_play (Shutdown_Wr fd k) as w = (if fd = lw_fd w \<and> 0 \<le> fd then ses_play k as (w\<lparr>lw_shut := True\<rparr>) else None)"
| "ses_play (Lock k) as w = (if lw_locked w then None else ses_play k as (w\<lparr>lw_locked := True\<rparr>))"
| "ses_play (Unlock k) as w = (if lw_locked w then ses_play k as (w\<lparr>lw_locked := False\<rparr>) else None)"
| "ses_play (Tcp_Recved pcb n k) as w = (if can_call pcb w then ses_play k as (w\<lparr>lw_wnd := lw_wnd w + unat n\<rparr>) else None)"
| "ses_play (Tcp_Write pcb bs k) as w = (case as of
     A_err e # as \<Rightarrow> if \<not> can_call pcb w then None
       else if e = 0 then ses_play (k ERR_OK) as (w\<lparr>lw_sent := lw_sent w @ bs\<rparr>)
       else if e < 0 then ses_play (k e) as (w\<lparr>lw_failed := True\<rparr>) else None
   | _ \<Rightarrow> None)"
| "ses_play (Tcp_Output pcb k) as w = (case as of
     A_err e # as \<Rightarrow> if can_call pcb w \<and> e \<le> 0 then ses_play (k e) as (w\<lparr>lw_failed := lw_failed w \<or> e < 0\<rparr>) else None
   | _ \<Rightarrow> None)"
| "ses_play (Tcp_Shutdown pcb k) as w = (if can_call pcb w then ses_play k as (w\<lparr>lw_fin := True\<rparr>) else None)"
| "ses_play (Tcp_Unhook pcb k) as w = (if can_call pcb w then ses_play k as (w\<lparr>lw_hooked := False\<rparr>) else None)"
| "ses_play (Tcp_Abort pcb k) as w = (if can_call pcb w \<and> \<not> lw_hooked w then ses_play k as (w\<lparr>lw_pcb := NULL\<rparr>) else None)"
| "ses_play (Pbuf_Free ps k) as w = (if ps = [] then None else ses_play k as (w\<lparr>lw_freed := lw_freed w @ concat ps\<rparr>))"
| "ses_play (Class_Destruct b k) as w =
     (if lw_pcb w = NULL \<and> cl_fd b = lw_fd w then ses_play k as (w\<lparr>lw_fd := -1\<rparr>) else None)"
| "ses_play (Update node k) as w = ses_play k as w"
| "ses_play (Wait p self k) as w = (case as of
     A_wake res # as \<Rightarrow> if \<not> lw_locked w \<and> wakes p res then ses_play (k (self, res)) as (w\<lparr>lw_expired := lw_expired w \<or> res < 0\<rparr>)
       else None
   | _ \<Rightarrow> None)"

lemma ses_play_steps: "ses_play p as w = Some (x, w') \<Longrightarrow> ses_steps E p w (Done x) w'"
proof (induction p arbitrary: as w)
  case (Writev fd bss k)
  then obtain r again as' where a: "fd = lw_fd w" "0 \<le> fd" "r \<le> int (length (concat bss))"
    "ses_play (k (r, again)) as' (w\<lparr>lw_out := lw_out w @ take (nat r) (concat bss),
       lw_broken := lw_broken w \<or> r \<le> 0 \<and> (r < 0 \<longrightarrow> \<not> again)\<rparr>) = Some (x, w')"
    by (auto split: list.splits answer.splits if_splits)
  have "ses_steps E (k (r, again)) (w\<lparr>lw_out := lw_out w @ take (nat r) (concat bss),
       lw_broken := lw_broken w \<or> r \<le> 0 \<and> (r < 0 \<longrightarrow> \<not> again)\<rparr>) (Done x) w'" by (rule Writev.IH [OF _ a(4)]) simp
  with ses_step.writev [OF a(1-3), of E k again] show ?case by (rule ses_more)
qed (auto split: list.splits answer.splits if_splits intro: ses_refl ses_more [OF ses_step.writev] ses_more [OF ses_step.readv]
      ses_more [OF ses_step.shutdown] ses_more [OF ses_step.lock] ses_more [OF ses_step.unlock] ses_more [OF ses_step.tcp_recved]
      ses_more [OF ses_step.tcp_write] ses_more [OF ses_step.tcp_write_err] ses_more [OF ses_step.tcp_output]
      ses_more [OF ses_step.tcp_shutdown] ses_more [OF ses_step.tcp_unhook] ses_more [OF ses_step.tcp_abort]
      ses_more [OF ses_step.pbuf_free] ses_more [OF ses_step.class_destruct] ses_more [OF ses_step.update] ses_more [OF ses_step.wake])

end
