(* ===== verification/Hev_TCP_Stream.thy ===== *)
theory Hev_TCP_Stream
  imports Hev_Session_TCP
begin

text \<open>
  What the TCP session of \<open>Hev_Session_TCP\<close> does with the bytes of a connection. The invariant
  \<open>conn_inv\<close> holds whenever the session waits, and every event of lwIP keeps it; each direction of
  the splicer keeps it and reports why it has ended; so do the two loops. The contract of the ring
  buffer (the interpretation \<open>rb\<close>) carries the backward direction.
\<close>

unbundle bit_operations_syntax

section \<open>The invariant of a connection\<close>

text \<open>
  What lwIP handed over is what went to the socket and what is queued, and the queue and the window
  make up the full window; what came from the socket is what was given to lwIP and what is
  unread, and the ring buffer still holds, in order, all that lwIP may have to send again.
\<close>

definition link_inv :: "HevSocks5SessionTCP \<Rightarrow> lwip \<Rightarrow> bool" where
  "link_inv self w \<longleftrightarrow> st_fd self = lw_fd w \<and> 0 \<le> lw_fd w \<and> st_pcb self = lw_pcb w \<and> lw_hooked w \<and>
     lw_in w = lw_out w @ concat (st_queue self) \<and> length (concat (st_queue self)) \<le> TCP_WND_MAX \<and>
     (lw_pcb w \<noteq> NULL \<longrightarrow> lw_wnd w + length (concat (st_queue self)) = TCP_WND_MAX) \<and>
     lw_eof w = st_pcb_eof self \<and> lw_acked w \<le> length (lw_sent w) \<and> \<not> lw_refused w \<and> \<not> lw_fault w \<and> lw_freed w = []"

definition buf_inv :: "HevRingBuffer \<Rightarrow> lwip \<Rightarrow> bool" where
  "buf_inv b w \<longleftrightarrow> rb_inv b \<and> cap b \<le> 65528 \<and> length (lw_sent w) \<le> lw_acked w + length (inflight b) \<and>
     (\<not> lw_failed w \<longrightarrow> inflight b = drop (lw_acked w) (lw_sent w) \<and> lw_src w = lw_sent w @ unread b)"

definition conn_inv :: "HevSocks5SessionTCP \<Rightarrow> lwip \<Rightarrow> bool" where
  "conn_inv self w \<longleftrightarrow> link_inv self w \<and> \<not> lw_locked w \<and> (\<exists>b. st_buffer self = Some b \<and> buf_inv b w)"

text \<open>Why a direction has ended.\<close>

definition ended_f :: "int \<Rightarrow> HevSocks5SessionTCP \<Rightarrow> lwip \<Rightarrow> bool" where
  "ended_f res self w \<longleftrightarrow> (res < 0 \<longrightarrow> lw_broken w \<or> lw_eof w \<and> st_queue self = [] \<and> lw_shut w)"

definition ended_b :: "int \<Rightarrow> HevSocks5SessionTCP \<Rightarrow> lwip \<Rightarrow> bool" where
  "ended_b res self w \<longleftrightarrow> (res < 0 \<longrightarrow> lw_pcb w = NULL \<or> lw_failed w \<or> lw_broken w \<or>
     lw_done w \<and> lw_fin w \<and> (\<exists>b. st_buffer self = Some b \<and> unread b = []))"

lemma concat_free_header: "concat (pbuf_free_header ps n) = drop (unat n) (concat ps)"
proof (induction ps n rule: pbuf_free_header.induct)
  case (2 p ps n)
  have "unat (n - of_nat (length p)) = unat n - length p" if "length p \<le> unat n"
  proof -
    have "unat n < 2 ^ 16" using unsigned_less [of n] by simp
    with that have "unat (of_nat (length p) :: u16) = length p"
      by (simp add: unat_of_nat take_bit_nat_eq_self)
    with that show ?thesis by (simp add: unat_sub word_le_nat_alt)
  qed
  with 2 show ?case by auto
qed simp

lemma recv_accepted:
  assumes "length (concat (st_queue self)) \<le> TCP_WND_MAX"
  shows "tcp_recv_handler self (Some ps) = (self\<lparr>st_queue := st_queue self @ ps\<rparr>, ERR_OK)"
proof -
  have "unat (tot_len (st_queue self)) = length (concat (st_queue self))"
    using assms by (simp add: tot_len_def unat_of_nat take_bit_nat_eq_self)
  with assms show ?thesis by (simp add: tcp_recv_handler_def)
qed

lemma sent_released:
  assumes "buf_inv b w" and "lw_acked w + unat len \<le> length (lw_sent w)" and "lw_acked w \<le> length (lw_sent w)"
  shows "buf_inv (hev_ring_buffer_read_release b (ucast len)) (w\<lparr>lw_acked := lw_acked w + unat len\<rparr>) \<and>
    unread (hev_ring_buffer_read_release b (ucast len)) = unread b"
proof -
  have n: "unat len \<le> length (inflight b)" using assms by (simp add: buf_inv_def)
  have eq: "(of_nat (unat len) :: 64 word) = ucast len" by (simp add: unsigned_of_nat)
  from rb.ack_law [OF _ n] assms(1) show ?thesis
    using n by (auto simp: buf_inv_def eq add.commute)
qed

text \<open>No event disturbs the connection, or reopens a direction.\<close>

lemma event_inv:
  assumes "lwip_event s s'" and "s = (self, w)" and "s' = (self', w')" and "conn_inv self w"
  shows "conn_inv self' w' \<and> (ended_f f self w \<longrightarrow> ended_f f self' w') \<and> (ended_b r self w \<longrightarrow> ended_b r self' w') \<and>
    lw_expired w' = lw_expired w"
  using assms
proof (induction arbitrary: self w self' w' rule: lwip_event.induct)
  case (recv w1 ps self1 self1')
  then have i: "length (concat (st_queue self)) \<le> TCP_WND_MAX" by (simp add: conn_inv_def link_inv_def)
  with recv have "self' = self\<lparr>st_queue := st_queue self @ ps\<rparr>" "length (concat ps) \<le> lw_wnd w" by (simp_all add: recv_accepted [OF i])
  with recv show ?case
    by (auto simp: conn_inv_def link_inv_def buf_inv_def ended_f_def ended_b_def)
next
  case (refused w1 ps self1 self1' e)
  then have i: "length (concat (st_queue self)) \<le> TCP_WND_MAX" by (simp add: conn_inv_def link_inv_def)
  with refused show ?case by (simp add: recv_accepted [OF i])
next
  case (sent w1 len self1 self1')
  then obtain b where b: "st_buffer self = Some b" "buf_inv b w" and i: "link_inv self w" by (auto simp: conn_inv_def)
  from sent_released [OF b(2)] sent i have "buf_inv (hev_ring_buffer_read_release b (ucast len)) w' \<and>
    unread (hev_ring_buffer_read_release b (ucast len)) = unread b" by (auto simp: link_inv_def)
  with sent b(1) i show ?case
    by (auto simp: conn_inv_def link_inv_def ended_f_def ended_b_def tcp_sent_handler_def)
next
  case (sent_fault w1 len self1)
  then show ?case by (auto simp: conn_inv_def tcp_sent_handler_def)
qed (auto simp: conn_inv_def link_inv_def buf_inv_def ended_f_def ended_b_def tcp_recv_handler_def tcp_err_handler_def
  hev_socks5_session_terminate_def session_terminate_def hev_socks5_set_timeout_def)

lemma events_inv:
  assumes "lwip_event\<^sup>*\<^sup>* (self, w) (self', w')" and "conn_inv self w"
  shows "conn_inv self' w'" and "ended_f f self w \<Longrightarrow> ended_f f self' w'" and "ended_b r self w \<Longrightarrow> ended_b r self' w'"
    and "lw_expired w' = lw_expired w"
proof -
  have "conn_inv self' w' \<and> (ended_f f self w \<longrightarrow> ended_f f self' w') \<and> (ended_b r self w \<longrightarrow> ended_b r self' w') \<and>
    lw_expired w' = lw_expired w"
    using assms(1)
  proof (induction rule: rtranclp_induct2)
    case refl
    with assms(2) show ?case by simp
  next
    case (step s1 w1 s2 w2)
    with event_inv [OF step(2) refl refl, of f r] show ?case by blast
  qed
  then show "conn_inv self' w'" and "ended_f f self w \<Longrightarrow> ended_f f self' w'" and "ended_b r self w \<Longrightarrow> ended_b r self' w'"
    and "lw_expired w' = lw_expired w" by auto
qed

section \<open>The forward direction\<close>

lemma concat_take_prefix: "r \<le> length (concat (take k q)) \<Longrightarrow> take r (concat (take k q)) = take r (concat q)"
  by (metis append_take_drop_id concat_append diff_is_0_eq' take0 take_append append_Nil2)

lemma concat_take_le: "length (concat (take k q)) \<le> length (concat q)"
  by (metis append_take_drop_id concat_append length_append le_add1)

text \<open>What a call of \<open>tcp_splice_f\<close> does to the world: the bytes written, the flags set.\<close>

definition wrote :: "nat \<Rightarrow> bool \<Rightarrow> bool \<Rightarrow> HevSocks5SessionTCP \<Rightarrow> lwip \<Rightarrow> HevSocks5SessionTCP \<times> lwip \<Rightarrow> bool" where
  "wrote n br sh self w s \<longleftrightarrow>
     (\<exists>q. concat q = drop n (concat (st_queue self)) \<and> n \<le> length (concat (st_queue self)) \<and>
       s = (self\<lparr>st_queue := q\<rparr>, w\<lparr>lw_out := lw_out w @ take n (concat (st_queue self)),
         lw_wnd := lw_wnd w + (if lw_pcb w = NULL then 0 else n), lw_broken := br, lw_shut := sh\<rparr>) \<and>
       (lw_broken w \<longrightarrow> br) \<and> (lw_shut w \<longrightarrow> sh))"

lemma wrote_inv:
  assumes "wrote n br sh self w (self', w')" and "conn_inv self w"
  shows "conn_inv self' w'" and "ended_b r self w \<Longrightarrow> ended_b r self' w'"
proof -
  obtain q where eq: "self' = self\<lparr>st_queue := q\<rparr>" "concat q = drop n (concat (st_queue self))"
    "n \<le> length (concat (st_queue self))" "lw_broken w \<longrightarrow> br" and
    w': "w' = w\<lparr>lw_out := lw_out w @ take n (concat (st_queue self)), lw_wnd := lw_wnd w + (if lw_pcb w = NULL then 0 else n),
        lw_broken := br, lw_shut := sh\<rparr>"
    using assms(1) by (auto simp: wrote_def)
  from eq assms(2) show "conn_inv self' w'"
    by (auto simp: w' conn_inv_def link_inv_def buf_inv_def)
  from eq show "ended_b r self w \<Longrightarrow> ended_b r self' w'"
    by (auto simp: w' ended_b_def)
qed

lemma splice_f_ok:
  assumes inv: "conn_inv self w"
    and Q: "\<And>n br sh r self' w'. wrote n br sh self w (self', w') \<Longrightarrow> r \<in> {-1, 0, 1} \<Longrightarrow> ended_f r self' w' \<Longrightarrow>
      (0 < r \<longleftrightarrow> 0 < n) \<Longrightarrow> Q (self', r) w'"
  shows "ses_ok E I Q (tcp_splice_f self) w"
proof -
  from inv have i: "st_fd self = lw_fd w" "0 \<le> lw_fd w" "st_pcb self = lw_pcb w" "\<not> lw_locked w"
    "length (concat (st_queue self)) \<le> TCP_WND_MAX" "lw_eof w = st_pcb_eof self" by (auto simp: conn_inv_def link_inv_def)
  let ?q = "st_queue self"
  have none: "wrote 0 br sh self w (self, w\<lparr>lw_broken := br, lw_shut := sh\<rparr>)" if "lw_broken w \<longrightarrow> br" "lw_shut w \<longrightarrow> sh" for br sh
    using that by (auto simp: wrote_def)
  have same: "Q (self, r) (w\<lparr>lw_broken := br, lw_shut := sh\<rparr>)"
    if "lw_broken w \<longrightarrow> br" "lw_shut w \<longrightarrow> sh" "r = 0 \<or> r = -1 \<and> (br \<or> lw_eof w \<and> ?q = [] \<and> sh)" for br sh r
    by (rule Q [OF none]) (use that in \<open>auto simp: ended_f_def\<close>)
  have w0: "w\<lparr>lw_broken := br\<rparr> = w\<lparr>lw_broken := br, lw_shut := lw_shut w\<rparr>" "w\<lparr>lw_shut := sh\<rparr> = w\<lparr>lw_broken := lw_broken w, lw_shut := sh\<rparr>"
    "w = w\<lparr>lw_broken := lw_broken w, lw_shut := lw_shut w\<rparr>" for br sh by simp_all
  have some: "Q (self\<lparr>st_queue := pbuf_free_header ?q (word_of_int s)\<rparr>, 1)
      (w\<lparr>lw_out := lw_out w @ take (nat s) (concat (take 64 ?q)), lw_wnd := lw_wnd w + (if lw_pcb w = NULL then 0 else nat s)\<rparr>)"
    if s: "0 < s" "s \<le> int (length (concat (take 64 ?q)))" for s
  proof (rule Q [of "nat s" "lw_broken w" "lw_shut w"])
    have n: "nat s \<le> length (concat (take 64 ?q))" using s by simp
    then have "nat s \<le> length (concat ?q)" using concat_take_le [of 64 ?q] by simp
    moreover have "unat (word_of_int s :: u16) = nat s"
      using calculation i(5) s by (simp add: unsigned_of_int take_bit_int_eq_self)
    ultimately show "wrote (nat s) (lw_broken w) (lw_shut w) self w (self\<lparr>st_queue := pbuf_free_header ?q (word_of_int s)\<rparr>,
        w\<lparr>lw_out := lw_out w @ take (nat s) (concat (take 64 ?q)), lw_wnd := lw_wnd w + (if lw_pcb w = NULL then 0 else nat s)\<rparr>)"
      using concat_take_prefix [OF n]
      by (auto simp: wrote_def concat_free_header intro!: exI [of _ "pbuf_free_header ?q (word_of_int s)"])
  qed (use s in \<open>simp_all add: ended_f_def\<close>)
  have u: "unat (word_of_int s :: u16) = nat s" if "0 < s" "s \<le> int (length (concat (take 64 ?q)))" for s
    using that i(5) concat_take_le [of 64 ?q] by (simp add: unsigned_of_int take_bit_int_eq_self)
  have free: "w\<lparr>lw_out := a, lw_wnd := b, lw_locked := False\<rparr> = w\<lparr>lw_out := a, lw_wnd := b\<rparr>"
    "w\<lparr>lw_out := a, lw_locked := False\<rparr> = w\<lparr>lw_out := a\<rparr>" for a b
    using i(4) by (cases w, simp)+
  consider "?q \<noteq> []" | "?q = []" "st_pcb_eof self" | "?q = []" "\<not> st_pcb_eof self" by blast
  then show ?thesis
  proof cases
    case 1
    have "ses_ok E I Q (if s \<le> 0 then if s < 0 \<and> again then Done (self, 0) else Done (self, -1)
        else Lock (let self = self\<lparr>st_queue := pbuf_free_header (st_queue self) (word_of_int s)\<rparr>
          in if st_pcb self \<noteq> NULL then Tcp_Recved (st_pcb self) (word_of_int s) (Unlock (Done (self, 1)))
          else Unlock (Done (self, 1))))
        (w\<lparr>lw_out := lw_out w @ take (nat s) (concat (take 64 ?q)), lw_broken := lw_broken w \<or> s \<le> 0 \<and> (s < 0 \<longrightarrow> \<not> again)\<rparr>)"
      if s: "s \<le> int (length (concat (take 64 ?q)))" for s again
    proof (cases "0 < s")
      case True
      with some [OF True s] u [OF True s] i show ?thesis by (auto simp: Let_def can_call_def free)
    next
      case False
      then show ?thesis using same [of "lw_broken w \<or> (s < 0 \<longrightarrow> \<not> again)" "lw_shut w"] by auto
    qed
    with 1 i show ?thesis by (simp add: tcp_splice_f_def Let_def)
  qed (use i same [of "lw_broken w" True "-1"] same [of "lw_broken w" "lw_shut w" 0] in \<open>simp_all add: tcp_splice_f_def\<close>)
qed

section \<open>The backward direction\<close>

lemma writing_total:
  assumes "rb_inv b"
  shows "sum_list (map (unat \<circ> snd) (hev_ring_buffer_writing b)) = cap b - unat (use_size b)"
    and "hev_ring_buffer_writing b = [] \<longleftrightarrow> unat (use_size b) = cap b"
proof -
  from assms have m: "unat (use_size b) \<le> cap b" "unat (wp b) < cap b" by (auto simp: rb_inv_def)
  then have s: "unat (max_size b - use_size b) = cap b - unat (use_size b)" "unat (max_size b - wp b) = cap b - unat (wp b)"
    by (simp_all add: unat_sub word_le_nat_alt)
  show "sum_list (map (unat \<circ> snd) (hev_ring_buffer_writing b)) = cap b - unat (use_size b)"
    using m s by (auto simp: hev_ring_buffer_writing_def Let_def word_le_nat_alt unat_sub)
  show "hev_ring_buffer_writing b = [] \<longleftrightarrow> unat (use_size b) = cap b"
    by (auto simp: hev_ring_buffer_writing_def Let_def word_unat_eq_iff)
qed

lemma reading_total:
  assumes "rb_inv b" and "cap b \<le> 65528"
  shows "sum_list (map snd (hev_ring_buffer_reading b)) = rda_size b"
    and "\<And>v. v \<in> set (hev_ring_buffer_reading b) \<Longrightarrow> unat (snd v) < 65536"
    and "hev_ring_buffer_reading b = [] \<longleftrightarrow> unread b = []"
proof -
  from assms have m: "unat (rda_size b) \<le> cap b" "unat (rp b) < cap b" by (auto simp: rb_inv_def)
  then have s: "unat (max_size b - rp b) = cap b - unat (rp b)" by (simp add: unat_sub word_le_nat_alt)
  show "sum_list (map snd (hev_ring_buffer_reading b)) = rda_size b"
    by (simp add: hev_ring_buffer_reading_def Let_def)
  show "unat (snd v) < 65536" if "v \<in> set (hev_ring_buffer_reading b)" for v
    using that m s assms(2)
    by (auto simp: hev_ring_buffer_reading_def Let_def word_le_nat_alt unat_sub split: if_splits)
  have "unread b = [] \<longleftrightarrow> unat (rda_size b) = 0" using length_unread [of b] by (metis length_0_conv)
  then show "hev_ring_buffer_reading b = [] \<longleftrightarrow> unread b = []"
    by (auto simp: hev_ring_buffer_reading_def Let_def unat_eq_0)
qed

lemma write_areas_ok:
  assumes "can_call pcb w" and "\<And>v. v \<in> set iov \<Longrightarrow> unat (snd v) < 65536"
    and Q: "\<And>err' bs f. bs = concat (map (iov_bytes mem) iov) \<and> f = lw_failed w \<and> err' = err \<or>
      length bs \<le> length (concat (map (iov_bytes mem) iov)) \<and> f \<Longrightarrow>
      ses_ok E I Q (k (err', s + sum_list (map snd iov))) (w\<lparr>lw_sent := lw_sent w @ bs, lw_failed := f\<rparr>)"
  shows "ses_ok E I Q (write_areas pcb mem iov err s k) w"
  using assms
proof (induction iov arbitrary: w err s)
  case Nil
  from Nil(3) [of "[]" "lw_failed w" err] show ?case by simp
next
  case (Cons v iov)
  obtain base len where v: "v = (base, len)" by (cases v)
  have l: "ucast (ucast len :: u16) = len"
  proof (rule word_unat_eq_iff [THEN iffD2])
    have "unat len < 65536" using Cons.prems(2) [of v] v by simp
    then show "unat (ucast (ucast len :: u16) :: 64 word) = unat len"
      by (simp add: unsigned_ucast_eq unsigned_take_bit_eq take_bit_nat_eq_self)
  qed
  let ?bs = "iov_bytes mem v"
  have c: "can_call pcb (w\<lparr>lw_sent := xs\<rparr>)" "can_call pcb (w\<lparr>lw_failed := f\<rparr>)" for xs f
    using Cons.prems(1) by (auto simp: can_call_def)
  have "ses_ok E I Q (write_areas pcb mem iov (err OR ERR_OK) (s + len) k) (w\<lparr>lw_sent := lw_sent w @ ?bs\<rparr>)"
  proof (rule Cons.IH [OF c(1)])
    fix err' bs f
    assume "bs = concat (map (iov_bytes mem) iov) \<and> f = lw_failed (w\<lparr>lw_sent := lw_sent w @ ?bs\<rparr>) \<and> err' = err OR ERR_OK \<or>
      length bs \<le> length (concat (map (iov_bytes mem) iov)) \<and> f"
    then show "ses_ok E I Q (k (err', s + len + sum_list (map snd iov)))
        (w\<lparr>lw_sent := lw_sent w @ ?bs, lw_sent := lw_sent (w\<lparr>lw_sent := lw_sent w @ ?bs\<rparr>) @ bs, lw_failed := f\<rparr>)"
      using Cons.prems(3) [of "?bs @ bs" f err'] v by (auto simp: add.assoc)
  qed (use Cons.prems(2) in auto)
  moreover have "ses_ok E I Q (write_areas pcb mem iov (err OR e) (s + len) k) (w\<lparr>lw_failed := True\<rparr>)" for e
  proof (rule Cons.IH [OF c(2)])
    fix err' bs f
    assume "bs = concat (map (iov_bytes mem) iov) \<and> f = lw_failed (w\<lparr>lw_failed := True\<rparr>) \<and> err' = err OR e \<or>
      length bs \<le> length (concat (map (iov_bytes mem) iov)) \<and> f"
    then show "ses_ok E I Q (k (err', s + len + sum_list (map snd iov)))
        (w\<lparr>lw_failed := True, lw_sent := lw_sent (w\<lparr>lw_failed := True\<rparr>) @ bs, lw_failed := f\<rparr>)"
      using Cons.prems(3) [of bs True err'] v by (auto simp: add.assoc)
  qed (use Cons.prems(2) in auto)
  ultimately show ?case using Cons.prems(1) by (simp add: v l)
qed

lemma splice_read_ok:
  assumes "rb_inv b" and "st_fd self = lw_fd w" and "0 \<le> lw_fd w"
    and none: "\<And>res dn br. (lw_done w \<longrightarrow> dn) \<Longrightarrow> (lw_broken w \<longrightarrow> br) \<Longrightarrow> res = 0 \<or> res = -1 \<and> (dn \<or> br) \<Longrightarrow>
      Q (b, res) (w\<lparr>lw_done := dn, lw_broken := br\<rparr>)"
    and some: "\<And>bs. bs \<noteq> [] \<Longrightarrow> length bs \<le> cap b - unat (use_size b) \<Longrightarrow> Q (rb_fill b bs, 1) (w\<lparr>lw_src := lw_src w @ bs\<rparr>)"
  shows "ses_ok E I Q (splice_read self b) w"
proof (cases "hev_ring_buffer_writing b = []")
  case True
  with none [of "lw_done w" "lw_broken w" 0] show ?thesis by (simp add: splice_read_def)
next
  case False
  have "ses_ok E I Q (if rx_res r \<le> 0 then Done (b, if rx_res r < 0 \<and> rx_again r then 0 else -1)
      else Done (hev_ring_buffer_write_finish
        (b\<lparr>rb_data := readv_into (rb_data b) (hev_ring_buffer_writing b) (rx_data r)\<rparr>) (word_of_int (rx_res r)), 1))
      (w\<lparr>lw_src := lw_src w @ rx_data r, lw_done := lw_done w \<or> rx_res r = 0, lw_broken := lw_broken w \<or> rx_res r < 0 \<and> \<not> rx_again r\<rparr>)"
    if r: "rx_ok (cap b - unat (use_size b)) r" for r
  proof (cases r)
    case (Data bs again)
    with r none [of True "lw_broken w" "-1"] some [of bs] show ?thesis
      by (cases "bs = []") (auto simp: rx_ok_def rb_fill_def)
  next
    case (Err e again)
    with r none [of "lw_done w" "lw_broken w \<or> \<not> again" "if again then 0 else -1"] show ?thesis
      by (auto simp: rx_ok_def split: if_splits)
  qed
  with False assms(2,3) writing_total(1) [OF assms(1)] show ?thesis by (simp add: splice_read_def Let_def)
qed

text \<open>The measure of the work left in the buffer: the room for new bytes, and whether there are unread ones.\<close>

definition rb_work :: "HevRingBuffer \<Rightarrow> nat" where
  "rb_work b = cap b - unat (use_size b) + (if unread b = [] then 0 else 1)"

lemma rb_fill_facts:
  assumes "rb_inv b" and "bs \<noteq> []" and "length bs \<le> cap b - unat (use_size b)"
  shows "rb_work (rb_fill b bs) \<le> rb_work b" and "cap (rb_fill b bs) = cap b" and "unread (rb_fill b bs) \<noteq> []"
proof -
  have u: "length (inflight (rb_fill b bs)) + length (unread (rb_fill b bs)) = unat (use_size (rb_fill b bs))"
    "length (inflight b) + length (unread b) = unat (use_size b)"
    using rb_fill_refines(1) [OF assms(1,3)] assms(1) by (simp_all add: rb_inv_def)
  have use: "unat (use_size (rb_fill b bs)) = unat (use_size b) + length bs"
    unfolding u [symmetric] using rb_fill_refines(2,3) [OF assms(1,3)] by (simp del: length_unread length_inflight)
  show cap: "cap (rb_fill b bs) = cap b" by (simp add: rb_fill_def hev_ring_buffer_write_finish_def)
  show un: "unread (rb_fill b bs) \<noteq> []" using rb_fill_refines(2) [OF assms(1,3)] assms(2) by simp
  have "length bs > 0" using assms(2) by simp
  then have "cap b - (unat (use_size b) + length bs) + 1 \<le> cap b - unat (use_size b)" using assms(3) by arith
  then show "rb_work (rb_fill b bs) \<le> rb_work b" using use un by (simp add: rb_work_def cap)
qed

lemma handed_facts:
  assumes "rb_inv b" and "unread b \<noteq> []"
  defines "b' \<equiv> hev_ring_buffer_read_finish b (rda_size b)"
  shows "rb_inv b'" and "cap b' = cap b" and "unread b' = []" and "inflight b' = inflight b @ unread b" and "rb_work b' < rb_work b"
proof -
  have n: "unat (rda_size b) \<le> unat (rda_size b)" by simp
  note r = read_finish_refines [OF assms(1) n]
  show "rb_inv b'" "unread b' = []" "inflight b' = inflight b @ unread b"
    using r by (simp_all add: b'_def)
  then show "cap b' = cap b" "rb_work b' < rb_work b"
    using assms(2) by (simp_all add: b'_def hev_ring_buffer_read_finish_def rb_work_def)
qed

lemma splice_write_ok:
  assumes b: "buf_inv b w" and w: "lw_locked w" "st_pcb self = lw_pcb w" "lw_acked w \<le> length (lw_sent w)"
    and none: "lw_pcb w = NULL \<or> unread b = [] \<and> 0 \<le> res \<Longrightarrow> Q (self\<lparr>st_buffer := Some b\<rparr>, res, ERR_OK) w"
    and close: "lw_pcb w \<noteq> NULL \<Longrightarrow> unread b = [] \<Longrightarrow> res < 0 \<Longrightarrow> Q (self\<lparr>st_buffer := Some b\<rparr>, res, ERR_OK) (w\<lparr>lw_fin := True\<rparr>)"
    and some: "\<And>b' bs f e. lw_pcb w \<noteq> NULL \<Longrightarrow> unread b \<noteq> [] \<Longrightarrow> cap b' = cap b \<Longrightarrow> rb_work b' < rb_work b \<Longrightarrow> unread b' = [] \<Longrightarrow>
      buf_inv b' (w\<lparr>lw_sent := lw_sent w @ bs, lw_failed := f\<rparr>) \<Longrightarrow> (\<not> f \<longrightarrow> \<not> lw_failed w \<and> e = ERR_OK) \<Longrightarrow>
      Q (self\<lparr>st_buffer := Some b'\<rparr>, 1, e) (w\<lparr>lw_sent := lw_sent w @ bs, lw_failed := f\<rparr>)"
  shows "ses_ok E I Q (splice_write self b res) w"
proof -
  have inv: "rb_inv b" "cap b \<le> 65528" using b by (simp_all add: buf_inv_def)
  note rt = reading_total [OF inv]
  consider "lw_pcb w = NULL" | "lw_pcb w \<noteq> NULL" "unread b = []" | "lw_pcb w \<noteq> NULL" "unread b \<noteq> []" by blast
  then show ?thesis
  proof cases
    case 3
    note h = handed_facts [OF inv(1) 3(2)]
    let ?b' = "hev_ring_buffer_read_finish b (rda_size b)"
    have areas: "concat (map (iov_bytes (rb_data b)) (hev_ring_buffer_reading b)) = unread b"
      using reading_unread [OF inv(1)] by simp
    have K: "ses_ok E I Q (let self = self\<lparr>st_buffer := Some (hev_ring_buffer_read_finish b s)\<rparr>
        in Tcp_Output (st_pcb self) (\<lambda>e. Done (self, 1, err OR e))) (w\<lparr>lw_sent := lw_sent w @ bs, lw_failed := f\<rparr>)"
      if s: "s = rda_size b" and bs: "bs = unread b \<and> f = lw_failed w \<and> err = ERR_OK \<or> length bs \<le> length (unread b) \<and> f" for err s bs f
    proof -
      have l: "length bs \<le> length (unread b)" using bs by auto
      have i: "buf_inv ?b' (w\<lparr>lw_sent := lw_sent w @ bs, lw_failed := f \<or> x\<rparr>)" for x
        using b h bs l w(3) by (auto simp: buf_inv_def)
      have "Q (self\<lparr>st_buffer := Some ?b'\<rparr>, 1, err OR e) (w\<lparr>lw_sent := lw_sent w @ bs, lw_failed := f \<or> e < 0\<rparr>)" if "e \<le> 0" for e
        by (rule some [OF 3 h(2,5,3) i]) (use bs that in auto)
      then show ?thesis using 3 w s by (auto simp: can_call_def)
    qed
    have "ses_ok E I Q (write_areas (st_pcb self) (rb_data b) (hev_ring_buffer_reading b) ERR_OK 0 (\<lambda>(err, s).
        let self = self\<lparr>st_buffer := Some (hev_ring_buffer_read_finish b s)\<rparr>
        in Tcp_Output (st_pcb self) (\<lambda>e. Done (self, 1, err OR e)))) w"
    proof (rule write_areas_ok)
      fix err bs f
      assume "bs = concat (map (iov_bytes (rb_data b)) (hev_ring_buffer_reading b)) \<and> f = lw_failed w \<and> err = ERR_OK \<or>
        length bs \<le> length (concat (map (iov_bytes (rb_data b)) (hev_ring_buffer_reading b))) \<and> f"
      then show "ses_ok E I Q (case (err, 0 + sum_list (map snd (hev_ring_buffer_reading b))) of (err, s) \<Rightarrow>
          let self = self\<lparr>st_buffer := Some (hev_ring_buffer_read_finish b s)\<rparr>
          in Tcp_Output (st_pcb self) (\<lambda>e. Done (self, 1, err OR e))) (w\<lparr>lw_sent := lw_sent w @ bs, lw_failed := f\<rparr>)"
        unfolding areas prod.case add_0 rt(1) by (rule K [OF refl])
    qed (use 3 w rt in \<open>auto simp: can_call_def\<close>)
    then show ?thesis using 3 w rt by (simp add: splice_write_def)
  qed (use w none close rt in \<open>auto simp: splice_write_def Let_def can_call_def\<close>)
qed

text \<open>What a call of \<open>tcp_splice_b\<close> does: the buffer, and the bytes read and given to lwIP.\<close>

definition moved :: "HevSocks5SessionTCP \<Rightarrow> lwip \<Rightarrow> HevSocks5SessionTCP \<times> lwip \<Rightarrow> bool" where
  "moved self w s \<longleftrightarrow>
     (\<exists>b b' src sent dn fin br fl. st_buffer self = Some b \<and> buf_inv b' (snd s) \<and> cap b' = cap b \<and> rb_work b' \<le> rb_work b \<and>
       fst s = self\<lparr>st_buffer := Some b'\<rparr> \<and>
       snd s = w\<lparr>lw_src := lw_src w @ src, lw_sent := lw_sent w @ sent, lw_done := dn, lw_fin := fin, lw_broken := br, lw_failed := fl\<rparr> \<and>
       (lw_done w \<longrightarrow> dn) \<and> (lw_fin w \<longrightarrow> fin) \<and> (lw_broken w \<longrightarrow> br) \<and> (lw_failed w \<longrightarrow> fl))"

lemma movedI:
  assumes "st_buffer self = Some b" and "buf_inv b' w'" and "cap b' = cap b" and "rb_work b' \<le> rb_work b"
    and "w' = w\<lparr>lw_src := lw_src w @ src, lw_sent := lw_sent w @ sent, lw_done := dn, lw_fin := fin, lw_broken := br, lw_failed := fl\<rparr>"
    and "lw_done w \<longrightarrow> dn" "lw_fin w \<longrightarrow> fin" "lw_broken w \<longrightarrow> br" "lw_failed w \<longrightarrow> fl"
  shows "moved self w (self\<lparr>st_buffer := Some b'\<rparr>, w')"
  unfolding moved_def fst_conv snd_conv
  by (rule exI [of _ b], rule exI [of _ b'], rule exI [of _ src], rule exI [of _ sent], rule exI [of _ dn], rule exI [of _ fin],
    rule exI [of _ br], rule exI [of _ fl]) (intro conjI refl assms)

lemma moved_inv:
  assumes "moved self w (self', w')" and "conn_inv self w"
  shows "conn_inv self' w'" and "ended_f r self w \<Longrightarrow> ended_f r self' w'"
proof -
  obtain b' src sent dn fin br fl where b': "buf_inv b' w'" and self': "self' = self\<lparr>st_buffer := Some b'\<rparr>" and br: "lw_broken w \<longrightarrow> br" and
    w': "w' = w\<lparr>lw_src := lw_src w @ src, lw_sent := lw_sent w @ sent, lw_done := dn, lw_fin := fin, lw_broken := br, lw_failed := fl\<rparr>"
    using assms(1) unfolding moved_def by auto
  have l: "link_inv self w" "\<not> lw_locked w" using assms(2) by (simp_all add: conn_inv_def)
  have "link_inv self' w'" using l(1) unfolding self' w' link_inv_def by simp
  moreover have "\<not> lw_locked w'" using l(2) by (simp add: w')
  moreover have "st_buffer self' = Some b'" by (simp add: self')
  ultimately show "conn_inv self' w'" using b' by (simp add: conn_inv_def)
  show "ended_f r self w \<Longrightarrow> ended_f r self' w'" using br by (auto simp: self' w' ended_f_def)
qed

lemma splice_b_ok:
  assumes inv: "conn_inv self w"
    and Q: "\<And>r self' w'. moved self w (self', w') \<Longrightarrow> r \<in> {-1, 0, 1} \<Longrightarrow> ended_b r self' w' \<Longrightarrow>
      (0 < r \<Longrightarrow> \<exists>b b'. st_buffer self = Some b \<and> st_buffer self' = Some b' \<and> rb_work b' < rb_work b) \<Longrightarrow> Q (self', r) w'"
  shows "ses_ok E I Q (tcp_splice_b self) w"
proof -
  obtain b where b: "st_buffer self = Some b" "buf_inv b w" using inv by (auto simp: conn_inv_def)
  have i: "st_fd self = lw_fd w" "0 \<le> lw_fd w" "st_pcb self = lw_pcb w" "\<not> lw_locked w" "lw_acked w \<le> length (lw_sent w)"
    using inv by (auto simp: conn_inv_def link_inv_def)
  have rb: "rb_inv b" using b by (simp add: buf_inv_def)
  have D: "Q (self\<lparr>st_buffer := Some b2\<rparr>, r) (w\<lparr>lw_src := lw_src w @ src, lw_sent := lw_sent w @ sent, lw_done := dn, lw_fin := fin,
      lw_broken := br, lw_failed := fl\<rparr>)"
    if "buf_inv b2 (w\<lparr>lw_src := lw_src w @ src, lw_sent := lw_sent w @ sent, lw_done := dn, lw_fin := fin, lw_broken := br, lw_failed := fl\<rparr>)"
      "cap b2 = cap b" "rb_work b2 \<le> rb_work b" "r \<in> {-1, 0, 1}" "0 < r \<Longrightarrow> rb_work b2 < rb_work b"
      "lw_done w \<longrightarrow> dn" "lw_fin w \<longrightarrow> fin" "lw_broken w \<longrightarrow> br" "lw_failed w \<longrightarrow> fl"
      "r < 0 \<Longrightarrow> lw_pcb w = NULL \<or> fl \<or> br \<or> dn \<and> fin \<and> unread b2 = []" for b2 r src sent dn fin br fl
  proof (rule Q)
    show "moved self w (self\<lparr>st_buffer := Some b2\<rparr>, w\<lparr>lw_src := lw_src w @ src, lw_sent := lw_sent w @ sent, lw_done := dn, lw_fin := fin,
      lw_broken := br, lw_failed := fl\<rparr>)"
      by (rule movedI [OF b(1) that(1-3) refl that(6-9)])
    show "r \<in> {-1, 0, 1}" by (rule that(4))
    show "ended_b r (self\<lparr>st_buffer := Some b2\<rparr>) (w\<lparr>lw_src := lw_src w @ src, lw_sent := lw_sent w @ sent, lw_done := dn, lw_fin := fin,
      lw_broken := br, lw_failed := fl\<rparr>)"
      using that(10) unfolding ended_b_def by auto
    show "\<exists>b b'. st_buffer self = Some b \<and> st_buffer (self\<lparr>st_buffer := Some b2\<rparr>) = Some b' \<and> rb_work b' < rb_work b" if "0 < r"
      using \<open>0 < r \<Longrightarrow> rb_work b2 < rb_work b\<close> that b(1) by simp
  qed
  have unl: "w\<lparr>lw_src := src, lw_done := dn, lw_broken := br, lw_locked := False\<rparr> = w\<lparr>lw_src := src, lw_done := dn, lw_broken := br\<rparr>"
    "w\<lparr>lw_src := src, lw_done := dn, lw_broken := br, lw_fin := fin, lw_locked := False\<rparr> = w\<lparr>lw_src := src, lw_done := dn, lw_fin := fin, lw_broken := br\<rparr>"
    "w\<lparr>lw_src := src, lw_done := dn, lw_broken := br, lw_sent := sent, lw_failed := f, lw_locked := False\<rparr> =
      w\<lparr>lw_src := src, lw_sent := sent, lw_done := dn, lw_broken := br, lw_failed := f\<rparr>" for src dn br fin sent f
    using i(4) by (cases w, simp)+
  have W: "ses_ok E I (\<lambda>x. ses_ok E I Q (splice_end x))
      (splice_write self b1 res) (w\<lparr>lw_src := lw_src w @ src, lw_done := dn, lw_broken := br, lw_locked := True\<rparr>)"
    if b1: "buf_inv b1 (w\<lparr>lw_src := lw_src w @ src, lw_done := dn, lw_broken := br\<rparr>)" "cap b1 = cap b" "rb_work b1 \<le> rb_work b"
      and fl: "lw_done w \<longrightarrow> dn" "lw_broken w \<longrightarrow> br"
      and res: "res \<in> {-1, 0, 1}" "0 < res \<Longrightarrow> unread b1 \<noteq> []" "res < 0 \<Longrightarrow> dn \<or> br" for b1 src dn br res
  proof (rule splice_write_ok)
    show "buf_inv b1 (w\<lparr>lw_src := lw_src w @ src, lw_done := dn, lw_broken := br, lw_locked := True\<rparr>)"
      using b1(1) by (simp add: buf_inv_def)
  next
    assume "lw_pcb (w\<lparr>lw_src := lw_src w @ src, lw_done := dn, lw_broken := br, lw_locked := True\<rparr>) = NULL \<or> unread b1 = [] \<and> 0 \<le> res"
    then show "ses_ok E I Q (splice_end (self\<lparr>st_buffer := Some b1\<rparr>, res, ERR_OK)) (w\<lparr>lw_src := lw_src w @ src, lw_done := dn, lw_broken := br, lw_locked := True\<rparr>)"
      using D [where ?b2.0 = b1 and src = src and sent = "[]" and dn = dn and fin = "lw_fin w" and br = br and fl = "lw_failed w"
        and r = "if lw_pcb w = NULL then -1 else res"] b1 res fl i
      by (auto simp: unl)
  next
    assume "lw_pcb (w\<lparr>lw_src := lw_src w @ src, lw_done := dn, lw_broken := br, lw_locked := True\<rparr>) \<noteq> NULL" "unread b1 = []" "res < 0"
    then show "ses_ok E I Q (splice_end (self\<lparr>st_buffer := Some b1\<rparr>, res, ERR_OK)) (w\<lparr>lw_src := lw_src w @ src, lw_done := dn, lw_broken := br, lw_locked := True, lw_fin := True\<rparr>)"
      using D [where ?b2.0 = b1 and src = src and sent = "[]" and dn = dn and fin = "True" and br = br and fl = "lw_failed w" and r = "res"]
        b1 res fl i by (simp add: unl buf_inv_def) blast
  next
    fix b' bs f and e :: int
    assume "lw_pcb (w\<lparr>lw_src := lw_src w @ src, lw_done := dn, lw_broken := br, lw_locked := True\<rparr>) \<noteq> NULL" "unread b1 \<noteq> []" "cap b' = cap b1" "rb_work b' < rb_work b1" "unread b' = []"
        "buf_inv b' (w\<lparr>lw_src := lw_src w @ src, lw_done := dn, lw_broken := br, lw_locked := True,
           lw_sent := lw_sent (w\<lparr>lw_src := lw_src w @ src, lw_done := dn, lw_broken := br, lw_locked := True\<rparr>) @ bs, lw_failed := f\<rparr>)"
        "\<not> f \<longrightarrow> \<not> lw_failed (w\<lparr>lw_src := lw_src w @ src, lw_done := dn, lw_broken := br, lw_locked := True\<rparr>) \<and> e = ERR_OK"
    then show "ses_ok E I Q (splice_end (self\<lparr>st_buffer := Some b'\<rparr>, 1, e)) (w\<lparr>lw_src := lw_src w @ src, lw_done := dn, lw_broken := br, lw_locked := True, lw_sent := lw_sent (w\<lparr>lw_src := lw_src w @ src, lw_done := dn, lw_broken := br, lw_locked := True\<rparr>) @ bs, lw_failed := f\<rparr>)"
      using D [where ?b2.0 = b' and src = src and sent = bs and dn = dn and fin = "lw_fin w" and br = br and fl = f
        and r = "if e \<noteq> ERR_OK then -1 else 1"] b1 res fl i
      by (cases "e = 0") (simp_all add: unl buf_inv_def, blast+)
  qed (use i in simp_all)
  have "ses_ok E I (\<lambda>(b, res). ses_ok E I Q (Lock (ses_bind (splice_write self b res) splice_end))) (splice_read self b) w"
  proof (rule splice_read_ok [OF rb i(1,2)])
    fix res :: int and dn br
    assume "lw_done w \<longrightarrow> dn" "lw_broken w \<longrightarrow> br" "res = 0 \<or> res = -1 \<and> (dn \<or> br)"
    then show "(case (b, res) of (b, res) \<Rightarrow> ses_ok E I Q (Lock (ses_bind (splice_write self b res) splice_end))) (w\<lparr>lw_done := dn, lw_broken := br\<rparr>)"
      using W [where ?b1.0 = b and src = "[]" and dn = dn and br = br and res = res] b i by (auto simp: buf_inv_def)
  next
    fix bs :: "u8 list"
    assume bs: "bs \<noteq> []" "length bs \<le> cap b - unat (use_size b)"
    note f = rb_fill_facts [OF rb bs] rb_fill_refines [OF rb bs(2)]
    have "buf_inv (rb_fill b bs) (w\<lparr>lw_src := lw_src w @ bs\<rparr>)"
      using b(2) f by (auto simp: buf_inv_def)
    then show "(case (rb_fill b bs, 1) of (b, res) \<Rightarrow> ses_ok E I Q (Lock (ses_bind (splice_write self b res) splice_end))) (w\<lparr>lw_src := lw_src w @ bs\<rparr>)"
      using W [where ?b1.0 = "rb_fill b bs" and src = bs and dn = "lw_done w" and br = "lw_broken w" and res = 1] f i by simp
  qed
  then show ?thesis using b(1) by (simp add: tcp_splice_b_def case_prod_unfold)
qed

section \<open>The loops\<close>

lemma yielder_wakes:
  "wakes (hev_socks5_task_io_yielder type b) res \<longleftrightarrow>
     (if type = HEV_TASK_YIELD \<or> s5_timeout b < 0 then res = 0 else res = -1 \<or> res = 0 \<and> 0 < s5_timeout b)"
  by (auto simp: hev_socks5_task_io_yielder_def intro: exI [of _ "s5_timeout b"] exI [of _ "0 :: int"] split: if_splits)

lemma yielder_some: "\<exists>res. wakes (hev_socks5_task_io_yielder type b) res"
  unfolding yielder_wakes by auto

text \<open>Waiting among the events of lwIP keeps the invariant, and expires only with the result -1.\<close>

lemma wait_ok:
  assumes "conn_inv self w"
    and Q: "\<And>self' w' res. conn_inv self' w' \<Longrightarrow> (\<And>f. ended_f f self w \<Longrightarrow> ended_f f self' w') \<Longrightarrow>
      (\<And>r. ended_b r self w \<Longrightarrow> ended_b r self' w') \<Longrightarrow> (lw_expired w \<Longrightarrow> lw_expired w') \<Longrightarrow>
      res = 0 \<or> res = -1 \<and> lw_expired w' \<Longrightarrow> Q (self', res) w'"
  shows "ses_ok lwip_event conn_inv Q (tcp_task_io_yielder type self) w"
proof -
  have "conn_inv self' w' \<and> \<not> lw_locked w' \<and>
      (wakes (hev_socks5_task_io_yielder type (cl_base (st_base self))) res \<longrightarrow>
        Q (self', res) (w'\<lparr>lw_expired := lw_expired w' \<or> res < 0\<rparr>))"
    if ev: "lwip_event\<^sup>*\<^sup>* (self, w) (self', w')" for self' w' res
  proof (intro conjI impI)
    note e = events_inv [OF ev assms(1)]
    show "conn_inv self' w'" by (rule e(1))
    then show "\<not> lw_locked w'" by (simp add: conn_inv_def)
    assume r: "wakes (hev_socks5_task_io_yielder type (cl_base (st_base self))) res"
    show "Q (self', res) (w'\<lparr>lw_expired := lw_expired w' \<or> res < 0\<rparr>)"
    proof (rule Q)
      show "conn_inv self' (w'\<lparr>lw_expired := lw_expired w' \<or> res < 0\<rparr>)"
        using e(1) by (simp add: conn_inv_def link_inv_def buf_inv_def)
      show "ended_f f self' (w'\<lparr>lw_expired := lw_expired w' \<or> res < 0\<rparr>)" if "ended_f f self w" for f
        using e(2) [OF that] by (simp add: ended_f_def)
      show "ended_b r self' (w'\<lparr>lw_expired := lw_expired w' \<or> res < 0\<rparr>)" if "ended_b r self w" for r
        using e(3) [OF that] by (simp add: ended_b_def)
    qed (use e(4) r in \<open>auto simp: yielder_wakes split: if_splits\<close>)
  qed
  then show ?thesis using yielder_some by (simp add: tcp_task_io_yielder_def)
qed

text \<open>The state in which the drain loop starts, and the one in which the splicer returns.\<close>

definition over :: "HevSocks5SessionTCP \<Rightarrow> lwip \<Rightarrow> bool" where
  "over self w \<longleftrightarrow> lw_expired w \<or> ended_f (-1) self w \<and> ended_b (-1) self w"

definition drained :: "HevSocks5SessionTCP \<Rightarrow> lwip \<Rightarrow> bool" where
  "drained self w \<longleftrightarrow> lw_expired w \<or> lw_pcb w = NULL \<or> (\<exists>b. st_buffer self = Some b \<and> use_size b = 0)"

lemma drain_ok:
  assumes "conn_inv self w" and "over self w"
    and Q: "\<And>self' w'. conn_inv self' w' \<Longrightarrow> over self' w' \<Longrightarrow> drained self' w' \<Longrightarrow> Q (Some self') w'"
    and N: "\<And>w'. Q None w'"
  shows "ses_ok lwip_event conn_inv Q (splice_drain n self) w"
  using assms(1,2)
proof (induction n arbitrary: self w)
  case (Suc n)
  obtain b where b: "st_buffer self = Some b" and p: "st_pcb self = lw_pcb w"
    using Suc.prems(1) by (auto simp: conn_inv_def link_inv_def)
  have stop: "Q (Some self) w" if "lw_pcb w = NULL \<or> use_size b = 0"
    by (rule Q) (use Suc.prems that b in \<open>auto simp: drained_def\<close>)
  have "ses_ok lwip_event conn_inv (\<lambda>x. ses_ok lwip_event conn_inv Q
      (case x of (self, res) \<Rightarrow> if res < 0 then Done (Some self) else splice_drain n self)) (tcp_task_io_yielder HEV_TASK_WAITIO self) w"
  proof (rule wait_ok [OF Suc.prems(1)])
    fix self' w' and res :: int
    assume a: "conn_inv self' w'" "\<And>f. ended_f f self w \<Longrightarrow> ended_f f self' w'" "\<And>r. ended_b r self w \<Longrightarrow> ended_b r self' w'"
      "lw_expired w \<Longrightarrow> lw_expired w'" "res = 0 \<or> res = -1 \<and> lw_expired w'"
    then have "over self' w'" using Suc.prems(2) by (auto simp: over_def)
    with a Suc.IH show "ses_ok lwip_event conn_inv Q (case (self', res) of (self, res) \<Rightarrow>
        if res < 0 then Done (Some self) else splice_drain n self) w'"
      by (auto simp: drained_def intro: Q)
  qed
  with stop b p show ?case by (auto simp: hev_ring_buffer_get_use_size_def)
qed (simp add: N)

lemma loop_ok:
  assumes "conn_inv self w" and "ended_f f self w" and "ended_b r self w" and "f \<in> {-1, 0, 1}" and "r \<in> {-1, 0, 1}"
    and Q: "\<And>self' w'. conn_inv self' w' \<Longrightarrow> over self' w' \<Longrightarrow> drained self' w' \<Longrightarrow> Q (Some self') w'"
    and N: "\<And>w'. Q None w'"
  shows "ses_ok lwip_event conn_inv Q (splice_loop n f r self) w"
  using assms(1-5)
proof (induction n arbitrary: self w f r)
  case (Suc n)
  have wait: "ses_ok lwip_event conn_inv (\<lambda>x. ses_ok lwip_event conn_inv Q
      (case x of (self, res) \<Rightarrow> if res < 0 then splice_drain n self else splice_loop n f r self)) (tcp_task_io_yielder type self) w"
    if c: "conn_inv self w" "ended_f f self w" "ended_b r self w" "f \<in> {-1, 0, 1}" "r \<in> {-1, 0, 1}" for type f r self w
  proof (rule wait_ok [OF c(1)])
    fix self' w' and res :: int
    assume a: "conn_inv self' w'" "\<And>f. ended_f f self w \<Longrightarrow> ended_f f self' w'" "\<And>r. ended_b r self w \<Longrightarrow> ended_b r self' w'"
      "lw_expired w \<Longrightarrow> lw_expired w'" "res = 0 \<or> res = -1 \<and> lw_expired w'"
    have "ses_ok lwip_event conn_inv Q (splice_drain n self') w'" if "lw_expired w'"
      by (rule drain_ok [OF a(1) _ Q N]) (use that in \<open>simp_all add: over_def\<close>)
    with a c Suc.IH show "ses_ok lwip_event conn_inv Q (case (self', res) of (self, res) \<Rightarrow>
        if res < 0 then splice_drain n self else splice_loop n f r self) w'"
      by auto
  qed
  have N2: "ses_ok lwip_event conn_inv Q (if 0 < f \<or> 0 < r then
         ses_bind (tcp_task_io_yielder HEV_TASK_YIELD self) (\<lambda>(self, res).
           if res < 0 then splice_drain n self else splice_loop n f r self)
       else if f AND r = 0 then
         ses_bind (tcp_task_io_yielder HEV_TASK_WAITIO self) (\<lambda>(self, res).
           if res < 0 then splice_drain n self else splice_loop n f r self)
       else splice_drain n self) w"
    if c: "conn_inv self w" "ended_f f self w" "ended_b r self w" and v: "f \<in> {-1, 0, 1}" "r \<in> {-1, 0, 1}" for f r self w
  proof -
    have "ses_ok lwip_event conn_inv Q (splice_drain n self) w" if "\<not> (0 < f \<or> 0 < r)" "f AND r \<noteq> 0"
      by (rule drain_ok [OF c(1) _ Q N]) (use that c v in \<open>auto simp: over_def\<close>)
    with wait [OF c v] show ?thesis by simp
  qed
  let ?B = "\<lambda>f (self, r). if 0 < f \<or> 0 < r then
         ses_bind (tcp_task_io_yielder HEV_TASK_YIELD self) (\<lambda>(self, res).
           if res < 0 then splice_drain n self else splice_loop n f r self)
       else if f AND r = 0 then
         ses_bind (tcp_task_io_yielder HEV_TASK_WAITIO self) (\<lambda>(self, res).
           if res < 0 then splice_drain n self else splice_loop n f r self)
       else splice_drain n self"
  let ?A = "\<lambda>(self, f). ses_bind (if 0 \<le> r then tcp_splice_b self else Done (self, r)) (?B f)"
  have BK: "ses_ok lwip_event conn_inv Q (?A (self, f)) w"
    if c: "conn_inv self w" "ended_f f self w" "ended_b r self w" "f \<in> {-1, 0, 1}" for f self w
  proof (cases "0 \<le> r")
    case True
    have "ses_ok lwip_event conn_inv (\<lambda>x. ses_ok lwip_event conn_inv Q (?B f x)) (tcp_splice_b self) w"
    proof (rule splice_b_ok [OF c(1)])
      fix r' self' w' assume m: "moved self w (self', w')" "r' \<in> {-1, 0, 1}" "ended_b r' self' w'"
      show "ses_ok lwip_event conn_inv Q (?B f (self', r')) w'"
        unfolding prod.case by (rule N2 [OF moved_inv(1) [OF m(1) c(1)] moved_inv(2) [OF m(1) c(1,2)] m(3) c(4) m(2)])
    qed
    with True show ?thesis by simp
  next
    case False
    with N2 [OF c Suc.prems(5)] show ?thesis by simp
  qed
  have "ses_ok lwip_event conn_inv Q (ses_bind (if 0 \<le> f then tcp_splice_f self else Done (self, f)) ?A) w"
  proof (cases "0 \<le> f")
    case True
    have "ses_ok lwip_event conn_inv (\<lambda>x. ses_ok lwip_event conn_inv Q (?A x)) (tcp_splice_f self) w"
    proof (rule splice_f_ok [OF Suc.prems(1)])
      fix k br sh f' self' w' assume m: "wrote k br sh self w (self', w')" "f' \<in> {-1, 0, 1}" "ended_f f' self' w'"
      show "ses_ok lwip_event conn_inv Q (?A (self', f')) w'"
        by (rule BK [OF wrote_inv(1) [OF m(1) Suc.prems(1)] m(3) wrote_inv(2) [OF m(1) Suc.prems(1,3)] m(2)])
    qed
    with True show ?thesis by simp
  next
    case False
    with BK [OF Suc.prems(1-4)] show ?thesis by simp
  qed
  then show ?case by (simp add: case_prod_unfold)
qed (simp add: N)

text \<open>
  Without further events and with a timeout of 0, which is how a session is terminated, every
  iteration that does not end the session moves bytes out of the queue or through the buffer.
\<close>

abbreviation quiet :: "HevSocks5SessionTCP \<times> lwip \<Rightarrow> HevSocks5SessionTCP \<times> lwip \<Rightarrow> bool" where
  "quiet \<equiv> \<lambda>s s'. False"

lemma quiet_events [simp]: "quiet\<^sup>*\<^sup>* s s' \<longleftrightarrow> s' = s"
  by (auto elim: rtranclp.cases)

definition session_work :: "HevSocks5SessionTCP \<Rightarrow> nat" where
  "session_work self = length (concat (st_queue self)) + (case st_buffer self of None \<Rightarrow> 0 | Some b \<Rightarrow> rb_work b)"

lemma quiet_wait:
  assumes "conn_inv self w" and "s5_timeout (cl_base (st_base self)) = 0"
    and "\<And>res w'. conn_inv self w' \<Longrightarrow> res = (if type = HEV_TASK_YIELD then 0 else -1) \<Longrightarrow> Q (self, res) w'"
  shows "ses_ok quiet conn_inv Q (tcp_task_io_yielder type self) w"
proof -
  have "conn_inv self (w\<lparr>lw_expired := x\<rparr>)" for x using assms(1) by (simp add: conn_inv_def link_inv_def buf_inv_def)
  moreover have "\<not> lw_locked w" using assms(1) by (simp add: conn_inv_def)
  ultimately show ?thesis using assms(1,2) yielder_some
    by (auto simp: tcp_task_io_yielder_def yielder_wakes intro!: assms(3) split: if_splits)
qed

lemma quiet_drain:
  assumes "conn_inv self w" and "s5_timeout (cl_base (st_base self)) = 0"
  shows "ses_ok quiet conn_inv (\<lambda>r w'. r \<noteq> None) (splice_drain (Suc n) self) w"
proof -
  obtain b where b: "st_buffer self = Some b" using assms(1) by (auto simp: conn_inv_def)
  have "ses_ok quiet conn_inv (\<lambda>x. ses_ok quiet conn_inv (\<lambda>r w'. r \<noteq> None)
      (case x of (self, res) \<Rightarrow> if res < 0 then Done (Some self) else splice_drain n self)) (tcp_task_io_yielder HEV_TASK_WAITIO self) w"
    by (rule quiet_wait [OF assms]) simp
  with b show ?thesis by simp
qed

lemma quiet_loop:
  assumes "conn_inv self w" and "s5_timeout (cl_base (st_base self)) = 0" and "session_work self + 1 < n"
    and "f \<in> {-1, 0, 1}" and "r \<in> {-1, 0, 1}"
  shows "ses_ok quiet conn_inv (\<lambda>r w'. r \<noteq> None) (splice_loop n f r self) w"
  using assms
proof (induction n arbitrary: self w f r)
  case (Suc n)
  let ?R = "\<lambda>r w'. r \<noteq> None"
  let ?B = "\<lambda>f (self, r). if 0 < f \<or> 0 < r then
         ses_bind (tcp_task_io_yielder HEV_TASK_YIELD self) (\<lambda>(self, res).
           if res < 0 then splice_drain n self else splice_loop n f r self)
       else if f AND r = 0 then
         ses_bind (tcp_task_io_yielder HEV_TASK_WAITIO self) (\<lambda>(self, res).
           if res < 0 then splice_drain n self else splice_loop n f r self)
       else splice_drain n self"
  let ?A = "\<lambda>(self, f). ses_bind (if 0 \<le> r then tcp_splice_b self else Done (self, r)) (?B f)"
  obtain m where m: "n = Suc m" using Suc.prems(3) by (cases n) auto
  have N: "ses_ok quiet conn_inv ?R (?B f (self, r)) w"
    if c: "conn_inv self w" "s5_timeout (cl_base (st_base self)) = 0" "f \<in> {-1, 0, 1}" "r \<in> {-1, 0, 1}"
      and less: "0 < f \<or> 0 < r \<Longrightarrow> session_work self + 1 < n" for f r self w
  proof -
    have D: "ses_ok quiet conn_inv ?R (splice_drain n self) w" if "conn_inv self w" for w
      using quiet_drain [OF that c(2)] by (simp add: m)
    have "ses_ok quiet conn_inv (\<lambda>x. ses_ok quiet conn_inv ?R
      (case x of (self, res) \<Rightarrow> if res < 0 then splice_drain n self else splice_loop n f r self)) (tcp_task_io_yielder type self) w"
      if "type = HEV_TASK_YIELD \<Longrightarrow> 0 < f \<or> 0 < r" for type
    proof (rule quiet_wait [OF c(1,2)])
      fix res :: int and w' assume "conn_inv self w'" "res = (if type = HEV_TASK_YIELD then 0 else -1)"
      with Suc.IH [OF _ c(2) less c(3,4)] D [of w'] that
      show "ses_ok quiet conn_inv ?R (case (self, res) of (self, res) \<Rightarrow>
          if res < 0 then splice_drain n self else splice_loop n f r self) w'" by auto
    qed
    with D [OF c(1)] show ?thesis by auto
  qed
  have B: "ses_ok quiet conn_inv ?R (?A (self, f)) w"
    if c: "conn_inv self w" "s5_timeout (cl_base (st_base self)) = 0" "f \<in> {-1, 0, 1}" "session_work self + 1 < Suc n"
      and less: "0 < f \<Longrightarrow> session_work self + 1 < n" for f self w
  proof (cases "0 \<le> r")
    case True
    have "ses_ok quiet conn_inv (\<lambda>x. ses_ok quiet conn_inv ?R (?B f x)) (tcp_splice_b self) w"
    proof (rule splice_b_ok [OF c(1)])
      fix r' :: int and self' w'
      assume mv: "moved self w (self', w')" "r' \<in> {-1, 0, 1}" and
        dec: "0 < r' \<Longrightarrow> \<exists>b b'. st_buffer self = Some b \<and> st_buffer self' = Some b' \<and> rb_work b' < rb_work b"
      from mv(1) obtain b b' where b: "st_buffer self = Some b" "self' = self\<lparr>st_buffer := Some b'\<rparr>" "rb_work b' \<le> rb_work b"
        by (auto simp: moved_def)
      then have "session_work self' \<le> session_work self" "0 < r' \<Longrightarrow> session_work self' < session_work self"
        using dec by (auto simp: session_work_def)
      then have "0 < f \<or> 0 < r' \<Longrightarrow> session_work self' + 1 < n" using less c(4) by auto
      moreover have "s5_timeout (cl_base (st_base self')) = 0" using b(2) c(2) by simp
      ultimately show "ses_ok quiet conn_inv ?R (?B f (self', r')) w'"
        by (intro N [OF moved_inv(1) [OF mv(1) c(1)] _ c(3) mv(2)])
    qed
    with True show ?thesis by simp
  next
    case False
    then have "r \<noteq> 1" "\<not> 0 < r" by auto
    with N [OF c(1-3) Suc.prems(5) less] False show ?thesis by simp
  qed
  have "ses_ok quiet conn_inv ?R (ses_bind (if 0 \<le> f then tcp_splice_f self else Done (self, f)) ?A) w"
  proof (cases "0 \<le> f")
    case True
    have "ses_ok quiet conn_inv (\<lambda>x. ses_ok quiet conn_inv ?R (?A x)) (tcp_splice_f self) w"
    proof (rule splice_f_ok [OF Suc.prems(1)])
      fix k br sh self' w' and f' :: int assume wr: "wrote k br sh self w (self', w')" "f' \<in> {-1, 0, 1}" "0 < f' \<longleftrightarrow> 0 < k"
      then obtain q where q: "self' = self\<lparr>st_queue := q\<rparr>" "concat q = drop k (concat (st_queue self))" "k \<le> length (concat (st_queue self))"
        by (auto simp: wrote_def)
      then have "session_work self' + k = session_work self" by (simp add: session_work_def)
      then have "session_work self' + 1 < Suc n" "0 < f' \<Longrightarrow> session_work self' + 1 < n" using Suc.prems(3) wr(3) by auto
      moreover have "s5_timeout (cl_base (st_base self')) = 0" using q(1) Suc.prems(2) by simp
      ultimately show "ses_ok quiet conn_inv ?R (?A (self', f')) w'"
        by (intro B [OF wrote_inv(1) [OF wr(1) Suc.prems(1)] _ wr(2)])
    qed
    with True show ?thesis by simp
  next
    case False
    with B [OF Suc.prems(1,2,4,3)] show ?thesis by simp
  qed
  then show ?case by (simp add: case_prod_unfold)
qed simp

section \<open>From the first packet to the end\<close>

text \<open>The world when the session object has been constructed for a connection.\<close>

definition connected :: "int \<Rightarrow> addr \<Rightarrow> lwip" where
  "connected fd pcb = \<lparr>lw_fd = fd, lw_locked = False, lw_pcb = pcb, lw_hooked = True, lw_wnd = TCP_WND_MAX, lw_in = [], lw_out = [],
     lw_src = [], lw_sent = [], lw_acked = 0, lw_eof = False, lw_fin = False, lw_done = False, lw_shut = False, lw_broken = False,
     lw_failed = False, lw_expired = False, lw_refused = False, lw_fault = False, lw_freed = []\<rparr>"

text \<open>While the session connects to the SOCKS5 server its handlers already run.\<close>

definition early_inv :: "HevSocks5Client \<Rightarrow> HevSocks5SessionTCP \<Rightarrow> lwip \<Rightarrow> bool" where
  "early_inv b self w \<longleftrightarrow> link_inv (self\<lparr>st_base := b\<rparr>) w \<and> \<not> lw_locked w \<and> st_buffer self = None \<and>
     lw_sent w = [] \<and> lw_src w = [] \<and> lw_acked w = 0"

lemma early_event:
  "lwip_event s s' \<Longrightarrow> s = (self, w) \<Longrightarrow> s' = (self', w') \<Longrightarrow> early_inv b self w \<Longrightarrow> early_inv b self' w'"
proof (induction arbitrary: self w self' w' rule: lwip_event.induct)
  case (recv w1 ps self1 self1')
  then have i: "length (concat (st_queue self)) \<le> TCP_WND_MAX" by (simp add: early_inv_def link_inv_def)
  with recv show ?case by (auto simp: early_inv_def link_inv_def recv_accepted [OF i])
next
  case (refused w1 ps self1 self1' e)
  then have i: "length (concat (st_queue self)) \<le> TCP_WND_MAX" by (simp add: early_inv_def link_inv_def)
  with refused show ?case by (simp add: recv_accepted [OF i])
qed (auto simp: early_inv_def link_inv_def tcp_recv_handler_def tcp_err_handler_def hev_socks5_session_terminate_def)

lemma early_events:
  assumes "lwip_event\<^sup>*\<^sup>* (session_tcp_object obj b0 pcb mutex, connected fd pcb) (self, w)" and "0 \<le> fd" and "cl_fd b = fd"
  shows "early_inv b self w"
  using assms(1)
proof (induction rule: rtranclp_induct2)
  case refl
  show ?case using assms(2,3) by (simp add: early_inv_def link_inv_def session_tcp_object_def connected_def)
next
  case (step s1 w1 s2 w2)
  then show ?case by (blast intro: early_event)
qed

text \<open>What the splicer leaves behind, and the destructor does with it.\<close>

definition spliced :: "HevSocks5SessionTCP option \<Rightarrow> lwip \<Rightarrow> bool" where
  "spliced r w \<longleftrightarrow> (\<forall>s. r = Some s \<longrightarrow> link_inv s w \<and> \<not> lw_locked w \<and>
     (lw_pcb w = NULL \<or> conn_inv s w \<and> over s w \<and> drained s w))"

lemma start_inv:
  assumes "early_inv b self w" and "0 < sz" and "sz \<le> 65528" and "int (length mem) = sz"
  shows "conn_inv (self\<lparr>st_base := b, st_buffer := Some (hev_ring_buffer_alloca (word_of_int sz) mem)\<rparr>) w"
    and "rb_work (hev_ring_buffer_alloca (word_of_int sz) mem) = nat sz"
proof -
  let ?b = "hev_ring_buffer_alloca (word_of_int sz) mem"
  have u: "unat (word_of_int sz :: 64 word) = nat sz" using assms(2,3) by (simp add: unsigned_of_int take_bit_int_eq_self)
  have "(word_of_int sz :: 64 word) \<noteq> 0"
  proof
    assume "(word_of_int sz :: 64 word) = 0"
    with u have "nat sz = 0" by simp
    with assms(2) show False by simp
  qed
  then have "rb_inv ?b" using u assms by (intro rb_inv_alloca) (simp_all add: word_neq_0_conv)
  moreover have "cap ?b = nat sz" using u by (simp add: hev_ring_buffer_alloca_def)
  ultimately have "buf_inv ?b w" using assms(1,3) by (simp add: early_inv_def buf_inv_def)
  moreover have "link_inv (self\<lparr>st_base := b, st_buffer := Some ?b\<rparr>) w"
    using assms(1) unfolding early_inv_def link_inv_def by simp
  ultimately show "conn_inv (self\<lparr>st_base := b, st_buffer := Some ?b\<rparr>) w"
    using assms(1) unfolding early_inv_def conn_inv_def by simp
  show "rb_work ?b = nat sz" using u by (simp add: rb_work_def) (simp add: hev_ring_buffer_alloca_def)
qed

lemma splice_ok:
  assumes "early_inv b self w" and "0 < hev_config_get_misc_tcp_buffer_size c" and "hev_config_get_misc_tcp_buffer_size c \<le> 65528"
    and "int (length mem) = hev_config_get_misc_tcp_buffer_size c"
  shows "ses_ok lwip_event conn_inv spliced (hev_socks5_session_tcp_splice c mem n (self\<lparr>st_base := b\<rparr>)) w"
proof (cases "lw_pcb w = NULL")
  case True
  then show ?thesis using assms(1) by (simp add: hev_socks5_session_tcp_splice_def spliced_def early_inv_def link_inv_def)
next
  case False
  have "ses_ok lwip_event conn_inv spliced
      (splice_loop n 1 1 (self\<lparr>st_base := b, st_buffer := Some (hev_ring_buffer_alloca (word_of_int (hev_config_get_misc_tcp_buffer_size c)) mem)\<rparr>)) w"
    by (rule loop_ok [OF start_inv(1) [OF assms]]) (auto simp: ended_f_def ended_b_def spliced_def conn_inv_def)
  with False assms(1) show ?thesis by (simp add: hev_socks5_session_tcp_splice_def early_inv_def link_inv_def)
qed

lemma destruct_session_ok:
  assumes "link_inv s w" and "\<not> lw_locked w"
  shows "ses_ok E I (\<lambda>x w'. lw_pcb w' = NULL \<and> lw_fd w' = -1 \<and> \<not> lw_locked w' \<and> lw_in w' = lw_out w' @ lw_freed w')
    (hev_socks5_session_tcp_destruct s) w"
  using assms by (auto simp: hev_socks5_session_tcp_destruct_def link_inv_def can_call_def)

text \<open>Every run ends, with a result for which \<open>Q\<close> holds.\<close>

inductive ses_ends ::
  "(HevSocks5SessionTCP \<times> lwip \<Rightarrow> HevSocks5SessionTCP \<times> lwip \<Rightarrow> bool) \<Rightarrow> ('a \<Rightarrow> lwip \<Rightarrow> bool) \<Rightarrow> 'a ses \<Rightarrow> lwip \<Rightarrow> bool" for E Q where
  ends_done: "Q x w \<Longrightarrow> ses_ends E Q (Done x) w"
| ends_step: "ses_step E p w p1 w1 \<Longrightarrow> (\<And>p' w'. ses_step E p w p' w' \<Longrightarrow> ses_ends E Q p' w') \<Longrightarrow> ses_ends E Q p w"

lemma quiet_ends: "ses_ok quiet I Q p w \<Longrightarrow> ses_ends quiet Q p w"
proof (induction p arbitrary: w)
  case (Wait q self k)
  from ses_ok_progress [OF Wait.prems] obtain p1 w1 where "ses_step quiet (Wait q self k) w p1 w1" by auto
  then show ?case by (rule ends_step) (use Wait in \<open>auto simp: ses_step_simps\<close>)
next
  case (Writev fd bss k)
  from ses_ok_progress [OF Writev.prems] obtain p1 w1 where "ses_step quiet (Writev fd bss k) w p1 w1" by auto
  then show ?case by (rule ends_step) (use Writev in \<open>auto simp: ses_step_simps\<close>)
next
  case (Readv fd ns k)
  from ses_ok_progress [OF Readv.prems] obtain p1 w1 where "ses_step quiet (Readv fd ns k) w p1 w1" by auto
  then show ?case by (rule ends_step) (use Readv in \<open>auto simp: ses_step_simps\<close>)
next
  case (Tcp_Write pcb bs k)
  from ses_ok_progress [OF Tcp_Write.prems] obtain p1 w1 where "ses_step quiet (Tcp_Write pcb bs k) w p1 w1" by auto
  then show ?case by (rule ends_step) (use Tcp_Write in \<open>auto simp: ses_step_simps\<close>)
next
  case (Tcp_Output pcb k)
  from ses_ok_progress [OF Tcp_Output.prems] obtain p1 w1 where "ses_step quiet (Tcp_Output pcb k) w p1 w1" by auto
  then show ?case by (rule ends_step) (use Tcp_Output in \<open>auto simp: ses_step_simps\<close>)
qed (auto simp: ses_step_simps intro: ends_done ends_step ses_step.intros)


section \<open>Properties\<close>


definition demo_tcp_config :: config where
  "demo_tcp_config = config_initial\<lparr>tcp_buffer_size := 4\<rparr>"

definition demo_base :: "int \<Rightarrow> HevSocks5Client" where
  "demo_base t = \<lparr>cl_base = \<lparr>s5_fd = 3, s5_timeout = t, s5_udp_associated = False, s5_type = HEV_SOCKS5_TYPE_TCP, s5_addr_family = 2\<rparr>,
     cl_user = None, cl_pass = None, cl_kind = ClientTCP None\<rparr>"

definition demo_answers :: "answer list" where
  "demo_answers = [A_count 2 False, A_rx (Data [] False), A_wake 0]"

text \<open>A packet of two bytes arrives, and the peer closes.\<close>

lemma demo_events:
  "lwip_event\<^sup>*\<^sup>* (session_tcp_object 32 (demo_base 0) 16 8, connected 3 16)
     ((session_tcp_object 32 (demo_base 0) 16 8)\<lparr>st_queue := [[104, 105]], st_pcb_eof := True\<rparr>,
      (connected 3 16)\<lparr>lw_in := [104, 105], lw_wnd := 65526, lw_eof := True\<rparr>)"
proof (rule rtranclp.rtrancl_into_rtrancl, rule r_into_rtranclp)
  show "lwip_event (session_tcp_object 32 (demo_base 0) 16 8, connected 3 16)
      ((session_tcp_object 32 (demo_base 0) 16 8)\<lparr>st_queue := [[104, 105]]\<rparr>, (connected 3 16)\<lparr>lw_in := [104, 105], lw_wnd := 65526\<rparr>)"
    using lwip_event.recv [of "connected 3 16" "[[104, 105]]" "session_tcp_object 32 (demo_base 0) 16 8"]
    by (simp add: connected_def session_tcp_object_def tcp_recv_handler_def)
  show "lwip_event ((session_tcp_object 32 (demo_base 0) 16 8)\<lparr>st_queue := [[104, 105]]\<rparr>, (connected 3 16)\<lparr>lw_in := [104, 105], lw_wnd := 65526\<rparr>)
     ((session_tcp_object 32 (demo_base 0) 16 8)\<lparr>st_queue := [[104, 105]], st_pcb_eof := True\<rparr>,
      (connected 3 16)\<lparr>lw_in := [104, 105], lw_wnd := 65526, lw_eof := True\<rparr>)"
    using lwip_event.eof [of "(connected 3 16)\<lparr>lw_in := [104, 105], lw_wnd := 65526\<rparr>"
      "(session_tcp_object 32 (demo_base 0) 16 8)\<lparr>st_queue := [[104, 105]]\<rparr>"]
    by (simp add: connected_def session_tcp_object_def tcp_recv_handler_def)
qed

lemmas demo_run = hev_socks5_session_tcp_splice_def session_tcp_object_def connected_def numeral_3_eq_3 tcp_splice_f_def tcp_splice_b_def
  splice_read_def splice_write_def hev_ring_buffer_writing_def hev_ring_buffer_reading_def hev_ring_buffer_alloca_def
  hev_ring_buffer_get_use_size_def tcp_task_io_yielder_def hev_socks5_task_io_yielder_def rx_ok_def can_call_def demo_answers_def Let_def

lemmas demo_tcp = demo_tcp_config_def hev_config_get_misc_tcp_buffer_size_def demo_base_def


text \<open>
  C19: A graceful end loses nothing. When the splicer returns without a timeout, a socket error, a
  call lwIP refused or a reset connection, then the peer of lwIP had closed and everything it sent
  was written to the socket, which was then shut down; and the socket had ended, and everything
  read from it was given to lwIP, acknowledged by the peer, and the connection closed.
\<close>

theorem tcp_session_graceful:
  assumes "lwip_event\<^sup>*\<^sup>* (session_tcp_object obj b0 pcb mutex, connected fd pcb) (self, w)"
    and "0 \<le> fd" and "cl_fd b = fd"
    and "0 < hev_config_get_misc_tcp_buffer_size c" and "hev_config_get_misc_tcp_buffer_size c \<le> 65528"
    and "int (length mem) = hev_config_get_misc_tcp_buffer_size c"
    and "ses_steps lwip_event (hev_socks5_session_tcp_splice c mem n (self\<lparr>st_base := b\<rparr>)) w (Done (Some s)) w'"
    and "\<not> lw_expired w'" and "\<not> lw_broken w'" and "\<not> lw_failed w'" and "lw_pcb w' \<noteq> NULL"
  shows "lw_eof w' \<and> lw_out w' = lw_in w' \<and> lw_shut w' \<and>
    lw_done w' \<and> lw_sent w' = lw_src w' \<and> lw_acked w' = length (lw_src w') \<and> lw_fin w'"
proof -
  have "ses_ok lwip_event conn_inv spliced (Done (Some s)) w'"
    by (rule ses_ok_steps [OF assms(7) splice_ok [OF early_events [OF assms(1-3)] assms(4-6)]])
  with assms(11) have inv: "conn_inv s w'" "over s w'" "drained s w'" by (auto simp: spliced_def)
  obtain rb where rb: "st_buffer s = Some rb" "buf_inv rb w'" using inv(1) by (auto simp: conn_inv_def)
  have f: "lw_eof w'" "st_queue s = []" "lw_shut w'" and r: "lw_done w'" "lw_fin w'" "unread rb = []"
    using inv(2) assms(8-11) rb(1) by (auto simp: over_def ended_f_def ended_b_def)
  have "use_size rb = 0" using inv(3) assms(8,11) rb(1) by (auto simp: drained_def)
  then have "length (inflight rb) = 0" by simp
  then have "drop (lw_acked w') (lw_sent w') = []" "lw_src w' = lw_sent w'"
    using rb(2) assms(10) r(3) by (simp_all add: buf_inv_def)
  then show ?thesis using f r inv(1) by (simp add: conn_inv_def link_inv_def)
qed

lemma demo_play:
  "\<exists>s w'. ses_play (hev_socks5_session_tcp_splice demo_tcp_config [0, 0, 0, 0] 3
     ((session_tcp_object 32 (demo_base 0) 16 8)\<lparr>st_queue := [[104, 105]], st_pcb_eof := True, st_base := demo_base 0\<rparr>)) demo_answers
     ((connected 3 16)\<lparr>lw_in := [104, 105], lw_wnd := 65526, lw_eof := True\<rparr>) = Some (Some s, w') \<and>
     \<not> lw_expired w' \<and> \<not> lw_broken w' \<and> \<not> lw_failed w' \<and> lw_pcb w' \<noteq> NULL \<and> lw_in w' = [104, 105]"
  by (simp add: demo_tcp demo_run)

theorem tcp_session_graceful_witness:
  "\<exists>s w'. ses_steps lwip_event (hev_socks5_session_tcp_splice demo_tcp_config [0, 0, 0, 0] 3
     ((session_tcp_object 32 (demo_base 0) 16 8)\<lparr>st_queue := [[104, 105]], st_pcb_eof := True, st_base := demo_base 0\<rparr>))
     ((connected 3 16)\<lparr>lw_in := [104, 105], lw_wnd := 65526, lw_eof := True\<rparr>) (Done (Some s)) w' \<and>
     lw_out w' = [104, 105] \<and> lw_shut w' \<and> lw_fin w'"
proof -
  obtain s w' where p: "ses_play (hev_socks5_session_tcp_splice demo_tcp_config [0, 0, 0, 0] 3
     ((session_tcp_object 32 (demo_base 0) 16 8)\<lparr>st_queue := [[104, 105]], st_pcb_eof := True, st_base := demo_base 0\<rparr>)) demo_answers
     ((connected 3 16)\<lparr>lw_in := [104, 105], lw_wnd := 65526, lw_eof := True\<rparr>) = Some (Some s, w')"
    and w': "\<not> lw_expired w'" "\<not> lw_broken w'" "\<not> lw_failed w'" "lw_pcb w' \<noteq> NULL" "lw_in w' = [104, 105]"
    using demo_play by blast
  note run = ses_play_steps [OF p, of lwip_event]
  have "lw_out w' = lw_in w' \<and> lw_shut w' \<and> lw_fin w'"
    using tcp_session_graceful [OF demo_events _ _ _ _ _ run w'(1-4)] by (simp add: demo_tcp)
  with run w'(5) show ?thesis by auto
qed

text \<open>
  C21: Destruction after the splicer, however it ended. Nothing the destructor does is
  invalid: no handler can be called any more when the connection is aborted, an aborted or lost
  connection is not touched again, the lock is released, the socket is closed, and every byte lwIP
  ever handed over was either written to the socket or is freed with the queue.
\<close>

theorem tcp_session_destroyed:
  assumes "lwip_event\<^sup>*\<^sup>* (session_tcp_object obj b0 pcb mutex, connected fd pcb) (self, w)"
    and "0 \<le> fd" and "cl_fd b = fd"
    and "0 < hev_config_get_misc_tcp_buffer_size c" and "hev_config_get_misc_tcp_buffer_size c \<le> 65528"
    and "int (length mem) = hev_config_get_misc_tcp_buffer_size c"
    and "ses_steps lwip_event (hev_socks5_session_tcp_splice c mem n (self\<lparr>st_base := b\<rparr>)) w (Done (Some s)) w1"
    and "ses_steps lwip_event (hev_socks5_session_tcp_destruct s) w1 p w2"
  shows "(p = Done () \<and> lw_pcb w2 = NULL \<and> lw_fd w2 = -1 \<and> \<not> lw_locked w2 \<and> lw_in w2 = lw_out w2 @ lw_freed w2) \<or>
    (\<exists>p' w'. ses_step lwip_event p w2 p' w')"
proof -
  have "ses_ok lwip_event conn_inv spliced (Done (Some s)) w1"
    by (rule ses_ok_steps [OF assms(7) splice_ok [OF early_events [OF assms(1-3)] assms(4-6)]])
  then have "link_inv s w1" "\<not> lw_locked w1" by (simp_all add: spliced_def)
  then have "ses_ok lwip_event conn_inv (\<lambda>x w'. lw_pcb w' = NULL \<and> lw_fd w' = -1 \<and> \<not> lw_locked w' \<and>
      lw_in w' = lw_out w' @ lw_freed w') p w2"
    by (rule ses_ok_steps [OF assms(8) destruct_session_ok])
  from ses_ok_progress [OF this] show ?thesis by auto
qed

lemma destruct_play: "link_inv s w \<Longrightarrow> \<not> lw_locked w \<Longrightarrow> \<exists>w'. ses_play (hev_socks5_session_tcp_destruct s) [] w = Some ((), w')"
  by (auto simp: hev_socks5_session_tcp_destruct_def link_inv_def can_call_def)

theorem tcp_session_destroyed_witness:
  "\<exists>s w1 w2. ses_steps lwip_event (hev_socks5_session_tcp_destruct s) w1 (Done ()) w2 \<and> lw_pcb w2 = NULL \<and> lw_fd w2 = -1"
proof -
  obtain s w1 where p: "ses_play (hev_socks5_session_tcp_splice demo_tcp_config [0, 0, 0, 0] 3
     ((session_tcp_object 32 (demo_base 0) 16 8)\<lparr>st_queue := [[104, 105]], st_pcb_eof := True, st_base := demo_base 0\<rparr>)) demo_answers
     ((connected 3 16)\<lparr>lw_in := [104, 105], lw_wnd := 65526, lw_eof := True\<rparr>) = Some (Some s, w1)"
    using demo_play by blast
  note run = ses_play_steps [OF p, of lwip_event]
  have "spliced (Some s) w1"
    using ses_ok_steps [OF run splice_ok [OF early_events [OF demo_events]]] by (simp add: demo_tcp)
  then obtain w2 where d: "ses_steps lwip_event (hev_socks5_session_tcp_destruct s) w1 (Done ()) w2"
    using destruct_play [of s w1] ses_play_steps by (fastforce simp: spliced_def)
  from tcp_session_destroyed [OF demo_events _ _ _ _ _ run d] d show ?thesis by (auto simp: demo_tcp ses_step_simps)
qed



text \<open>
  C40: The two areas of the ring buffer are given to lwIP one after the other even when the first
  is refused. Then lwIP sends the second one in its place: with the unread bytes 1, 2 at the end of
  the ring and 3 at its start and no memory for the first \<open>tcp_write\<close>, the peer receives 3 where 1
  belongs, and the session only ends afterwards.
\<close>

definition wrapped_session :: HevSocks5SessionTCP where
  "wrapped_session = (session_tcp_object 32 (demo_base (-1)) 16 8)\<lparr>st_buffer :=
     Some \<lparr>rp = 2, wp = 1, rda_size = 3, use_size = 3, max_size = 4, rb_data = [3, 0, 1, 2]\<rparr>\<rparr>"

definition wrapped_world :: lwip where
  "wrapped_world = (connected 3 16)\<lparr>lw_src := [7, 8, 1, 2, 3], lw_sent := [7, 8], lw_acked := 2\<rparr>"


end
