(* ===== verification/Hev_Session_UDP.thy ===== *)
theory Hev_Session_UDP
  imports Hev_Session_TCP Hev_Socks5_UDP
begin

text \<open>
  The UDP session of \<open>src/hev-socks5-session-udp.c\<close>: lwIP hands over datagrams, which wait in a queue
  of frames until the task of the session has sent them to the SOCKS5 server; what comes back from
  the server is given to lwIP. The frames are blocks on the heap, linked by the intrusive list; the
  memory of the frames is passed along with the object.

  The programs of the task are trees of calls, as for the TCP session. Sending, receiving and
  waiting are programs of their own (\<open>Hev_IO\<close>), and while one runs other tasks may run and lwIP may
  call the handler.
\<close>

unbundle bit_operations_syntax

section \<open>The session object\<close>

text \<open>
  \<open>su_heap\<close> holds the list nodes of the frames that are allocated, \<open>su_frame\<close> their addresses and
  packet buffers. A node is the first field of its frame, so that both have the same address.
\<close>

record HevSocks5SessionUDP =
  su_base :: HevSocks5Client
  su_data :: HevSocks5SessionData
  su_frame_list :: HevList
  su_pcb :: addr
  su_mutex :: addr
  su_frames :: int
  su_addr :: u32
  su_port :: int
  su_heap :: lheap
  su_frame :: "addr \<Rightarrow> (HevSocks5Addr \<times> pbufs) option"

abbreviation su_s5 :: "HevSocks5SessionUDP \<Rightarrow> HevSocks5" where
  "su_s5 self \<equiv> cl_base (su_base self)"

definition su_set_s5 :: "HevSocks5SessionUDP \<Rightarrow> HevSocks5 \<Rightarrow> HevSocks5SessionUDP" where
  "su_set_s5 self b = self\<lparr>su_base := (su_base self)\<lparr>cl_base := b\<rparr>\<rparr>"

definition hev_socks5_session_udp_get_task :: "HevSocks5SessionUDP \<Rightarrow> addr" where
  "hev_socks5_session_udp_get_task self = sd_task (su_data self)"

definition hev_socks5_session_udp_set_task :: "HevSocks5SessionUDP \<Rightarrow> addr \<Rightarrow> HevSocks5SessionUDP" where
  "hev_socks5_session_udp_set_task self task = self\<lparr>su_data := (su_data self)\<lparr>sd_task := task\<rparr>\<rparr>"

definition hev_socks5_session_udp_get_node :: "HevSocks5SessionUDP \<Rightarrow> addr" where
  "hev_socks5_session_udp_get_node self = sd_node (su_data self)"

definition udp_session_terminate :: "HevSocks5SessionUDP \<Rightarrow> HevSocks5SessionUDP" where
  "udp_session_terminate self = self\<lparr>su_base := session_terminate (su_base self)\<rparr>"

section \<open>The handler lwIP calls\<close>

definition UDP_POOL_SIZE :: int where
  "UDP_POOL_SIZE = 512"

text \<open>The bytes of an IPv4 address in memory as an integer and back; the first four bytes of any address.\<close>

definition store32 :: "u32 \<Rightarrow> u8 list" where
  "store32 v = [ucast v, ucast (drop_bit 8 v), ucast (drop_bit 16 v), ucast (drop_bit 24 v)]"

fun ip_2_ip4 :: "ip_addr \<Rightarrow> u32" where
  "ip_2_ip4 (IPADDR_TYPE_V4 b) = load32 b"
| "ip_2_ip4 (IPADDR_TYPE_V6 b) = load32 (take 4 b)"
| "ip_2_ip4 IPADDR_TYPE_ANY = 0"

fun ip_set_ip4 :: "ip_addr \<Rightarrow> u32 \<Rightarrow> ip_addr" where
  "ip_set_ip4 (IPADDR_TYPE_V4 b) v = IPADDR_TYPE_V4 (store32 v)"
| "ip_set_ip4 (IPADDR_TYPE_V6 b) v = IPADDR_TYPE_V6 (store32 v @ drop 4 b)"
| "ip_set_ip4 IPADDR_TYPE_ANY v = IPADDR_TYPE_ANY"

text \<open>
  A datagram for the destination the connection stands for. The result is the mapped DNS, the
  object, and whether the packet was dropped; \<open>blk\<close> is the block \<open>hev_malloc\<close> returns and \<open>junk\<close> what
  its address held before.
\<close>

definition udp_recv_handler ::
  "HevMappedDNS option \<Rightarrow> HevSocks5SessionUDP \<Rightarrow> addr \<Rightarrow> HevSocks5Addr \<Rightarrow> pbufs option \<Rightarrow> ip_addr \<Rightarrow> u16 \<Rightarrow>
   (HevMappedDNS option \<times> HevSocks5SessionUDP \<times> bool) option" where
  "udp_recv_handler dns self blk junk p local_ip local_port =
     (case p of
        None \<Rightarrow> Some (dns, udp_session_terminate self, False)
      | Some data \<Rightarrow>
          if su_frames self > UDP_POOL_SIZE then Some (dns, self, True)
          else if blk = NULL then Some (dns, self, True)
          else do {
            let heap = (su_heap self)(blk \<mapsto> \<lparr>ln_next = NULL, ln_prev = NULL\<rparr>);
            (dns, addr, res) \<leftarrow> hev_socks5_addr_from_lwip dns junk local_ip local_port;
            let self = (if addr_atype addr = HEV_SOCKS5_ADDR_TYPE_NAME
              then self\<lparr>su_addr := ip_2_ip4 local_ip, su_port := uint local_port\<rparr> else self);
            (l, heap) \<leftarrow> hev_list_add_tail (su_frame_list self) heap blk;
            Some (dns, self\<lparr>su_frames := su_frames self + 1, su_frame_list := l, su_heap := heap,
              su_frame := (su_frame self)(blk \<mapsto> (addr, data))\<rparr>, False)
          })"

section \<open>Programs of a session task\<close>

text \<open>
  \<open>Broken\<close> is an access to a frame that does not exist, \<open>Bad_Address\<close> the use of a message whose
  address is the null pointer or was never set. \<open>Send\<close>, \<open>Receive\<close> and \<open>Pause\<close> run a program while
  other tasks run, \<open>Run\<close> one that does not wait.
\<close>

datatype 'a udp =
    Return 'a
  | Broken
  | Bad_Address
  | Send_Msgs "res io" "HevSocks5UDPMsg list" HevSocks5SessionUDP "HevSocks5SessionUDP \<times> res \<Rightarrow> 'a udp"
  | Receive_Msgs "(HevSocks5 \<times> HevSocks5UDPMsg list \<times> res) io" HevSocks5SessionUDP
      "HevSocks5SessionUDP \<times> HevSocks5 \<times> HevSocks5UDPMsg list \<times> res \<Rightarrow> 'a udp"
  | Pause "int io" HevSocks5SessionUDP "HevSocks5SessionUDP \<times> int \<Rightarrow> 'a udp"
  | Run "unit io" "'a udp"
  | Probe int "rx \<Rightarrow> 'a udp"
  | Acquire "'a udp"
  | Release "'a udp"
  | Udp_Sendfrom addr "u8 list" ip_addr u16 "int \<Rightarrow> 'a udp"
  | Udp_Unhook addr "'a udp"
  | Udp_Remove addr "'a udp"
  | Ref_Alloc "bool \<Rightarrow> 'a udp"
  | Ref_Free "'a udp"
  | Frame_Free pbufs "'a udp"
  | Touch addr "'a udp"

primrec udp_bind :: "'a udp \<Rightarrow> ('a \<Rightarrow> 'b udp) \<Rightarrow> 'b udp" where
  "udp_bind (Return x) c = c x"
| "udp_bind Broken c = Broken"
| "udp_bind Bad_Address c = Bad_Address"
| "udp_bind (Send_Msgs p ms self k) c = Send_Msgs p ms self (\<lambda>r. udp_bind (k r) c)"
| "udp_bind (Receive_Msgs p self k) c = Receive_Msgs p self (\<lambda>r. udp_bind (k r) c)"
| "udp_bind (Pause p self k) c = Pause p self (\<lambda>r. udp_bind (k r) c)"
| "udp_bind (Run p k) c = Run p (udp_bind k c)"
| "udp_bind (Probe fd k) c = Probe fd (\<lambda>r. udp_bind (k r) c)"
| "udp_bind (Acquire k) c = Acquire (udp_bind k c)"
| "udp_bind (Release k) c = Release (udp_bind k c)"
| "udp_bind (Udp_Sendfrom pcb bs ip port k) c = Udp_Sendfrom pcb bs ip port (\<lambda>r. udp_bind (k r) c)"
| "udp_bind (Udp_Unhook pcb k) c = Udp_Unhook pcb (udp_bind k c)"
| "udp_bind (Udp_Remove pcb k) c = Udp_Remove pcb (udp_bind k c)"
| "udp_bind (Ref_Alloc k) c = Ref_Alloc (\<lambda>r. udp_bind (k r) c)"
| "udp_bind (Ref_Free k) c = Ref_Free (udp_bind k c)"
| "udp_bind (Frame_Free p k) c = Frame_Free p (udp_bind k c)"
| "udp_bind (Touch node k) c = Touch node (udp_bind k c)"

section \<open>The splicer\<close>

text \<open>
  Waiting. In datagram mode the control connection is polled first, and when it is closed the
  session ends.
\<close>

definition udp_task_io_yielder :: "HevTaskYieldType \<Rightarrow> HevSocks5SessionUDP \<Rightarrow> (HevSocks5SessionUDP \<times> int) udp" where
  "udp_task_io_yielder type self =
     (let wait = Pause (hev_socks5_task_io_yielder type (su_s5 self)) self
            (\<lambda>(self, res). Touch (hev_socks5_session_udp_get_node self) (Return (self, res)))
      in if s5_type (su_s5 self) = HEV_SOCKS5_TYPE_UDP_IN_UDP then
        Probe (s5_fd (su_s5 self)) (\<lambda>r.
          if rx_res r = 0 \<or> (rx_res r < 0 \<and> \<not> rx_again r) then
            Return (su_set_s5 self (hev_socks5_set_timeout (su_s5 self) 0), -1)
          else wait)
      else wait)"

text \<open>
  Forward. The first \<open>n\<close> frames from a node on as messages: of each packet the first buffer. No result
  is an access to a frame that does not exist.
\<close>

definition frame_msg :: "HevSocks5Addr \<times> pbufs \<Rightarrow> HevSocks5UDPMsg" where
  "frame_msg f = (case f of (addr, buf) \<Rightarrow> \<lparr>msg_addr = To addr, msg_buf = hd buf, msg_len = length (hd buf)\<rparr>)"

fun frame_msgs :: "nat \<Rightarrow> addr \<Rightarrow> HevSocks5SessionUDP \<Rightarrow> HevSocks5UDPMsg list option" where
  "frame_msgs 0 node self = Some []"
| "frame_msgs (Suc n) node self = do {
     frame \<leftarrow> su_frame self node;
     next_node \<leftarrow> hev_list_node_next (su_heap self) node;
     if snd frame = [] then None
     else do {
       ms \<leftarrow> frame_msgs n next_node self;
       Some (frame_msg frame # ms)
     }
   }"

text \<open>The first \<open>n\<close> frames leave the queue and are freed.\<close>

fun release_frames :: "nat \<Rightarrow> HevSocks5SessionUDP \<Rightarrow> HevSocks5SessionUDP udp" where
  "release_frames 0 self = Return self"
| "release_frames (Suc n) self =
     (let node = hev_list_first (su_frame_list self)
      in case su_frame self node of
        None \<Rightarrow> Broken
      | Some (addr, buf) \<Rightarrow>
          (case hev_list_del (su_frame_list self) (su_heap self) node of
             None \<Rightarrow> Broken
           | Some (l, heap) \<Rightarrow>
               Frame_Free buf (release_frames n
                 (self\<lparr>su_frame_list := l, su_heap := heap(node := None), su_frame := (su_frame self)(node := None),
                   su_frames := su_frames self - 1\<rparr>))))"

text \<open>\<open>again\<close> is whether \<open>errno\<close> is \<open>EAGAIN\<close> when the function is entered, and when it returns.\<close>

definition hev_socks5_session_udp_fwd_f :: "HevSocks5SessionUDP \<Rightarrow> bool \<Rightarrow> nat \<Rightarrow> (HevSocks5SessionUDP \<times> bool \<times> int) udp" where
  "hev_socks5_session_udp_fwd_f self again num =
     (let res = su_frames self
      in if res \<le> 0 then Return (self, again, 0)
      else
        let res = (if res > int num then num else nat res);
            node = hev_list_first (su_frame_list self)
        in case frame_msgs res node self of
          None \<Rightarrow> Broken
        | Some msgv \<Rightarrow>
            Send_Msgs (hev_socks5_udp_sendmmsg (su_s5 self) (hev_socks5_client_udp_get_fd (su_base self)) again msgv) msgv self
              (\<lambda>(self, res, again).
                 if res \<le> 0 then Return (self, again, -1)
                 else udp_bind (release_frames (nat res) self) (\<lambda>self. Return (self, again, 1))))"

text \<open>
  Backward. Each message goes to the application from the address it came from, or, for a
  destination of the mapped DNS, from the fake address, of which only the IPv4 bytes are set in a
  variable that held \<open>saddr\<close>.
\<close>

definition udp_give :: "HevSocks5SessionUDP \<Rightarrow> HevSocks5UDPMsg \<Rightarrow> ip_addr \<Rightarrow> u16 \<Rightarrow> int udp \<Rightarrow> int udp" where
  "udp_give self m saddr port cont =
     Ref_Alloc (\<lambda>b. if \<not> b then Return (-1)
       else Acquire (Udp_Sendfrom (su_pcb self) (take (msg_len m) (msg_buf m)) saddr port (\<lambda>err.
         Release (Ref_Free (if err \<noteq> ERR_OK then Return (-1) else cont)))))"

fun udp_give_all :: "HevSocks5SessionUDP \<Rightarrow> ip_addr \<Rightarrow> HevSocks5UDPMsg list \<Rightarrow> nat \<Rightarrow> int udp" where
  "udp_give_all self saddr ms 0 = Return 1"
| "udp_give_all self saddr [] (Suc n) = Bad_Address"
| "udp_give_all self saddr (m # ms) (Suc n) =
     (if su_addr self \<noteq> 0 \<and> su_port self \<noteq> 0 then
        udp_give self m (ip_set_ip4 saddr (su_addr self)) (word_of_int (su_port self)) (udp_give_all self saddr ms n)
      else case msg_addr m of
        To addr \<Rightarrow>
          (case hev_socks5_addr_into_lwip addr of
             None \<Rightarrow> Return (-1)
           | Some (ip, port) \<Rightarrow> udp_give self m ip port (udp_give_all self saddr ms n))
      | _ \<Rightarrow> Bad_Address)"

text \<open>\<open>mem\<close> is what the buffers on the stack hold.\<close>

definition hev_socks5_session_udp_fwd_b ::
  "ip_addr \<Rightarrow> u8 list list \<Rightarrow> HevSocks5SessionUDP \<Rightarrow> bool \<Rightarrow> (HevSocks5SessionUDP \<times> bool \<times> int) udp" where
  "hev_socks5_session_udp_fwd_b saddr mem self again =
     Receive_Msgs (hev_socks5_udp_recvmmsg (su_s5 self) (hev_socks5_client_udp_get_fd (su_base self)) again (fwd_svec mem) True) self
       (\<lambda>(self, b, msgv, res, again).
          let self = su_set_s5 self ((su_s5 self)\<lparr>s5_udp_associated := s5_udp_associated b\<rparr>)
          in if res \<le> 0 then Return (self, again, if res = -1 \<and> again then 0 else -1)
          else udp_bind (udp_give_all self saddr msgv (nat res)) (\<lambda>res. Return (self, again, res)))"

text \<open>
  The loop, for a number of rounds; the result is missing when it still runs after them. \<open>mem n\<close> is
  what the stack holds in a round.
\<close>

fun udp_session_loop ::
  "nat \<Rightarrow> nat \<Rightarrow> (nat \<Rightarrow> ip_addr \<times> u8 list list) \<Rightarrow> int \<Rightarrow> int \<Rightarrow> bool \<Rightarrow> HevSocks5SessionUDP \<Rightarrow> HevSocks5SessionUDP option udp" where
  "udp_session_loop 0 num mem res_f res_b again self = Return None"
| "udp_session_loop (Suc n) num mem res_f res_b again self =
     udp_bind (if 0 \<le> res_f then hev_socks5_session_udp_fwd_f self again num else Return (self, again, res_f)) (\<lambda>(self, again, res_f).
     udp_bind (if 0 \<le> res_b then hev_socks5_session_udp_fwd_b (fst (mem n)) (snd (mem n)) self again else Return (self, again, res_b))
       (\<lambda>(self, again, res_b).
       if 0 < res_f \<or> 0 < res_b then
         udp_bind (udp_task_io_yielder HEV_TASK_YIELD self) (\<lambda>(self, res).
           if res \<noteq> 0 then Return (Some self) else udp_session_loop n num mem res_f res_b again self)
       else if res_f AND res_b = 0 then
         udp_bind (udp_task_io_yielder HEV_TASK_WAITIO self) (\<lambda>(self, res).
           if res \<noteq> 0 then Return (Some self) else udp_session_loop n num mem res_f res_b again self)
       else Return (Some self)))"

definition poll_fd :: "int \<Rightarrow> unit io" where
  "poll_fd fd = Mod_Fd fd (\<lambda>res. if res < 0 then Add_Fd fd (\<lambda>res. Ret ()) else Ret ())"

definition hev_socks5_session_udp_splice ::
  "config \<Rightarrow> (nat \<Rightarrow> nat \<Rightarrow> ip_addr \<times> u8 list list) \<Rightarrow> nat \<Rightarrow> bool \<Rightarrow> HevSocks5SessionUDP \<Rightarrow> HevSocks5SessionUDP option udp" where
  "hev_socks5_session_udp_splice c mem n again self =
     (let num = nat (hev_config_get_misc_udp_copy_buffer_nums c);
          fd = hev_socks5_client_udp_get_fd (su_base self)
      in Run (poll_fd fd) (udp_session_loop n num (mem num) 1 1 again self))"

section \<open>Construction and destruction\<close>

definition session_udp_object :: "addr \<Rightarrow> HevSocks5Client \<Rightarrow> addr \<Rightarrow> addr \<Rightarrow> HevSocks5SessionUDP" where
  "session_udp_object obj b pcb mutex = \<lparr>su_base = b, su_data = \<lparr>sd_node = obj, sd_task = NULL, sd_self = obj\<rparr>,
     su_frame_list = \<lparr>list_head = NULL, list_tail = NULL\<rparr>, su_pcb = pcb, su_mutex = mutex, su_frames = 0,
     su_addr = 0, su_port = 0, su_heap = Map.empty, su_frame = Map.empty\<rparr>"

definition hev_socks5_session_udp_construct :: "HevConfigServer \<Rightarrow> addr \<Rightarrow> addr \<Rightarrow> addr \<Rightarrow> int \<Rightarrow> HevSocks5SessionUDP option" where
  "hev_socks5_session_udp_construct sv obj pcb mutex base =
     (let type = (if srv_udp_in_udp sv then HEV_SOCKS5_TYPE_UDP_IN_UDP else HEV_SOCKS5_TYPE_UDP_IN_TCP);
          (b, res) = hev_socks5_client_udp_construct base type
      in if res < 0 then None else Some (session_udp_object obj b pcb mutex))"

definition hev_socks5_session_udp_new :: "HevConfigServer \<Rightarrow> addr \<Rightarrow> addr \<Rightarrow> int \<Rightarrow> HevSocks5SessionUDP option io" where
  "hev_socks5_session_udp_new sv pcb mutex base =
     Malloc (\<lambda>obj. if obj = NULL then Ret None
       else case hev_socks5_session_udp_construct sv obj pcb mutex base of
         None \<Rightarrow> Free obj (Ret None)
       | Some self \<Rightarrow> Ret (Some self))"

text \<open>The frames are freed one after the other; the list is not rewired.\<close>

fun destroy_frames :: "nat \<Rightarrow> addr \<Rightarrow> HevSocks5SessionUDP \<Rightarrow> HevSocks5SessionUDP udp" where
  "destroy_frames 0 node self = (if node = NULL then Return self else Broken)"
| "destroy_frames (Suc n) node self =
     (if node = NULL then Return self
      else case (su_frame self node, hev_list_node_next (su_heap self) node) of
        (Some (addr, buf), Some next_node) \<Rightarrow>
          Frame_Free buf (destroy_frames n next_node
            (self\<lparr>su_heap := (su_heap self)(node := None), su_frame := (su_frame self)(node := None)\<rparr>))
      | _ \<Rightarrow> Broken)"

text \<open>\<open>n\<close> is the number of frames the walk may visit; a longer list counts as broken.\<close>

definition hev_socks5_session_udp_destruct :: "nat \<Rightarrow> HevSocks5SessionUDP \<Rightarrow> HevSocks5SessionUDP udp" where
  "hev_socks5_session_udp_destruct n self =
     udp_bind (destroy_frames n (hev_list_first (su_frame_list self)) self) (\<lambda>self.
       Acquire (udp_bind
         (if su_pcb self \<noteq> NULL then Udp_Unhook (su_pcb self) (Udp_Remove (su_pcb self) (Return ())) else Return ()) (\<lambda>_.
         Release (Run (hev_socks5_client_udp_destruct (su_base self)) (Return self)))))"

end
