(* ===== verification/Hev_UDP_Queue.thy ===== *)
theory Hev_UDP_Queue
  imports Hev_Session_UDP
begin

text \<open>
  The meaning of the programs of a UDP session among the events of its surroundings, and what holds of
  its queue: the frames are sent in the order in which they came, each is freed once, and their
  number is bounded.
\<close>

section \<open>Steps\<close>

text \<open>
  The datagram connection and what went through it: the packets the handler accepted, with their
  destinations, and those it dropped; the messages sent to the server; the packets that were freed;
  the datagrams given to lwIP, and the buffers that refer to them.
\<close>

record udp_env =
  ue_pcb :: addr
  ue_hooked :: bool
  ue_locked :: bool
  ue_accepted :: "(HevSocks5Addr \<times> pbufs) list"
  ue_dropped :: "pbufs list"
  ue_sent :: "HevSocks5UDPMsg list"
  ue_freed :: "pbufs list"
  ue_given :: "(ip_addr \<times> u16 \<times> u8 list) list"
  ue_refs :: int
  ue_fault :: bool

text \<open>The mapped DNS answers whatever address is looked up (\<open>dns_serves_ready\<close>).\<close>

definition dns_serves :: "HevMappedDNS option \<Rightarrow> bool" where
  "dns_serves dns \<longleftrightarrow> (\<forall>junk ip port. length junk = addr_size \<longrightarrow> hev_socks5_addr_from_lwip dns junk ip port \<noteq> None)"

text \<open>
  What other tasks may do while the session waits: a datagram arrives, or the end of the connection,
  or the session is terminated. The allocator returns a block that is not in use, or none.
\<close>

inductive udp_event :: "HevSocks5SessionUDP \<times> udp_env \<Rightarrow> HevSocks5SessionUDP \<times> udp_env \<Rightarrow> bool" where
  recv_udp: "ue_pcb w \<noteq> NULL \<Longrightarrow> ue_hooked w \<Longrightarrow> dns_serves dns \<Longrightarrow> length junk = addr_size \<Longrightarrow> ps \<noteq> [] \<Longrightarrow>
    su_heap self blk = None \<Longrightarrow> udp_recv_handler dns self blk junk (Some ps) ip port = Some (dns', self', False) \<Longrightarrow>
    udp_event (self, w) (self', w\<lparr>ue_accepted := ue_accepted w @ [(fst (the (su_frame self' blk)), ps)]\<rparr>)"
| drop_udp: "ue_pcb w \<noteq> NULL \<Longrightarrow> ue_hooked w \<Longrightarrow> dns_serves dns \<Longrightarrow> length junk = addr_size \<Longrightarrow> ps \<noteq> [] \<Longrightarrow>
    su_heap self blk = None \<Longrightarrow> udp_recv_handler dns self blk junk (Some ps) ip port = Some (dns', self', True) \<Longrightarrow>
    udp_event (self, w) (self', w\<lparr>ue_dropped := ue_dropped w @ [ps]\<rparr>)"
| recv_fault: "ue_pcb w \<noteq> NULL \<Longrightarrow> ue_hooked w \<Longrightarrow> dns_serves dns \<Longrightarrow> length junk = addr_size \<Longrightarrow> ps \<noteq> [] \<Longrightarrow>
    su_heap self blk = None \<Longrightarrow> udp_recv_handler dns self blk junk (Some ps) ip port = None \<Longrightarrow>
    udp_event (self, w) (self, w\<lparr>ue_fault := True\<rparr>)"
| closed: "ue_pcb w \<noteq> NULL \<Longrightarrow> ue_hooked w \<Longrightarrow> udp_recv_handler dns self blk junk None ip port = Some (dns', self', b) \<Longrightarrow>
    udp_event (self, w) (self', w)"
| stopped: "udp_event (self, w) (udp_session_terminate self, w)"

definition can_udp :: "addr \<Rightarrow> udp_env \<Rightarrow> bool" where
  "can_udp pcb w \<longleftrightarrow> ue_locked w \<and> pcb = ue_pcb w \<and> pcb \<noteq> NULL"

inductive udp_step ::
  "'a udp \<Rightarrow> world \<Rightarrow> udp_env \<Rightarrow> 'a udp \<Rightarrow> world \<Rightarrow> udp_env \<Rightarrow> bool" where
  send_io: "io_step p os p' os' \<Longrightarrow> udp_step (Send_Msgs p ms self k) os w (Send_Msgs p' ms self k) os' w"
| send_ret: "udp_step (Send_Msgs (Ret r) ms self k) os w (k (self, r)) os (w\<lparr>ue_sent := ue_sent w @ take (nat (fst r)) ms\<rparr>)"
| receive_io: "io_step p2 os p2' os' \<Longrightarrow> udp_step (Receive_Msgs p2 self k2) os w (Receive_Msgs p2' self k2) os' w"
| receive_ret: "udp_step (Receive_Msgs (Ret r2) self k2) os w (k2 (self, r2)) os w"
| pause_io: "io_step p3 os p3' os' \<Longrightarrow> udp_step (Pause p3 self k3) os w (Pause p3' self k3) os' w"
| pause_ret: "udp_step (Pause (Ret r3) self k3) os w (k3 (self, r3)) os w"
| run_io: "io_step p4 os p4' os' \<Longrightarrow> udp_step (Run p4 k4) os w (Run p4' k4) os' w"
| run_ret: "udp_step (Run (Ret ()) k4) os w k4 os w"
| probe: "fd \<in> w_fds os \<Longrightarrow> rx_ok 1 r5 \<Longrightarrow> udp_step (Probe fd k5) os w (k5 r5) os w"
| acquire: "\<not> ue_locked w \<Longrightarrow> udp_step (Acquire k4) os w k4 os (w\<lparr>ue_locked := True\<rparr>)"
| release: "ue_locked w \<Longrightarrow> udp_step (Release k4) os w k4 os (w\<lparr>ue_locked := False\<rparr>)"
| udp_sendfrom: "can_udp pcb w \<Longrightarrow> 0 < ue_refs w \<Longrightarrow> udp_step (Udp_Sendfrom pcb bs ip port k6) os w (k6 e) os
    (w\<lparr>ue_given := ue_given w @ (if e = ERR_OK then [(ip, port, bs)] else [])\<rparr>)"
| udp_unhook: "can_udp pcb w \<Longrightarrow> udp_step (Udp_Unhook pcb k4) os w k4 os (w\<lparr>ue_hooked := False\<rparr>)"
| udp_remove: "can_udp pcb w \<Longrightarrow> \<not> ue_hooked w \<Longrightarrow> udp_step (Udp_Remove pcb k4) os w k4 os (w\<lparr>ue_pcb := NULL\<rparr>)"
| ref_alloc: "udp_step (Ref_Alloc k7) os w (k7 b) os (w\<lparr>ue_refs := ue_refs w + (if b then 1 else 0)\<rparr>)"
| ref_free: "0 < ue_refs w \<Longrightarrow> udp_step (Ref_Free k4) os w k4 os (w\<lparr>ue_refs := ue_refs w - 1\<rparr>)"
| frame_free: "udp_step (Frame_Free ps k4) os w k4 os (w\<lparr>ue_freed := ue_freed w @ [ps]\<rparr>)"
| touch: "udp_step (Touch node k4) os w k4 os w"

text \<open>Between the steps of the task, whenever it may wait, the steps of the others.\<close>

inductive udp_others :: "'a udp \<Rightarrow> udp_env \<Rightarrow> 'a udp \<Rightarrow> udp_env \<Rightarrow> bool" where
  send_others: "\<not> ue_locked w \<Longrightarrow> udp_event (self, w) (self', w') \<Longrightarrow>
    udp_others (Send_Msgs p ms self k) w (Send_Msgs p ms self' k) w'"
| receive_others: "\<not> ue_locked w \<Longrightarrow> udp_event (self, w) (self', w') \<Longrightarrow>
    udp_others (Receive_Msgs p2 self k2) w (Receive_Msgs p2 self' k2) w'"
| pause_others: "\<not> ue_locked w \<Longrightarrow> udp_event (self, w) (self', w') \<Longrightarrow> udp_others (Pause p3 self k3) w (Pause p3 self' k3) w'"

inductive udp_steps :: "'a udp \<Rightarrow> world \<Rightarrow> udp_env \<Rightarrow> 'a udp \<Rightarrow> world \<Rightarrow> udp_env \<Rightarrow> bool" where
  udp_refl: "udp_steps p os w p os w"
| udp_more: "udp_step p os w p1 os1 w1 \<Longrightarrow> udp_steps p1 os1 w1 p2 os2 w2 \<Longrightarrow> udp_steps p os w p2 os2 w2"
| udp_more_others: "udp_others p w p1 w1 \<Longrightarrow> udp_steps p1 os w1 p2 os2 w2 \<Longrightarrow> udp_steps p os w p2 os2 w2"

inductive_simps udp_step_simps:
  "udp_step (Return x) os w p' os' w'" "udp_step Broken os w p' os' w'" "udp_step Bad_Address os w p' os' w'"
  "udp_step (Send_Msgs p ms self k) os w p' os' w'" "udp_step (Receive_Msgs p2 self k2) os w p' os' w'"
  "udp_step (Pause p3 self k3) os w p' os' w'" "udp_step (Run p4 k4) os w p' os' w'" "udp_step (Probe fd k5) os w p' os' w'"
  "udp_step (Acquire k4) os w p' os' w'" "udp_step (Release k4) os w p' os' w'"
  "udp_step (Udp_Sendfrom pcb bs ip port k6) os w p' os' w'" "udp_step (Udp_Unhook pcb k4) os w p' os' w'"
  "udp_step (Udp_Remove pcb k4) os w p' os' w'" "udp_step (Ref_Alloc k7) os w p' os' w'" "udp_step (Ref_Free k4) os w p' os' w'"
  "udp_step (Frame_Free ps k4) os w p' os' w'" "udp_step (Touch node k4) os w p' os' w'"

text \<open>
  \<open>udp_ok N I Q p os w\<close>: no run of \<open>p\<close> is stuck (but at a \<open>Bad_Address\<close>, when \<open>N\<close>), \<open>I\<close> holds whenever other tasks
  may run, \<open>Q\<close> when it returns.
\<close>

definition during :: "(HevSocks5SessionUDP \<Rightarrow> udp_env \<Rightarrow> bool) \<Rightarrow> HevSocks5SessionUDP \<Rightarrow> udp_env \<Rightarrow>
    (HevSocks5SessionUDP \<Rightarrow> udp_env \<Rightarrow> bool) \<Rightarrow> bool" where
  "during I self w P \<longleftrightarrow> (\<forall>self' w'. udp_event\<^sup>*\<^sup>* (self, w) (self', w') \<longrightarrow> I self' w' \<and> \<not> ue_locked w' \<and> P self' w')"

primrec udp_ok :: "bool \<Rightarrow> (HevSocks5SessionUDP \<Rightarrow> udp_env \<Rightarrow> bool) \<Rightarrow> ('a \<Rightarrow> world \<Rightarrow> udp_env \<Rightarrow> bool) \<Rightarrow> 'a udp \<Rightarrow> world \<Rightarrow> udp_env \<Rightarrow> bool" where
  "udp_ok N I Q (Return x) os w \<longleftrightarrow> Q x os w"
| "udp_ok N I Q Broken os w \<longleftrightarrow> False"
| "udp_ok N I Q Bad_Address os w \<longleftrightarrow> N"
| "udp_ok N I Q (Send_Msgs p ms self k) os w \<longleftrightarrow> during I self w (\<lambda>self' w'. io_ok (\<lambda>r os'.
     udp_ok N I Q (k (self', r)) os' (w'\<lparr>ue_sent := ue_sent w' @ take (nat (fst r)) ms\<rparr>)) p os)"
| "udp_ok N I Q (Receive_Msgs p self k) os w \<longleftrightarrow> during I self w (\<lambda>self' w'. io_ok (\<lambda>r os'. udp_ok N I Q (k (self', r)) os' w') p os)"
| "udp_ok N I Q (Pause p self k) os w \<longleftrightarrow> during I self w (\<lambda>self' w'. io_ok (\<lambda>r os'. udp_ok N I Q (k (self', r)) os' w') p os)"
| "udp_ok N I Q (Run p k) os w \<longleftrightarrow> io_ok (\<lambda>r os'. udp_ok N I Q k os' w) p os"
| "udp_ok N I Q (Probe fd k) os w \<longleftrightarrow> fd \<in> w_fds os \<and> (\<forall>r. rx_ok 1 r \<longrightarrow> udp_ok N I Q (k r) os w)"
| "udp_ok N I Q (Acquire k) os w \<longleftrightarrow> \<not> ue_locked w \<and> udp_ok N I Q k os (w\<lparr>ue_locked := True\<rparr>)"
| "udp_ok N I Q (Release k) os w \<longleftrightarrow> ue_locked w \<and> udp_ok N I Q k os (w\<lparr>ue_locked := False\<rparr>)"
| "udp_ok N I Q (Udp_Sendfrom pcb bs ip port k) os w \<longleftrightarrow> can_udp pcb w \<and> 0 < ue_refs w \<and>
     (\<forall>e. udp_ok N I Q (k e) os (w\<lparr>ue_given := ue_given w @ (if e = ERR_OK then [(ip, port, bs)] else [])\<rparr>))"
| "udp_ok N I Q (Udp_Unhook pcb k) os w \<longleftrightarrow> can_udp pcb w \<and> udp_ok N I Q k os (w\<lparr>ue_hooked := False\<rparr>)"
| "udp_ok N I Q (Udp_Remove pcb k) os w \<longleftrightarrow> can_udp pcb w \<and> \<not> ue_hooked w \<and> udp_ok N I Q k os (w\<lparr>ue_pcb := NULL\<rparr>)"
| "udp_ok N I Q (Ref_Alloc k) os w \<longleftrightarrow> (\<forall>b. udp_ok N I Q (k b) os (w\<lparr>ue_refs := ue_refs w + (if b then 1 else 0)\<rparr>))"
| "udp_ok N I Q (Ref_Free k) os w \<longleftrightarrow> 0 < ue_refs w \<and> udp_ok N I Q k os (w\<lparr>ue_refs := ue_refs w - 1\<rparr>)"
| "udp_ok N I Q (Frame_Free ps k) os w \<longleftrightarrow> udp_ok N I Q k os (w\<lparr>ue_freed := ue_freed w @ [ps]\<rparr>)"
| "udp_ok N I Q (Touch node k) os w \<longleftrightarrow> udp_ok N I Q k os w"

lemma udp_ok_bind [simp]: "udp_ok N I Q (udp_bind p c) os w \<longleftrightarrow> udp_ok N I (\<lambda>x. udp_ok N I Q (c x)) p os w"
  by (induction p arbitrary: os w) simp_all

lemma during_mono: "during I self w P \<Longrightarrow> (\<And>self' w'. P self' w' \<Longrightarrow> P' self' w') \<Longrightarrow> during I self w P'"
  by (auto simp: during_def)

lemma during_event: "during I self w P \<Longrightarrow> udp_event (self, w) (self', w') \<Longrightarrow> during I self' w' P"
  by (auto simp: during_def intro: converse_rtranclp_into_rtranclp)

lemma during_now: "during I self w P \<Longrightarrow> I self w \<and> \<not> ue_locked w \<and> P self w"
  by (auto simp: during_def)

lemma udp_ok_mono: "udp_ok N I P p os w \<Longrightarrow> (\<And>x os' w'. P x os' w' \<Longrightarrow> Q x os' w') \<Longrightarrow> udp_ok N I Q p os w"
proof (induction p arbitrary: os w)
  case (Send_Msgs p ms self k)
  then show ?case by (auto elim!: during_mono io_ok_mono)
next
  case (Receive_Msgs p self k)
  then show ?case by (auto elim!: during_mono io_ok_mono)
next
  case (Pause p self k)
  then show ?case by (auto elim!: during_mono io_ok_mono)
next
  case (Run p k)
  then show ?case by (auto elim!: io_ok_mono)
qed fastforce+

lemma io_ok_stepD: "io_ok Q p w \<Longrightarrow> io_step p w p' w' \<Longrightarrow> io_ok Q p' w'"
  by (auto elim: io_ok.cases simp: io_step_simps)

lemma io_ok_progress: "io_ok Q p w \<Longrightarrow> (\<exists>x. p = Ret x) \<or> (\<exists>p' w'. io_step p w p' w')"
  by (auto elim: io_ok.cases)

lemma during_progress:
  "during I self w (\<lambda>self' w'. io_ok (R self' w') p os) \<Longrightarrow> (\<exists>x. p = Ret x) \<or> (\<exists>p' os'. io_step p os p' os')"
  by (drule during_now) (elim conjE, erule io_ok_progress)

lemma udp_ok_step: "udp_step p os w p' os' w' \<Longrightarrow> udp_ok N I Q p os w \<Longrightarrow> udp_ok N I Q p' os' w'"
proof (induction rule: udp_step.induct)
  case (send_io p os p' os' ms self k w)
  then show ?case by (auto elim!: during_mono dest: io_ok_stepD)
next
  case (receive_io p os p' os' self k w)
  then show ?case by (auto elim!: during_mono dest: io_ok_stepD)
next
  case (pause_io p os p' os' self k w)
  then show ?case by (auto elim!: during_mono dest: io_ok_stepD)
next
  case (run_io p os p' os' k w)
  then show ?case by (auto dest: io_ok_stepD)
qed (auto dest: during_now)

lemma udp_ok_others: "udp_others p w p' w' \<Longrightarrow> udp_ok N I Q p os w \<Longrightarrow> udp_ok N I Q p' os w'"
  by (induction rule: udp_others.induct) (auto dest: during_event)

lemma udp_ok_steps: "udp_steps p os w p' os' w' \<Longrightarrow> udp_ok N I Q p os w \<Longrightarrow> udp_ok N I Q p' os' w'"
  by (induction rule: udp_steps.induct) (auto dest: udp_ok_step udp_ok_others)

lemma udp_ok_progress:
  assumes "udp_ok N I Q p os w"
  shows "(\<exists>x. p = Return x \<and> Q x os w) \<or> (N \<and> p = Bad_Address) \<or> (\<exists>p' os' w'. udp_step p os w p' os' w')"
  using assms
proof (cases p)
  case (Send_Msgs q ms self k)
  have "(\<exists>x. q = Ret x) \<or> (\<exists>q' os'. io_step q os q' os')" using assms unfolding Send_Msgs udp_ok.simps by (rule during_progress)
  with Send_Msgs show ?thesis by (metis udp_step.send_io udp_step.send_ret)
next
  case (Receive_Msgs q self k)
  have "(\<exists>x. q = Ret x) \<or> (\<exists>q' os'. io_step q os q' os')" using assms unfolding Receive_Msgs udp_ok.simps by (rule during_progress)
  with Receive_Msgs show ?thesis by (metis udp_step.receive_io udp_step.receive_ret)
next
  case (Pause q self k)
  have "(\<exists>x. q = Ret x) \<or> (\<exists>q' os'. io_step q os q' os')" using assms unfolding Pause udp_ok.simps by (rule during_progress)
  with Pause show ?thesis by (metis udp_step.pause_io udp_step.pause_ret)
next
  case (Run q k)
  have "(\<exists>x. q = Ret x) \<or> (\<exists>q' os'. io_step q os q' os')" using assms unfolding Run udp_ok.simps by (rule io_ok_progress)
  with Run show ?thesis by (metis (full_types) udp_step.run_io udp_step.run_ret unit.exhaust)
next
  case (Probe fd k)
  with assms rx_ok_exists(1) [of 1] show ?thesis by (auto simp: udp_step_simps)
qed (auto simp: udp_step_simps)

section \<open>The queue\<close>

text \<open>
  The frames in the list are those on the heap, \<open>frames\<close> counts them, and there are at most 513; the
  accepted packets are the freed ones and then the queued ones. \<open>S\<close> are the frames that were sent.
\<close>

definition queue_at ::
  "HevSocks5SessionUDP \<Rightarrow> udp_env \<Rightarrow> addr list \<Rightarrow> (HevSocks5Addr \<times> pbufs) list \<Rightarrow> (HevSocks5Addr \<times> pbufs) list \<Rightarrow> bool" where
  "queue_at self w ns F S \<longleftrightarrow>
     list_rep (su_frame_list self) (su_heap self) ns \<and> dom (su_heap self) = set ns \<and> dom (su_frame self) = set ns \<and>
     su_frames self = int (length ns) \<and> length ns \<le> 513 \<and> (\<forall>n \<in> set ns. snd (the (su_frame self n)) \<noteq> []) \<and>
     ue_accepted w = F @ map (\<lambda>n. the (su_frame self n)) ns \<and> ue_sent w = map frame_msg S \<and> ue_freed w = map snd F"

definition attached :: "HevSocks5Client \<Rightarrow> HevSocks5SessionUDP \<Rightarrow> udp_env \<Rightarrow> bool" where
  "attached b self w \<longleftrightarrow> cl_same b (su_base self) \<and> su_pcb self = ue_pcb w \<and> ue_pcb w \<noteq> NULL \<and> ue_hooked w \<and>
     \<not> ue_locked w \<and> ue_refs w = 0 \<and> \<not> ue_fault w"

definition udp_inv :: "HevSocks5Client \<Rightarrow> HevSocks5SessionUDP \<Rightarrow> udp_env \<Rightarrow> bool" where
  "udp_inv b self w \<longleftrightarrow> attached b self w \<and> (\<exists>ns F. queue_at self w ns F F)"

lemma queue_fresh: "queue_at self w ns F S \<Longrightarrow> su_heap self n = None \<Longrightarrow> n \<notin> set ns"
  unfolding queue_at_def by blast

lemma dns_serves_ready:
  assumes "dns_ready d xs" and "\<forall>(name, i) \<in> set (dns_abs d xs). is_cstring name \<and> length name \<le> 255"
  shows "dns_serves (Some d)"
  unfolding dns_serves_def
proof (intro allI impI)
  fix junk :: HevSocks5Addr and ip port
  assume junk: "length junk = addr_size"
  show "hev_socks5_addr_from_lwip (Some d) junk ip port \<noteq> None"
  proof (cases ip)
    case (IPADDR_TYPE_V4 b)
    obtain d' xs' r where l: "hev_mapped_dns_lookup d (ntohl (load32 b)) = Some (d', r)"
      "(dns_abs d' xs', r) = lru_lookup (unat (ntohl (load32 b) AND NOT (dns_mask d))) (dns_abs d xs)"
      using dns_lookup_inv [of d xs "ntohl (load32 b)"] assms(1) by (auto simp: dns_ready_def)
    have "hev_socks5_addr_from_name junk name (htons port) \<noteq> None" if "r = Some name" for name
    proof -
      from l(2) that obtain i where "(name, i) \<in> set (dns_abs d xs)"
        by (auto simp: lru_lookup_def split: option.splits dest: find_SomeD)
      with assms(2) have "is_cstring name" "length name \<le> 255" by auto
      from addr_from_name [OF junk this] show ?thesis by (metis option.discI)
    qed
    with l show ?thesis by (cases r) (auto simp: hev_socks5_addr_from_lwip_def IPADDR_TYPE_V4 split: option.split)
  qed (simp_all add: hev_socks5_addr_from_lwip_def)
qed

lemma udp_invI: "attached b self w \<Longrightarrow> queue_at self w ns F F \<Longrightarrow> udp_inv b self w"
  by (auto simp: udp_inv_def)

lemma handler_accepts:
  assumes q: "queue_at self w ns F S" and blk: "blk \<noteq> NULL" "su_heap self blk = None" and n: "su_frames self \<le> UDP_POOL_SIZE"
    and a: "hev_socks5_addr_from_lwip dns junk ip port = Some (dns', addr, res)" and ps: "ps \<noteq> []"
  obtains self' where "udp_recv_handler dns self blk junk (Some ps) ip port = Some (dns', self', False)"
    "su_frame self' = (su_frame self)(blk \<mapsto> (addr, ps))" "su_base self' = su_base self" "su_pcb self' = su_pcb self"
    "queue_at self' (w\<lparr>ue_accepted := ue_accepted w @ [(addr, ps)]\<rparr>) (ns @ [blk]) F S"
proof -
  let ?h = "(su_heap self)(blk \<mapsto> \<lparr>ln_next = NULL, ln_prev = NULL\<rparr>)"
  have ns: "blk \<notin> set ns" using q blk(2) by (rule queue_fresh)
  have rep: "list_rep (su_frame_list self) ?h ns" using q ns by (auto simp: queue_at_def list_rep_def)
  obtain l h where add: "hev_list_add_tail (su_frame_list self) ?h blk = Some (l, h)" "list_rep l h (ns @ [blk])" "dom h = dom ?h"
    using hl.add_tail_rep [OF rep blk(1) _ ns] by auto
  define self1 where "self1 = (if addr_atype addr = HEV_SOCKS5_ADDR_TYPE_NAME
    then self\<lparr>su_addr := ip_2_ip4 ip, su_port := uint port\<rparr> else self)"
  have s1: "su_frame_list self1 = su_frame_list self" "su_heap self1 = su_heap self" "su_frame self1 = su_frame self"
    "su_frames self1 = su_frames self" "su_base self1 = su_base self" "su_pcb self1 = su_pcb self"
    by (simp_all add: self1_def)
  have "udp_recv_handler dns self blk junk (Some ps) ip port = Some (dns', self1\<lparr>su_frames := su_frames self1 + 1,
      su_frame_list := l, su_heap := h, su_frame := (su_frame self1)(blk \<mapsto> (addr, ps))\<rparr>, False)"
    using n blk(1) a add(1) by (simp add: udp_recv_handler_def self1_def)
  then show thesis
    by (rule that) (use q add ns n ps in \<open>auto simp: queue_at_def s1 UDP_POOL_SIZE_def\<close>)
qed

text \<open>What other tasks do to the queue: it grows at its end.\<close>

definition grown :: "HevSocks5Client \<Rightarrow> HevSocks5SessionUDP \<Rightarrow> addr list \<Rightarrow> (HevSocks5Addr \<times> pbufs) list \<Rightarrow>
    HevSocks5SessionUDP \<Rightarrow> udp_env \<Rightarrow> bool" where
  "grown b self0 ns F self w \<longleftrightarrow> attached b self w \<and>
     (\<exists>more. queue_at self w (ns @ more) F F) \<and> (\<forall>n \<in> set ns. su_frame self n = su_frame self0 n)"

lemma terminate_keeps [simp]:
  "queue_at (udp_session_terminate self) w ns F S \<longleftrightarrow> queue_at self w ns F S"
  "attached b (udp_session_terminate self) w \<longleftrightarrow> attached b self w"
  "su_frame (udp_session_terminate self) = su_frame self"
  by (simp_all add: queue_at_def attached_def udp_session_terminate_def session_terminate_def hev_socks5_set_timeout_def cl_same_def)

lemma event_grows:
  assumes "udp_event (self, w) (self', w')" and g: "grown b self0 ns F self w"
  shows "grown b self0 ns F self' w'"
  using assms(1)
proof cases
  case (recv_udp dns junk ps blk ip port dns')
  from g obtain more where q: "queue_at self w (ns @ more) F F" and at: "attached b self w" by (auto simp: grown_def)
  from recv_udp have n: "blk \<noteq> NULL" "su_frames self \<le> UDP_POOL_SIZE"
    by (auto simp: udp_recv_handler_def split: if_splits)
  from recv_udp obtain d addr res where a: "hev_socks5_addr_from_lwip dns junk ip port = Some (d, addr, res)"
    unfolding dns_serves_def by force
  obtain self1 where s: "udp_recv_handler dns self blk junk (Some ps) ip port = Some (d, self1, False)"
    "su_frame self1 = (su_frame self)(blk \<mapsto> (addr, ps))" "su_base self1 = su_base self" "su_pcb self1 = su_pcb self"
    "queue_at self1 (w\<lparr>ue_accepted := ue_accepted w @ [(addr, ps)]\<rparr>) ((ns @ more) @ [blk]) F F"
    by (rule handler_accepts [OF q n(1) recv_udp(7) n(2) a recv_udp(6)])
  have "blk \<notin> set ns" using queue_fresh [OF q recv_udp(7)] by simp
  with s recv_udp g at show ?thesis by (auto simp: grown_def attached_def)
next
  case (drop_udp dns junk ps blk ip port dns')
  then have "self' = self" by (auto simp: udp_recv_handler_def Let_def Option.bind_eq_Some_conv split: if_splits prod.splits)
  with drop_udp g show ?thesis by (auto simp: grown_def attached_def queue_at_def)
next
  case (recv_fault dns junk ps blk ip port)
  from g obtain more where q: "queue_at self w (ns @ more) F F" by (auto simp: grown_def)
  from recv_fault have n: "blk \<noteq> NULL" "su_frames self \<le> UDP_POOL_SIZE"
    by (auto simp: udp_recv_handler_def split: if_splits)
  from recv_fault obtain d addr res where a: "hev_socks5_addr_from_lwip dns junk ip port = Some (d, addr, res)"
    unfolding dns_serves_def by force
  have False
    by (rule handler_accepts [OF q n(1) recv_fault(8) n(2) a recv_fault(7)]) (use recv_fault in simp)
  then show ?thesis ..
next
  case (closed dns blk junk ip port dns' b)
  then show ?thesis using g by (auto simp: udp_recv_handler_def grown_def)
next
  case stopped
  then show ?thesis using g by (auto simp: grown_def)
qed

lemma events_grow: "udp_event\<^sup>*\<^sup>* (self, w) (self', w') \<Longrightarrow> grown b self0 ns F self w \<Longrightarrow> grown b self0 ns F self' w'"
  by (induction rule: rtranclp_induct2) (auto intro: event_grows)

lemma grown_inv: "grown b self0 ns F self w \<Longrightarrow> udp_inv b self w"
  by (auto simp: grown_def udp_inv_def)

lemma duringI:
  assumes "attached b self w" and "queue_at self w ns F F"
    and "\<And>self' w'. grown b self ns F self' w' \<Longrightarrow> P self' w'"
  shows "during (udp_inv b) self w P"
proof -
  have "grown b self ns F self w"
    using assms(1,2) unfolding grown_def by (auto intro: exI [of _ "[]"])
  from events_grow [OF _ this] have g: "grown b self ns F self' w'" if "udp_event\<^sup>*\<^sup>* (self, w) (self', w')" for self' w'
    using that by simp
  have "udp_inv b self' w' \<and> \<not> ue_locked w' \<and> P self' w'" if "grown b self ns F self' w'" for self' w'
    using grown_inv [OF that] assms(3) [OF that] that by (simp add: grown_def attached_def)
  with g show ?thesis unfolding during_def by blast
qed

section \<open>The splicer keeps the queue\<close>

lemma frame_msgs_list:
  "list_rep (su_frame_list self) (su_heap self) (xs @ ns) \<Longrightarrow> \<forall>x \<in> set ns. su_frame self x \<noteq> None \<and> snd (the (su_frame self x)) \<noteq> [] \<Longrightarrow>
   n \<le> length ns \<Longrightarrow>
   frame_msgs n (first_ptr ns NULL) self = Some (map (\<lambda>x. frame_msg (the (su_frame self x))) (take n ns))"
proof (induction n arbitrary: xs ns)
  case (Suc n)
  then obtain x ys where ns: "ns = x # ys" by (cases ns) auto
  from Suc.prems have "hev_list_node_next (su_heap self) x = Some (first_ptr ys NULL)"
    unfolding ns by (intro list_rep_next) simp
  with Suc.IH [of "xs @ [x]" ys] Suc.prems ns show ?case by auto
qed simp

lemma queue_frames:
  "queue_at self w ns F S \<Longrightarrow> x \<in> set ns \<Longrightarrow> su_frame self x \<noteq> None \<and> snd (the (su_frame self x)) \<noteq> []"
  unfolding queue_at_def by blast

lemma queue_msgs:
  assumes "queue_at self w ns F S" and "n \<le> length ns"
  shows "frame_msgs n (hev_list_first (su_frame_list self)) self = Some (map (\<lambda>x. frame_msg (the (su_frame self x))) (take n ns))"
proof -
  have rep: "list_rep (su_frame_list self) (su_heap self) ns" using assms(1) by (simp add: queue_at_def)
  then have "hev_list_first (su_frame_list self) = first_ptr ns NULL" by (simp add: list_rep_def hev_list_first_def)
  with frame_msgs_list [of self "[]" ns n] rep queue_frames [OF assms(1)] assms(2) show ?thesis by simp
qed

lemma release_ok:
  assumes "queue_at self w ns F S" and "n \<le> length ns" and "attached b self w"
    and "\<And>self' w'. queue_at self' w' (drop n ns) (F @ map (\<lambda>x. the (su_frame self x)) (take n ns)) S \<Longrightarrow> attached b self' w' \<Longrightarrow> P self' os w'"
  shows "udp_ok N I P (release_frames n self) os w"
  using assms
proof (induction n arbitrary: self w ns F)
  case 0
  then show ?case by simp
next
  case (Suc n)
  then obtain x xs where ns: "ns = x # xs" by (cases ns) auto
  have rep: "list_rep (su_frame_list self) (su_heap self) ([] @ x # xs)" using Suc.prems(1) by (simp add: queue_at_def ns)
  then have first: "hev_list_first (su_frame_list self) = x" and x: "x \<notin> set xs" by (simp_all add: list_rep_def hev_list_first_def)
  obtain addr buf where fr: "su_frame self x = Some (addr, buf)" using queue_frames [OF Suc.prems(1), of x] ns by auto
  obtain l h where del: "hev_list_del (su_frame_list self) (su_heap self) x = Some (l, h)" "list_rep l h ([] @ xs)" "dom h = dom (su_heap self)"
    using hl.del_rep [OF rep] by auto
  let ?self = "self\<lparr>su_frame_list := l, su_heap := h(x := None), su_frame := (su_frame self)(x := None), su_frames := su_frames self - 1\<rparr>"
  let ?w = "w\<lparr>ue_freed := ue_freed w @ [buf]\<rparr>"
  have same: "map (\<lambda>y. the (((su_frame self)(x := None)) y)) ys = map (\<lambda>y. the (su_frame self y)) ys" if "set ys \<subseteq> set xs" for ys
    using x that by (auto simp: subset_iff)
  have "queue_at ?self ?w xs (F @ [(addr, buf)]) S"
    using Suc.prems(1) del x fr same [of xs] unfolding queue_at_def ns by (auto simp: list_rep_def dom_def)
  moreover have "attached b ?self ?w" using Suc.prems(3) by (simp add: attached_def)
  moreover have "F @ map (\<lambda>x. the (su_frame self x)) (take (Suc n) ns) =
      (F @ [(addr, buf)]) @ map (\<lambda>y. the (su_frame ?self y)) (take n xs)"
    using same [of "take n xs"] fr ns set_take_subset [of n xs] by simp
  ultimately have "udp_ok N I P (release_frames n ?self) os ?w"
    using Suc.prems(2,4) ns by (intro Suc.IH) (simp_all only: drop_Suc_Cons length_Cons Suc_le_mono)
  with first fr del show ?case by (simp add: Let_def)
qed

lemma same_fd: "cl_same b c \<Longrightarrow> hev_socks5_client_udp_get_fd c = hev_socks5_client_udp_get_fd b"
  by (simp add: cl_same_def hev_socks5_client_udp_get_fd_def)

lemma those_length: "those xs = Some ys \<Longrightarrow> length ys = length xs"
  by (induction xs arbitrary: ys) (auto split: option.splits)

lemma sendmmsg_count_ok:
  "fd \<in> w_fds w \<Longrightarrow> (\<And>r again. r \<le> int (length msgv) \<Longrightarrow> Q (r, again) w) \<Longrightarrow> io_ok Q (hev_socks5_udp_sendmmsg self fd again msgv) w"
  by (auto simp: hev_socks5_udp_sendmmsg_def hev_socks5_udp_sendmmsg_tcp_def hev_socks5_udp_sendmmsg_udp_def io_rules dest: those_length
      split: HevSocks5Type.splits option.splits)

lemma queue_send:
  "queue_at self w ns F F \<Longrightarrow> queue_at self (w\<lparr>ue_sent := ue_sent w @ map frame_msg S\<rparr>) ns F (F @ S)"
  by (simp add: queue_at_def)

lemma fwd_f_keeps:
  assumes inv: "udp_inv b self w" and fd: "hev_socks5_client_udp_get_fd b \<in> w_fds os"
    and P: "\<And>self' w' r. udp_inv b self' w' \<Longrightarrow> P (self', r) os w'"
  shows "udp_ok True (udp_inv b) P (hev_socks5_session_udp_fwd_f self again num) os w"
proof (cases "su_frames self \<le> 0")
  case True
  with inv P show ?thesis by (simp add: hev_socks5_session_udp_fwd_f_def)
next
  case False
  from inv obtain ns F where at: "attached b self w" and q: "queue_at self w ns F F" by (auto simp: udp_inv_def)
  define res where "res = (if su_frames self > int num then num else nat (su_frames self))"
  define ms where "ms = map (\<lambda>x. frame_msg (the (su_frame self x))) (take res ns)"
  have n: "su_frames self = int (length ns)" and res: "res \<le> length ns" using q by (auto simp: queue_at_def res_def)
  have len: "length ms = res" using res by (simp add: ms_def)
  have msgs: "frame_msgs res (hev_list_first (su_frame_list self)) self = Some ms"
    unfolding ms_def by (rule queue_msgs [OF q res])
  have get_fd: "hev_socks5_client_udp_get_fd (su_base self) = hev_socks5_client_udp_get_fd b" using at by (simp add: attached_def same_fd)
  have after: "udp_ok True (udp_inv b) P (if r \<le> 0 then Return (self', again', -1)
        else udp_bind (release_frames (nat r) self') (\<lambda>self. Return (self, again', 1))) os (w'\<lparr>ue_sent := ue_sent w' @ take (nat r) ms\<rparr>)"
    if g: "grown b self ns F self' w'" and r: "r \<le> int (length ms)" for self' w' r again'
  proof -
    from g obtain more where at': "attached b self' w'" and q': "queue_at self' w' (ns @ more) F F"
      and same: "\<forall>n \<in> set ns. su_frame self' n = su_frame self n" by (auto simp: grown_def)
    let ?S = "map (\<lambda>x. the (su_frame self' x)) (take (nat r) (ns @ more))"
    have nr: "nat r \<le> res" using r len by simp
    have "set (take (nat r) ns) \<subseteq> set ns" by (rule set_take_subset)
    then have "take (nat r) ms = map frame_msg ?S"
      using same nr res unfolding ms_def by (auto simp: take_map min_absorb1)
    then have q'': "queue_at self' (w'\<lparr>ue_sent := ue_sent w' @ take (nat r) ms\<rparr>) (ns @ more) F (F @ ?S)"
      using queue_send [OF q', of ?S] by (simp only:)
    have at'': "attached b self' (w'\<lparr>ue_sent := x\<rparr>)" for x using at' by (simp add: attached_def)
    show ?thesis
    proof (cases "r \<le> 0")
      case True
      then have "udp_inv b self' (w'\<lparr>ue_sent := ue_sent w' @ take (nat r) ms\<rparr>)"
        using q' at' unfolding udp_inv_def by auto
      with True P show ?thesis by simp
    next
      case False
      show ?thesis using False nr res
        by (auto intro!: release_ok [OF q'' _ at''] P udp_invI)
    qed
  qed
  have "udp_ok True (udp_inv b) P (Send_Msgs (hev_socks5_udp_sendmmsg (su_s5 self) (hev_socks5_client_udp_get_fd b) again ms) ms self
      (\<lambda>(self, res, again). if res \<le> 0 then Return (self, again, -1)
         else udp_bind (release_frames (nat res) self) (\<lambda>self. Return (self, again, 1)))) os w"
    unfolding udp_ok.simps
    by (rule duringI [OF at q], rule sendmmsg_count_ok [OF fd]) (simp only: prod.case fst_conv, rule after)
  then show ?thesis using False msgs get_fd by (simp only: hev_socks5_session_udp_fwd_f_def Let_def res_def [symmetric] if_False option.case)
qed

text \<open>What is given to lwIP takes the lock and one reference buffer for the time of the call.\<close>

lemma give_keeps [simp]:
  "queue_at self (w\<lparr>ue_given := x\<rparr>) ns F S \<longleftrightarrow> queue_at self w ns F S" "attached b self (w\<lparr>ue_given := x\<rparr>) \<longleftrightarrow> attached b self w"
  by (simp_all add: queue_at_def attached_def)

lemma give_inv: "udp_inv b self w \<Longrightarrow> udp_inv b self (w\<lparr>ue_given := x\<rparr>)"
  by (simp add: udp_inv_def)

lemma give_ok:
  assumes inv: "udp_inv b self w" and "\<And>w'. udp_inv b self w' \<Longrightarrow> Q (-1) os w'"
    and "\<And>w'. udp_inv b self w' \<Longrightarrow> udp_ok N I Q cont os w'"
  shows "udp_ok N I Q (udp_give self m ip port cont) os w"
proof -
  have w: "\<not> ue_locked w" "ue_refs w = 0" "su_pcb self = ue_pcb w" "ue_pcb w \<noteq> NULL"
    using inv by (auto simp: udp_inv_def attached_def)
  then have same: "w\<lparr>ue_refs := 0\<rparr> = w" "w\<lparr>ue_locked := False, ue_refs := 0\<rparr> = w"
    "w\<lparr>ue_given := x, ue_locked := False, ue_refs := 0\<rparr> = w\<lparr>ue_given := x\<rparr>" for x
    by (cases w, simp)+
  show ?thesis using assms(2) [OF inv] assms(2) [OF give_inv [OF inv]] assms(3) [OF give_inv [OF inv]] w
    by (auto simp: udp_give_def can_udp_def same)
qed

lemma give_all_ok:
  "udp_inv b self w \<Longrightarrow> (\<And>r w'. udp_inv b self w' \<Longrightarrow> Q r os w') \<Longrightarrow> udp_ok True I Q (udp_give_all self saddr ms n) os w"
proof (induction ms arbitrary: n w)
  case Nil
  then show ?case by (cases n) auto
next
  case (Cons m ms)
  show ?case
  proof (cases n)
    case (Suc k)
    have "udp_ok True I Q (udp_give self m ip port (udp_give_all self saddr ms k)) os w" for ip port
      by (rule give_ok [OF Cons.prems(1)]) (use Cons in auto)
    then show ?thesis using Cons.prems by (auto simp: Suc split: addr_of.split option.split)
  qed (use Cons.prems in simp)
qed

lemma recvmmsg_tcp_ok:
  "fd \<in> w_fds w \<Longrightarrow> (\<And>x. Q x w) \<Longrightarrow> io_ok Q (recvmmsg_tcp_loop fd fl done ms again) w"
proof (induction ms arbitrary: "done" again)
  case (Cons m ms)
  then show ?case by (auto simp: io_ok_bind recv_head_def io_rules Let_def)
qed simp

lemma recvmmsg_any_ok:
  "fd \<in> w_fds w \<Longrightarrow> (\<And>x. Q x w) \<Longrightarrow> io_ok Q (hev_socks5_udp_recvmmsg self fd again msgv nonblock) w"
  by (auto simp: hev_socks5_udp_recvmmsg_def hev_socks5_udp_recvmmsg_tcp_def io_ok_bind split: HevSocks5Type.split
      intro!: recvmmsg_tcp_ok recvmmsg_udp_ok)

lemma set_s5_keeps:
  "queue_at (su_set_s5 self x) w ns F S \<longleftrightarrow> queue_at self w ns F S"
  "s5_fd x = s5_fd (su_s5 self) \<Longrightarrow> s5_type x = s5_type (su_s5 self) \<Longrightarrow> attached b (su_set_s5 self x) w \<longleftrightarrow> attached b self w"
  by (simp_all add: queue_at_def attached_def su_set_s5_def cl_same_def)

lemma set_s5_inv: "udp_inv b self w \<Longrightarrow> s5_fd x = s5_fd (su_s5 self) \<Longrightarrow> s5_type x = s5_type (su_s5 self) \<Longrightarrow> udp_inv b (su_set_s5 self x) w"
  by (simp add: udp_inv_def set_s5_keeps)

lemma inv_during: "udp_inv b self w \<Longrightarrow> (\<And>self' w'. udp_inv b self' w' \<Longrightarrow> P self' w') \<Longrightarrow> during (udp_inv b) self w P"
  unfolding udp_inv_def [of b self] by (auto intro!: duringI dest: grown_inv)

lemma fwd_b_keeps:
  assumes inv: "udp_inv b self w" and fd: "hev_socks5_client_udp_get_fd b \<in> w_fds os"
    and P: "\<And>self' w' r. udp_inv b self' w' \<Longrightarrow> P (self', r) os w'"
  shows "udp_ok True (udp_inv b) P (hev_socks5_session_udp_fwd_b saddr mem self again) os w"
proof -
  have get_fd: "hev_socks5_client_udp_get_fd (su_base self) = hev_socks5_client_udp_get_fd b"
    using inv by (simp add: udp_inv_def attached_def same_fd)
  have assoc: "udp_inv b (su_set_s5 self' ((su_s5 self')\<lparr>s5_udp_associated := x\<rparr>)) w'" if "udp_inv b self' w'" for self' x w'
    by (rule set_s5_inv [OF that]) simp_all
  show ?thesis
    unfolding hev_socks5_session_udp_fwd_b_def udp_ok.simps get_fd
    by (rule inv_during [OF inv], rule recvmmsg_any_ok [OF fd]) (auto intro!: give_all_ok [OF assoc] P assoc simp: Let_def)
qed

lemma yielder_io_ok: "(\<And>r. Q r w) \<Longrightarrow> io_ok Q (hev_socks5_task_io_yielder type self) w"
  by (auto simp: hev_socks5_task_io_yielder_def io_rules)

lemma udp_yield_keeps:
  assumes inv: "udp_inv b self w" and fd: "s5_fd (cl_base b) \<in> w_fds os"
    and P: "\<And>self' w' r. udp_inv b self' w' \<Longrightarrow> P (self', r) os w'"
  shows "udp_ok True (udp_inv b) P (udp_task_io_yielder type self) os w"
proof -
  have s: "s5_fd (su_s5 self) = s5_fd (cl_base b)" using inv by (auto simp: udp_inv_def attached_def cl_same_def)
  have wait: "udp_ok True (udp_inv b) P (Pause (hev_socks5_task_io_yielder type (su_s5 self)) self
      (\<lambda>(self, res). Touch (hev_socks5_session_udp_get_node self) (Return (self, res)))) os w"
    by (auto intro!: inv_during [OF inv] yielder_io_ok P)
  have stop: "udp_inv b (su_set_s5 self (hev_socks5_set_timeout (su_s5 self) 0)) w"
    by (rule set_s5_inv [OF inv]) (simp_all add: hev_socks5_set_timeout_def)
  show ?thesis using wait fd P [OF stop] by (simp add: udp_task_io_yielder_def s Let_def)
qed

lemma udp_loop_keeps:
  assumes fds: "hev_socks5_client_udp_get_fd b \<in> w_fds os" "s5_fd (cl_base b) \<in> w_fds os"
    and Q: "\<And>self' w'. udp_inv b self' w' \<Longrightarrow> Q (Some self') os w'" "\<And>w'. Q None os w'"
  shows "udp_inv b self w \<Longrightarrow> udp_ok True (udp_inv b) Q (udp_session_loop n num mem res_f res_b again self) os w"
proof (induction n arbitrary: res_f res_b again self w)
  case (Suc n)
  have next_ok: "udp_ok True (udp_inv b) Q (udp_bind (udp_task_io_yielder type self) (\<lambda>(self, res).
      if res \<noteq> 0 then Return (Some self) else udp_session_loop n num mem f g a self)) os w"
    if "udp_inv b self w" for type self w f g a
    unfolding udp_ok_bind by (rule udp_yield_keeps [OF that fds(2)]) (use Suc.IH Q in auto)
  have f_ok: "udp_ok True (udp_inv b) R (if 0 \<le> res_f then hev_socks5_session_udp_fwd_f self again num else Return (self, again, res_f)) os w"
    if "\<And>self' w' r. udp_inv b self' w' \<Longrightarrow> R (self', r) os w'" for R
    using that Suc.prems by (auto intro!: fwd_f_keeps fds(1))
  have b_ok: "udp_ok True (udp_inv b) R (if 0 \<le> res_b then hev_socks5_session_udp_fwd_b saddr m self again else Return (self, again, res_b)) os w"
    if "udp_inv b self w" "\<And>self' w' r. udp_inv b self' w' \<Longrightarrow> R (self', r) os w'" for R self w saddr m again
    using that by (auto intro!: fwd_b_keeps fds(1))
  show ?case
    unfolding udp_session_loop.simps udp_ok_bind [of _ _ Q]
  proof (rule f_ok, unfold split_def fst_conv snd_conv, unfold udp_ok_bind [of _ _ Q], rule b_ok, assumption, goal_cases)
    case (1 self1 w1 r1 self2 w2 r2)
    then show ?case using next_ok [unfolded split_def] Q(1) by (simp del: udp_ok_bind)
  qed
qed (use Q in simp)

lemma poll_ok: "fd \<in> w_fds w \<Longrightarrow> (\<And>x. w_fds x = w_fds w \<Longrightarrow> Q () x) \<Longrightarrow> io_ok Q (poll_fd fd) w"
  by (auto simp: poll_fd_def io_rules)

section \<open>Destruction\<close>

lemma destroy_ok:
  assumes "lseg (su_heap self) q xs NULL" and "distinct xs" and "dom (su_heap self) = set xs" and "dom (su_frame self) = set xs"
    and "length xs \<le> n"
    and "\<And>self'. su_heap self' = Map.empty \<Longrightarrow> su_frame self' = Map.empty \<Longrightarrow> su_base self' = su_base self \<Longrightarrow>
      su_pcb self' = su_pcb self \<Longrightarrow> Q self' os (w\<lparr>ue_freed := ue_freed w @ map (\<lambda>x. snd (the (su_frame self x))) xs\<rparr>)"
  shows "udp_ok N I Q (destroy_frames n (first_ptr xs NULL) self) os w"
  using assms
proof (induction xs arbitrary: n q self w)
  case Nil
  then have "Q self os w" using Nil(6) [of self] by simp
  then show ?case by (cases n) simp_all
next
  case (Cons x xs)
  then obtain k where n: "n = Suc k" by (cases n) auto
  have x: "x \<noteq> NULL" "x \<notin> set xs" "hev_list_node_next (su_heap self) x = Some (first_ptr xs NULL)"
    using Cons.prems by (auto simp: hev_list_node_next_def deref_def)
  obtain addr buf where fr: "su_frame self x = Some (addr, buf)" using Cons.prems(4) by (cases "su_frame self x") auto
  let ?self = "self\<lparr>su_heap := (su_heap self)(x := None), su_frame := (su_frame self)(x := None)\<rparr>"
  have same: "map (\<lambda>y. snd (the (su_frame ?self y))) xs = map (\<lambda>y. snd (the (su_frame self y))) xs" using x by auto
  have "udp_ok N I Q (destroy_frames k (first_ptr xs NULL) ?self) os (w\<lparr>ue_freed := ue_freed w @ [buf]\<rparr>)"
  proof (rule Cons.IH)
    fix self' :: HevSocks5SessionUDP
    assume "su_heap self' = Map.empty" "su_frame self' = Map.empty" "su_base self' = su_base ?self" "su_pcb self' = su_pcb ?self"
    then show "Q self' os (w\<lparr>ue_freed := ue_freed w @ [buf]\<rparr>\<lparr>ue_freed :=
        ue_freed (w\<lparr>ue_freed := ue_freed w @ [buf]\<rparr>) @ map (\<lambda>y. snd (the (su_frame ?self y))) xs\<rparr>)"
      unfolding same using Cons.prems(6) [of self'] fr by simp
  next
    show "lseg (su_heap ?self) x xs NULL" using Cons.prems(1) x(2) by simp
    show "dom (su_heap ?self) = set xs" "dom (su_frame ?self) = set xs" using Cons.prems(3,4) x(2) by auto
    show "distinct xs" "length xs \<le> k" using Cons.prems(2,5) n by auto
  qed
  then show ?case by (simp add: n x fr)
qed

definition client_fds :: "HevSocks5Client \<Rightarrow> int set" where
  "client_fds b = {fd. 0 \<le> fd \<and> (fd = s5_fd (cl_base b) \<or> cl_kind b = ClientUDP fd)}"

lemma client_destruct_ok:
  assumes "client_fds b \<subseteq> w_fds os" and "cl_kind b \<noteq> ClientUDP (s5_fd (cl_base b))"
    and "\<And>os'. w_fds os' = w_fds os - client_fds b \<Longrightarrow> Q () os'"
  shows "io_ok Q (hev_socks5_client_udp_destruct b) os"
proof (cases "cl_kind b")
  case (ClientTCP a)
  then have "client_fds b = {fd. 0 \<le> fd \<and> fd = s5_fd (cl_base b)}" by (auto simp: client_fds_def)
  then show ?thesis using assms(1) ClientTCP
    by (auto simp: hev_socks5_client_udp_destruct_def hev_socks5_client_destruct_def hev_socks5_destruct_def io_ok_release
      intro!: assms(3))
next
  case (ClientUDP fd)
  then have "client_fds b = {x. 0 \<le> x \<and> (x = s5_fd (cl_base b) \<or> x = fd)}" by (auto simp: client_fds_def)
  then show ?thesis using assms(1,2) ClientUDP
    by (auto simp: hev_socks5_client_udp_destruct_def hev_socks5_client_destruct_def hev_socks5_destruct_def io_ok_release
      intro!: assms(3))
qed

lemma same_fds: "cl_same b c \<Longrightarrow> client_fds c = client_fds b"
  by (simp add: cl_same_def client_fds_def)

lemma session_destruct_ok:
  assumes inv: "udp_inv b self w" and n: "513 \<le> n" and fds: "client_fds b \<subseteq> w_fds os" "cl_kind b \<noteq> ClientUDP (s5_fd (cl_base b))"
    and Q: "\<And>self' os' w'. su_heap self' = Map.empty \<Longrightarrow> su_frame self' = Map.empty \<Longrightarrow> w_fds os' = w_fds os - client_fds b \<Longrightarrow>
      ue_pcb w' = NULL \<Longrightarrow> \<not> ue_hooked w' \<Longrightarrow> \<not> ue_locked w' \<Longrightarrow> ue_refs w' = 0 \<Longrightarrow> ue_accepted w' = ue_accepted w \<Longrightarrow>
      ue_freed w' = map snd (ue_accepted w) \<Longrightarrow> Q self' os' w'"
  shows "udp_ok False I Q (hev_socks5_session_udp_destruct n self) os w"
proof -
  from inv obtain ns F where at: "attached b self w" and q: "queue_at self w ns F F" by (auto simp: udp_inv_def)
  have l: "hev_list_first (su_frame_list self) = first_ptr ns NULL" "lseg (su_heap self) NULL ns NULL" "distinct ns"
    "dom (su_heap self) = set ns" "dom (su_frame self) = set ns" "length ns \<le> n"
    using q n by (auto simp: queue_at_def list_rep_def hev_list_first_def)
  have freed: "ue_freed w @ map (\<lambda>x. snd (the (su_frame self x))) ns = map snd (ue_accepted w)"
    using q by (simp add: queue_at_def)
  have same: "client_fds (su_base self) = client_fds b" "cl_kind (su_base self) \<noteq> ClientUDP (s5_fd (cl_base (su_base self)))"
    using at fds(2) same_fds [of b "su_base self"] by (simp_all add: attached_def cl_same_def)
  show ?thesis
    unfolding hev_socks5_session_udp_destruct_def udp_ok_bind l(1)
  proof (rule destroy_ok [OF l(2-6)], unfold freed, goal_cases)
    case (1 self')
    let ?w = "w\<lparr>ue_freed := map snd (ue_accepted w), ue_hooked := False, ue_pcb := NULL, ue_locked := False\<rparr>"
    have w: "\<not> ue_locked w" "ue_hooked w" "ue_pcb w \<noteq> NULL" "su_pcb self' = ue_pcb w" "ue_refs w = 0"
      using at 1(4) by (simp_all add: attached_def)
    have Q': "Q self' os' ?w" if "w_fds os' = w_fds os - client_fds b" for os'
      by (rule Q [OF 1(1,2) that]) (use w in simp_all)
    have "io_ok (\<lambda>r os'. Q self' os' ?w) (hev_socks5_client_udp_destruct (su_base self')) os"
      unfolding 1(3) by (rule client_destruct_ok) (use same fds(1) Q' in simp_all)
    then show ?case using w by (simp add: can_udp_def)
  qed
qed

section \<open>Properties\<close>

definition udp_connected :: "addr \<Rightarrow> udp_env" where
  "udp_connected pcb = \<lparr>ue_pcb = pcb, ue_hooked = True, ue_locked = False, ue_accepted = [], ue_dropped = [], ue_sent = [],
     ue_freed = [], ue_given = [], ue_refs = 0, ue_fault = False\<rparr>"

lemma session_start:
  assumes "udp_event\<^sup>*\<^sup>* (session_udp_object obj b0 pcb mutex, udp_connected pcb) (self, w)" and "pcb \<noteq> NULL"
  shows "udp_inv b (self\<lparr>su_base := b\<rparr>) w"
proof -
  have "grown b0 s [] [] (session_udp_object obj b0 pcb mutex) (udp_connected pcb)" for s
    using assms(2) by (auto simp: grown_def attached_def queue_at_def session_udp_object_def udp_connected_def list_rep_def
      intro!: exI [of _ "[]"])
  from events_grow [OF assms(1) this] have "udp_inv b0 self w" by (rule grown_inv)
  then show ?thesis by (auto simp: udp_inv_def attached_def queue_at_def)
qed

lemma splice_udp_ok:
  assumes "udp_inv b self w" and "hev_socks5_client_udp_get_fd b \<in> w_fds os" and "s5_fd (cl_base b) \<in> w_fds os"
  shows "udp_ok True (udp_inv b) (\<lambda>r os' w'. w_fds os' = w_fds os \<and> (\<forall>s. r = Some s \<longrightarrow> udp_inv b s w'))
    (hev_socks5_session_udp_splice c mem n again self) os w"
proof -
  have fd: "hev_socks5_client_udp_get_fd (su_base self) = hev_socks5_client_udp_get_fd b"
    using assms(1) by (simp add: udp_inv_def attached_def same_fd)
  show ?thesis
    unfolding hev_socks5_session_udp_splice_def Let_def udp_ok.simps fd
    by (rule poll_ok [OF assms(2)], rule udp_loop_keeps) (use assms in auto)
qed

text \<open>The object while a program waits.\<close>

fun waits_with :: "'a udp \<Rightarrow> HevSocks5SessionUDP option" where
  "waits_with (Send_Msgs p ms self k) = Some self"
| "waits_with (Receive_Msgs p self k) = Some self"
| "waits_with (Pause p self k) = Some self"
| "waits_with p = None"

lemma udp_ok_waits: "udp_ok N I Q p os w \<Longrightarrow> waits_with p = Some self \<Longrightarrow> I self w"
  by (cases p) (auto dest: during_now)

text \<open>
  C5: The queue of a UDP session. From the moment the connection appeared, through whatever arrives
  and fails, the session makes no invalid access to its frames, and the only calls it cannot
  make are those for a message without an address, which a short datagram gives. Whenever other tasks may run, there is a
  queue of at most 513 frames that the list holds in order and \<open>frames\<close> counts, such that the datagrams
  accepted so far are those sent to the server, in the order in which they came and each once, followed by the
  queue; exactly the sent ones have been freed.
\<close>

theorem udp_session_queue:
  assumes "udp_event\<^sup>*\<^sup>* (session_udp_object obj b0 pcb mutex, udp_connected pcb) (self, w)" and "pcb \<noteq> NULL"
    and "hev_socks5_client_udp_get_fd b \<in> w_fds os" and "s5_fd (cl_base b) \<in> w_fds os"
    and "udp_steps (hev_socks5_session_udp_splice c mem n again (self\<lparr>su_base := b\<rparr>)) os w p os' w'"
  shows "((\<exists>r. p = Return r) \<or> p = Bad_Address \<or> (\<exists>p' os'' w''. udp_step p os' w' p' os'' w'')) \<and>
    (\<forall>s. waits_with p = Some s \<longrightarrow> (\<exists>sent queue. length queue \<le> 513 \<and> su_frames s = int (length queue) \<and>
       frame_msgs (length queue) (hev_list_first (su_frame_list s)) s = Some (map frame_msg queue) \<and>
       ue_accepted w' = sent @ queue \<and> ue_sent w' = map frame_msg sent \<and> ue_freed w' = map snd sent \<and> \<not> ue_fault w'))"
proof -
  let ?Q = "\<lambda>r os' w'. w_fds os' = w_fds os \<and> (\<forall>s. r = Some s \<longrightarrow> udp_inv b s w')"
  have ok: "udp_ok True (udp_inv b) ?Q p os' w'"
    by (rule udp_ok_steps [OF assms(5) splice_udp_ok [OF session_start [OF assms(1,2)] assms(3,4)]])
  have "\<exists>sent queue. length queue \<le> 513 \<and> su_frames s = int (length queue) \<and>
       frame_msgs (length queue) (hev_list_first (su_frame_list s)) s = Some (map frame_msg queue) \<and>
       ue_accepted w' = sent @ queue \<and> ue_sent w' = map frame_msg sent \<and> ue_freed w' = map snd sent \<and> \<not> ue_fault w'"
    if "waits_with p = Some s" for s
  proof -
    from udp_ok_waits [OF ok that] obtain ns F where at: "attached b s w'" and q: "queue_at s w' ns F F"
      by (auto simp: udp_inv_def)
    show ?thesis
      by (rule exI [of _ F], rule exI [of _ "map (\<lambda>x. the (su_frame s x)) ns"])
        (use at q queue_msgs [OF q order_refl] in \<open>simp add: queue_at_def attached_def comp_def\<close>)
  qed
  then show ?thesis using udp_ok_progress [OF ok] by blast
qed

text \<open>A session with one datagram queued, about to send it.\<close>

definition demo_udp_base :: HevSocks5Client where
  "demo_udp_base = \<lparr>cl_base = \<lparr>s5_fd = 3, s5_timeout = -1, s5_udp_associated = True, s5_type = HEV_SOCKS5_TYPE_UDP_IN_UDP,
     s5_addr_family = 2\<rparr>, cl_user = None, cl_pass = None, cl_kind = ClientUDP 4\<rparr>"

definition demo_udp_world :: world where
  "demo_udp_world = \<lparr>w_fds = {3, 4}, w_polled = {3, 4}, w_blocks = {}, w_refs = (\<lambda>_. 0)\<rparr>"

definition demo_udp_addr :: HevSocks5Addr where
  "demo_udp_addr = fst (hev_socks5_addr_from_ipv4 (replicate addr_size 0) [10, 0, 0, 7] (htons 53))"

definition demo_udp_self :: HevSocks5SessionUDP where
  "demo_udp_self = (session_udp_object 32 demo_udp_base 16 8)\<lparr>su_frame_list := \<lparr>list_head = 64, list_tail = 64\<rparr>,
     su_frames := 1, su_heap := [64 \<mapsto> \<lparr>ln_next = 0, ln_prev = 0\<rparr>], su_frame := [64 \<mapsto> (demo_udp_addr, [[1, 2]])]\<rparr>"

definition demo_udp_env :: udp_env where
  "demo_udp_env = (udp_connected 16)\<lparr>ue_accepted := [(demo_udp_addr, [[1, 2]])]\<rparr>"

lemma dns_serves_none: "dns_serves None"
  by (auto simp: dns_serves_def hev_socks5_addr_from_lwip_def split: ip_addr.split)

lemma demo_udp_atype: "addr_atype demo_udp_addr \<noteq> HEV_SOCKS5_ADDR_TYPE_NAME"
  by (simp add: demo_udp_addr_def hev_socks5_addr_from_ipv4_def memcpy_at_def addr_size_def addr_atype_def numeral_eq_Suc)

lemma demo_udp_event: "udp_event\<^sup>*\<^sup>* (session_udp_object 32 demo_udp_base 16 8, udp_connected 16) (demo_udp_self, demo_udp_env)"
proof -
  have "udp_recv_handler None (session_udp_object 32 demo_udp_base 16 8) 64 (replicate addr_size 0) (Some [[1, 2]])
      (IPADDR_TYPE_V4 [10, 0, 0, 7]) 53 = Some (None, demo_udp_self, False)"
    using demo_udp_atype by (simp add: udp_recv_handler_def session_udp_object_def UDP_POOL_SIZE_def hev_socks5_addr_from_lwip_def
      demo_udp_addr_def [symmetric] hev_list_add_tail_def assign_def deref_def demo_udp_self_def Let_def)
  from recv_udp [OF _ _ dns_serves_none _ _ _ this, of "udp_connected 16"]
  have "udp_event (session_udp_object 32 demo_udp_base 16 8, udp_connected 16) (demo_udp_self, demo_udp_env)"
    by (simp add: udp_connected_def demo_udp_env_def demo_udp_self_def session_udp_object_def)
  then show ?thesis by blast
qed

lemma udp_steps_trans: "udp_steps p os w p1 os1 w1 \<Longrightarrow> udp_steps p1 os1 w1 p2 os2 w2 \<Longrightarrow> udp_steps p os w p2 os2 w2"
  by (induction rule: udp_steps.induct) (auto intro: udp_steps.intros)

lemma demo_poll: "udp_steps (Run (poll_fd 4) p) demo_udp_world w p demo_udp_world w"
proof -
  have "io_step (poll_fd 4) demo_udp_world (Ret ()) demo_udp_world"
    using io_step.mod_fd [of 4 demo_udp_world "\<lambda>res. if res < 0 then Add_Fd 4 (\<lambda>res. Ret ()) else Ret ()" 0]
    by (simp add: poll_fd_def demo_udp_world_def)
  then show ?thesis by (blast intro: udp_more [OF udp_step.run_io] udp_more [OF udp_step.run_ret] udp_refl)
qed

text \<open>The first steps of the splicer: the descriptor is polled, and the queued datagram is handed to the socket.\<close>

lemma demo_udp_run:
  assumes "hev_config_get_misc_udp_copy_buffer_nums c = 10"
  obtains q s k where "udp_steps (hev_socks5_session_udp_splice c mem 2 False (demo_udp_self\<lparr>su_base := demo_udp_base\<rparr>)) demo_udp_world demo_udp_env
      (Send_Msgs q [frame_msg (demo_udp_addr, [[1, 2]])] s k) demo_udp_world demo_udp_env" "su_frames s = 1"
    "hev_list_first (su_frame_list s) = 64"
proof -
  let ?self = "demo_udp_self\<lparr>su_base := demo_udp_base\<rparr>"
  have fd: "hev_socks5_client_udp_get_fd demo_udp_base = 4"
    by (simp add: hev_socks5_client_udp_get_fd_def demo_udp_base_def)
  have f: "hev_socks5_session_udp_fwd_f ?self False 10 =
      Send_Msgs (hev_socks5_udp_sendmmsg (su_s5 ?self) 4 False [frame_msg (demo_udp_addr, [[1, 2]])]) [frame_msg (demo_udp_addr, [[1, 2]])] ?self
        (\<lambda>(self, res, again). if res \<le> 0 then Return (self, again, -1)
           else udp_bind (release_frames (nat res) self) (\<lambda>self. Return (self, again, 1)))"
    by (simp add: hev_socks5_session_udp_fwd_f_def demo_udp_self_def session_udp_object_def hev_list_first_def fd
      hev_list_node_next_def deref_def)
  obtain k where loop: "udp_session_loop 2 10 (mem 10) 1 1 False ?self =
      Send_Msgs (hev_socks5_udp_sendmmsg (su_s5 ?self) 4 False [frame_msg (demo_udp_addr, [[1, 2]])]) [frame_msg (demo_udp_addr, [[1, 2]])] ?self k"
    unfolding numeral_2_eq_2 udp_session_loop.simps by (simp add: f)
  have "udp_steps (hev_socks5_session_udp_splice c mem 2 False ?self) demo_udp_world demo_udp_env
      (udp_session_loop 2 10 (mem 10) 1 1 False ?self) demo_udp_world demo_udp_env"
    using assms demo_poll by (simp add: hev_socks5_session_udp_splice_def fd)
  then show thesis unfolding loop by (rule that) (simp_all add: demo_udp_self_def hev_list_first_def)
qed

theorem udp_session_queue_witness:
  "\<exists>q s k sent queue. udp_steps (hev_socks5_session_udp_splice config_initial (\<lambda>n i. (IPADDR_TYPE_ANY, [])) 2 False
      (demo_udp_self\<lparr>su_base := demo_udp_base\<rparr>)) demo_udp_world demo_udp_env
      (Send_Msgs q [frame_msg (demo_udp_addr, [[1, 2]])] s k) demo_udp_world demo_udp_env \<and>
    length queue = 1 \<and> ue_accepted demo_udp_env = sent @ queue \<and> frame_msgs 1 64 s = Some (map frame_msg queue)"
proof -
  have "hev_config_get_misc_udp_copy_buffer_nums config_initial = 10"
    by (simp add: config_initial_def hev_config_get_misc_udp_copy_buffer_nums_def)
  then obtain q s k where run: "udp_steps (hev_socks5_session_udp_splice config_initial (\<lambda>n i. (IPADDR_TYPE_ANY, [])) 2 False
      (demo_udp_self\<lparr>su_base := demo_udp_base\<rparr>)) demo_udp_world demo_udp_env
      (Send_Msgs q [frame_msg (demo_udp_addr, [[1, 2]])] s k) demo_udp_world demo_udp_env"
    and s: "su_frames s = 1" "hev_list_first (su_frame_list s) = 64"
    by (rule demo_udp_run)
  have "hev_socks5_client_udp_get_fd demo_udp_base \<in> w_fds demo_udp_world" "s5_fd (cl_base demo_udp_base) \<in> w_fds demo_udp_world"
    by (simp_all add: hev_socks5_client_udp_get_fd_def demo_udp_base_def demo_udp_world_def)
  from udp_session_queue [OF demo_udp_event _ this run] s obtain sent queue where
    "length queue = 1" "ue_accepted demo_udp_env = sent @ queue" "frame_msgs 1 64 s = Some (map frame_msg queue)"
    by auto
  with run show ?thesis by blast
qed

text \<open>
  C22: Nothing is left behind. When the splicer of a session has returned, however it ended, its
  destructor makes no invalid call, and when it returns every accepted datagram has been freed exactly
  once, in order, no frame is allocated, the connection is removed without a handler, and of the
  descriptors exactly those of the session are closed.
\<close>

theorem udp_session_destroyed:
  assumes "udp_event\<^sup>*\<^sup>* (session_udp_object obj b0 pcb mutex, udp_connected pcb) (self, w)" and "pcb \<noteq> NULL"
    and "hev_socks5_client_udp_get_fd b \<in> w_fds os" and "s5_fd (cl_base b) \<in> w_fds os"
    and "udp_steps (hev_socks5_session_udp_splice c mem n again (self\<lparr>su_base := b\<rparr>)) os w (Return (Some s)) os1 w1"
    and "client_fds b \<subseteq> w_fds os" and "cl_kind b \<noteq> ClientUDP (s5_fd (cl_base b))"
    and "udp_steps (hev_socks5_session_udp_destruct 513 s) os1 w1 p os2 w2"
  shows "(\<exists>p' os' w'. udp_step p os2 w2 p' os' w') \<or>
    (\<exists>s'. p = Return s' \<and> su_heap s' = Map.empty \<and> su_frame s' = Map.empty \<and> ue_freed w2 = map snd (ue_accepted w1) \<and>
       ue_pcb w2 = NULL \<and> \<not> ue_hooked w2 \<and> \<not> ue_locked w2 \<and> ue_refs w2 = 0 \<and> w_fds os2 = w_fds os - client_fds b)"
proof -
  have "udp_ok True (udp_inv b) (\<lambda>r os' w'. w_fds os' = w_fds os \<and> (\<forall>s. r = Some s \<longrightarrow> udp_inv b s w')) (Return (Some s)) os1 w1"
    by (rule udp_ok_steps [OF assms(5) splice_udp_ok [OF session_start [OF assms(1,2)] assms(3,4)]])
  then have inv: "udp_inv b s w1" and fds: "w_fds os1 = w_fds os" by simp_all
  let ?Q = "\<lambda>s' os' w'. su_heap s' = Map.empty \<and> su_frame s' = Map.empty \<and> ue_freed w' = map snd (ue_accepted w1) \<and>
       ue_pcb w' = NULL \<and> \<not> ue_hooked w' \<and> \<not> ue_locked w' \<and> ue_refs w' = 0 \<and> w_fds os' = w_fds os - client_fds b"
  have "udp_ok False (udp_inv b) ?Q (hev_socks5_session_udp_destruct 513 s) os1 w1"
    by (rule session_destruct_ok [OF inv]) (use assms(6,7) fds in simp_all)
  from udp_ok_progress [OF udp_ok_steps [OF assms(8) this]] show ?thesis by blast
qed

text \<open>A session whose server has gone: receiving fails, and the control connection is closed.\<close>

definition idle_udp :: HevSocks5SessionUDP where
  "idle_udp = session_udp_object 32 demo_udp_base 16 8"

lemma demo_udp_fd: "hev_socks5_client_udp_get_fd demo_udp_base = 4"
  by (simp add: hev_socks5_client_udp_get_fd_def demo_udp_base_def)

lemma idle_run:
  obtains s where "udp_steps (hev_socks5_session_udp_splice config_initial (\<lambda>n i. (IPADDR_TYPE_ANY, [])) 1 False
      (idle_udp\<lparr>su_base := demo_udp_base\<rparr>)) demo_udp_world (udp_connected 16) (Return (Some s)) demo_udp_world (udp_connected 16)"
    "su_base s = demo_udp_base\<lparr>cl_base := (cl_base demo_udp_base)\<lparr>s5_timeout := 0\<rparr>\<rparr>" "su_frame_list s = \<lparr>list_head = NULL, list_tail = NULL\<rparr>" "su_pcb s = 16"
proof -
  let ?b = "cl_base demo_udp_base"
  let ?k = "\<lambda>(self, b, msgv, res, again).
          let self = su_set_s5 self ((su_s5 self)\<lparr>s5_udp_associated := s5_udp_associated b\<rparr>)
          in if res \<le> 0 then Return (self, again, if res = -1 \<and> again then 0 else -1)
          else udp_bind (udp_give_all self IPADDR_TYPE_ANY msgv (nat res)) (\<lambda>res. Return (self, again, res))"
  obtain k where loop: "udp_session_loop 1 10 (\<lambda>i. (IPADDR_TYPE_ANY, [])) 1 1 False idle_udp =
      Receive_Msgs (hev_socks5_udp_recvmmsg ?b 4 False (fwd_svec []) True) idle_udp (\<lambda>r. udp_bind (?k r) k)"
    and k: "\<And>self. k (self, False, -1) = udp_bind (udp_task_io_yielder HEV_TASK_WAITIO self) (\<lambda>(self, res).
      if res \<noteq> 0 then Return (Some self) else udp_session_loop 0 10 (\<lambda>i. (IPADDR_TYPE_ANY, [])) 0 (-1) False self)"
    by (simp add: hev_socks5_session_udp_fwd_f_def hev_socks5_session_udp_fwd_b_def idle_udp_def session_udp_object_def demo_udp_fd)
  have io: "io_step (hev_socks5_udp_recvmmsg ?b 4 False (fwd_svec []) True) demo_udp_world (Ret (?b, [], -1, False)) demo_udp_world"
    using io_step.recvmmsg [of 4 demo_udp_world "[]" "MErr (-1) False"] unfolding hev_socks5_udp_recvmmsg_udp_def hev_socks5_udp_recvmmsg_def
    by (auto simp: demo_udp_base_def demo_udp_world_def fwd_svec_def mrx_ok_def io_step_simps intro!: exI [of _ "MErr (-1) False"])
  let ?self = "su_set_s5 idle_udp ((su_s5 idle_udp)\<lparr>s5_udp_associated := s5_udp_associated ?b\<rparr>)"
  let ?final = "su_set_s5 ?self (hev_socks5_set_timeout (su_s5 ?self) 0)"
  obtain k2 where probe: "k (?self, False, -1) = Probe 3 k2" "k2 (Data [] False) = Return (Some ?final)"
    unfolding k by (simp add: udp_task_io_yielder_def su_set_s5_def idle_udp_def session_udp_object_def demo_udp_base_def)
  have "udp_steps (hev_socks5_session_udp_splice config_initial (\<lambda>n i. (IPADDR_TYPE_ANY, [])) 1 False (idle_udp\<lparr>su_base := demo_udp_base\<rparr>))
      demo_udp_world (udp_connected 16) (Return (Some ?final)) demo_udp_world (udp_connected 16)"
  proof (rule udp_steps_trans)
    show "udp_steps (hev_socks5_session_udp_splice config_initial (\<lambda>n i. (IPADDR_TYPE_ANY, [])) 1 False (idle_udp\<lparr>su_base := demo_udp_base\<rparr>))
        demo_udp_world (udp_connected 16) (Receive_Msgs (hev_socks5_udp_recvmmsg ?b 4 False (fwd_svec []) True) idle_udp (\<lambda>r. udp_bind (?k r) k))
        demo_udp_world (udp_connected 16)"
      using demo_poll [of "udp_session_loop 1 10 (\<lambda>i. (IPADDR_TYPE_ANY, [])) 1 1 False idle_udp"] loop
      by (simp add: hev_socks5_session_udp_splice_def demo_udp_fd config_initial_def hev_config_get_misc_udp_copy_buffer_nums_def
        idle_udp_def session_udp_object_def)
    have "udp_step (Probe 3 k2) demo_udp_world (udp_connected 16) (Return (Some ?final)) demo_udp_world (udp_connected 16)"
      using udp_step.probe [of 3 demo_udp_world "Data [] False" k2] probe(2) by (simp add: demo_udp_world_def rx_ok_def)
    moreover have "udp_bind (?k (idle_udp, ?b, [], -1, False)) k = Probe 3 k2" using probe(1) by simp
    ultimately show "udp_steps (Receive_Msgs (hev_socks5_udp_recvmmsg ?b 4 False (fwd_svec []) True) idle_udp (\<lambda>r. udp_bind (?k r) k))
        demo_udp_world (udp_connected 16) (Return (Some ?final)) demo_udp_world (udp_connected 16)"
      by (intro udp_more [OF udp_step.receive_io [OF io]] udp_more [OF udp_step.receive_ret]) (auto intro: udp_more udp_refl simp del: split_paired_Ex)
  qed
  then show thesis
    by (rule that) (simp_all add: su_set_s5_def idle_udp_def session_udp_object_def demo_udp_base_def hev_socks5_set_timeout_def)
qed

theorem udp_session_destroyed_witness:
  "\<exists>s s' w2 os2. udp_steps (hev_socks5_session_udp_splice config_initial (\<lambda>n i. (IPADDR_TYPE_ANY, [])) 1 False
      (idle_udp\<lparr>su_base := demo_udp_base\<rparr>)) demo_udp_world (udp_connected 16) (Return (Some s)) demo_udp_world (udp_connected 16) \<and>
    udp_steps (hev_socks5_session_udp_destruct 513 s) demo_udp_world (udp_connected 16) (Return s') os2 w2 \<and>
    ue_pcb w2 = NULL \<and> w_fds os2 = {}"
proof -
  let ?w = "udp_connected 16" and ?os = demo_udp_world
  obtain s where run: "udp_steps (hev_socks5_session_udp_splice config_initial (\<lambda>n i. (IPADDR_TYPE_ANY, [])) 1 False
      (idle_udp\<lparr>su_base := demo_udp_base\<rparr>)) ?os ?w (Return (Some s)) ?os ?w"
    and s: "su_base s = demo_udp_base\<lparr>cl_base := (cl_base demo_udp_base)\<lparr>s5_timeout := 0\<rparr>\<rparr>" "su_frame_list s = \<lparr>list_head = NULL, list_tail = NULL\<rparr>"
      "su_pcb s = 16"
    by (rule idle_run)
  have walk: "destroy_frames n NULL s = Return s" for n by (cases n) simp_all
  have "\<exists>s' os2 w2. udp_steps (hev_socks5_session_udp_destruct 513 s) ?os ?w (Return s') os2 w2"
    unfolding hev_socks5_session_udp_destruct_def s(2) hev_list_first_def
    apply (simp add: walk s hev_socks5_client_udp_destruct_def hev_socks5_client_destruct_def hev_socks5_destruct_def demo_udp_base_def)
    apply (intro exI)
    apply (rule udp_more, rule udp_step.acquire, simp add: udp_connected_def)
    apply (rule udp_more, rule udp_step.udp_unhook, simp add: udp_connected_def can_udp_def)
    apply (rule udp_more, rule udp_step.udp_remove, simp add: udp_connected_def can_udp_def, simp)
    apply (rule udp_more, rule udp_step.release, simp add: udp_connected_def can_udp_def)
    apply (rule udp_more, rule udp_step.run_io, rule io_step.del_fd, simp add: demo_udp_world_def)
    apply (rule udp_more, rule udp_step.run_io, rule io_step.close, simp add: demo_udp_world_def, simp)
    apply (rule udp_more, rule udp_step.run_io, rule io_step.del_fd, simp add: demo_udp_world_def)
    apply (rule udp_more, rule udp_step.run_io, rule io_step.close, simp add: demo_udp_world_def, simp)
    apply (rule udp_more, rule udp_step.run_ret)
    apply (rule udp_refl)
    done
  then obtain s' os2 w2 where d: "udp_steps (hev_socks5_session_udp_destruct 513 s) ?os ?w (Return s') os2 w2" by blast
  have r: "udp_event\<^sup>*\<^sup>* (session_udp_object 32 demo_udp_base 16 8, ?w) (idle_udp, ?w)" unfolding idle_udp_def by simp
  have "client_fds demo_udp_base = {3, 4}" by (auto simp: client_fds_def demo_udp_base_def)
  with udp_session_destroyed [OF r _ _ _ run _ _ d] have "ue_pcb w2 = NULL \<and> w_fds os2 = {}"
    by (simp add: demo_udp_fd udp_step_simps) (simp add: demo_udp_base_def demo_udp_world_def)
  with run d show ?thesis by blast
qed

text \<open>
  C38: A short datagram is not survived. In datagram mode, when the destination is not one of the
  mapped DNS, a datagram of less than four bytes from the server leaves the session with a message
  whose address is the null pointer, and \<open>hev_socks5_session_udp_fwd_b\<close>, unlike the forwarder of
  the server, reads it without a check.
\<close>

theorem udp_short_datagram_null:
  fixes bytes :: "u8 list" and src :: sockaddr_in6
  assumes "s5_type (su_s5 self) = HEV_SOCKS5_TYPE_UDP_IN_UDP" and "s5_udp_associated (su_s5 self)"
    and "su_addr self = 0 \<or> su_port self = 0" and "hev_socks5_client_udp_get_fd (su_base self) \<in> w_fds os"
    and "length bytes < 4" and "length (sin6_addr src) = 16"
  shows "udp_steps (hev_socks5_session_udp_fwd_b saddr (buf # mem) self again) os w Bad_Address os w"
proof -
  let ?fd = "hev_socks5_client_udp_get_fd (su_base self)" and ?sv = "fwd_svec (buf # mem)"
  obtain m ms where sv: "?sv = m # ms" "msg_len m = UDP_BUF_SIZE" by (simp add: fwd_svec_def)
  let ?m = "m\<lparr>msg_addr := Null, msg_buf := memcpy_at (msg_buf m) 0 bytes, msg_len := 0\<rparr>"
  have parse: "parse_all ?sv [bytes] = (?m # ms, True)" using assms(5) by (simp add: sv parse_udp_def Let_def)
  have ok: "mrx_ok (map msg_len ?sv) (Dgrams [(bytes, src)] False)"
    using assms(5,6) sv by (simp add: mrx_ok_def UDP_BUF_SIZE_def)
  have io: "io_step (hev_socks5_udp_recvmmsg (su_s5 self) ?fd again ?sv True) os (Ret (su_s5 self, ?m # ms, 1, False)) os"
    unfolding hev_socks5_udp_recvmmsg_def hev_socks5_udp_recvmmsg_udp_def assms(1) HevSocks5Type.case io_step_simps
    using assms(1,2,4) ok parse by (intro conjI exI [of _ "Dgrams [(bytes, src)] False"]) (simp_all add: Let_def)
  have "udp_give_all self' saddr (?m # ms) (nat 1) = Bad_Address" if "su_addr self' = 0 \<or> su_port self' = 0" for self'
    using that by auto
  then show ?thesis
    unfolding hev_socks5_session_udp_fwd_b_def using assms(3)
    by (intro udp_more [OF udp_step.receive_io [OF io]] udp_more [OF udp_step.receive_ret])
      (auto simp: su_set_s5_def Let_def intro: udp_refl)
qed

theorem udp_short_datagram_null_witness:
  "udp_steps (hev_socks5_session_udp_fwd_b IPADDR_TYPE_ANY [replicate 1500 0] idle_udp False) demo_udp_world (udp_connected 16)
     Bad_Address demo_udp_world (udp_connected 16)"
  by (rule udp_short_datagram_null [where bytes = "[0, 0]" and src = blank_saddr])
    (simp_all add: idle_udp_def session_udp_object_def demo_udp_fd demo_udp_world_def blank_saddr_def, simp_all add: demo_udp_base_def)

end
