(* ===== verification/Hev_Tunnel_Sessions.thy ===== *)
theory Hev_Tunnel_Sessions
  imports Hev_Session_UDP
begin

text \<open>
  The session set of the tunnel (\<open>src/hev-socks5-tunnel.c\<close>): the sessions that run, linked by the node
  in their data and ordered by their last activity, their number, and the event task that stops
  them all. A session that makes the number reach the configured maximum terminates the first one, the
  one that has been idle for longest.
\<close>

section \<open>Sessions of both classes\<close>

text \<open>The functions of \<open>hev-socks5-session.c\<close> that a class implements.\<close>

datatype HevSocks5Session = SessionTCP HevSocks5SessionTCP | SessionUDP HevSocks5SessionUDP

fun hev_socks5_session_get_node :: "HevSocks5Session \<Rightarrow> addr" where
  "hev_socks5_session_get_node (SessionTCP self) = hev_socks5_session_tcp_get_node self"
| "hev_socks5_session_get_node (SessionUDP self) = hev_socks5_session_udp_get_node self"

fun hev_socks5_session_set_task :: "HevSocks5Session \<Rightarrow> addr \<Rightarrow> HevSocks5Session" where
  "hev_socks5_session_set_task (SessionTCP self) task = SessionTCP (hev_socks5_session_tcp_set_task self task)"
| "hev_socks5_session_set_task (SessionUDP self) task = SessionUDP (hev_socks5_session_udp_set_task self task)"

fun any_session_terminate :: "HevSocks5Session \<Rightarrow> HevSocks5Session" where
  "any_session_terminate (SessionTCP self) = SessionTCP (hev_socks5_session_terminate self)"
| "any_session_terminate (SessionUDP self) = SessionUDP (udp_session_terminate self)"

fun session_timeout :: "HevSocks5Session \<Rightarrow> int" where
  "session_timeout (SessionTCP self) = s5_timeout (cl_base (st_base self))"
| "session_timeout (SessionUDP self) = s5_timeout (su_s5 self)"

section \<open>The session set\<close>

text \<open>
  The static variables that describe the set, and the memory it lies in: the nodes of the sessions,
  and the session each node belongs to. The node is the first field of the session data.
\<close>

record tunnel_sessions =
  ts_run :: bool
  ts_session_count :: int
  ts_session_set :: HevList
  ts_heap :: lheap
  ts_session :: "addr \<Rightarrow> HevSocks5Session option"

definition terminate_at :: "tunnel_sessions \<Rightarrow> addr \<Rightarrow> tunnel_sessions option" where
  "terminate_at s node = (case ts_session s node of
     None \<Rightarrow> None
   | Some self \<Rightarrow> Some (s\<lparr>ts_session := (ts_session s)(node \<mapsto> any_session_terminate self)\<rparr>))"

definition hev_socks5_tunnel_insert_session :: "config \<Rightarrow> tunnel_sessions \<Rightarrow> addr \<Rightarrow> tunnel_sessions option" where
  "hev_socks5_tunnel_insert_session c s node = do {
     (l, h) \<leftarrow> hev_list_add_tail (ts_session_set s) (ts_heap s) node;
     let s = s\<lparr>ts_session_set := l, ts_heap := h, ts_session_count := ts_session_count s + 1\<rparr>;
     let max_session_count = hev_config_get_misc_max_session_count c;
     if max_session_count = 0 \<or> ts_session_count s < max_session_count then Some s
     else terminate_at s (hev_list_first (ts_session_set s))
   }"

definition hev_socks5_tunnel_delete_session :: "tunnel_sessions \<Rightarrow> addr \<Rightarrow> tunnel_sessions option" where
  "hev_socks5_tunnel_delete_session s node = do {
     (l, h) \<leftarrow> hev_list_del (ts_session_set s) (ts_heap s) node;
     Some (s\<lparr>ts_session_set := l, ts_heap := h, ts_session_count := ts_session_count s - 1\<rparr>)
   }"

definition hev_socks5_tunnel_update_session :: "config \<Rightarrow> tunnel_sessions \<Rightarrow> addr \<Rightarrow> tunnel_sessions option" where
  "hev_socks5_tunnel_update_session c s node =
     (if hev_config_get_misc_max_session_count c = 0 then Some s
      else do {
        (l, h) \<leftarrow> hev_list_del (ts_session_set s) (ts_heap s) node;
        (l, h) \<leftarrow> hev_list_add_tail l h node;
        Some (s\<lparr>ts_session_set := l, ts_heap := h\<rparr>)
      })"

text \<open>
  The life of a session in the set. Its object is allocated with its node, and after it was deleted from
  the set it is freed (\<open>hev_socks5_session_task_entry\<close>).
\<close>

definition session_enter :: "config \<Rightarrow> tunnel_sessions \<Rightarrow> HevSocks5Session \<Rightarrow> addr \<Rightarrow> tunnel_sessions option" where
  "session_enter c s self task =
     (let self = hev_socks5_session_set_task self task;
          node = hev_socks5_session_get_node self
      in hev_socks5_tunnel_insert_session c
        (s\<lparr>ts_heap := (ts_heap s)(node \<mapsto> \<lparr>ln_next = NULL, ln_prev = NULL\<rparr>), ts_session := (ts_session s)(node \<mapsto> self)\<rparr>) node)"

definition session_leave :: "tunnel_sessions \<Rightarrow> addr \<Rightarrow> tunnel_sessions option" where
  "session_leave s node = do {
     s \<leftarrow> hev_socks5_tunnel_delete_session s node;
     Some (s\<lparr>ts_heap := (ts_heap s)(node := None), ts_session := (ts_session s)(node := None)\<rparr>)
   }"

text \<open>
  The event task: once it is woken, \<open>run\<close> is cleared and every session of the set terminated. The walk
  reads the link of a node after its session was terminated; \<open>n\<close> bounds the nodes it may visit.
\<close>

fun terminate_all :: "nat \<Rightarrow> addr \<Rightarrow> tunnel_sessions \<Rightarrow> tunnel_sessions option" where
  "terminate_all 0 node s = (if node = NULL then Some s else None)"
| "terminate_all (Suc n) node s =
     (if node = NULL then Some s
      else do {
        s \<leftarrow> terminate_at s node;
        next_node \<leftarrow> hev_list_node_next (ts_heap s) node;
        terminate_all n next_node s
      })"

definition event_stop :: "nat \<Rightarrow> tunnel_sessions \<Rightarrow> tunnel_sessions option" where
  "event_stop n s = terminate_all n (hev_list_first (ts_session_set s)) (s\<lparr>ts_run := False\<rparr>)"

section \<open>The sessions by their last activity\<close>

text \<open>
  The reference: the nodes of the sessions, the one idle for longest first, and those that were told to
  end.
\<close>

type_synonym activity = "addr list \<times> addr set"

definition act_enter :: "int \<Rightarrow> addr \<Rightarrow> activity \<Rightarrow> activity" where
  "act_enter mx node a = (case a of (xs, T) \<Rightarrow>
     let xs = xs @ [node]
     in (xs, if mx = 0 \<or> int (length xs) < mx then T else insert (hd xs) T))"

definition act_update :: "int \<Rightarrow> addr \<Rightarrow> activity \<Rightarrow> activity" where
  "act_update mx node a = (case a of (xs, T) \<Rightarrow> (if mx = 0 then xs else remove1 node xs @ [node], T))"

definition act_leave :: "addr \<Rightarrow> activity \<Rightarrow> activity" where
  "act_leave node a = (case a of (xs, T) \<Rightarrow> (remove1 node xs, T - {node}))"

text \<open>What sessions do: appear with an object whose timeout is not 0, be active, and end.\<close>

datatype session_op = Enter HevSocks5Session addr | Active addr | Leave addr

fun session_run :: "config \<Rightarrow> tunnel_sessions \<Rightarrow> session_op list \<Rightarrow> tunnel_sessions option" where
  "session_run c s [] = Some s"
| "session_run c s (Enter self task # ops) = do { s \<leftarrow> session_enter c s self task; session_run c s ops }"
| "session_run c s (Active node # ops) = do { s \<leftarrow> hev_socks5_tunnel_update_session c s node; session_run c s ops }"
| "session_run c s (Leave node # ops) = do { s \<leftarrow> session_leave s node; session_run c s ops }"

fun act_run :: "int \<Rightarrow> activity \<Rightarrow> session_op list \<Rightarrow> activity" where
  "act_run mx a [] = a"
| "act_run mx a (Enter self task # ops) = act_run mx (act_enter mx (hev_socks5_session_get_node self) a) ops"
| "act_run mx a (Active node # ops) = act_run mx (act_update mx node a) ops"
| "act_run mx a (Leave node # ops) = act_run mx (act_leave node a) ops"

text \<open>A session appears at a free address, and only sessions of the set are active or end.\<close>

fun ops_ok :: "addr set \<Rightarrow> session_op list \<Rightarrow> bool" where
  "ops_ok A [] = True"
| "ops_ok A (Enter self task # ops) \<longleftrightarrow> hev_socks5_session_get_node self \<noteq> NULL \<and> hev_socks5_session_get_node self \<notin> A \<and>
     session_timeout self \<noteq> 0 \<and> ops_ok (insert (hev_socks5_session_get_node self) A) ops"
| "ops_ok A (Active node # ops) \<longleftrightarrow> node \<in> A \<and> ops_ok A ops"
| "ops_ok A (Leave node # ops) \<longleftrightarrow> node \<in> A \<and> ops_ok (A - {node}) ops"

definition sessions_rep :: "tunnel_sessions \<Rightarrow> activity \<Rightarrow> bool" where
  "sessions_rep s a \<longleftrightarrow> (case a of (xs, T) \<Rightarrow>
     list_rep (ts_session_set s) (ts_heap s) xs \<and> dom (ts_heap s) = set xs \<and> dom (ts_session s) = set xs \<and>
     ts_session_count s = int (length xs) \<and> T \<subseteq> set xs \<and>
     (\<forall>x \<in> set xs. hev_socks5_session_get_node (the (ts_session s x)) = x \<and> (session_timeout (the (ts_session s x)) = 0 \<longleftrightarrow> x \<in> T)))"

lemma terminate_facts [simp]:
  "hev_socks5_session_get_node (any_session_terminate self) = hev_socks5_session_get_node self"
  "session_timeout (any_session_terminate self) = 0"
  by (cases self; simp add: hev_socks5_session_tcp_get_node_def hev_socks5_session_udp_get_node_def
      hev_socks5_session_terminate_def udp_session_terminate_def session_terminate_def hev_socks5_set_timeout_def)+

lemma set_task_facts [simp]:
  "hev_socks5_session_get_node (hev_socks5_session_set_task self task) = hev_socks5_session_get_node self"
  "session_timeout (hev_socks5_session_set_task self task) = session_timeout self"
  by (cases self; simp add: hev_socks5_session_tcp_get_node_def hev_socks5_session_udp_get_node_def
      hev_socks5_session_tcp_set_task_def hev_socks5_session_udp_set_task_def)+

lemma terminate_at_rep:
  assumes "sessions_rep s (xs, T)" and "x \<in> set xs"
  obtains s' where "terminate_at s x = Some s'" "sessions_rep s' (xs, insert x T)" "ts_heap s' = ts_heap s"
    "ts_session_set s' = ts_session_set s" "ts_run s' = ts_run s"
proof -
  have "x \<in> dom (ts_session s)" using assms by (simp add: sessions_rep_def)
  then obtain self where self: "ts_session s x = Some self" by blast
  show thesis
    by (rule that [of "s\<lparr>ts_session := (ts_session s)(x \<mapsto> any_session_terminate self)\<rparr>"])
      (use assms self in \<open>auto simp: terminate_at_def sessions_rep_def\<close>)
qed

lemma enter_rep:
  assumes rep: "sessions_rep s (xs, T)" and n: "hev_socks5_session_get_node self = node" "node \<noteq> NULL" "node \<notin> set xs"
    and t: "session_timeout self \<noteq> 0"
  shows "\<exists>s'. session_enter c s self task = Some s' \<and>
    sessions_rep s' (act_enter (hev_config_get_misc_max_session_count c) node (xs, T)) \<and> ts_run s' = ts_run s"
proof -
  let ?self = "hev_socks5_session_set_task self task"
  let ?h = "(ts_heap s)(node \<mapsto> \<lparr>ln_next = NULL, ln_prev = NULL\<rparr>)"
  have l: "list_rep (ts_session_set s) ?h xs" using rep n(3) by (simp add: sessions_rep_def list_rep_def)
  obtain l h where add: "hev_list_add_tail (ts_session_set s) ?h node = Some (l, h)" "list_rep l h (xs @ [node])" "dom h = dom ?h"
    using hl.add_tail_rep [OF l n(2) _ n(3)] by auto
  define s1 where "s1 = s\<lparr>ts_session := (ts_session s)(node \<mapsto> ?self), ts_session_set := l, ts_heap := h,
    ts_session_count := ts_session_count s + 1\<rparr>"
  have rep1: "sessions_rep s1 (xs @ [node], T)"
    using rep add n t by (auto simp: sessions_rep_def s1_def)
  have run1: "ts_run s1 = ts_run s" by (simp add: s1_def)
  have first: "hev_list_first (ts_session_set s1) = hd (xs @ [node])"
    using rep1 by (cases xs) (simp_all add: sessions_rep_def list_rep_def hev_list_first_def)
  have count: "ts_session_count s1 = int (length (xs @ [node]))" using rep1 by (simp add: sessions_rep_def)
  have eq: "session_enter c s self task =
      (if hev_config_get_misc_max_session_count c = 0 \<or> ts_session_count s1 < hev_config_get_misc_max_session_count c then Some s1
       else terminate_at s1 (hev_list_first (ts_session_set s1)))"
    using add(1) n(1) by (simp add: session_enter_def hev_socks5_tunnel_insert_session_def s1_def Let_def)
  have "hd (xs @ [node]) \<in> set (xs @ [node])" by (rule hd_in_set) simp
  with rep1 obtain s2 where "terminate_at s1 (hd (xs @ [node])) = Some s2" "sessions_rep s2 (xs @ [node], insert (hd (xs @ [node])) T)"
    "ts_run s2 = ts_run s1" by (rule terminate_at_rep)
  then show ?thesis unfolding eq first count using rep1 run1 by (auto simp: act_enter_def Let_def)
qed

lemma update_rep:
  assumes rep: "sessions_rep s (xs, T)" and x: "x \<in> set xs"
  shows "\<exists>s'. hev_socks5_tunnel_update_session c s x = Some s' \<and>
    sessions_rep s' (act_update (hev_config_get_misc_max_session_count c) x (xs, T)) \<and> ts_run s' = ts_run s"
proof (cases "hev_config_get_misc_max_session_count c = 0")
  case True
  with rep show ?thesis by (simp add: hev_socks5_tunnel_update_session_def act_update_def)
next
  case False
  have l: "list_rep (ts_session_set s) (ts_heap s) xs" using rep by (simp add: sessions_rep_def)
  obtain l1 h1 l2 h2 where t: "hev_list_del (ts_session_set s) (ts_heap s) x = Some (l1, h1)" "hev_list_add_tail l1 h1 x = Some (l2, h2)"
    "list_rep l2 h2 (remove1 x xs @ [x])" "dom h2 = dom (ts_heap s)"
    by (rule hl.touch [OF l x])
  have "set (remove1 x xs @ [x]) = set xs" using x list_rep_distinct [OF l] by auto
  moreover have "length (remove1 x xs @ [x]) = length xs" using x length_pos_if_in_set [OF x] by (simp add: length_remove1)
  ultimately have "sessions_rep (s\<lparr>ts_session_set := l2, ts_heap := h2\<rparr>) (remove1 x xs @ [x], T)"
    using rep t(3,4) by (simp add: sessions_rep_def)
  with False t(1,2) show ?thesis by (simp add: hev_socks5_tunnel_update_session_def act_update_def)
qed

lemma leave_rep:
  assumes rep: "sessions_rep s (xs, T)" and x: "x \<in> set xs"
  shows "\<exists>s'. session_leave s x = Some s' \<and> sessions_rep s' (act_leave x (xs, T)) \<and> ts_run s' = ts_run s"
proof -
  have l: "list_rep (ts_session_set s) (ts_heap s) xs" using rep by (simp add: sessions_rep_def)
  obtain l1 h1 where d: "hev_list_del (ts_session_set s) (ts_heap s) x = Some (l1, h1)" "list_rep l1 h1 (remove1 x xs)"
    "dom h1 = dom (ts_heap s)"
    by (rule hl.del_remove1 [OF l x])
  have dist: "distinct xs" using l by (rule list_rep_distinct)
  have out: "x \<notin> set (remove1 x xs)" "set (remove1 x xs) = set xs - {x}" using dist by simp_all
  have "list_rep l1 (h1(x := None)) (remove1 x xs)" using d(2) out(1) by (simp add: list_rep_def)
  moreover have "dom (h1(x := None)) = set xs - {x}" "dom ((ts_session s)(x := None)) = set xs - {x}"
    using rep d(3) by (simp_all add: sessions_rep_def)
  moreover have "length xs = Suc (length (remove1 x xs))" using x length_pos_if_in_set [OF x] by (simp add: length_remove1)
  ultimately have "sessions_rep (s\<lparr>ts_session_set := l1, ts_session_count := ts_session_count s - 1, ts_heap := h1(x := None),
      ts_session := (ts_session s)(x := None)\<rparr>) (remove1 x xs, T - {x})"
    using rep out by (auto simp: sessions_rep_def)
  moreover have "session_leave s x = Some (s\<lparr>ts_session_set := l1, ts_session_count := ts_session_count s - 1, ts_heap := h1(x := None),
      ts_session := (ts_session s)(x := None)\<rparr>)"
    using d(1) by (cases s) (simp add: session_leave_def hev_socks5_tunnel_delete_session_def)
  ultimately show ?thesis by (simp add: act_leave_def)
qed

lemma session_run_rep:
  assumes "sessions_rep s (xs, T)" and "ops_ok (set xs) ops"
  shows "\<exists>s'. session_run c s ops = Some s' \<and> sessions_rep s' (act_run (hev_config_get_misc_max_session_count c) (xs, T) ops) \<and>
    ts_run s' = ts_run s"
  using assms
proof (induction ops arbitrary: s xs T)
  case (Cons op ops)
  let ?mx = "hev_config_get_misc_max_session_count c"
  have dist: "distinct xs" using Cons.prems(1) by (auto simp: sessions_rep_def dest: list_rep_distinct)
  show ?case
  proof (cases op)
    case (Enter self task)
    obtain xs' T' where a: "act_enter ?mx (hev_socks5_session_get_node self) (xs, T) = (xs', T')" by (cases "act_enter ?mx (hev_socks5_session_get_node self) (xs, T)")
    then have xs': "xs' = xs @ [hev_socks5_session_get_node self]" by (simp add: act_enter_def Let_def)
    from enter_rep [OF Cons.prems(1) refl, of self c task] Cons.prems(2) Enter a obtain s1 where
      "session_enter c s self task = Some s1" "sessions_rep s1 (xs', T')" "ts_run s1 = ts_run s" by auto
    with Cons.IH [of s1 xs' T'] Cons.prems(2) Enter a xs' show ?thesis by simp
  next
    case (Active x)
    obtain xs' T' where a: "act_update ?mx x (xs, T) = (xs', T')" by (cases "act_update ?mx x (xs, T)")
    then have xs': "set xs' = set xs" using Cons.prems(2) Active dist by (auto simp: act_update_def split: if_splits)
    from update_rep [OF Cons.prems(1), of x c] Cons.prems(2) Active a obtain s1 where
      "hev_socks5_tunnel_update_session c s x = Some s1" "sessions_rep s1 (xs', T')" "ts_run s1 = ts_run s" by auto
    with Cons.IH [of s1 xs' T'] Cons.prems(2) Active a xs' show ?thesis by simp
  next
    case (Leave x)
    from leave_rep [OF Cons.prems(1), of x] Cons.prems(2) Leave obtain s1 where
      "session_leave s x = Some s1" "sessions_rep s1 (remove1 x xs, T - {x})" "ts_run s1 = ts_run s" by (auto simp: act_leave_def)
    with Cons.IH [of s1 "remove1 x xs" "T - {x}"] Cons.prems(2) Leave dist show ?thesis by (simp add: act_leave_def)
  qed
qed simp

text \<open>The walk of the event task visits every node once.\<close>

lemma terminate_all_rep:
  assumes "sessions_rep s (xs @ ys, T)" and "length ys \<le> n"
  shows "\<exists>s'. terminate_all n (first_ptr ys NULL) s = Some s' \<and> sessions_rep s' (xs @ ys, T \<union> set ys) \<and> ts_run s' = ts_run s"
  using assms
proof (induction ys arbitrary: n s xs T)
  case Nil
  then show ?case by (cases n) auto
next
  case (Cons y ys)
  then obtain m where n: "n = Suc m" by (cases n) auto
  have y: "y \<noteq> NULL" using Cons.prems(1) by (auto simp: sessions_rep_def dest: list_rep_nonnull)
  obtain s1 where s1: "terminate_at s y = Some s1" "sessions_rep s1 (xs @ y # ys, insert y T)" "ts_run s1 = ts_run s"
    by (rule terminate_at_rep [OF Cons.prems(1), of y]) auto
  then have "hev_list_node_next (ts_heap s1) y = Some (first_ptr ys NULL)"
    by (intro list_rep_next [of "ts_session_set s1" _ xs]) (simp add: sessions_rep_def)
  with Cons.IH [of s1 "xs @ [y]" "insert y T" m] s1 Cons.prems(2) n y show ?case by simp
qed

section \<open>Properties\<close>

definition no_sessions :: tunnel_sessions where
  "no_sessions = \<lparr>ts_run = True, ts_session_count = 0, ts_session_set = \<lparr>list_head = NULL, list_tail = NULL\<rparr>, ts_heap = Map.empty,
     ts_session = Map.empty\<rparr>"

lemma no_sessions_rep: "sessions_rep no_sessions ([], {})"
  by (simp add: sessions_rep_def no_sessions_def list_rep_def)


definition demo_entry :: "addr \<Rightarrow> HevSocks5Session" where
  "demo_entry obj = SessionTCP (session_tcp_object obj \<lparr>cl_base = \<lparr>s5_fd = -1, s5_timeout = -1, s5_udp_associated = False,
     s5_type = HEV_SOCKS5_TYPE_TCP, s5_addr_family = 0\<rparr>, cl_user = None, cl_pass = None, cl_kind = ClientTCP None\<rparr> 8 16)"

lemma demo_entry_facts [simp]: "hev_socks5_session_get_node (demo_entry obj) = obj" "session_timeout (demo_entry obj) = -1"
  by (simp_all add: demo_entry_def session_tcp_object_def hev_socks5_session_tcp_get_node_def)


text \<open>
  C28: Stopping reaches every session. When the event task is woken, it clears \<open>run\<close> and walks the
  session set; after any history the walk makes no invalid access, ends, and has set the timeout of
  every session of the set to 0, on which a session that splices ends.
\<close>

theorem stop_reaches_sessions:
  assumes "ops_ok {} ops" and "session_run c no_sessions ops = Some s"
  shows "\<exists>s'. event_stop (nat (ts_session_count s)) s = Some s' \<and> \<not> ts_run s' \<and> dom (ts_session s') = dom (ts_session s) \<and>
    (\<forall>x self. ts_session s' x = Some self \<longrightarrow> session_timeout self = 0)"
proof -
  obtain xs T where a: "act_run (hev_config_get_misc_max_session_count c) ([], {}) ops = (xs, T)"
    by (cases "act_run (hev_config_get_misc_max_session_count c) ([], {}) ops")
  from session_run_rep [OF no_sessions_rep, of ops c] assms a have rep: "sessions_rep s (xs, T)" by auto
  then have rep': "sessions_rep (s\<lparr>ts_run := False\<rparr>) ([] @ xs, T)" by (simp add: sessions_rep_def)
  have n: "nat (ts_session_count s) = length xs" and first: "hev_list_first (ts_session_set s) = first_ptr xs NULL"
    using rep by (simp_all add: sessions_rep_def list_rep_def hev_list_first_def)
  from terminate_all_rep [OF rep', of "length xs"] obtain s' where
    s': "event_stop (nat (ts_session_count s)) s = Some s'" "sessions_rep s' (xs, T \<union> set xs)" "\<not> ts_run s'"
    by (auto simp: event_stop_def n first)
  have "dom (ts_session s') = dom (ts_session s)" using s'(2) rep by (simp add: sessions_rep_def)
  moreover have "session_timeout self = 0" if "ts_session s' x = Some self" for x self
  proof -
    have "x \<in> dom (ts_session s')" using that by blast
    then have "x \<in> set xs" using s'(2) by (simp add: sessions_rep_def)
    with s'(2) that show ?thesis by (auto simp: sessions_rep_def)
  qed
  ultimately show ?thesis using s'(1,3) by blast
qed

theorem stop_reaches_sessions_witness:
  "\<exists>s s'. session_run config_initial no_sessions [Enter (demo_entry 32) 1, Enter (demo_entry 64) 2] = Some s \<and>
    event_stop (nat (ts_session_count s)) s = Some s' \<and> (\<forall>x self. ts_session s' x = Some self \<longrightarrow> session_timeout self = 0)"
proof -
  let ?ops = "[Enter (demo_entry 32) 1, Enter (demo_entry 64) 2]"
  have ok: "ops_ok {} ?ops" by simp
  from session_run_rep [OF no_sessions_rep, of ?ops config_initial] ok obtain s where
    "session_run config_initial no_sessions ?ops = Some s" by (auto simp del: session_run.simps)
  with stop_reaches_sessions [OF ok this] show ?thesis by blast
qed

text \<open>
  A session that was told to end before it started does not end. The task of a new session
  starts by setting the timeout for connecting, so that it runs exactly as if \<open>hev_socks5_session_terminate\<close>
  had not been called: neither a full session set nor stopping the tunnel ends it.
\<close>

theorem early_terminate_lost:
  "hev_socks5_session_run pton bindf upstream c sv splicer (session_terminate self) =
   hev_socks5_session_run pton bindf upstream c sv splicer self"
  by (simp add: hev_socks5_session_run_def hev_socks5_client_connect_def session_terminate_def hev_socks5_set_timeout_def)

end
