(* ===== verification/Hev_Tunnel.thy ===== *)
theory Hev_Tunnel
  imports Hev_Tunnel_Sessions "HOL-Library.Multiset"
begin

text \<open>
  The tunnel (\<open>src/hev-socks5-tunnel.c\<close>): starting and stopping, the tasks that feed lwIP, and the
  handlers that turn a new connection into a session. A routine is a tree of its calls of the
  operating system, the task system, the TUN device and lwIP; a step relation says which answers
  are possible, what the calls change, and which are misuse.
\<close>

unbundle bit_operations_syntax

section \<open>Calls\<close>

text \<open>The objects that are created and released.\<close>

datatype obj = Task | Tcp_Pcb | Udp_Pcb | Mapped_DNS | Packet

text \<open>Calls with an integer result, or none (then the answer is not read).\<close>

datatype sys =
    Ioctl_Nonblock int
  | Tunnel_Open "cstring option" int
  | Tunnel_Set_Mtu u32
  | Tunnel_Set_Ipv4 cstring int
  | Tunnel_Set_Ipv6 cstring int
  | Tunnel_Set_State int
  | Exec_Run cstring bool
  | Tunnel_Close int
  | Tunnel_Read int u32
  | Close_Fd int
  | Netif_Init
  | Netif_Remove
  | Netif_Input addr
  | Tcp_Bind addr
  | Tcp_Accept addr
  | Udp_Bind addr
  | Udp_Recv addr
  | Udp_Reply addr "u8 list"
  | Task_Priority addr int
  | Task_Ref addr
  | Task_Run addr
  | Task_Wakeup addr
  | Task_Sleep
  | Task_Yield
  | System_Run
  | Ignore_Sigpipe
  | Mutex_Init
  | Mutex_Lock
  | Mutex_Unlock
  | Tcp_Tmr
  | Ip_Reass_Tmr
  | Nd6_Tmr
  | Ip6_Reass_Tmr

datatype 'a tun =
    Tun 'a
  | Fault
  | Sys sys "int \<Rightarrow> 'a tun"
  | Socketpair "int \<times> int \<times> int \<Rightarrow> 'a tun"
  | New obj "int list" "addr \<Rightarrow> 'a tun"
  | Listen addr "addr \<Rightarrow> 'a tun"
  | Drop obj addr "'a tun"
  | New_Session_TCP "(HevMappedDNS option \<times> HevSocks5SessionTCP option) io" "HevMappedDNS option \<times> HevSocks5SessionTCP option \<Rightarrow> 'a tun"
  | New_Session_UDP "HevSocks5SessionUDP option io" "HevSocks5SessionUDP option \<Rightarrow> 'a tun"
  | Session_Unref HevSocks5Session "'a tun"

primrec tun_bind :: "'a tun \<Rightarrow> ('a \<Rightarrow> 'b tun) \<Rightarrow> 'b tun" where
  "tun_bind (Tun x) c = c x"
| "tun_bind Fault c = Fault"
| "tun_bind (Sys s k) c = Sys s (\<lambda>r. tun_bind (k r) c)"
| "tun_bind (Socketpair k) c = Socketpair (\<lambda>r. tun_bind (k r) c)"
| "tun_bind (New obj as k) c = New obj as (\<lambda>r. tun_bind (k r) c)"
| "tun_bind (Listen p k) c = Listen p (\<lambda>r. tun_bind (k r) c)"
| "tun_bind (Drop obj p k) c = Drop obj p (tun_bind k c)"
| "tun_bind (New_Session_TCP p k) c = New_Session_TCP p (\<lambda>r. tun_bind (k r) c)"
| "tun_bind (New_Session_UDP p k) c = New_Session_UDP p (\<lambda>r. tun_bind (k r) c)"
| "tun_bind (Session_Unref s k) c = Session_Unref s (tun_bind k c)"

section \<open>State\<close>

text \<open>
  The static variables of the file. The session set is a part of its own; the mapped DNS is the
  pointer the singleton of \<open>hev-mapped-dns.c\<close> holds.
\<close>

record tunnel =
  tn_sessions :: tunnel_sessions
  tn_fd :: int
  tn_fd_local :: bool
  tn_event_fds :: "int \<times> int"
  stat_tx_packets :: "64 word"
  stat_rx_packets :: "64 word"
  stat_tx_bytes :: "64 word"
  stat_rx_bytes :: "64 word"
  tn_tcp :: addr
  tn_udp :: addr
  tn_task_event :: addr
  tn_task_lwip_io :: addr
  tn_task_lwip_timer :: addr
  tn_dns :: addr

definition tunnel_initial :: tunnel where
  "tunnel_initial = \<lparr>tn_sessions = \<lparr>ts_run = False, ts_session_count = 0, ts_session_set = \<lparr>list_head = NULL, list_tail = NULL\<rparr>,
       ts_heap = Map.empty, ts_session = Map.empty\<rparr>,
     tn_fd = -1, tn_fd_local = False, tn_event_fds = (-1, -1), stat_tx_packets = 0, stat_rx_packets = 0, stat_tx_bytes = 0,
     stat_rx_bytes = 0, tn_tcp = NULL, tn_udp = NULL, tn_task_event = NULL, tn_task_lwip_io = NULL, tn_task_lwip_timer = NULL, tn_dns = NULL\<rparr>"

abbreviation tn_run :: "tunnel \<Rightarrow> bool" where
  "tn_run t \<equiv> ts_run (tn_sessions t)"

definition hev_mapped_dns_get :: "tunnel \<Rightarrow> addr" where
  "hev_mapped_dns_get t = tn_dns t"

definition hev_mapped_dns_put :: "tunnel \<Rightarrow> addr \<Rightarrow> tunnel" where
  "hev_mapped_dns_put t dns = t\<lparr>tn_dns := dns\<rparr>"

section \<open>Packets\<close>

abbreviation (input) ERR_MEM :: int where "ERR_MEM \<equiv> -1"
abbreviation (input) ERR_IF :: int where "ERR_IF \<equiv> -12"
abbreviation (input) ERR_RST :: int where "ERR_RST \<equiv> -14"

text \<open>A packet lwIP sends: \<open>s\<close> is the result of writing it to the device, \<open>again\<close> whether \<open>errno\<close> is \<open>EAGAIN\<close>.\<close>

definition netif_output_handler :: "tunnel \<Rightarrow> int \<Rightarrow> bool \<Rightarrow> tunnel \<times> int" where
  "netif_output_handler t s again =
     (if s \<le> 0 then (t, if again then ERR_WOULDBLOCK else ERR_IF)
      else (t\<lparr>stat_rx_packets := stat_rx_packets t + 1, stat_rx_bytes := stat_rx_bytes t + word_of_int s\<rparr>, ERR_OK))"

definition tunnel_io_yielder :: "tunnel \<Rightarrow> int" where
  "tunnel_io_yielder t = (if tn_run t then 0 else -1)"

text \<open>
  One round of the task that reads the device, with \<open>hev_tunnel_read\<close> (\<open>src/hev-tunnel.h\<close>): a buffer is
  allocated, and freed again when the read gives nothing. \<open>input\<close> is what lwIP does with a packet, which calls
  the handlers and so changes the state; a packet it refuses is still the caller's.
\<close>

definition lwip_io_round :: "u32 \<Rightarrow> (tunnel \<Rightarrow> tunnel) \<Rightarrow> tunnel \<Rightarrow> tunnel tun" where
  "lwip_io_round mtu input t =
     New Packet [uint mtu] (\<lambda>buf.
       if buf = NULL then Tun t
       else Sys (Tunnel_Read (tn_fd t) mtu) (\<lambda>len.
         if len \<le> 0 then Drop Packet buf (Tun t)
         else
           let t = t\<lparr>stat_tx_packets := stat_tx_packets t + 1, stat_tx_bytes := stat_tx_bytes t + word_of_int len\<rparr>
           in Sys Mutex_Lock (\<lambda>_. Sys (Netif_Input buf) (\<lambda>err.
                let t = input t in
                if err \<noteq> ERR_OK then Drop Packet buf (Sys Mutex_Unlock (\<lambda>_. Tun t))
                else Sys Mutex_Unlock (\<lambda>_. Tun t)))))"

text \<open>One round of the timer task; \<open>i\<close> counts the rounds.\<close>

definition lwip_timer_round :: "u32 \<Rightarrow> tunnel \<Rightarrow> tunnel tun" where
  "lwip_timer_round i t =
     Sys Mutex_Lock (\<lambda>_. Sys Tcp_Tmr (\<lambda>_.
       let finish = Sys Mutex_Unlock (\<lambda>_.
         if hev_list_first (ts_session_set (tn_sessions t)) \<noteq> NULL then Sys Task_Sleep (\<lambda>_. Tun t) else Sys Task_Yield (\<lambda>_. Tun t))
       in if i AND 3 = 0 then Sys Ip_Reass_Tmr (\<lambda>_. Sys Nd6_Tmr (\<lambda>_. Sys Ip6_Reass_Tmr (\<lambda>_. finish))) else finish))"

section \<open>Handlers of new connections\<close>

text \<open>The two handlers run inside \<open>netif.input\<close>, with the mutex taken by the task that reads the device.\<close>

definition tcp_accept_handler ::
  "config \<Rightarrow> HevMappedDNS option \<Rightarrow> HevSocks5Addr \<Rightarrow> addr \<Rightarrow> ip_addr \<Rightarrow> u16 \<Rightarrow> addr \<Rightarrow> int \<Rightarrow> int \<Rightarrow> tunnel \<Rightarrow>
   (HevMappedDNS option \<times> tunnel \<times> int) tun" where
  "tcp_accept_handler c dns stk pcb local_ip local_port mutex base err t =
     (if err \<noteq> ERR_OK then Tun (dns, t, err)
      else if \<not> tn_run t then Tun (dns, t, ERR_RST)
      else New_Session_TCP (hev_socks5_session_tcp_new dns stk pcb local_ip local_port mutex base) (\<lambda>(dns, tcp). case tcp of
        None \<Rightarrow> Tun (dns, t, ERR_MEM)
      | Some tcp \<Rightarrow>
          New Task [hev_config_get_misc_task_stack_size c] (\<lambda>task.
            if task = NULL then Session_Unref (SessionTCP tcp) (Tun (dns, t, ERR_MEM))
            else case session_enter c (tn_sessions t) (SessionTCP tcp) task of
              None \<Rightarrow> Fault
            | Some s \<Rightarrow> Sys (Task_Run task) (\<lambda>_. Sys (Task_Wakeup (tn_task_lwip_timer t)) (\<lambda>_.
                Tun (dns, t\<lparr>tn_sessions := s\<rparr>, ERR_OK))))))"

text \<open>
  A new UDP connection to \<open>addr\<close>, \<open>port\<close>: the address of the mapped DNS gets a handler of its own,
  everything else a session.
\<close>

datatype udp_outcome = Refused | To_DNS | To_Session

definition tunnel_udp_recv_handler ::
  "config \<Rightarrow> HevConfigServer \<Rightarrow> addr \<Rightarrow> ip_addr \<Rightarrow> u16 \<Rightarrow> addr \<Rightarrow> int \<Rightarrow> tunnel \<Rightarrow> (tunnel \<times> udp_outcome) tun" where
  "tunnel_udp_recv_handler c sv pcb addr port mutex base t =
     (if \<not> tn_run t then Drop Udp_Pcb pcb (Tun (t, Refused))
      else
        let is_dns = (case addr of
              IPADDR_TYPE_V4 b \<Rightarrow> hev_mapped_dns_get t \<noteq> NULL \<and> hev_config_get_mapdns_port c = uint port \<and>
                hev_config_get_mapdns_address c = load32 b
            | _ \<Rightarrow> False)
        in if is_dns then Sys (Udp_Recv pcb) (\<lambda>_. Tun (t, To_DNS))
        else New_Session_UDP (hev_socks5_session_udp_new sv pcb mutex base) (\<lambda>udp. case udp of
          None \<Rightarrow> Drop Udp_Pcb pcb (Tun (t, Refused))
        | Some udp \<Rightarrow>
            New Task [hev_config_get_misc_task_stack_size c] (\<lambda>task.
              if task = NULL then Session_Unref (SessionUDP udp) (Tun (t, Refused))
              else case session_enter c (tn_sessions t) (SessionUDP udp) task of
                None \<Rightarrow> Fault
              | Some s \<Rightarrow> Sys (Task_Run task) (\<lambda>_. Sys (Task_Wakeup (tn_task_lwip_timer t)) (\<lambda>_.
                  Tun (t\<lparr>tn_sessions := s\<rparr>, To_Session))))))"

text \<open>A query to the mapped DNS: one reply, and the connection is removed. \<open>p\<close> is the packet, \<open>q\<close> its first buffer.\<close>

definition dns_recv_handler ::
  "(HevMappedDNS \<Rightarrow> addr option) \<Rightarrow> HevMappedDNS \<Rightarrow> addr \<Rightarrow> addr \<Rightarrow> u8 list \<Rightarrow> (addr \<Rightarrow> u8 list) \<Rightarrow> HevMappedDNS tun" where
  "dns_recv_handler malloc dns pcb p q mem =
     New Packet [int UDP_BUF_SIZE] (\<lambda>b.
       let finish = (\<lambda>dns. Drop Packet p (Sys (Udp_Recv pcb) (\<lambda>_. Drop Udp_Pcb pcb (Tun dns))))
       in if b = NULL then finish dns
       else case hev_mapped_dns_handle malloc dns q (mem b) of
         None \<Rightarrow> Fault
       | Some (dns, reply) \<Rightarrow>
           (case reply of
              None \<Rightarrow> Drop Packet b (finish dns)
            | Some (sb, res) \<Rightarrow> Sys (Udp_Reply pcb (take res sb)) (\<lambda>_. Drop Packet b (finish dns))))"

section \<open>Starting\<close>

definition tunnel_init :: "config \<Rightarrow> int \<Rightarrow> tunnel \<Rightarrow> (tunnel \<times> int) tun" where
  "tunnel_init c extern_tun_fd t =
     (if 0 \<le> extern_tun_fd then
        Sys (Ioctl_Nonblock extern_tun_fd) (\<lambda>res.
          if res < 0 then Tun (t, -1) else Tun (t\<lparr>tn_fd := extern_tun_fd\<rparr>, 0))
      else
        Sys (Tunnel_Open (hev_config_get_tunnel_name c) (hev_config_get_tunnel_multi_queue c)) (\<lambda>fd.
          let t = t\<lparr>tn_fd := fd\<rparr>;
              ready = (case hev_config_get_tunnel_post_up_script c of
                  Some script \<Rightarrow> Sys (Exec_Run script False) (\<lambda>_. Tun (t\<lparr>tn_fd_local := True\<rparr>, 0))
                | None \<Rightarrow> Tun (t\<lparr>tn_fd_local := True\<rparr>, 0));
              state = Sys (Tunnel_Set_State 1) (\<lambda>res. if res < 0 then Tun (t, -1) else ready);
              ipv6 = (case hev_config_get_tunnel_ipv6_address c of
                  Some ip \<Rightarrow> Sys (Tunnel_Set_Ipv6 ip 128) (\<lambda>res. if res < 0 then Tun (t, -1) else state)
                | None \<Rightarrow> state);
              ipv4 = (case hev_config_get_tunnel_ipv4_address c of
                  Some ip \<Rightarrow> Sys (Tunnel_Set_Ipv4 ip 32) (\<lambda>res. if res < 0 then Tun (t, -1) else ipv6)
                | None \<Rightarrow> ipv6)
          in if fd < 0 then Tun (t, -1)
          else Sys (Tunnel_Set_Mtu (hev_config_get_tunnel_mtu c)) (\<lambda>res. if res < 0 then Tun (t, -1) else ipv4)))"

definition gateway_init :: "tunnel \<Rightarrow> (tunnel \<times> int) tun" where
  "gateway_init t =
     Sys Netif_Init (\<lambda>_. New Tcp_Pcb [] (\<lambda>tcp. Sys (Tcp_Bind tcp) (\<lambda>_. Listen tcp (\<lambda>tcp. Sys (Tcp_Accept tcp) (\<lambda>_.
       let t = t\<lparr>tn_tcp := tcp\<rparr>
       in New Udp_Pcb [] (\<lambda>udp. Sys (Udp_Bind udp) (\<lambda>_. Sys (Udp_Recv udp) (\<lambda>_. Tun (t\<lparr>tn_udp := udp\<rparr>, 0)))))))))"

definition event_task_init :: "tunnel \<Rightarrow> (tunnel \<times> int) tun" where
  "event_task_init t =
     Socketpair (\<lambda>(res, fds).
       if res < 0 then Tun (t, -1)
       else
         let t = t\<lparr>tn_event_fds := fds\<rparr>
         in Sys (Ioctl_Nonblock (fst fds)) (\<lambda>res.
           if res < 0 then Tun (t, -1)
           else New Task [-1] (\<lambda>task.
             let t = t\<lparr>tn_task_event := task\<rparr>
             in if task = NULL then Tun (t, -1) else Tun (t, 0))))"

definition lwip_io_task_init :: "tunnel \<Rightarrow> (tunnel \<times> int) tun" where
  "lwip_io_task_init t =
     New Task [-1] (\<lambda>task.
       let t = t\<lparr>tn_task_lwip_io := task\<rparr>
       in if task = NULL then Tun (t, -1) else Sys (Task_Priority task 1) (\<lambda>_. Tun (t, 0)))"

definition lwip_timer_task_init :: "tunnel \<Rightarrow> (tunnel \<times> int) tun" where
  "lwip_timer_task_init t =
     New Task [-1] (\<lambda>task.
       let t = t\<lparr>tn_task_lwip_timer := task\<rparr>
       in if task = NULL then Tun (t, -1) else Sys (Task_Priority task 1) (\<lambda>_. Tun (t, 0)))"

definition mapped_dns_init :: "config \<Rightarrow> tunnel \<Rightarrow> (tunnel \<times> int) tun" where
  "mapped_dns_init c t =
     (let network = hev_config_get_mapdns_network c; netmask = hev_config_get_mapdns_netmask c;
          cache_size = hev_config_get_mapdns_cache_size c
      in if cache_size = 0 then Tun (t, 0)
      else New Mapped_DNS [uint network, uint netmask, cache_size] (\<lambda>dns.
        if dns = NULL then Tun (t, -1) else Tun (hev_mapped_dns_put t dns, 0)))"

section \<open>Stopping\<close>

definition tunnel_fini :: "config \<Rightarrow> tunnel \<Rightarrow> tunnel tun" where
  "tunnel_fini c t =
     (if \<not> tn_fd_local t then Tun t
      else
        let close = Sys (Tunnel_Close (tn_fd t)) (\<lambda>_. Tun (t\<lparr>tn_fd_local := False, tn_fd := -1\<rparr>))
        in case hev_config_get_tunnel_pre_down_script c of
          Some script \<Rightarrow> Sys (Exec_Run script True) (\<lambda>_. close)
        | None \<Rightarrow> close)"

definition gateway_fini :: "tunnel \<Rightarrow> tunnel tun" where
  "gateway_fini t = Drop Udp_Pcb (tn_udp t) (Drop Tcp_Pcb (tn_tcp t) (Sys Netif_Remove (\<lambda>_. Tun t)))"

definition event_task_fini :: "tunnel \<Rightarrow> tunnel tun" where
  "event_task_fini t =
     (let fds = (\<lambda>t.
            let second = (\<lambda>t. if 0 \<le> snd (tn_event_fds t)
                  then Sys (Close_Fd (snd (tn_event_fds t))) (\<lambda>_. Tun (t\<lparr>tn_event_fds := (fst (tn_event_fds t), -1)\<rparr>)) else Tun t)
            in if 0 \<le> fst (tn_event_fds t)
               then Sys (Close_Fd (fst (tn_event_fds t))) (\<lambda>_. second (t\<lparr>tn_event_fds := (-1, snd (tn_event_fds t))\<rparr>)) else second t)
      in if tn_task_event t \<noteq> NULL then Drop Task (tn_task_event t) (fds (t\<lparr>tn_task_event := NULL\<rparr>)) else fds t)"

definition lwip_io_task_fini :: "tunnel \<Rightarrow> tunnel tun" where
  "lwip_io_task_fini t =
     (if tn_task_lwip_io t \<noteq> NULL then Drop Task (tn_task_lwip_io t) (Tun (t\<lparr>tn_task_lwip_io := NULL\<rparr>)) else Tun t)"

definition lwip_timer_task_fini :: "tunnel \<Rightarrow> tunnel tun" where
  "lwip_timer_task_fini t =
     (if tn_task_lwip_timer t \<noteq> NULL then Drop Task (tn_task_lwip_timer t) (Tun (t\<lparr>tn_task_lwip_timer := NULL\<rparr>)) else Tun t)"

definition mapped_dns_fini :: "tunnel \<Rightarrow> tunnel tun" where
  "mapped_dns_fini t =
     (let dns = hev_mapped_dns_get t
      in if dns \<noteq> NULL then Drop Mapped_DNS dns (Tun (hev_mapped_dns_put t NULL)) else Tun t)"

definition hev_socks5_tunnel_fini :: "config \<Rightarrow> tunnel \<Rightarrow> tunnel tun" where
  "hev_socks5_tunnel_fini c t =
     tun_bind (mapped_dns_fini t) (\<lambda>t. tun_bind (lwip_timer_task_fini t) (\<lambda>t. tun_bind (lwip_io_task_fini t) (\<lambda>t.
     tun_bind (event_task_fini t) (\<lambda>t. tun_bind (gateway_fini t) (\<lambda>t. tun_bind (tunnel_fini c t) (\<lambda>t.
       Tun (t\<lparr>stat_tx_packets := 0, stat_rx_packets := 0, stat_tx_bytes := 0, stat_rx_bytes := 0\<rparr>)))))))"

text \<open>Each part in turn; the first one that fails undoes everything.\<close>

definition or_exit :: "config \<Rightarrow> (tunnel \<times> int) tun \<Rightarrow> (tunnel \<Rightarrow> (tunnel \<times> int) tun) \<Rightarrow> (tunnel \<times> int) tun" where
  "or_exit c p k = tun_bind p (\<lambda>(t, res).
     if res < 0 then tun_bind (hev_socks5_tunnel_fini c t) (\<lambda>t. Tun (t, -1)) else k t)"

definition hev_socks5_tunnel_init :: "config \<Rightarrow> int \<Rightarrow> tunnel \<Rightarrow> (tunnel \<times> int) tun" where
  "hev_socks5_tunnel_init c tun_fd t =
     or_exit c (tunnel_init c tun_fd t) (\<lambda>t. or_exit c (gateway_init t) (\<lambda>t. or_exit c (event_task_init t) (\<lambda>t.
     or_exit c (lwip_io_task_init t) (\<lambda>t. or_exit c (lwip_timer_task_init t) (\<lambda>t. or_exit c (mapped_dns_init c t) (\<lambda>t.
       Sys Ignore_Sigpipe (\<lambda>_. Sys Mutex_Init (\<lambda>_. Tun (t, 0)))))))))"

text \<open>Running: the tasks run until they have ended, each then giving up the reference that was taken for it.\<close>

definition hev_socks5_tunnel_run :: "tunnel \<Rightarrow> (tunnel \<times> int) tun" where
  "hev_socks5_tunnel_run t =
     Sys (Task_Ref (tn_task_event t)) (\<lambda>_. Sys (Task_Run (tn_task_event t)) (\<lambda>_.
     Sys (Task_Ref (tn_task_lwip_io t)) (\<lambda>_. Sys (Task_Run (tn_task_lwip_io t)) (\<lambda>_.
     Sys (Task_Ref (tn_task_lwip_timer t)) (\<lambda>_. Sys (Task_Run (tn_task_lwip_timer t)) (\<lambda>_.
       let t = t\<lparr>tn_sessions := (tn_sessions t)\<lparr>ts_run := True\<rparr>\<rparr>
       in Sys System_Run (\<lambda>_. Tun (t, 0))))))))"

text \<open>
  Another thread stops the tunnel: it reads the descriptor until it is there, and writes a byte. The
  argument are the values it reads, the result is the descriptor, or nothing while it waits.
\<close>

fun hev_socks5_tunnel_stop :: "int list \<Rightarrow> int option" where
  "hev_socks5_tunnel_stop [] = None"
| "hev_socks5_tunnel_stop (fd # fds) = (if 0 \<le> fd then Some fd else hev_socks5_tunnel_stop fds)"

text \<open>The counters, in the order of the parameters.\<close>

definition hev_socks5_tunnel_stats :: "tunnel \<Rightarrow> 64 word \<times> 64 word \<times> 64 word \<times> 64 word" where
  "hev_socks5_tunnel_stats t = (stat_tx_packets t, stat_tx_bytes t, stat_rx_packets t, stat_rx_bytes t)"

section \<open>Steps\<close>

text \<open>
  The open descriptors, the objects that exist, whether the interface is registered with lwIP, the
  mutex, and the resources of the sessions.
\<close>

record tun_env =
  te_fds :: "int set"
  te_objs :: "(obj \<times> addr) set"
  te_netif :: bool
  te_locked :: bool
  te_os :: world

text \<open>
  What a call requires: descriptors that are open, control blocks and tasks that exist, the mutex for
  the timers of lwIP. The descriptor of another process need not be valid to be made non-blocking.
\<close>

fun sys_pre :: "sys \<Rightarrow> tun_env \<Rightarrow> bool" where
  "sys_pre (Tunnel_Close fd) e \<longleftrightarrow> fd \<in> te_fds e"
| "sys_pre (Close_Fd fd) e \<longleftrightarrow> fd \<in> te_fds e"
| "sys_pre Netif_Init e \<longleftrightarrow> \<not> te_netif e"
| "sys_pre (Tcp_Bind p) e \<longleftrightarrow> (Tcp_Pcb, p) \<in> te_objs e"
| "sys_pre (Tcp_Accept p) e \<longleftrightarrow> (Tcp_Pcb, p) \<in> te_objs e"
| "sys_pre (Udp_Bind p) e \<longleftrightarrow> (Udp_Pcb, p) \<in> te_objs e"
| "sys_pre (Udp_Recv p) e \<longleftrightarrow> (Udp_Pcb, p) \<in> te_objs e"
| "sys_pre (Udp_Reply p bs) e \<longleftrightarrow> (Udp_Pcb, p) \<in> te_objs e"
| "sys_pre (Task_Priority p n) e \<longleftrightarrow> (Task, p) \<in> te_objs e"
| "sys_pre (Task_Ref p) e \<longleftrightarrow> (Task, p) \<in> te_objs e"
| "sys_pre (Task_Run p) e \<longleftrightarrow> (Task, p) \<in> te_objs e"
| "sys_pre (Task_Wakeup p) e \<longleftrightarrow> (Task, p) \<in> te_objs e"
| "sys_pre Mutex_Lock e \<longleftrightarrow> \<not> te_locked e"
| "sys_pre Mutex_Unlock e \<longleftrightarrow> te_locked e"
| "sys_pre (Netif_Input p) e \<longleftrightarrow> te_locked e \<and> (Packet, p) \<in> te_objs e"
| "sys_pre Tcp_Tmr e \<longleftrightarrow> te_locked e"
| "sys_pre Ip_Reass_Tmr e \<longleftrightarrow> te_locked e"
| "sys_pre Nd6_Tmr e \<longleftrightarrow> te_locked e"
| "sys_pre Ip6_Reass_Tmr e \<longleftrightarrow> te_locked e"
| "sys_pre s e \<longleftrightarrow> True"

fun sys_eff :: "sys \<Rightarrow> int \<Rightarrow> tun_env \<Rightarrow> tun_env" where
  "sys_eff (Tunnel_Open name mq) r e = (if 0 \<le> r then e\<lparr>te_fds := insert r (te_fds e)\<rparr> else e)"
| "sys_eff (Tunnel_Close fd) r e = e\<lparr>te_fds := te_fds e - {fd}\<rparr>"
| "sys_eff (Close_Fd fd) r e = e\<lparr>te_fds := te_fds e - {fd}\<rparr>"
| "sys_eff Netif_Init r e = e\<lparr>te_netif := True\<rparr>"
| "sys_eff Netif_Remove r e = e\<lparr>te_netif := False\<rparr>"
| "sys_eff (Netif_Input p) r e = (if r = ERR_OK then e\<lparr>te_objs := te_objs e - {(Packet, p)}\<rparr> else e)"
| "sys_eff Mutex_Lock r e = e\<lparr>te_locked := True\<rparr>"
| "sys_eff Mutex_Unlock r e = e\<lparr>te_locked := False\<rparr>"
| "sys_eff s r e = e"

fun sys_ret :: "sys \<Rightarrow> int \<Rightarrow> tun_env \<Rightarrow> bool" where
  "sys_ret (Tunnel_Open name mq) r e \<longleftrightarrow> r \<notin> te_fds e"
| "sys_ret s r e \<longleftrightarrow> True"

text \<open>An object can be released when it exists; lwIP also takes the null pointer for a control block.\<close>

definition can_drop :: "obj \<Rightarrow> addr \<Rightarrow> tun_env \<Rightarrow> bool" where
  "can_drop obj p e \<longleftrightarrow> (obj, p) \<in> te_objs e \<or> p = NULL \<and> obj \<in> {Tcp_Pcb, Udp_Pcb}"

text \<open>
  \<open>fails\<close> says which objects the allocator may refuse. While the task system runs, sessions come and go with
  resources of their own. Releasing the last reference of a session runs its
  destructor, which takes the mutex.
\<close>

inductive tun_step :: "(obj \<Rightarrow> bool) \<Rightarrow> 'a tun \<Rightarrow> tun_env \<Rightarrow> 'a tun \<Rightarrow> tun_env \<Rightarrow> bool" for fails where
  sys: "sys_pre s e \<Longrightarrow> sys_ret s r e \<Longrightarrow> tun_step fails (Sys s k) e (k r) (sys_eff s r e)"
| system_run: "tun_step fails (Sys System_Run k) e (k r) (e\<lparr>te_os := os\<rparr>)"
| socketpair_err: "r < 0 \<Longrightarrow> tun_step fails (Socketpair k1) e (k1 (r, fds)) e"
| socketpair: "0 \<le> a \<Longrightarrow> 0 \<le> b \<Longrightarrow> a \<noteq> b \<Longrightarrow> a \<notin> te_fds e \<Longrightarrow> b \<notin> te_fds e \<Longrightarrow>
    tun_step fails (Socketpair k1) e (k1 (0, a, b)) (e\<lparr>te_fds := insert a (insert b (te_fds e))\<rparr>)"
| new_null: "fails obj \<Longrightarrow> tun_step fails (New obj as k2) e (k2 NULL) e"
| new: "p \<noteq> NULL \<Longrightarrow> (obj, p) \<notin> te_objs e \<Longrightarrow> tun_step fails (New obj as k2) e (k2 p) (e\<lparr>te_objs := insert (obj, p) (te_objs e)\<rparr>)"
| listen_null: "fails Tcp_Pcb \<Longrightarrow> (Tcp_Pcb, p) \<in> te_objs e \<Longrightarrow> tun_step fails (Listen p k2) e (k2 NULL) e"
| listen: "(Tcp_Pcb, p) \<in> te_objs e \<Longrightarrow> q \<noteq> NULL \<Longrightarrow> (Tcp_Pcb, q) \<notin> te_objs e \<Longrightarrow>
    tun_step fails (Listen p k2) e (k2 q) (e\<lparr>te_objs := insert (Tcp_Pcb, q) (te_objs e - {(Tcp_Pcb, p)})\<rparr>)"
| drop: "can_drop obj p e \<Longrightarrow> tun_step fails (Drop obj p k3) e k3 (e\<lparr>te_objs := te_objs e - {(obj, p)}\<rparr>)"
| new_tcp: "io_steps prog4 (te_os e) (Ret r4) os \<Longrightarrow> tun_step fails (New_Session_TCP prog4 k4) e (k4 r4) (e\<lparr>te_os := os\<rparr>)"
| new_udp: "io_steps prog5 (te_os e) (Ret r5) os \<Longrightarrow> tun_step fails (New_Session_UDP prog5 k5) e (k5 r5) (e\<lparr>te_os := os\<rparr>)"
| session_unref: "\<not> te_locked e \<Longrightarrow> tun_step fails (Session_Unref ses k3) e k3 e"

inductive tun_steps :: "(obj \<Rightarrow> bool) \<Rightarrow> 'a tun \<Rightarrow> tun_env \<Rightarrow> 'a tun \<Rightarrow> tun_env \<Rightarrow> bool" for fails where
  tun_refl: "tun_steps fails p e p e"
| tun_more: "tun_step fails p e p1 e1 \<Longrightarrow> tun_steps fails p1 e1 p2 e2 \<Longrightarrow> tun_steps fails p e p2 e2"

inductive_simps tun_step_simps:
  "tun_step fails (Tun x) e p' e'" "tun_step fails Fault e p' e'" "tun_step fails (Sys s k) e p' e'"
  "tun_step fails (Socketpair k1) e p' e'" "tun_step fails (New obj as k2) e p' e'" "tun_step fails (Listen p k2) e p' e'"
  "tun_step fails (Drop obj p k3) e p' e'" "tun_step fails (New_Session_TCP prog4 k4) e p' e'"
  "tun_step fails (New_Session_UDP prog5 k5) e p' e'" "tun_step fails (Session_Unref ses k3) e p' e'"

text \<open>The next call of a program is no misuse.\<close>

fun proper :: "'a tun \<Rightarrow> tun_env \<Rightarrow> bool" where
  "proper Fault e \<longleftrightarrow> False"
| "proper (Sys s k) e \<longleftrightarrow> sys_pre s e"
| "proper (Listen p k) e \<longleftrightarrow> (Tcp_Pcb, p) \<in> te_objs e"
| "proper (Drop obj p k) e \<longleftrightarrow> can_drop obj p e"
| "proper (Session_Unref s k) e \<longleftrightarrow> \<not> te_locked e"
| "proper p e \<longleftrightarrow> True"

primrec tun_ok :: "(obj \<Rightarrow> bool) \<Rightarrow> ('a \<Rightarrow> tun_env \<Rightarrow> bool) \<Rightarrow> 'a tun \<Rightarrow> tun_env \<Rightarrow> bool" where
  "tun_ok fails Q (Tun x) e \<longleftrightarrow> Q x e"
| "tun_ok fails Q Fault e \<longleftrightarrow> False"
| "tun_ok fails Q (Sys s k) e \<longleftrightarrow> sys_pre s e \<and> (\<forall>r. sys_ret s r e \<longrightarrow> tun_ok fails Q (k r) (sys_eff s r e)) \<and>
     (s = System_Run \<longrightarrow> (\<forall>r os. tun_ok fails Q (k r) (e\<lparr>te_os := os\<rparr>)))"
| "tun_ok fails Q (Socketpair k) e \<longleftrightarrow> (\<forall>r fds. r < 0 \<longrightarrow> tun_ok fails Q (k (r, fds)) e) \<and>
     (\<forall>a b. 0 \<le> a \<longrightarrow> 0 \<le> b \<longrightarrow> a \<noteq> b \<longrightarrow> a \<notin> te_fds e \<longrightarrow> b \<notin> te_fds e \<longrightarrow>
       tun_ok fails Q (k (0, a, b)) (e\<lparr>te_fds := insert a (insert b (te_fds e))\<rparr>))"
| "tun_ok fails Q (New obj as k) e \<longleftrightarrow> (fails obj \<longrightarrow> tun_ok fails Q (k NULL) e) \<and>
     (\<forall>p. p \<noteq> NULL \<longrightarrow> (obj, p) \<notin> te_objs e \<longrightarrow> tun_ok fails Q (k p) (e\<lparr>te_objs := insert (obj, p) (te_objs e)\<rparr>))"
| "tun_ok fails Q (Listen p k) e \<longleftrightarrow> (Tcp_Pcb, p) \<in> te_objs e \<and> (fails Tcp_Pcb \<longrightarrow> tun_ok fails Q (k NULL) e) \<and>
     (\<forall>q. q \<noteq> NULL \<longrightarrow> (Tcp_Pcb, q) \<notin> te_objs e \<longrightarrow>
       tun_ok fails Q (k q) (e\<lparr>te_objs := insert (Tcp_Pcb, q) (te_objs e - {(Tcp_Pcb, p)})\<rparr>))"
| "tun_ok fails Q (Drop obj p k) e \<longleftrightarrow> can_drop obj p e \<and> tun_ok fails Q k (e\<lparr>te_objs := te_objs e - {(obj, p)}\<rparr>)"
| "tun_ok fails Q (New_Session_TCP p k) e \<longleftrightarrow> (\<forall>r os. io_steps p (te_os e) (Ret r) os \<longrightarrow> tun_ok fails Q (k r) (e\<lparr>te_os := os\<rparr>))"
| "tun_ok fails Q (New_Session_UDP p k) e \<longleftrightarrow> (\<forall>r os. io_steps p (te_os e) (Ret r) os \<longrightarrow> tun_ok fails Q (k r) (e\<lparr>te_os := os\<rparr>))"
| "tun_ok fails Q (Session_Unref s k) e \<longleftrightarrow> \<not> te_locked e \<and> tun_ok fails Q k e"

lemma tun_ok_bind [simp]: "tun_ok fails Q (tun_bind p c) e \<longleftrightarrow> tun_ok fails (\<lambda>x. tun_ok fails Q (c x)) p e"
  by (induction p arbitrary: e) simp_all

lemma tun_ok_step: "tun_step fails p e p' e' \<Longrightarrow> tun_ok fails Q p e \<Longrightarrow> tun_ok fails Q p' e'"
  by (induction rule: tun_step.induct) auto

lemma tun_ok_steps: "tun_steps fails p e p' e' \<Longrightarrow> tun_ok fails Q p e \<Longrightarrow> tun_ok fails Q p' e'"
  by (induction rule: tun_steps.induct) (auto dest: tun_ok_step)

lemma tun_ok_proper: "tun_ok fails Q p e \<Longrightarrow> proper p e"
  by (cases p) auto

lemma tun_ok_mono: "tun_ok fails P p e \<Longrightarrow> (\<And>x e'. P x e' \<Longrightarrow> Q x e') \<Longrightarrow> tun_ok fails Q p e"
  by (induction p arbitrary: e) auto

section \<open>What the tunnel owns\<close>

definition owns :: "int set \<Rightarrow> (obj \<times> addr) set \<Rightarrow> int list \<Rightarrow> (obj \<times> addr) list \<Rightarrow> tun_env \<Rightarrow> bool" where
  "owns F B fl ol e \<longleftrightarrow> te_fds e = F \<union> set fl \<and> distinct fl \<and> set fl \<inter> F = {} \<and>
     te_objs e = B \<union> set ol \<and> distinct ol \<and> set ol \<inter> B = {} \<and> (\<forall>obj. (obj, NULL) \<notin> te_objs e) \<and> \<not> te_locked e"

definition own :: "obj \<Rightarrow> addr \<Rightarrow> (obj \<times> addr) list" where
  "own obj p = (if p = NULL then [] else [(obj, p)])"

definition own_fd :: "int \<Rightarrow> int list" where
  "own_fd fd = (if fd < 0 then [] else [fd])"

definition own_tun :: "bool \<Rightarrow> int \<Rightarrow> int list" where
  "own_tun local fd = (if local then [fd] else [])"

text \<open>The descriptors and objects the static variables refer to, the last acquired first.\<close>

definition tunnel_fds :: "tunnel \<Rightarrow> int list" where
  "tunnel_fds t = own_fd (fst (tn_event_fds t)) @ own_fd (snd (tn_event_fds t)) @ own_tun (tn_fd_local t) (tn_fd t)"

definition tunnel_objs :: "tunnel \<Rightarrow> (obj \<times> addr) list" where
  "tunnel_objs t = own Mapped_DNS (tn_dns t) @ own Task (tn_task_lwip_timer t) @ own Task (tn_task_lwip_io t) @
     own Task (tn_task_event t) @ own Udp_Pcb (tn_udp t) @ own Tcp_Pcb (tn_tcp t)"

definition holds :: "int set \<Rightarrow> (obj \<times> addr) set \<Rightarrow> tunnel \<Rightarrow> tun_env \<Rightarrow> bool" where
  "holds F B t e \<longleftrightarrow> owns F B (tunnel_fds t) (tunnel_objs t) e"

lemma owns_upd [simp]:
  "owns F B fl ol (e\<lparr>te_netif := n\<rparr>) \<longleftrightarrow> owns F B fl ol e" "owns F B fl ol (e\<lparr>te_os := os\<rparr>) \<longleftrightarrow> owns F B fl ol e"
  by (simp_all add: owns_def)

lemma holds_os [simp]: "holds F B t (e\<lparr>te_os := os\<rparr>) \<longleftrightarrow> holds F B t e"
  by (simp add: holds_def)

text \<open>The parts of stopping release what is first in these lists.\<close>

lemma drop_first:
  assumes "owns F B fl (own obj p @ ol) e" and "p \<noteq> NULL \<or> obj \<in> {Tcp_Pcb, Udp_Pcb}"
    and "\<And>e'. owns F B fl ol e' \<Longrightarrow> te_netif e' = te_netif e \<Longrightarrow> tun_ok fails Q k e'"
  shows "tun_ok fails Q (Drop obj p k) e"
proof -
  have "owns F B fl ol (e\<lparr>te_objs := te_objs e - {(obj, p)}\<rparr>)" "can_drop obj p e"
    using assms(1,2) by (auto simp: owns_def own_def can_drop_def split: if_splits)
  with assms(3) show ?thesis by simp
qed

lemma close_first:
  assumes "owns F B (own_fd fd @ fl) ol e" and "0 \<le> fd"
    and "\<And>e'. owns F B fl ol e' \<Longrightarrow> te_netif e' = te_netif e \<Longrightarrow> tun_ok fails Q k e'"
  shows "tun_ok fails Q (Sys (Close_Fd fd) (\<lambda>_. k)) e"
proof -
  have "owns F B fl ol (e\<lparr>te_fds := te_fds e - {fd}\<rparr>)" "fd \<in> te_fds e"
    using assms(1,2) by (auto simp: owns_def own_fd_def split: if_splits)
  with assms(3) show ?thesis by simp
qed

lemma null_parts [simp]: "own obj NULL = []" "fd < 0 \<Longrightarrow> own_fd fd = []" "own_tun False fd = []"
  by (simp_all add: own_def own_fd_def own_tun_def)

lemma dns_fini_ok:
  assumes "owns F B fl (own Mapped_DNS (tn_dns t) @ ol) e"
    and "\<And>e'. owns F B fl ol e' \<Longrightarrow> te_netif e' = te_netif e \<Longrightarrow> Q (t\<lparr>tn_dns := NULL\<rparr>) e'"
  shows "tun_ok fails Q (mapped_dns_fini t) e"
proof (cases "tn_dns t = NULL")
  case True
  then have "t\<lparr>tn_dns := NULL\<rparr> = t" by (cases t) simp
  with True assms(2) [of e] assms(1) show ?thesis by (simp add: mapped_dns_fini_def hev_mapped_dns_get_def)
next
  case False
  with assms(2) show ?thesis
    by (auto simp: mapped_dns_fini_def hev_mapped_dns_get_def hev_mapped_dns_put_def Let_def simp del: tun_ok.simps(7)
      intro!: drop_first [OF assms(1)])
qed

lemma timer_fini_ok:
  assumes "owns F B fl (own Task (tn_task_lwip_timer t) @ ol) e"
    and "\<And>e'. owns F B fl ol e' \<Longrightarrow> te_netif e' = te_netif e \<Longrightarrow> Q (t\<lparr>tn_task_lwip_timer := NULL\<rparr>) e'"
  shows "tun_ok fails Q (lwip_timer_task_fini t) e"
proof (cases "tn_task_lwip_timer t = NULL")
  case True
  then have "t\<lparr>tn_task_lwip_timer := NULL\<rparr> = t" by (cases t) simp
  with True assms(2) [of e] assms(1) show ?thesis by (simp add: lwip_timer_task_fini_def)
next
  case False
  with assms(2) show ?thesis
    by (auto simp: lwip_timer_task_fini_def simp del: tun_ok.simps(7) intro!: drop_first [OF assms(1)])
qed

lemma io_fini_ok:
  assumes "owns F B fl (own Task (tn_task_lwip_io t) @ ol) e"
    and "\<And>e'. owns F B fl ol e' \<Longrightarrow> te_netif e' = te_netif e \<Longrightarrow> Q (t\<lparr>tn_task_lwip_io := NULL\<rparr>) e'"
  shows "tun_ok fails Q (lwip_io_task_fini t) e"
proof (cases "tn_task_lwip_io t = NULL")
  case True
  then have "t\<lparr>tn_task_lwip_io := NULL\<rparr> = t" by (cases t) simp
  with True assms(2) [of e] assms(1) show ?thesis by (simp add: lwip_io_task_fini_def)
next
  case False
  with assms(2) show ?thesis
    by (auto simp: lwip_io_task_fini_def simp del: tun_ok.simps(7) intro!: drop_first [OF assms(1)])
qed

lemma event_fini_ok:
  assumes o: "owns F B (own_fd (fst (tn_event_fds t)) @ own_fd (snd (tn_event_fds t)) @ fl) (own Task (tn_task_event t) @ ol) e"
    and Q: "\<And>t' e'. owns F B fl ol e' \<Longrightarrow> te_netif e' = te_netif e \<Longrightarrow> t'\<lparr>tn_task_event := NULL, tn_event_fds := (-1, -1)\<rparr> =
      t\<lparr>tn_task_event := NULL, tn_event_fds := (-1, -1)\<rparr> \<Longrightarrow> Q t' e'"
  shows "tun_ok fails Q (event_task_fini t) e"
proof -
  let ?keep = "\<lambda>t'. t'\<lparr>tn_task_event := NULL, tn_event_fds := (-1, -1)\<rparr> = t\<lparr>tn_task_event := NULL, tn_event_fds := (-1, -1)\<rparr>"
  let ?second = "\<lambda>t. if 0 \<le> snd (tn_event_fds t)
      then Sys (Close_Fd (snd (tn_event_fds t))) (\<lambda>_. Tun (t\<lparr>tn_event_fds := (fst (tn_event_fds t), -1)\<rparr>)) else Tun t"
  let ?fds = "\<lambda>t. if 0 \<le> fst (tn_event_fds t)
      then Sys (Close_Fd (fst (tn_event_fds t))) (\<lambda>_. ?second (t\<lparr>tn_event_fds := (-1, snd (tn_event_fds t))\<rparr>)) else ?second t"
  have second: "tun_ok fails Q (?second t') e'" if "owns F B (own_fd (snd (tn_event_fds t')) @ fl) ol e'" "te_netif e' = te_netif e" "?keep t'" for t' e'
  proof (cases "0 \<le> snd (tn_event_fds t')")
    case True
    have "tun_ok fails Q (Sys (Close_Fd (snd (tn_event_fds t'))) (\<lambda>_. Tun (t'\<lparr>tn_event_fds := (fst (tn_event_fds t'), -1)\<rparr>))) e'"
      by (rule close_first [OF that(1) True]) (use that(2,3) in \<open>auto intro!: Q\<close>)
    with True show ?thesis by simp
  next
    case False
    then show ?thesis using Q [of e' t'] that by simp
  qed
  have fds: "tun_ok fails Q (?fds t') e'" if "owns F B (own_fd (fst (tn_event_fds t')) @ own_fd (snd (tn_event_fds t')) @ fl) ol e'"
    "te_netif e' = te_netif e" "?keep t'" for t' e'
  proof (cases "0 \<le> fst (tn_event_fds t')")
    case True
    have "tun_ok fails Q (Sys (Close_Fd (fst (tn_event_fds t'))) (\<lambda>_. ?second (t'\<lparr>tn_event_fds := (-1, snd (tn_event_fds t'))\<rparr>))) e'"
      by (rule close_first [OF that(1) True], rule second) (use that(2,3) in simp_all)
    with True show ?thesis by simp
  next
    case False
    then show ?thesis using second [of t' e'] that by simp
  qed
  show ?thesis
  proof (cases "tn_task_event t = NULL")
    case True
    with fds [of t e] o show ?thesis by (simp add: event_task_fini_def Let_def)
  next
    case False
    have "tun_ok fails Q (Drop Task (tn_task_event t) (?fds (t\<lparr>tn_task_event := NULL\<rparr>))) e"
      by (rule drop_first [OF o], use False in simp, rule fds) (use False in simp_all)
    with False show ?thesis by (simp add: event_task_fini_def Let_def)
  qed
qed


lemma gateway_fini_ok:
  assumes "owns F B fl (own Udp_Pcb (tn_udp t) @ own Tcp_Pcb (tn_tcp t) @ ol) e"
    and Q: "\<And>e'. owns F B fl ol e' \<Longrightarrow> \<not> te_netif e' \<Longrightarrow> Q t e'"
  shows "tun_ok fails Q (gateway_fini t) e"
  unfolding gateway_fini_def by (rule drop_first [OF assms(1)], simp, erule drop_first, simp, simp add: Q)

lemma tunnel_fini_ok:
  assumes o: "owns F B (own_tun (tn_fd_local t) (tn_fd t)) ol e"
    and Q: "\<And>t' e'. owns F B [] ol e' \<Longrightarrow> te_netif e' = te_netif e \<Longrightarrow> \<not> tn_fd_local t' \<Longrightarrow> (tn_fd_local t \<or> t' = t) \<Longrightarrow>
      tn_run t' = tn_run t \<Longrightarrow> Q t' e'"
  shows "tun_ok fails Q (tunnel_fini c t) e"
proof (cases "tn_fd_local t")
  case True
  have "owns F B [] ol (e\<lparr>te_fds := te_fds e - {tn_fd t}\<rparr>)" "tn_fd t \<in> te_fds e"
    using o True by (auto simp: owns_def own_tun_def)
  then show ?thesis using Q True by (simp add: tunnel_fini_def Let_def split: option.split)
next
  case False
  with o Q [of e t] show ?thesis by (simp add: tunnel_fini_def own_tun_def)
qed

text \<open>Stopping gives back everything the tunnel owns.\<close>

lemma fini_ok:
  assumes o: "holds F B t e"
    and Q: "\<And>t' e'. te_fds e' = F \<Longrightarrow> te_objs e' = B \<Longrightarrow> \<not> te_netif e' \<Longrightarrow> \<not> te_locked e' \<Longrightarrow>
      (\<not> tn_fd_local t \<longrightarrow> tn_fd t' = tn_fd t) \<Longrightarrow> Q t' e'"
  shows "tun_ok fails Q (hev_socks5_tunnel_fini c t) e"
proof -
  let ?clear = "\<lambda>t. t\<lparr>tn_task_event := NULL, tn_event_fds := (-1, -1)\<rparr>"
  let ?fl = "\<lambda>t. own_tun (tn_fd_local t) (tn_fd t)"
  let ?ol = "\<lambda>t. own Udp_Pcb (tn_udp t) @ own Tcp_Pcb (tn_tcp t) @ []"
  let ?rest = "\<lambda>t. tun_ok fails (\<lambda>t. tun_ok fails (\<lambda>t. Q (t\<lparr>stat_tx_packets := 0, stat_rx_packets := 0, stat_tx_bytes := 0, stat_rx_bytes := 0\<rparr>))
    (tunnel_fini c t)) (gateway_fini t)"
  have rest: "?rest t2 e2" if o2: "owns F B (?fl t2) (?ol t2) e2" and eq: "tn_fd_local t2 = tn_fd_local t" "tn_fd t2 = tn_fd t" for t2 e2
  proof (rule gateway_fini_ok [OF o2], rule tunnel_fini_ok, assumption)
    fix t' e3 e' assume "owns F B [] [] e'" "te_netif e' = te_netif e3" "\<not> te_netif e3" "tn_fd_local t2 \<or> t' = t2"
    then show "Q (t'\<lparr>stat_tx_packets := 0, stat_rx_packets := 0, stat_tx_bytes := 0, stat_rx_bytes := 0\<rparr>) e'"
      using eq by (intro Q) (auto simp: owns_def)
  qed
  have event: "?rest t2 e2" if "owns F B (?fl t) (?ol t) e2" and eq: "?clear t2 = ?clear t1" and t1: "tn_fd_local t1 = tn_fd_local t"
    "tn_fd t1 = tn_fd t" "tn_udp t1 = tn_udp t" "tn_tcp t1 = tn_tcp t" for t1 t2 e2
    using that(1) t1 arg_cong [OF eq, of tn_udp] arg_cong [OF eq, of tn_tcp] arg_cong [OF eq, of tn_fd_local] arg_cong [OF eq, of tn_fd]
    by (intro rest) simp_all
  from o show ?thesis unfolding hev_socks5_tunnel_fini_def holds_def tunnel_fds_def tunnel_objs_def tun_ok_bind tun_ok.simps(1)
    by - (rule dns_fini_ok, assumption, rule timer_fini_ok, simp, rule io_fini_ok, simp, rule event_fini_ok, simp, rule event, simp, assumption, simp_all)
qed

section \<open>Starting acquires\<close>

lemma owns_perm:
  fixes fl fl' :: "int list" and ol ol' :: "(obj \<times> addr) list"
  assumes "mset fl = mset fl'" and "mset ol = mset ol'"
  shows "owns F B fl ol e \<longleftrightarrow> owns F B fl' ol' e"
  unfolding owns_def mset_eq_setD [OF assms(1)] mset_eq_setD [OF assms(2)]
    mset_eq_imp_distinct_iff [OF assms(1)] mset_eq_imp_distinct_iff [OF assms(2)] ..

lemma holds_new:
  assumes "holds F B t e" and "p \<noteq> NULL" "(obj, p) \<notin> te_objs e"
    and "mset (tunnel_fds t') = mset (tunnel_fds t)" "mset (tunnel_objs t') = add_mset (obj, p) (mset (tunnel_objs t))"
  shows "holds F B t' (e\<lparr>te_objs := insert (obj, p) (te_objs e)\<rparr>)"
proof -
  have "owns F B (tunnel_fds t) ((obj, p) # tunnel_objs t) (e\<lparr>te_objs := insert (obj, p) (te_objs e)\<rparr>)"
    using assms(1-3) by (auto simp: holds_def owns_def)
  then show ?thesis unfolding holds_def by (rule owns_perm [THEN iffD1, rotated 2]) (simp_all add: assms(4,5))
qed

definition started :: "int set \<Rightarrow> (obj \<times> addr) set \<Rightarrow> bool \<Rightarrow> (tunnel \<Rightarrow> bool) \<Rightarrow> tunnel \<times> int \<Rightarrow> tun_env \<Rightarrow> bool" where
  "started F B nif later r e \<longleftrightarrow> holds F B (fst r) e \<and> te_netif e = nif \<and> (snd r \<ge> 0 \<longrightarrow> later (fst r))"

lemma dns_init_ok:
  assumes "holds F B t e" and "tn_dns t = NULL" "tn_task_event t \<noteq> NULL" "tn_task_lwip_io t \<noteq> NULL" "tn_task_lwip_timer t \<noteq> NULL"
  shows "tun_ok fails (started F B (te_netif e)
    (\<lambda>t. tn_task_event t \<noteq> NULL \<and> tn_task_lwip_io t \<noteq> NULL \<and> tn_task_lwip_timer t \<noteq> NULL)) (mapped_dns_init c t) e"
  using assms by (auto simp: mapped_dns_init_def started_def hev_mapped_dns_put_def Let_def intro!: holds_new [OF assms(1)])
    (simp_all add: tunnel_fds_def tunnel_objs_def own_def)

lemma timer_init_ok:
  assumes "holds F B t e" and "tn_dns t = NULL" "tn_task_event t \<noteq> NULL" "tn_task_lwip_io t \<noteq> NULL" "tn_task_lwip_timer t = NULL"
  shows "tun_ok fails (started F B (te_netif e)
    (\<lambda>t. tn_dns t = NULL \<and> tn_task_event t \<noteq> NULL \<and> tn_task_lwip_io t \<noteq> NULL \<and> tn_task_lwip_timer t \<noteq> NULL)) (lwip_timer_task_init t) e"
proof -
  have "holds F B (t\<lparr>tn_task_lwip_timer := NULL\<rparr>) e" using assms(1,5) by (simp add: holds_def tunnel_fds_def tunnel_objs_def)
  with assms show ?thesis by (auto simp: lwip_timer_task_init_def started_def Let_def intro!: holds_new [OF assms(1)])
    (simp_all add: tunnel_fds_def tunnel_objs_def own_def)
qed

lemma io_init_ok:
  assumes "holds F B t e" and "tn_dns t = NULL" "tn_task_event t \<noteq> NULL" "tn_task_lwip_io t = NULL" "tn_task_lwip_timer t = NULL"
  shows "tun_ok fails (started F B (te_netif e)
    (\<lambda>t. tn_dns t = NULL \<and> tn_task_event t \<noteq> NULL \<and> tn_task_lwip_io t \<noteq> NULL \<and> tn_task_lwip_timer t = NULL)) (lwip_io_task_init t) e"
proof -
  have "holds F B (t\<lparr>tn_task_lwip_io := NULL\<rparr>) e" using assms(1,4) by (simp add: holds_def tunnel_fds_def tunnel_objs_def)
  with assms show ?thesis by (auto simp: lwip_io_task_init_def started_def Let_def intro!: holds_new [OF assms(1)])
    (simp_all add: tunnel_fds_def tunnel_objs_def own_def)
qed


lemma event_init_ok:
  assumes o: "holds F B t e" and "tn_dns t = NULL" "tn_task_event t = NULL" "tn_task_lwip_io t = NULL" "tn_task_lwip_timer t = NULL"
    and fds: "fst (tn_event_fds t) < 0" "snd (tn_event_fds t) < 0"
  shows "tun_ok fails (started F B (te_netif e)
    (\<lambda>t. tn_dns t = NULL \<and> tn_task_event t \<noteq> NULL \<and> tn_task_lwip_io t = NULL \<and> tn_task_lwip_timer t = NULL)) (event_task_init t) e"
proof -
  have task: "holds F B (t\<lparr>tn_event_fds := (a, b)\<rparr>) (e\<lparr>te_fds := insert a (insert b (te_fds e))\<rparr>)"
    if "0 \<le> a" "0 \<le> b" "a \<noteq> b" "a \<notin> te_fds e" "b \<notin> te_fds e" for a b
    using o that fds by (auto simp: holds_def owns_def tunnel_fds_def tunnel_objs_def own_fd_def)
  have null: "holds F B (t'\<lparr>tn_task_event := NULL\<rparr>) e'" if "holds F B t' e'" "tn_task_event t' = NULL" for t' e'
    using that by (simp add: holds_def tunnel_fds_def tunnel_objs_def)
  show ?thesis using assms(2-5) o
    by (auto simp: event_task_init_def started_def Let_def intro!: task null holds_new [OF task, simplified])
      (simp_all add: tunnel_fds_def tunnel_objs_def own_def)
qed


text \<open>The state before anything was started; \<open>idle\<close> leaves open what the device and the gateway refer to.\<close>

definition idle :: "tunnel \<Rightarrow> bool" where
  "idle t \<longleftrightarrow> tn_dns t = NULL \<and> tn_task_event t = NULL \<and> tn_task_lwip_io t = NULL \<and> tn_task_lwip_timer t = NULL \<and>
     fst (tn_event_fds t) < 0 \<and> snd (tn_event_fds t) < 0"

definition unused :: "tunnel \<Rightarrow> bool" where
  "unused t \<longleftrightarrow> idle t \<and> tn_udp t = NULL \<and> tn_tcp t = NULL \<and> \<not> tn_fd_local t"

lemma gateway_init_ok:
  assumes o: "holds F B t e" and "idle t" "tn_udp t = NULL" "tn_tcp t = NULL" and e: "\<not> te_netif e"
    and f: "\<not> fails Tcp_Pcb" "\<not> fails Udp_Pcb"
  shows "tun_ok fails (started F B True idle) (gateway_init t) e"
proof -
  have "holds F B (t\<lparr>tn_tcp := q, tn_udp := u\<rparr>) (e\<lparr>te_netif := True,
      te_objs := insert (Udp_Pcb, u) (insert (Tcp_Pcb, q) (insert (Tcp_Pcb, p) (te_objs e) - {(Tcp_Pcb, p)}))\<rparr>)"
    if "p \<noteq> NULL" "(Tcp_Pcb, p) \<notin> te_objs e" "q \<noteq> NULL" "q \<noteq> p" "(Tcp_Pcb, q) \<notin> te_objs e" "u \<noteq> NULL" "(Udp_Pcb, u) \<notin> te_objs e" for p q u
    using o that assms(2-4) by (auto simp: holds_def owns_def tunnel_fds_def tunnel_objs_def own_def idle_def)
  then show ?thesis using assms(2-4) f e by (auto simp: gateway_init_def started_def Let_def idle_def)
qed

lemma tunnel_init_ok:
  assumes o: "holds F B t e" and t: "unused t"
  shows "tun_ok fails (\<lambda>(t', res) e'. te_netif e' = te_netif e \<and> idle t' \<and> tn_udp t' = NULL \<and> tn_tcp t' = NULL \<and>
      (holds F B t' e' \<or> res < 0 \<and> fd < 0 \<and> \<not> tn_fd_local t' \<and> holds (insert (tn_fd t') F) B t' e')) (tunnel_init c fd t) e"
proof -
  have keep: "idle (t\<lparr>tn_fd := n\<rparr>)" "idle (t\<lparr>tn_fd := n, tn_fd_local := True\<rparr>)" "idle t" for n
    using t by (simp_all add: unused_def idle_def)
  have same: "holds F B (t\<lparr>tn_fd := n\<rparr>) e" for n
    using o t by (simp add: holds_def tunnel_fds_def tunnel_objs_def unused_def)
  have leak: "holds (insert n F) B (t\<lparr>tn_fd := n\<rparr>) (e\<lparr>te_fds := insert n (te_fds e)\<rparr>)" if "n \<notin> te_fds e" for n
    using o t that by (auto simp: holds_def owns_def tunnel_fds_def tunnel_objs_def unused_def idle_def)
  have up: "holds F B (t\<lparr>tn_fd := n, tn_fd_local := True\<rparr>) (e\<lparr>te_fds := insert n (te_fds e)\<rparr>)" if "n \<notin> te_fds e" for n
    using o t that by (auto simp: holds_def owns_def tunnel_fds_def tunnel_objs_def unused_def idle_def own_tun_def)
  show ?thesis using o keep same leak up t
    by (auto simp: tunnel_init_def Let_def unused_def split: option.split)
qed

lemma or_exit_ok:
  assumes p: "tun_ok fails (started F B n later) p e"
    and k: "\<And>t e'. holds F B t e' \<Longrightarrow> te_netif e' = n \<Longrightarrow> later t \<Longrightarrow> tun_ok fails Q (k t) e'"
    and x: "\<And>t' e'. te_fds e' = F \<Longrightarrow> te_objs e' = B \<Longrightarrow> \<not> te_netif e' \<Longrightarrow> \<not> te_locked e' \<Longrightarrow> Q (t', -1) e'"
  shows "tun_ok fails Q (or_exit c p k) e"
  unfolding or_exit_def tun_ok_bind
  by (rule tun_ok_mono [OF p]) (auto simp: started_def intro!: k fini_ok x)


definition init_post :: "int set \<Rightarrow> (obj \<times> addr) set \<Rightarrow> int \<Rightarrow> tunnel \<times> int \<Rightarrow> tun_env \<Rightarrow> bool" where
  "init_post F B fd r e \<longleftrightarrow>
     (if snd r < 0 then te_objs e = B \<and> \<not> te_netif e \<and> \<not> te_locked e \<and>
        (te_fds e = F \<or> fd < 0 \<and> te_fds e = insert (tn_fd (fst r)) F)
      else holds F B (fst r) e \<and> tn_task_event (fst r) \<noteq> NULL \<and> tn_task_lwip_io (fst r) \<noteq> NULL \<and> tn_task_lwip_timer (fst r) \<noteq> NULL)"

lemma init_ok:
  assumes o: "holds F B t e" and t: "unused t" and e: "\<not> te_netif e" and f: "\<not> fails Tcp_Pcb" "\<not> fails Udp_Pcb"
  shows "tun_ok fails (init_post F B fd) (hev_socks5_tunnel_init c fd t) e"
proof -
  have rest: "tun_ok fails (init_post F B fd) (or_exit c (gateway_init t) (\<lambda>t. or_exit c (event_task_init t) (\<lambda>t.
      or_exit c (lwip_io_task_init t) (\<lambda>t. or_exit c (lwip_timer_task_init t) (\<lambda>t. or_exit c (mapped_dns_init c t) (\<lambda>t.
        Sys Ignore_Sigpipe (\<lambda>_. Sys Mutex_Init (\<lambda>_. Tun (t, 0))))))))) e"
    if "holds F B t e" "\<not> te_netif e" "idle t" "tn_udp t = NULL" "tn_tcp t = NULL" for t e
    apply (rule or_exit_ok [OF gateway_init_ok])
    using that f apply simp_all[7]
     apply (rule or_exit_ok [OF event_init_ok], simp_all add: idle_def)[1]
      apply (rule or_exit_ok [OF io_init_ok], simp_all)[1]
       apply (rule or_exit_ok [OF timer_init_ok], simp_all)[1]
        apply (rule or_exit_ok [OF dns_init_ok], simp_all)[1]
    by (simp_all add: init_post_def)
  have exit: "tun_ok fails (\<lambda>t'. tun_ok fails (init_post F B fd) (Tun (t', -1))) (hev_socks5_tunnel_fini c t) e"
    if "holds F B t e \<or> fd < 0 \<and> \<not> tn_fd_local t \<and> holds (insert (tn_fd t) F) B t e" for t e
    using that
  proof
    assume "holds F B t e"
    then show ?thesis by (rule fini_ok) (simp add: init_post_def)
  next
    assume "fd < 0 \<and> \<not> tn_fd_local t \<and> holds (insert (tn_fd t) F) B t e"
    then show ?thesis by (elim conjE) (erule fini_ok, simp add: init_post_def)
  qed
  show ?thesis unfolding hev_socks5_tunnel_init_def or_exit_def [of c "tunnel_init c fd t"] tun_ok_bind
    by (rule tun_ok_mono [OF tunnel_init_ok [OF o t]]) (auto simp: e intro!: rest exit)
qed

text \<open>A whole life: started, run until it is stopped, and ended; this is the part of \<open>hev_socks5_tunnel_main_inner\<close> from line 74 on.\<close>

definition tunnel_life :: "config \<Rightarrow> int \<Rightarrow> tunnel \<Rightarrow> (tunnel \<times> int) tun" where
  "tunnel_life c fd t = tun_bind (hev_socks5_tunnel_init c fd t) (\<lambda>(t, res).
     if res < 0 then Tun (t, -5)
     else tun_bind (hev_socks5_tunnel_run t) (\<lambda>(t, _). tun_bind (hev_socks5_tunnel_fini c t) (\<lambda>t. Tun (t, 0))))"

lemma life_ok:
  assumes o: "holds F B t e" and t: "unused t" and e: "\<not> te_netif e" and f: "\<not> fails Tcp_Pcb" "\<not> fails Udp_Pcb"
  shows "tun_ok fails (\<lambda>(t', res) e'. te_objs e' = B \<and> \<not> te_netif e' \<and> \<not> te_locked e' \<and>
    (te_fds e' = F \<or> res < 0 \<and> fd < 0 \<and> te_fds e' = insert (tn_fd t') F)) (tunnel_life c fd t) e"
proof -
  have run: "holds F B (t\<lparr>tn_sessions := s\<rparr>) e" if "holds F B t e" for t s e
    using that by (simp add: holds_def tunnel_fds_def tunnel_objs_def)
  have task: "(Task, p) \<in> te_objs e" if "holds F B t e" "p \<noteq> NULL" "p \<in> {tn_task_event t, tn_task_lwip_io t, tn_task_lwip_timer t}" for p t e
    using that by (auto simp: holds_def owns_def tunnel_objs_def own_def)
  show ?thesis unfolding tunnel_life_def tun_ok_bind
    by (rule tun_ok_mono [OF init_ok [OF assms]])
      (auto simp: init_post_def hev_socks5_tunnel_run_def Let_def task split: if_splits intro!: fini_ok [OF run])
qed


text \<open>The rounds of the tasks hold the mutex where lwIP needs it and give it back, and no packet is leaked or freed twice.\<close>

lemma io_round_mutex:
  "\<not> te_locked e \<Longrightarrow> tun_ok fails (\<lambda>_ e'. \<not> te_locked e' \<and> te_objs e' = te_objs e) (lwip_io_round mtu input t) e"
  by (auto simp: lwip_io_round_def Let_def can_drop_def)

lemma timer_round_mutex:
  "\<not> te_locked e \<Longrightarrow> tun_ok fails (\<lambda>t' e'. t' = t \<and> \<not> te_locked e' \<and> te_objs e' = te_objs e) (lwip_timer_round i t) e"
  by (simp add: lwip_timer_round_def Let_def)

section \<open>Runs with given answers\<close>

datatype reply = R_int int | R_fds int int | R_new addr

fun tun_play :: "'a tun \<Rightarrow> reply list \<Rightarrow> tun_env \<Rightarrow> ('a tun \<times> tun_env) option" where
  "tun_play (Sys s k) (R_int r # as) e = (if sys_pre s e \<and> sys_ret s r e then tun_play (k r) as (sys_eff s r e) else None)"
| "tun_play (Socketpair k) (R_fds a b # as) e =
     (if 0 \<le> a \<and> 0 \<le> b \<and> a \<noteq> b \<and> a \<notin> te_fds e \<and> b \<notin> te_fds e
      then tun_play (k (0, a, b)) as (e\<lparr>te_fds := insert a (insert b (te_fds e))\<rparr>) else None)"
| "tun_play (New obj xs k) (R_new p # as) e =
     (if p \<noteq> NULL \<and> (obj, p) \<notin> te_objs e then tun_play (k p) as (e\<lparr>te_objs := insert (obj, p) (te_objs e)\<rparr>) else None)"
| "tun_play (Listen p k) (R_new q # as) e =
     (if (Tcp_Pcb, p) \<in> te_objs e \<and> q \<noteq> NULL \<and> (Tcp_Pcb, q) \<notin> te_objs e
      then tun_play (k q) as (e\<lparr>te_objs := insert (Tcp_Pcb, q) (te_objs e - {(Tcp_Pcb, p)})\<rparr>) else None)"
| "tun_play (Drop obj p k) (R_int r # as) e =
     (if can_drop obj p e then tun_play k as (e\<lparr>te_objs := te_objs e - {(obj, p)}\<rparr>) else None)"
| "tun_play p as e = Some (p, e)"

lemma tun_play_steps: "tun_play p as e = Some (p', e') \<Longrightarrow> tun_steps fails p e p' e'"
  by (induction p as e rule: tun_play.induct)
    (auto split: if_splits intro: tun_refl tun_more [OF tun_step.sys] tun_more [OF tun_step.socketpair] tun_more [OF tun_step.new]
      tun_more [OF tun_step.listen] tun_more [OF tun_step.drop])

section \<open>Properties\<close>


definition demo_env :: tun_env where
  "demo_env = \<lparr>te_fds = {0, 1, 2}, te_objs = {}, te_netif = False, te_locked = False,
     te_os = \<lparr>w_fds = {}, w_polled = {}, w_blocks = {}, w_refs = (\<lambda>_. 0)\<rparr>\<rparr>"

text \<open>The device is opened as descriptor 5, the pair of sockets as 6 and 7; everything succeeds.\<close>

definition demo_replies :: "reply list" where
  "demo_replies = [R_int 5, R_int 0, R_int 0] @
     [R_int 0, R_new 96, R_int 0, R_new 104, R_int 0, R_new 200, R_int 0, R_int 0] @
     [R_fds 6 7, R_int 0, R_new 304] @ [R_new 312, R_int 0] @ [R_new 320, R_int 0] @ [R_int 0, R_int 0] @
     [R_int 0, R_int 0, R_int 0, R_int 0, R_int 0, R_int 0, R_int 0] @ [R_int 0, R_int 0, R_int 0, R_int 0, R_int 0, R_int 0, R_int 0, R_int 0, R_int 0]"

lemma opt_string_zero: "buf ! 0 = 0 \<Longrightarrow> opt_string buf = None"
  by (simp add: opt_string_def)

lemma demo_config [simp]:
  "hev_config_get_tunnel_ipv4_address config_initial = None" "hev_config_get_tunnel_ipv6_address config_initial = None"
  "hev_config_get_tunnel_post_up_script config_initial = None" "hev_config_get_tunnel_pre_down_script config_initial = None"
  "hev_config_get_mapdns_cache_size config_initial = 0"
  unfolding hev_config_get_tunnel_ipv4_address_def hev_config_get_tunnel_ipv6_address_def
    hev_config_get_tunnel_post_up_script_def hev_config_get_tunnel_pre_down_script_def hev_config_get_mapdns_cache_size_def
  by (simp_all add: config_initial_def opt_string_zero)

lemma demo_life: "\<exists>t' e'. tun_play (tunnel_life config_initial (-1) tunnel_initial) demo_replies demo_env = Some (Tun (t', 0), e')"
  by (simp add: tunnel_life_def hev_socks5_tunnel_init_def or_exit_def tunnel_init_def gateway_init_def event_task_init_def
      lwip_io_task_init_def lwip_timer_task_init_def mapped_dns_init_def hev_socks5_tunnel_run_def hev_socks5_tunnel_fini_def
      mapped_dns_fini_def lwip_io_task_fini_def lwip_timer_task_fini_def event_task_fini_def gateway_fini_def tunnel_fini_def
      hev_mapped_dns_get_def Let_def demo_replies_def demo_env_def tunnel_initial_def can_drop_def)



text \<open>
  C36: A connection for which no task can be created stops the tunnel. lwIP calls the accept handler with the
  mutex taken by the task that reads the device; when the task of the new session cannot be created, the
  handler drops the session, whose destructor first takes the same mutex. The mutex is not recursive,
  so neither the handler nor the destructor makes another step: the task keeps the mutex for ever.
\<close>

theorem accept_without_task:
  assumes "tn_run t" "te_locked e" "fails Task"
    and "io_steps (hev_socks5_session_tcp_new dns stk pcb local_ip local_port mutex base) (te_os e) (Ret (dns', Some tcp)) os"
  shows "\<exists>p' e'. tun_steps fails (tcp_accept_handler c dns stk pcb local_ip local_port mutex base ERR_OK t) e p' e' \<and>
    p' = Session_Unref (SessionTCP tcp) (Tun (dns', t, ERR_MEM)) \<and> te_locked e' \<and> (\<forall>p2 e2. \<not> tun_step fails p' e' p2 e2) \<and>
    (\<forall>E w p2 w2. lw_locked w \<longrightarrow> \<not> ses_step E (hev_socks5_session_tcp_destruct tcp) w p2 w2)"
proof (intro exI conjI)
  let ?created = "\<lambda>(dns, tcp). case tcp of None \<Rightarrow> Tun (dns, t, ERR_MEM) | Some tcp \<Rightarrow>
    New Task [hev_config_get_misc_task_stack_size c] (\<lambda>task.
      if task = NULL then Session_Unref (SessionTCP tcp) (Tun (dns, t, ERR_MEM))
      else case session_enter c (tn_sessions t) (SessionTCP tcp) task of
        None \<Rightarrow> Fault
      | Some s \<Rightarrow> Sys (Task_Run task) (\<lambda>_. Sys (Task_Wakeup (tn_task_lwip_timer t)) (\<lambda>_. Tun (dns, t\<lparr>tn_sessions := s\<rparr>, ERR_OK))))"
  have "tcp_accept_handler c dns stk pcb local_ip local_port mutex base ERR_OK t =
      New_Session_TCP (hev_socks5_session_tcp_new dns stk pcb local_ip local_port mutex base) ?created"
    using assms(1) by (simp add: tcp_accept_handler_def)
  note handler = this
  have new: "tun_step fails (New_Session_TCP (hev_socks5_session_tcp_new dns stk pcb local_ip local_port mutex base) ?created) e
      (?created (dns', Some tcp)) (e\<lparr>te_os := os\<rparr>)"
    by (rule tun_step.new_tcp [OF assms(4)])
  have none: "tun_step fails (?created (dns', Some tcp)) (e\<lparr>te_os := os\<rparr>)
      (Session_Unref (SessionTCP tcp) (Tun (dns', t, ERR_MEM))) (e\<lparr>te_os := os\<rparr>)"
    using assms(3) by (simp add: tun_step_simps)
  show "tun_steps fails (tcp_accept_handler c dns stk pcb local_ip local_port mutex base ERR_OK t) e
      (Session_Unref (SessionTCP tcp) (Tun (dns', t, ERR_MEM))) (e\<lparr>te_os := os\<rparr>)"
    unfolding handler by (rule tun_more [OF new tun_more [OF none tun_refl]])
qed (use assms(2) in \<open>simp_all add: tun_step_simps ses_step_simps hev_socks5_session_tcp_destruct_def\<close>)

text \<open>A connection to 10.0.0.1, port 80; the object is block 64 and the copy of the address block 72.\<close>

lemma demo_accept:
  "\<exists>tcp os. io_steps (hev_socks5_session_tcp_new None (replicate 512 0) 96 (IPADDR_TYPE_V4 [10, 0, 0, 1]) 80 8 0) (te_os demo_env)
     (Ret (None, Some tcp)) os"
proof -
  let ?addr = "fst (hev_socks5_addr_from_ipv4 (replicate 512 0) [10, 0, 0, 1] (htons 80))"
  let ?b = "fst (hev_socks5_client_construct 0 (ClientTCP None) HEV_SOCKS5_TYPE_TCP)"
  have len: "hev_socks5_addr_len ?addr = 7"
    by code_simp
  have con: "hev_socks5_session_tcp_construct None (replicate 512 0) 64 96 (IPADDR_TYPE_V4 [10, 0, 0, 1]) 80 8 0 =
      Malloc (\<lambda>p. if p = NULL then Ret (None, None)
        else Ret (None, Some (session_tcp_object 64 (?b\<lparr>cl_kind := ClientTCP (Some (p, take 7 ?addr))\<rparr>) 96 8)))"
    by (auto simp: hev_socks5_session_tcp_construct_def hev_socks5_addr_from_lwip_def hev_socks5_client_tcp_construct_def
        hev_socks5_client_construct_def hev_socks5_construct_def Let_def len split: prod.splits)
  have m1: "io_step (Malloc k) (te_os demo_env) (k 64) (te_os demo_env\<lparr>w_blocks := {64}\<rparr>)" for k :: "addr \<Rightarrow> 'a io"
    using io_step.malloc_block [of 64 "te_os demo_env" k] by (simp add: demo_env_def)
  have m2: "io_step (Malloc k) (te_os demo_env\<lparr>w_blocks := {64}\<rparr>) (k 72) (te_os demo_env\<lparr>w_blocks := {72, 64}\<rparr>)" for k :: "addr \<Rightarrow> 'a io"
    using io_step.malloc_block [of 72 "te_os demo_env\<lparr>w_blocks := {64}\<rparr>" k] by (simp add: demo_env_def)
  show ?thesis unfolding hev_socks5_session_tcp_new_def
    by (intro exI, rule io_steps_step [OF m1], simp add: con, rule io_steps_step [OF m2], simp, rule io_steps_refl)
qed


theorem accept_without_task_witness:
  "\<exists>tcp p' e'. tun_steps (\<lambda>obj. obj = Task) (tcp_accept_handler config_initial None (replicate 512 0) 96 (IPADDR_TYPE_V4 [10, 0, 0, 1]) 80 8 0 ERR_OK
      (tunnel_initial\<lparr>tn_sessions := no_sessions\<rparr>)) (demo_env\<lparr>te_locked := True\<rparr>) p' e' \<and>
    p' = Session_Unref (SessionTCP tcp) (Tun (None, tunnel_initial\<lparr>tn_sessions := no_sessions\<rparr>, ERR_MEM)) \<and>
    (\<forall>p2 e2. \<not> tun_step (\<lambda>obj. obj = Task) p' e' p2 e2)"
proof -
  have "te_os (demo_env\<lparr>te_locked := True\<rparr>) = te_os demo_env" by simp
  with demo_accept obtain tcp os where io: "io_steps (hev_socks5_session_tcp_new None (replicate 512 0) 96 (IPADDR_TYPE_V4 [10, 0, 0, 1]) 80 8 0)
      (te_os (demo_env\<lparr>te_locked := True\<rparr>)) (Ret (None, Some tcp)) os" by metis
  have "tn_run (tunnel_initial\<lparr>tn_sessions := no_sessions\<rparr>)" by (simp add: no_sessions_def)
  from accept_without_task [OF this _ _ io, of "\<lambda>obj. obj = Task" config_initial] show ?thesis by fastforce
qed

text \<open>Otherwise the handler enters the session it created and starts its task, without misuse.\<close>

lemma accept_enters:
  assumes "tn_run t" "te_locked e" "\<not> fails Task" "(Task, tn_task_lwip_timer t) \<in> te_objs e" and rep: "sessions_rep (tn_sessions t) (xs, T)"
    and new: "\<And>dns tcp os. io_steps (hev_socks5_session_tcp_new dns0 stk pcb local_ip local_port mutex base) (te_os e) (Ret (dns, Some tcp)) os \<Longrightarrow>
      hev_socks5_session_tcp_get_node tcp \<notin> set xs \<union> {NULL} \<and> session_timeout (SessionTCP tcp) \<noteq> 0"
  shows "tun_ok fails (\<lambda>(dns, t', err) e'. te_locked e' \<and> (err = ERR_MEM \<and> t' = t \<or> err = ERR_OK \<and>
      (\<exists>node. sessions_rep (tn_sessions t') (act_enter (hev_config_get_misc_max_session_count c) node (xs, T)))))
    (tcp_accept_handler c dns0 stk pcb local_ip local_port mutex base ERR_OK t) e"
proof -
  have enter: "\<exists>s node. session_enter c (tn_sessions t) (SessionTCP tcp) task = Some s \<and>
      sessions_rep s (act_enter (hev_config_get_misc_max_session_count c) node (xs, T))"
    if "io_steps (hev_socks5_session_tcp_new dns0 stk pcb local_ip local_port mutex base) (te_os e) (Ret (dns, Some tcp)) os" for dns tcp os task
    using enter_rep [OF rep refl, of "SessionTCP tcp" c task] new [OF that] by (simp del: act_enter_def) blast
  show ?thesis using assms(1-4)
    by (auto simp: tcp_accept_handler_def split: option.split) (metis enter option.distinct(1), metis enter option.inject)
qed

text \<open>
  Stopping leaves the pointers to the control blocks of the gateway in place. When a second start fails before the
  gateway is there, they are released a second time.
\<close>

lemma tunnel_restart_stale:
  assumes "idle t" "tn_udp t \<noteq> NULL" "(Udp_Pcb, tn_udp t) \<notin> te_objs e" "0 \<le> fd"
  shows "\<exists>p' e'. tun_steps fails (hev_socks5_tunnel_init c fd t) e p' e' \<and> \<not> proper p' e'"
proof -
  have "event_task_fini t = Tun t" using assms(1) by (simp add: event_task_fini_def idle_def Let_def)
  then have "\<exists>k. hev_socks5_tunnel_fini c t = Drop Udp_Pcb (tn_udp t) k"
    using assms(1) by (simp add: hev_socks5_tunnel_fini_def idle_def mapped_dns_fini_def lwip_timer_task_fini_def lwip_io_task_fini_def
        gateway_fini_def hev_mapped_dns_get_def)
  then obtain k where k: "hev_socks5_tunnel_fini c t = Drop Udp_Pcb (tn_udp t) k" ..
  define q where "q = hev_socks5_tunnel_init c fd t"
  obtain k1 k2 where "q = Sys (Ioctl_Nonblock fd) k1" "k1 (-1) = Drop Udp_Pcb (tn_udp t) k2"
    using assms(4) k by (simp add: q_def hev_socks5_tunnel_init_def or_exit_def tunnel_init_def)
  then have "tun_step fails q e (Drop Udp_Pcb (tn_udp t) k2) e" "\<not> proper (Drop Udp_Pcb (tn_udp t) k2) e"
    using tun_step.sys [of "Ioctl_Nonblock fd" e "-1" fails k1] assms(2,3) by (simp_all add: can_drop_def)
  then show ?thesis unfolding q_def by (blast intro: tun_more tun_refl)
qed


text \<open>A query to the mapped DNS takes its packet and its connection, whatever it holds, and leaves nothing behind.\<close>

lemma dns_query_resources:
  assumes "(Packet, p) \<in> te_objs e" "(Udp_Pcb, pcb) \<in> te_objs e" "(Packet, NULL) \<notin> te_objs e"
    and "\<And>b. hev_mapped_dns_handle malloc dns q (mem b) \<noteq> None"
  shows "tun_ok fails (\<lambda>_ e'. te_objs e' = te_objs e - {(Packet, p), (Udp_Pcb, pcb)} \<and> te_fds e' = te_fds e)
    (dns_recv_handler malloc dns pcb p q mem) e"
proof -
  have fin: "insert (Packet, b) (te_objs e) - {(Packet, b)} - {(Packet, p)} - {(Udp_Pcb, pcb)} = te_objs e - {(Packet, p), (Udp_Pcb, pcb)}"
    if "(Packet, b) \<notin> te_objs e" for b
    using that by blast
  have two: "te_objs e - {(Packet, p)} - {(Udp_Pcb, pcb)} = te_objs e - {(Packet, p), (Udp_Pcb, pcb)}" by blast
  show ?thesis using assms
    by (auto simp: dns_recv_handler_def Let_def can_drop_def fin two split: option.split) (metis option.distinct(1))
qed

end
