(* ===== verification/Hev_Main.thy ===== *)
theory Hev_Main
  imports Hev_Tunnel
begin

text \<open>
  The program around the tunnel: the two loggers (\<open>src/misc/hev-logger.c\<close> and its copy
  \<open>src/core/src/hev-socks5-logger.c\<close>), the limit of open files and the pid file (\<open>src/misc/hev-utils.c\<close>), and the
  order in which \<open>hev_socks5_tunnel_main_inner\<close> (\<open>src/hev-main.c\<close>) brings the parts up and takes them
  down. The answers of the system are arguments.
\<close>

section \<open>Loggers\<close>

record logger =
  lg_fd :: int
  req_level :: HevLoggerLevel

definition logger_initial :: logger where
  "logger_initial = \<lparr>lg_fd = -1, req_level = HEV_LOGGER_DEBUG\<rparr>"

fun level_num :: "HevLoggerLevel \<Rightarrow> nat" where
  "level_num HEV_LOGGER_DEBUG = 0"
| "level_num HEV_LOGGER_INFO = 1"
| "level_num HEV_LOGGER_WARN = 2"
| "level_num HEV_LOGGER_ERROR = 3"
| "level_num HEV_LOGGER_UNSET = 4"

text \<open>The levels in the order of the enumeration.\<close>

instantiation HevLoggerLevel :: linorder
begin

definition less_eq_HevLoggerLevel :: "HevLoggerLevel \<Rightarrow> HevLoggerLevel \<Rightarrow> bool" where
  "less_eq_HevLoggerLevel a b \<longleftrightarrow> level_num a \<le> level_num b"

definition less_HevLoggerLevel :: "HevLoggerLevel \<Rightarrow> HevLoggerLevel \<Rightarrow> bool" where
  "less_HevLoggerLevel a b \<longleftrightarrow> level_num a < level_num b"

instance
proof
  fix a b :: HevLoggerLevel
  assume "a \<le> b" "b \<le> a"
  then show "a = b" by (cases a; cases b) (simp_all add: less_eq_HevLoggerLevel_def)
qed (auto simp: less_eq_HevLoggerLevel_def less_HevLoggerLevel_def)

end

datatype log_target = Dup int | Open_Append cstring

definition log_target_of :: "cstring \<Rightarrow> log_target" where
  "log_target_of path = (if path = str ''stdout'' then Dup 1 else if path = str ''stderr'' then Dup 2 else Open_Append path)"

text \<open>\<open>opened\<close> is the descriptor the system answers. Finalising closes it and keeps its number.\<close>

definition hev_logger_init :: "HevLoggerLevel \<Rightarrow> cstring \<Rightarrow> (log_target \<Rightarrow> int) \<Rightarrow> logger \<Rightarrow> logger \<times> int" where
  "hev_logger_init level path opened l =
     (let l = l\<lparr>req_level := level, lg_fd := opened (log_target_of path)\<rparr>
      in if lg_fd l < 0 then (l, -1) else (l, 0))"

definition hev_logger_fini :: "logger \<Rightarrow> int" where
  "hev_logger_fini l = lg_fd l"

definition hev_logger_enabled :: "HevLoggerLevel \<Rightarrow> logger \<Rightarrow> bool" where
  "hev_logger_enabled level l \<longleftrightarrow> req_level l \<le> level \<and> 0 \<le> lg_fd l"

record tm =
  tm_year :: nat
  tm_mon :: nat
  tm_mday :: nat
  tm_hour :: nat
  tm_min :: nat
  tm_sec :: nat

text \<open>A number with at least \<open>w\<close> digits, and the time stamp of a line.\<close>

definition pad :: "nat \<Rightarrow> nat \<Rightarrow> cstring" where
  "pad w n = replicate (w - length (digits n)) 48 @ digits n"

definition time_stamp :: "tm \<Rightarrow> cstring" where
  "time_stamp ti = str ''['' @ pad 4 (1900 + tm_year ti) @ str ''-'' @ pad 2 (1 + tm_mon ti) @ str ''-'' @ pad 2 (tm_mday ti) @
     str '' '' @ pad 2 (tm_hour ti) @ str '':'' @ pad 2 (tm_min ti) @ str '':'' @ pad 2 (tm_sec ti) @ str ''] ''"

text \<open>\<open>snprintf\<close> into a buffer: what fits, a terminator, and the rest of the buffer; the result is the whole length.\<close>

definition snprintf :: "u8 list \<Rightarrow> cstring \<Rightarrow> u8 list \<times> nat" where
  "snprintf buf s = (take (length buf - 1) s @ [0] @ drop (Suc (min (length buf - 1) (length s))) buf, length s)"

fun level_tag :: "HevLoggerLevel \<Rightarrow> cstring" where
  "level_tag HEV_LOGGER_DEBUG = str ''[D] ''"
| "level_tag HEV_LOGGER_INFO = str ''[I] ''"
| "level_tag HEV_LOGGER_WARN = str ''[W] ''"
| "level_tag HEV_LOGGER_ERROR = str ''[E] ''"
| "level_tag HEV_LOGGER_UNSET = str ''[?] ''"

text \<open>A segment of \<open>n\<close> bytes of a buffer; beyond its end the access is invalid.\<close>

definition segment :: "u8 list \<Rightarrow> nat \<Rightarrow> u8 list option" where
  "segment buf n = (if n \<le> length buf then Some (take n buf) else None)"

text \<open>
  A line: \<open>fmt\<close> is the formatted message, \<open>ts0\<close> and \<open>msg0\<close> the buffers before, 32 and 1024 bytes. The
  result is invalid, or the bytes that are written, if any.
\<close>

definition hev_logger_log :: "HevLoggerLevel \<Rightarrow> cstring \<Rightarrow> tm \<Rightarrow> u8 list \<Rightarrow> u8 list \<Rightarrow> logger \<Rightarrow> u8 list option option" where
  "hev_logger_log level fmt ti ts0 msg0 l =
     (if level < req_level l \<or> lg_fd l < 0 then Some None
      else
        let (ts, len) = snprintf ts0 (time_stamp ti);
            (msg, n) = snprintf msg0 fmt
        in do { a \<leftarrow> segment ts len; b \<leftarrow> segment msg n; Some (Some (a @ level_tag level @ b @ [10])) })"

text \<open>The logger of the SOCKS5 library is a second copy.\<close>

definition hev_socks5_logger_init :: "HevLoggerLevel \<Rightarrow> cstring \<Rightarrow> (log_target \<Rightarrow> int) \<Rightarrow> logger \<Rightarrow> logger \<times> int" where
  "hev_socks5_logger_init level path opened l =
     (let l = l\<lparr>req_level := level, lg_fd := opened (log_target_of path)\<rparr>
      in if lg_fd l < 0 then (l, -1) else (l, 0))"

definition hev_socks5_logger_fini :: "logger \<Rightarrow> int" where
  "hev_socks5_logger_fini l = lg_fd l"

section \<open>Limits and the pid file\<close>

text \<open>The calls of \<open>setrlimit\<close> as pairs of the limits, and the result. \<open>hard\<close> is the hard limit.\<close>

definition set_limit_nofile :: "int \<Rightarrow> int \<Rightarrow> 64 word \<Rightarrow> (64 word \<times> 64 word \<Rightarrow> int) \<Rightarrow> (64 word \<times> 64 word) list \<times> int" where
  "set_limit_nofile limit got hard setr =
     (if got < 0 then ([], -1)
      else if setr (hard, hard) < 0 then ([(hard, hard)], -1)
      else let n = word_of_int limit in ([(hard, hard), (n, n)], setr (n, n)))"

text \<open>What is written to the pid file, once the process is in the background; nothing when it cannot be opened.\<close>

definition run_as_daemon :: "bool \<Rightarrow> nat \<Rightarrow> cstring option" where
  "run_as_daemon opened pid = (if \<not> opened then None else Some (digits pid @ [10]))"

section \<open>The main function\<close>

text \<open>
  The parts that are up, the limits of open files that were asked for, and what was written to the pid file.
\<close>

record process =
  pr_logger :: logger
  pr_socks_logger :: logger
  pr_fds :: "int set"
  pr_settings :: socks5_settings
  pr_limits :: "(64 word \<times> 64 word) list"
  pr_system :: bool
  pr_pid :: "cstring option"

record answers =
  an_log :: "log_target \<Rightarrow> int"
  an_socks_log :: "log_target \<Rightarrow> int"
  an_getrlimit :: int
  an_hard :: "64 word"
  an_setrlimit :: "64 word \<times> 64 word \<Rightarrow> int"
  an_pid_file :: bool
  an_pid :: nat
  an_system :: int
  an_tunnel :: int

definition main_settings :: "config \<Rightarrow> socks5_settings \<Rightarrow> socks5_settings" where
  "main_settings c s =
     (let s = hev_socks5_set_connect_timeout s (hev_config_get_misc_connect_timeout c);
          s = hev_socks5_set_tcp_timeout s (hev_config_get_misc_tcp_read_write_timeout c);
          s = hev_socks5_set_udp_timeout s (hev_config_get_misc_udp_read_write_timeout c)
      in hev_socks5_set_udp_recv_buffer_size s (hev_config_get_misc_udp_recv_buffer_size c))"

text \<open>\<open>an_tunnel\<close> is the result of the tunnel, which is negative when it could not be started; see \<open>tunnel_life\<close>.\<close>

definition hev_socks5_tunnel_main_inner :: "config \<Rightarrow> answers \<Rightarrow> process \<Rightarrow> process \<times> int" where
  "hev_socks5_tunnel_main_inner c a p =
     (let log_file = hev_config_get_misc_log_file c; log_level = hev_config_get_misc_log_level c;
          p = p\<lparr>pr_settings := main_settings c (pr_settings p)\<rparr>;
          (l, res) = hev_logger_init log_level log_file (an_log a) (pr_logger p);
          p = p\<lparr>pr_logger := l, pr_fds := (if res < 0 then pr_fds p else insert (lg_fd l) (pr_fds p))\<rparr>
      in if res < 0 then (p, -2)
      else
        let (l, res) = hev_socks5_logger_init log_level log_file (an_socks_log a) (pr_socks_logger p);
            p = p\<lparr>pr_socks_logger := l, pr_fds := (if res < 0 then pr_fds p else insert (lg_fd l) (pr_fds p))\<rparr>
        in if res < 0 then (p, -3)
        else
          let p = p\<lparr>pr_limits := fst (set_limit_nofile (hev_config_get_misc_limit_nofile c) (an_getrlimit a) (an_hard a) (an_setrlimit a))\<rparr>;
              p = (case hev_config_get_misc_pid_file c of
                Some f \<Rightarrow> p\<lparr>pr_pid := run_as_daemon (an_pid_file a) (an_pid a)\<rparr> | None \<Rightarrow> p)
          in if an_system a < 0 then (p, -4)
          else
            let p = p\<lparr>pr_system := True\<rparr>
            in if an_tunnel a < 0 then (p, -5)
            else
              let p = p\<lparr>pr_fds := pr_fds p - {hev_socks5_logger_fini (pr_socks_logger p)}\<rparr>;
                  p = p\<lparr>pr_fds := pr_fds p - {hev_logger_fini (pr_logger p)}\<rparr>
              in (p\<lparr>pr_system := False\<rparr>, 0))"

definition hev_socks5_tunnel_main_from_str ::
  "(cstring \<Rightarrow> u8 list option) \<Rightarrow> (u8 list \<Rightarrow> yaml_document option) \<Rightarrow> u8 list \<Rightarrow> answers \<Rightarrow> config \<times> process \<Rightarrow> (config \<times> process) \<times> int" where
  "hev_socks5_tunnel_main_from_str pton load config_str a st =
     (let (c, res) = hev_config_init_from_str pton load config_str (fst st)
      in if res < 0 then ((c, snd st), -1)
      else let (p, res) = hev_socks5_tunnel_main_inner c a (snd st) in ((c, p), res))"

definition hev_socks5_tunnel_main_from_file ::
  "(cstring \<Rightarrow> u8 list option) \<Rightarrow> (u8 list \<Rightarrow> yaml_document option) \<Rightarrow> (cstring \<Rightarrow> u8 list option) \<Rightarrow> cstring \<Rightarrow> answers \<Rightarrow>
   config \<times> process \<Rightarrow> (config \<times> process) \<times> int" where
  "hev_socks5_tunnel_main_from_file pton load fopen config_path a st =
     (let (c, res) = hev_config_init_from_file pton load fopen config_path (fst st)
      in if res < 0 then ((c, snd st), -1)
      else let (p, res) = hev_socks5_tunnel_main_inner c a (snd st) in ((c, p), res))"

section \<open>Lines\<close>

lemma segment_snprintf:
  assumes "length buf = n" "0 < n"
  shows "(case snprintf buf s of (b, len) \<Rightarrow> segment b len) =
    (if length s < n then Some s else if length s = n then Some (take (n - 1) s @ [0]) else None)"
  using assms by (auto simp: snprintf_def segment_def min_def)

text \<open>
  A message of less than 1024 bytes is written whole, with its time and level; a longer one
  makes \<open>writev\<close> read beyond the end of the buffer.
\<close>

lemma log_line:
  assumes "hev_logger_enabled level l" "length ts0 = 32" "length msg0 = 1024" "length (time_stamp ti) < 32"
  shows "hev_logger_log level fmt ti ts0 msg0 l =
    (if length fmt < 1024 then Some (Some (time_stamp ti @ level_tag level @ fmt @ [10]))
     else if length fmt = 1024 then Some (Some (time_stamp ti @ level_tag level @ take 1023 fmt @ [0, 10]))
     else None)"
  using assms segment_snprintf [of ts0 32 "time_stamp ti"] segment_snprintf [of msg0 1024 fmt]
  by (auto simp: hev_logger_log_def hev_logger_enabled_def Let_def split: prod.splits)

text \<open>Ending closes the descriptors of the loggers; an early return does not.\<close>

lemma main_descriptors:
  assumes "hev_socks5_tunnel_main_inner c a p = (p', res)" "an_log a t = x" "t = log_target_of (hev_config_get_misc_log_file c)"
    "an_socks_log a t = y" "0 \<le> x" "x \<notin> pr_fds p" "0 \<le> y" "y \<notin> pr_fds p" "x \<noteq> y"
  shows "if an_system a < 0 then res = -4 \<and> pr_fds p' = insert y (insert x (pr_fds p))
    else if an_tunnel a < 0 then res = -5 \<and> pr_fds p' = insert y (insert x (pr_fds p)) \<and> pr_system p'
    else res = 0 \<and> pr_fds p' = pr_fds p \<and> \<not> pr_system p'"
  using assms by (auto simp: hev_socks5_tunnel_main_inner_def hev_logger_init_def hev_socks5_logger_init_def hev_logger_fini_def
      hev_socks5_logger_fini_def Let_def split: option.splits if_splits)

end
