(* ===== verification/Hev_Device.thy ===== *)
theory Hev_Device
  imports Hev_Tunnel
begin

text \<open>
  The TUN device on Linux (\<open>src/hev-tunnel-linux.c\<close>, \<open>src/hev-tunnel.h\<close>): opening it, and setting its
  MTU, state and addresses by \<open>ioctl\<close> calls on a socket that is opened for each of them. The theory of
  the tunnel takes each routine as one call; here they are the sequences of system calls they are, and
  refine those calls.
\<close>

unbundle bit_operations_syntax

section \<open>System calls\<close>

text \<open>The settings of an interface that an \<open>ioctl\<close> changes.\<close>

datatype ifset =
    SIOCSIFMTU int
  | SIOCSIFFLAGS u16
  | SIOCSIFADDR "u8 list"
  | SIOCSIFNETMASK "u8 list"

text \<open>
  Programs. The answer of a setting call says whether \<open>errno\<close> is \<open>EEXIST\<close>. \<open>Undef\<close> is undefined
  behaviour of the language.
\<close>

datatype 'a dev =
    Dev 'a
  | Undef
  | Open_Tun "int \<Rightarrow> 'a dev"
  | Sock int "int \<Rightarrow> 'a dev"
  | Tunsetiff int "u8 list" u16 "int \<times> u8 list \<Rightarrow> 'a dev"
  | Get_Flags int "u8 list" "int \<times> u16 \<Rightarrow> 'a dev"
  | Get_Index int "u8 list" "int \<times> int \<Rightarrow> 'a dev"
  | Set_If int "u8 list" ifset "int \<times> bool \<Rightarrow> 'a dev"
  | Set_Addr6 int int "u8 list" u32 "int \<times> bool \<Rightarrow> 'a dev"
  | Close_Dev int "'a dev"

abbreviation (input) IFF_UP :: u16 where "IFF_UP \<equiv> 1"
abbreviation (input) IFF_TUN :: u16 where "IFF_TUN \<equiv> 1"
abbreviation (input) IFF_MULTI_QUEUE :: u16 where "IFF_MULTI_QUEUE \<equiv> 0x100"
abbreviation (input) IFF_NO_PI :: u16 where "IFF_NO_PI \<equiv> 0x1000"

section \<open>The routines\<close>

text \<open>The name of the device is kept in the variable \<open>tun_name\<close>, 16 bytes, which opening sets.\<close>

definition hev_tunnel_open :: "cstring option \<Rightarrow> int \<Rightarrow> u8 list \<Rightarrow> (u8 list \<times> int) dev" where
  "hev_tunnel_open name queues tname =
     Open_Tun (\<lambda>fd.
       if fd < 0 then Dev (tname, -1)
       else
         let flags = IFF_TUN OR IFF_NO_PI;
             flags = (if queues \<noteq> 0 then flags OR IFF_MULTI_QUEUE else flags);
             ifr_name = (case name of None \<Rightarrow> replicate 16 0 | Some s \<Rightarrow> strncpy (replicate 16 0) s 15)
         in Tunsetiff fd ifr_name flags (\<lambda>(res, ifr_name).
              if res < 0 then Close_Dev fd (Dev (tname, res)) else Dev (ifr_name, fd)))"

definition hev_tunnel_set_mtu :: "int \<Rightarrow> u8 list \<Rightarrow> int dev" where
  "hev_tunnel_set_mtu mtu tname =
     Sock AF_INET (\<lambda>fd.
       if fd < 0 then Dev (-1)
       else Set_If fd tname (SIOCSIFMTU mtu) (\<lambda>(res, _). Close_Dev fd (Dev res)))"

definition hev_tunnel_set_state :: "int \<Rightarrow> u8 list \<Rightarrow> int dev" where
  "hev_tunnel_set_state state tname =
     Sock AF_INET (\<lambda>fd.
       if fd < 0 then Dev (-1)
       else Get_Flags fd tname (\<lambda>(res, flags).
         if res < 0 then Close_Dev fd (Dev res)
         else
           let flags = (if state \<noteq> 0 then flags OR IFF_UP else flags AND NOT IFF_UP)
           in Set_If fd tname (SIOCSIFFLAGS flags) (\<lambda>(res, _). Close_Dev fd (Dev res))))"

text \<open>A prefix length as a mask in network order. A shift by the whole width is undefined.\<close>

definition netmask4 :: "u32 \<Rightarrow> u8 list option" where
  "netmask4 prefix =
     (let n = 32 - prefix; m = push_bit (unat n) (-1 :: u32)
      in if n < 32 then Some [ucast (drop_bit 24 m), ucast (drop_bit 16 m), ucast (drop_bit 8 m), ucast m] else None)"

definition hev_tunnel_set_ipv4 :: "pton \<Rightarrow> cstring \<Rightarrow> u32 \<Rightarrow> u8 list \<Rightarrow> int dev" where
  "hev_tunnel_set_ipv4 pton ip prefix tname =
     Sock AF_INET (\<lambda>fd.
       if fd < 0 then Dev (-1)
       else case pton AF_INET ip of
         None \<Rightarrow> Close_Dev fd (Dev 0)
       | Some b \<Rightarrow> Set_If fd tname (SIOCSIFADDR b) (\<lambda>(res, _).
           if res < 0 then Close_Dev fd (Dev res)
           else case netmask4 prefix of
             None \<Rightarrow> Undef
           | Some m \<Rightarrow> Set_If fd tname (SIOCSIFNETMASK m) (\<lambda>(res, exists).
               Close_Dev fd (Dev (if res < 0 \<and> exists then 0 else res)))))"

definition hev_tunnel_set_ipv6 :: "pton \<Rightarrow> cstring \<Rightarrow> u32 \<Rightarrow> u8 list \<Rightarrow> int dev" where
  "hev_tunnel_set_ipv6 pton ip prefix tname =
     Sock AF_INET6 (\<lambda>fd.
       if fd < 0 then Dev (-1)
       else Get_Index fd tname (\<lambda>(res, index).
         if res < 0 then Close_Dev fd (Dev res)
         else case pton AF_INET6 ip of
           None \<Rightarrow> Close_Dev fd (Dev 0)
         | Some b \<Rightarrow> Set_Addr6 fd index b prefix (\<lambda>(res, exists).
             Close_Dev fd (Dev (if res < 0 \<and> exists then 0 else res)))))"

definition hev_tunnel_close :: "int \<Rightarrow> unit dev" where
  "hev_tunnel_close fd = Close_Dev fd (Dev ())"

definition hev_tunnel_get_name :: "u8 list \<Rightarrow> cstring" where
  "hev_tunnel_get_name tname = cstr tname"

text \<open>
  Reading and writing packets. \<open>data\<close> is what the device gave for a buffer of \<open>mtu\<close> bytes; a packet of
  several buffers is written with at most 512 of them.
\<close>

definition hev_tunnel_read :: "bool \<Rightarrow> u8 list option \<Rightarrow> pbufs option" where
  "hev_tunnel_read allocated data =
     (if \<not> allocated then None
      else case data of
        None \<Rightarrow> None
      | Some bs \<Rightarrow> if bs = [] then None else Some [bs])"

definition hev_tunnel_write :: "pbufs \<Rightarrow> u8 list list" where
  "hev_tunnel_write buf = (case buf of [p] \<Rightarrow> [p] | _ \<Rightarrow> take 512 buf)"

section \<open>Steps\<close>

text \<open>
  Interfaces by name, and the name of an index. A setting that already holds is answered with \<open>EEXIST\<close>.
\<close>

record iface =
  if_up :: bool
  if_mtu :: int
  if_addr :: "u8 list option"
  if_mask :: "u8 list option"
  if_addrs6 :: "(u8 list \<times> u32) set"

record dev_env =
  de_fds :: "int set"
  de_if :: "u8 list \<rightharpoonup> iface"
  de_name :: "int \<Rightarrow> u8 list"

fun if_apply :: "ifset \<Rightarrow> iface \<Rightarrow> iface" where
  "if_apply (SIOCSIFMTU mtu) i = i\<lparr>if_mtu := mtu\<rparr>"
| "if_apply (SIOCSIFFLAGS flags) i = i\<lparr>if_up := (flags AND IFF_UP \<noteq> 0)\<rparr>"
| "if_apply (SIOCSIFADDR b) i = i\<lparr>if_addr := Some b\<rparr>"
| "if_apply (SIOCSIFNETMASK m) i = i\<lparr>if_mask := Some m\<rparr>"

definition if_addr6 :: "u8 list \<Rightarrow> u32 \<Rightarrow> iface \<Rightarrow> iface" where
  "if_addr6 b prefix i = i\<lparr>if_addrs6 := insert (b, prefix) (if_addrs6 i)\<rparr>"

inductive dev_step :: "'a dev \<Rightarrow> dev_env \<Rightarrow> 'a dev \<Rightarrow> dev_env \<Rightarrow> bool" where
  open_err: "fd < 0 \<Longrightarrow> dev_step (Open_Tun k1) e (k1 fd) e"
| open_fd: "0 \<le> fd \<Longrightarrow> fd \<notin> de_fds e \<Longrightarrow> dev_step (Open_Tun k1) e (k1 fd) (e\<lparr>de_fds := insert fd (de_fds e)\<rparr>)"
| sock_err: "fd < 0 \<Longrightarrow> dev_step (Sock af k1) e (k1 fd) e"
| sock: "0 \<le> fd \<Longrightarrow> fd \<notin> de_fds e \<Longrightarrow> dev_step (Sock af k1) e (k1 fd) (e\<lparr>de_fds := insert fd (de_fds e)\<rparr>)"
| tunsetiff_err: "fd \<in> de_fds e \<Longrightarrow> res < 0 \<Longrightarrow> dev_step (Tunsetiff fd nm flags k2) e (k2 (res, nm')) e"
| tunsetiff: "fd \<in> de_fds e \<Longrightarrow> 0 \<le> res \<Longrightarrow>
    dev_step (Tunsetiff fd nm flags k2) e (k2 (res, nm')) (e\<lparr>de_if := (de_if e)(nm' \<mapsto> i)\<rparr>)"
| get_flags: "fd \<in> de_fds e \<Longrightarrow> dev_step (Get_Flags fd nm k3) e (k3 (res, flags)) e"
| get_index: "fd \<in> de_fds e \<Longrightarrow> (0 \<le> res \<Longrightarrow> de_name e index = nm) \<Longrightarrow> dev_step (Get_Index fd nm k4) e (k4 (res, index)) e"
| set_err: "fd \<in> de_fds e \<Longrightarrow> res < 0 \<Longrightarrow> (exists \<Longrightarrow> \<exists>i. de_if e nm = Some i \<and> if_apply s i = i) \<Longrightarrow>
    dev_step (Set_If fd nm s k5) e (k5 (res, exists)) e"
| set: "fd \<in> de_fds e \<Longrightarrow> 0 \<le> res \<Longrightarrow> de_if e nm = Some i \<Longrightarrow>
    dev_step (Set_If fd nm s k5) e (k5 (res, exists)) (e\<lparr>de_if := (de_if e)(nm \<mapsto> if_apply s i)\<rparr>)"
| set6_err: "fd \<in> de_fds e \<Longrightarrow> res < 0 \<Longrightarrow> (exists \<Longrightarrow> \<exists>i. de_if e (de_name e index) = Some i \<and> if_addr6 b prefix i = i) \<Longrightarrow>
    dev_step (Set_Addr6 fd index b prefix k5) e (k5 (res, exists)) e"
| set6: "fd \<in> de_fds e \<Longrightarrow> 0 \<le> res \<Longrightarrow> de_if e (de_name e index) = Some i \<Longrightarrow>
    dev_step (Set_Addr6 fd index b prefix k5) e (k5 (res, exists)) (e\<lparr>de_if := (de_if e)(de_name e index \<mapsto> if_addr6 b prefix i)\<rparr>)"
| close_dev: "fd \<in> de_fds e \<Longrightarrow> dev_step (Close_Dev fd k6) e k6 (e\<lparr>de_fds := de_fds e - {fd}\<rparr>)"

inductive dev_steps :: "'a dev \<Rightarrow> dev_env \<Rightarrow> 'a dev \<Rightarrow> dev_env \<Rightarrow> bool" where
  dev_refl: "dev_steps p e p e"
| dev_more: "dev_step p e p1 e1 \<Longrightarrow> dev_steps p1 e1 p2 e2 \<Longrightarrow> dev_steps p e p2 e2"

text \<open>The next call of a program is no misuse: it uses a descriptor that is open, and nothing undefined.\<close>

fun dev_proper :: "'a dev \<Rightarrow> dev_env \<Rightarrow> bool" where
  "dev_proper Undef e \<longleftrightarrow> False"
| "dev_proper (Tunsetiff fd nm flags k) e \<longleftrightarrow> fd \<in> de_fds e"
| "dev_proper (Get_Flags fd nm k) e \<longleftrightarrow> fd \<in> de_fds e"
| "dev_proper (Get_Index fd nm k) e \<longleftrightarrow> fd \<in> de_fds e"
| "dev_proper (Set_If fd nm s k) e \<longleftrightarrow> fd \<in> de_fds e"
| "dev_proper (Set_Addr6 fd index b prefix k) e \<longleftrightarrow> fd \<in> de_fds e"
| "dev_proper (Close_Dev fd k) e \<longleftrightarrow> fd \<in> de_fds e"
| "dev_proper p e \<longleftrightarrow> True"

text \<open>Whatever the answers, no misuse, and a result and state for which \<open>Q\<close> holds.\<close>

primrec dev_ok :: "('a \<Rightarrow> dev_env \<Rightarrow> bool) \<Rightarrow> 'a dev \<Rightarrow> dev_env \<Rightarrow> bool" where
  "dev_ok Q (Dev x) e \<longleftrightarrow> Q x e"
| "dev_ok Q Undef e \<longleftrightarrow> False"
| "dev_ok Q (Open_Tun k) e \<longleftrightarrow> (\<forall>fd < 0. dev_ok Q (k fd) e) \<and>
     (\<forall>fd \<ge> 0. fd \<notin> de_fds e \<longrightarrow> dev_ok Q (k fd) (e\<lparr>de_fds := insert fd (de_fds e)\<rparr>))"
| "dev_ok Q (Sock af k) e \<longleftrightarrow> (\<forall>fd < 0. dev_ok Q (k fd) e) \<and>
     (\<forall>fd \<ge> 0. fd \<notin> de_fds e \<longrightarrow> dev_ok Q (k fd) (e\<lparr>de_fds := insert fd (de_fds e)\<rparr>))"
| "dev_ok Q (Tunsetiff fd nm flags k) e \<longleftrightarrow> fd \<in> de_fds e \<and> (\<forall>res nm'. res < 0 \<longrightarrow> dev_ok Q (k (res, nm')) e) \<and>
     (\<forall>res nm' i. 0 \<le> res \<longrightarrow> dev_ok Q (k (res, nm')) (e\<lparr>de_if := (de_if e)(nm' \<mapsto> i)\<rparr>))"
| "dev_ok Q (Get_Flags fd nm k) e \<longleftrightarrow> fd \<in> de_fds e \<and> (\<forall>res flags. dev_ok Q (k (res, flags)) e)"
| "dev_ok Q (Get_Index fd nm k) e \<longleftrightarrow> fd \<in> de_fds e \<and> (\<forall>res index. (0 \<le> res \<longrightarrow> de_name e index = nm) \<longrightarrow> dev_ok Q (k (res, index)) e)"
| "dev_ok Q (Set_If fd nm s k) e \<longleftrightarrow> fd \<in> de_fds e \<and>
     (\<forall>res exists. res < 0 \<longrightarrow> (exists \<longrightarrow> (\<exists>i. de_if e nm = Some i \<and> if_apply s i = i)) \<longrightarrow> dev_ok Q (k (res, exists)) e) \<and>
     (\<forall>res exists i. 0 \<le> res \<longrightarrow> de_if e nm = Some i \<longrightarrow> dev_ok Q (k (res, exists)) (e\<lparr>de_if := (de_if e)(nm \<mapsto> if_apply s i)\<rparr>))"
| "dev_ok Q (Set_Addr6 fd index b prefix k) e \<longleftrightarrow> fd \<in> de_fds e \<and>
     (\<forall>res exists. res < 0 \<longrightarrow> (exists \<longrightarrow> (\<exists>i. de_if e (de_name e index) = Some i \<and> if_addr6 b prefix i = i)) \<longrightarrow>
       dev_ok Q (k (res, exists)) e) \<and>
     (\<forall>res exists i. 0 \<le> res \<longrightarrow> de_if e (de_name e index) = Some i \<longrightarrow>
       dev_ok Q (k (res, exists)) (e\<lparr>de_if := (de_if e)(de_name e index \<mapsto> if_addr6 b prefix i)\<rparr>))"
| "dev_ok Q (Close_Dev fd k) e \<longleftrightarrow> fd \<in> de_fds e \<and> dev_ok Q k (e\<lparr>de_fds := de_fds e - {fd}\<rparr>)"

lemma dev_ok_step: "dev_step p e p' e' \<Longrightarrow> dev_ok Q p e \<Longrightarrow> dev_ok Q p' e'"
  by (induction rule: dev_step.induct) auto

lemma dev_ok_steps: "dev_steps p e p' e' \<Longrightarrow> dev_ok Q p e \<Longrightarrow> dev_ok Q p' e'"
  by (induction rule: dev_steps.induct) (auto dest: dev_ok_step)

lemma dev_ok_proper: "dev_ok Q p e \<Longrightarrow> dev_proper p e"
  by (cases p) auto

section \<open>The calls of the tunnel\<close>

text \<open>The calls the tunnel makes to set up the device, as calls of its own model and as routines.\<close>

datatype dev_call = D_open "cstring option" int | D_mtu u32 | D_ipv4 cstring int | D_ipv6 cstring int | D_state int

fun sys_of :: "dev_call \<Rightarrow> sys" where
  "sys_of (D_open name mq) = Tunnel_Open name mq"
| "sys_of (D_mtu mtu) = Tunnel_Set_Mtu mtu"
| "sys_of (D_ipv4 a n) = Tunnel_Set_Ipv4 a n"
| "sys_of (D_ipv6 a n) = Tunnel_Set_Ipv6 a n"
| "sys_of (D_state st) = Tunnel_Set_State st"

primrec dev_bind :: "'a dev \<Rightarrow> ('a \<Rightarrow> 'b dev) \<Rightarrow> 'b dev" where
  "dev_bind (Dev x) c = c x"
| "dev_bind Undef c = Undef"
| "dev_bind (Open_Tun k) c = Open_Tun (\<lambda>r. dev_bind (k r) c)"
| "dev_bind (Sock af k) c = Sock af (\<lambda>r. dev_bind (k r) c)"
| "dev_bind (Tunsetiff fd nm flags k) c = Tunsetiff fd nm flags (\<lambda>r. dev_bind (k r) c)"
| "dev_bind (Get_Flags fd nm k) c = Get_Flags fd nm (\<lambda>r. dev_bind (k r) c)"
| "dev_bind (Get_Index fd nm k) c = Get_Index fd nm (\<lambda>r. dev_bind (k r) c)"
| "dev_bind (Set_If fd nm s k) c = Set_If fd nm s (\<lambda>r. dev_bind (k r) c)"
| "dev_bind (Set_Addr6 fd i b n k) c = Set_Addr6 fd i b n (\<lambda>r. dev_bind (k r) c)"
| "dev_bind (Close_Dev fd k) c = Close_Dev fd (dev_bind k c)"

fun dev_routine :: "pton \<Rightarrow> dev_call \<Rightarrow> u8 list \<Rightarrow> (u8 list \<times> int) dev" where
  "dev_routine pton (D_open name mq) tn = hev_tunnel_open name mq tn"
| "dev_routine pton (D_mtu mtu) tn = dev_bind (hev_tunnel_set_mtu (sint mtu) tn) (\<lambda>r. Dev (tn, r))"
| "dev_routine pton (D_ipv4 a n) tn = dev_bind (hev_tunnel_set_ipv4 pton a (word_of_int n) tn) (\<lambda>r. Dev (tn, r))"
| "dev_routine pton (D_ipv6 a n) tn = dev_bind (hev_tunnel_set_ipv6 pton a (word_of_int n) tn) (\<lambda>r. Dev (tn, r))"
| "dev_routine pton (D_state st) tn = dev_bind (hev_tunnel_set_state st tn) (\<lambda>r. Dev (tn, r))"

text \<open>What a call that reports success has reached, for the interface as it was before. An address that is none sets nothing.\<close>

fun call_done :: "pton \<Rightarrow> dev_call \<Rightarrow> iface option \<Rightarrow> iface option \<Rightarrow> bool" where
  "call_done pton (D_open name mq) i j \<longleftrightarrow> j \<noteq> None"
| "call_done pton (D_mtu mtu) i j \<longleftrightarrow> map_option if_mtu j = Some (sint mtu)"
| "call_done pton (D_ipv4 a n) i j \<longleftrightarrow> (case pton AF_INET a of None \<Rightarrow> j = i
     | Some b \<Rightarrow> map_option (\<lambda>j. (if_addr j, if_mask j)) j = Some (Some b, netmask4 (word_of_int n)))"
| "call_done pton (D_ipv6 a n) i j \<longleftrightarrow> (case pton AF_INET6 a of None \<Rightarrow> j = i
     | Some b \<Rightarrow> \<exists>k. j = Some k \<and> (b, word_of_int n) \<in> if_addrs6 k)"
| "call_done pton (D_state st) i j \<longleftrightarrow> map_option if_up j = Some (st \<noteq> 0)"

lemma fresh_close [simp]: "fd \<notin> F \<Longrightarrow> insert fd F - {fd} = F"
  by blast

lemma call_ok:
  assumes "\<forall>fd \<in> de_fds e. 0 \<le> fd" and "\<And>a n. c = D_ipv4 a n \<Longrightarrow> netmask4 (word_of_int n) \<noteq> None"
  shows "dev_ok (\<lambda>(tn', r) e'. (te_fds te = de_fds e \<longrightarrow> sys_ret (sys_of c) r te \<and> te_fds (sys_eff (sys_of c) r te) = de_fds e') \<and>
    (0 \<le> r \<longrightarrow> call_done pton c (de_if e tn') (de_if e' tn'))) (dev_routine pton c tn) e"
proof (cases c)
  case (D_open name mq)
  then show ?thesis using assms(1) by (auto simp: hev_tunnel_open_def Let_def)
next
  case (D_mtu mtu)
  then show ?thesis by (auto simp: hev_tunnel_set_mtu_def)
next
  case (D_ipv4 a n)
  then show ?thesis using assms by (auto simp: hev_tunnel_set_ipv4_def split: option.split) (drule arg_cong [where f = if_mask], simp)
next
  case (D_ipv6 a n)
  then show ?thesis using assms by (auto simp: hev_tunnel_set_ipv6_def if_addr6_def split: option.split) (drule arg_cong [where f = if_addrs6], simp, blast)
next
  case (D_state st)
  then show ?thesis by (auto simp: hev_tunnel_set_state_def Let_def and.assoc)
qed


text \<open>A packet of at most 512 buffers is written whole.\<close>

lemma write_whole: "length buf \<le> 512 \<Longrightarrow> concat (hev_tunnel_write buf) = concat buf"
  by (cases buf rule: remdups_adj.cases) (simp_all add: hev_tunnel_write_def)

section \<open>Properties\<close>


definition demo_dev :: dev_env where
  "demo_dev = \<lparr>de_fds = {0, 1, 2, 5}, de_if = [replicate 16 7 \<mapsto> \<lparr>if_up = False, if_mtu = 1500, if_addr = None, if_mask = None, if_addrs6 = {}\<rparr>],
     de_name = (\<lambda>_. replicate 16 7)\<rparr>"

text \<open>A parser of addresses that knows one of them.\<close>

definition demo_pton :: pton where
  "demo_pton af s = (if af = AF_INET \<and> s = str ''10.0.0.1'' then Some [10, 0, 0, 1] else None)"


end
