(* ===== verification/Hev_Service.thy ===== *)
theory Hev_Service
  imports Hev_Tunnel
begin

text \<open>
  The service that the Java side starts and stops (\<open>src/hev-jni.c\<close>), and what its thread does
  (\<open>src/hev-main.c\<close>). One thread calls the native methods, which a mutex serialises; another, the worker,
  runs the tunnel. They share the descriptor of the event pair (\<open>src/hev-socks5-tunnel.c\<close>): the caller waits
  for it, writes a byte to it, and joins the worker.
\<close>

section \<open>State\<close>

text \<open>
  Where the worker is: not created; before the pair of sockets exists; with the pair, before
  it runs; running; ending, before the second socket is closed, and after that; returned.
\<close>

datatype worker = No_Worker | Starting | Paired | Running | Closing | Closed | Ended

text \<open>Where the caller is: in no method, or in \<open>native_stop_service\<close> before the descriptor is read, before the write, before the join.\<close>

datatype caller = Idle | Stop_Poll | Stop_Write int | Stop_Join

record service =
  is_working :: bool
  sv_worker :: worker
  sv_caller :: caller
  sv_event_fd :: int
  sv_open :: "int set"
  sv_bytes :: nat
  sv_aborted :: bool

definition service_initial :: service where
  "service_initial = \<lparr>is_working = False, sv_worker = No_Worker, sv_caller = Idle, sv_event_fd = -1, sv_open = {}, sv_bytes = 0, sv_aborted = False\<rparr>"

section \<open>The native methods\<close>

text \<open>\<open>created\<close> is whether \<open>pthread_create\<close> succeeds.\<close>

definition native_start_service :: "bool \<Rightarrow> service \<Rightarrow> service" where
  "native_start_service created s =
     (if is_working s then s
      else if \<not> created then s
      else s\<lparr>sv_worker := Starting, is_working := True\<rparr>)"

definition native_stop_service :: "service \<Rightarrow> service" where
  "native_stop_service s = (if \<not> is_working s then s else s\<lparr>sv_caller := Stop_Poll\<rparr>)"

text \<open>The loop of \<open>hev_socks5_tunnel_stop\<close>: one look at the descriptor; then the write, which must succeed.\<close>

definition stop_poll :: "service \<Rightarrow> service" where
  "stop_poll s = (if 0 \<le> sv_event_fd s then s\<lparr>sv_caller := Stop_Write (sv_event_fd s)\<rparr> else s)"

definition stop_write :: "int \<Rightarrow> service \<Rightarrow> service" where
  "stop_write fd s =
     (if fd \<in> sv_open s then s\<lparr>sv_bytes := sv_bytes s + 1, sv_caller := Stop_Join\<rparr> else s\<lparr>sv_aborted := True\<rparr>)"

definition stop_join :: "service \<Rightarrow> service" where
  "stop_join s = s\<lparr>sv_worker := No_Worker, is_working := False, sv_caller := Idle\<rparr>"

section \<open>The worker\<close>

text \<open>
  Creating the pair; running until a byte has arrived; closing the second socket, and forgetting its number.
\<close>

definition worker_pair :: "int \<Rightarrow> service \<Rightarrow> service" where
  "worker_pair fd s = s\<lparr>sv_worker := Paired, sv_event_fd := fd, sv_open := {fd}, sv_bytes := 0\<rparr>"

definition worker_close :: "service \<Rightarrow> service" where
  "worker_close s = s\<lparr>sv_worker := Closed, sv_open := {}\<rparr>"

definition worker_forget :: "service \<Rightarrow> service" where
  "worker_forget s = s\<lparr>sv_worker := Ended, sv_event_fd := -1\<rparr>"

text \<open>
  \<open>faulty\<close> says whether starting the tunnel may fail: before the pair exists the worker then returns at
  once, and with the pair it closes it first.
\<close>

inductive service_step :: "bool \<Rightarrow> service \<Rightarrow> service \<Rightarrow> bool" for faulty where
  start: "sv_caller s = Idle \<Longrightarrow> service_step faulty s (native_start_service created s)"
| stop: "sv_caller s = Idle \<Longrightarrow> service_step faulty s (native_stop_service s)"
| poll: "sv_caller s = Stop_Poll \<Longrightarrow> service_step faulty s (stop_poll s)"
| write_event: "sv_caller s = Stop_Write fd \<Longrightarrow> \<not> sv_aborted s \<Longrightarrow> service_step faulty s (stop_write fd s)"
| join: "sv_caller s = Stop_Join \<Longrightarrow> sv_worker s = Ended \<Longrightarrow> service_step faulty s (stop_join s)"
| pair: "sv_worker s = Starting \<Longrightarrow> 0 \<le> fd \<Longrightarrow> service_step faulty s (worker_pair fd s)"
| fail_early: "faulty \<Longrightarrow> sv_worker s = Starting \<Longrightarrow> service_step faulty s (s\<lparr>sv_worker := Ended\<rparr>)"
| run: "sv_worker s = Paired \<Longrightarrow> service_step faulty s (s\<lparr>sv_worker := Running\<rparr>)"
| fail_late: "faulty \<Longrightarrow> sv_worker s = Paired \<Longrightarrow> service_step faulty s (s\<lparr>sv_worker := Closing\<rparr>)"
| wake: "sv_worker s = Running \<Longrightarrow> 0 < sv_bytes s \<Longrightarrow> service_step faulty s (s\<lparr>sv_worker := Closing\<rparr>)"
| close_event: "sv_worker s = Closing \<Longrightarrow> service_step faulty s (worker_close s)"
| forget: "sv_worker s = Closed \<Longrightarrow> service_step faulty s (worker_forget s)"

inductive service_reach :: "bool \<Rightarrow> service \<Rightarrow> bool" for faulty where
  reach_init: "service_reach faulty service_initial"
| reach_step: "service_reach faulty s \<Longrightarrow> service_step faulty s s' \<Longrightarrow> service_reach faulty s'"

inductive_cases service_stepE: "service_step faulty s s'"

lemmas service_defs = native_start_service_def native_stop_service_def stop_poll_def stop_write_def stop_join_def
  worker_pair_def worker_close_def worker_forget_def

section \<open>Invariants\<close>

definition service_inv :: "service \<Rightarrow> bool" where
  "service_inv s \<longleftrightarrow> (is_working s \<longleftrightarrow> sv_worker s \<noteq> No_Worker) \<and> (sv_caller s \<noteq> Idle \<longrightarrow> is_working s) \<and>
     (case sv_worker s of
        Paired \<Rightarrow> 0 \<le> sv_event_fd s \<and> sv_open s = {sv_event_fd s}
      | Running \<Rightarrow> 0 \<le> sv_event_fd s \<and> sv_open s = {sv_event_fd s}
      | Closing \<Rightarrow> 0 \<le> sv_event_fd s \<and> sv_open s = {sv_event_fd s}
      | Closed \<Rightarrow> 0 \<le> sv_event_fd s \<and> sv_open s = {}
      | _ \<Rightarrow> sv_event_fd s = -1 \<and> sv_open s = {})"

definition stop_inv :: "service \<Rightarrow> bool" where
  "stop_inv s \<longleftrightarrow> \<not> sv_aborted s \<and>
     (case sv_caller s of
        Stop_Write fd \<Rightarrow> sv_worker s \<in> {Paired, Running} \<and> fd = sv_event_fd s \<and> sv_bytes s = 0
      | Stop_Join \<Rightarrow> sv_worker s \<in> {Paired, Running, Closing, Closed, Ended} \<and> (sv_worker s \<in> {Paired, Running} \<longrightarrow> 0 < sv_bytes s)
      | _ \<Rightarrow> sv_worker s \<in> {No_Worker, Starting, Paired, Running} \<and> (sv_worker s \<in> {Paired, Running} \<longrightarrow> sv_bytes s = 0))"

lemma service_inv_step: "service_step faulty s s' \<Longrightarrow> service_inv s \<Longrightarrow> service_inv s'"
  by (cases rule: service_step.cases, assumption) (auto simp: service_inv_def service_defs split: worker.splits)

lemma stop_inv_step: "service_step False s s' \<Longrightarrow> service_inv s \<Longrightarrow> stop_inv s \<Longrightarrow> stop_inv s'"
  by (cases rule: service_step.cases, assumption)
    (auto simp: service_inv_def stop_inv_def service_defs split: worker.splits caller.splits)

lemma reach_inv: "service_reach faulty s \<Longrightarrow> service_inv s"
proof (induction rule: service_reach.induct)
  case reach_init
  show ?case by (simp add: service_initial_def service_inv_def)
qed (rule service_inv_step)

lemma reach_stop_inv: "service_reach False s \<Longrightarrow> stop_inv s"
proof (induction rule: service_reach.induct)
  case reach_init
  show ?case by (simp add: service_initial_def stop_inv_def)
qed (blast intro: stop_inv_step reach_inv)

text \<open>The number of steps that are left until a stop has returned, when no step is repeated in vain.\<close>

definition stop_left :: "service \<Rightarrow> nat" where
  "stop_left s =
     (let caller = (case sv_caller s of Idle \<Rightarrow> 0 | Stop_Poll \<Rightarrow> 3 | Stop_Write fd \<Rightarrow> 2 | Stop_Join \<Rightarrow> 1);
          work = (case sv_worker s of No_Worker \<Rightarrow> 0 | Starting \<Rightarrow> 6 | Paired \<Rightarrow> 5 | Running \<Rightarrow> 4 | Closing \<Rightarrow> 3 | Closed \<Rightarrow> 2 | Ended \<Rightarrow> 1)
      in if caller = 0 then 0 else caller + work)"

lemma stop_step_left:
  assumes "service_step False s s'" "service_inv s" "stop_inv s" "sv_caller s \<noteq> Idle"
  shows "stop_left s' < stop_left s \<or> s' = s"
  using assms by (cases rule: service_step.cases)
    (auto simp: service_inv_def stop_inv_def service_defs stop_left_def split: worker.splits caller.splits)

lemma stop_progress:
  assumes "service_inv s" "stop_inv s" "sv_caller s \<noteq> Idle"
  shows "\<exists>s'. service_step False s s' \<and> stop_left s' < stop_left s"
proof -
  note defs = service_inv_def stop_inv_def service_defs stop_left_def
  consider "sv_caller s = Stop_Poll" "0 \<le> sv_event_fd s" | fd where "sv_caller s = Stop_Write fd" |
    "sv_caller s = Stop_Join" "sv_worker s = Ended" | "sv_worker s = Starting" | "sv_worker s = Paired" "sv_caller s = Stop_Join" |
    "sv_worker s = Running" "sv_caller s = Stop_Join" "0 < sv_bytes s" | "sv_worker s = Closing" | "sv_worker s = Closed"
    using assms by (cases "sv_caller s"; cases "sv_worker s") (auto simp: service_inv_def stop_inv_def)
  then show ?thesis
  proof cases
    case 1
    then have "service_step False s (stop_poll s)" by (intro service_step.poll) simp_all
    moreover have "stop_left (stop_poll s) < stop_left s" using assms 1 by (auto simp: defs split: worker.splits caller.splits)
    ultimately show ?thesis by blast
  next
    case 2
    then have "service_step False s (stop_write fd s)" using assms(2) by (intro service_step.write_event) (simp_all add: stop_inv_def)
    moreover have "stop_left (stop_write fd s) < stop_left s" using assms 2 by (auto simp: defs split: worker.splits caller.splits)
    ultimately show ?thesis by blast
  next
    case 3
    then have "service_step False s (stop_join s)" by (intro service_step.join) simp_all
    moreover have "stop_left (stop_join s) < stop_left s" using assms 3 by (auto simp: defs split: worker.splits caller.splits)
    ultimately show ?thesis by blast
  next
    case 4
    then have "service_step False s (worker_pair 0 s)" by (intro service_step.pair) simp_all
    moreover have "stop_left (worker_pair 0 s) < stop_left s" using assms 4 by (auto simp: defs split: worker.splits caller.splits)
    ultimately show ?thesis by blast
  next
    case 5
    then have "service_step False s (s\<lparr>sv_worker := Running\<rparr>)" by (intro service_step.run) simp_all
    moreover have "stop_left (s\<lparr>sv_worker := Running\<rparr>) < stop_left s" using assms 5 by (auto simp: defs split: worker.splits caller.splits)
    ultimately show ?thesis by blast
  next
    case 6
    then have "service_step False s (s\<lparr>sv_worker := Closing\<rparr>)" by (intro service_step.wake) simp_all
    moreover have "stop_left (s\<lparr>sv_worker := Closing\<rparr>) < stop_left s" using assms 6 by (auto simp: defs split: worker.splits caller.splits)
    ultimately show ?thesis by blast
  next
    case 7
    then have "service_step False s (worker_close s)" by (intro service_step.close_event) simp_all
    moreover have "stop_left (worker_close s) < stop_left s" using assms 7 by (auto simp: defs split: worker.splits caller.splits)
    ultimately show ?thesis by blast
  next
    case 8
    then have "service_step False s (worker_forget s)" by (intro service_step.forget) simp_all
    moreover have "stop_left (worker_forget s) < stop_left s" using assms 8 by (auto simp: defs split: worker.splits caller.splits)
    ultimately show ?thesis by blast
  qed
qed

section \<open>Properties\<close>


definition service_working :: service where
  "service_working = native_start_service True service_initial"

lemma reach_working: "service_reach faulty service_working"
  unfolding service_working_def by (rule reach_step [OF reach_init service_step.start]) (simp add: service_initial_def)


text \<open>
  C37: A service whose start failed cannot be stopped. When the worker has returned because the tunnel
  could not be started, the service still counts as working, and \<open>native_stop_service\<close> waits for a descriptor that
  nobody creates: no step of any thread changes anything any more, and the mutex stays taken.
\<close>

theorem service_stop_hangs:
  assumes "service_reach True s" "sv_worker s = Ended" "sv_caller s = Stop_Poll" and "(service_step True)\<^sup>*\<^sup>* s s'"
  shows "s' = s"
proof -
  have fd: "sv_event_fd s = -1" using reach_inv [OF assms(1)] assms(2) by (simp add: service_inv_def)
  have "s2 = s" if "service_step True s s2" for s2
    using that assms(2,3) fd by (cases rule: service_step.cases) (simp_all add: stop_poll_def)
  with assms(4) show ?thesis by (induction rule: rtranclp_induct) simp_all
qed

theorem service_stop_hangs_witness:
  "\<exists>s. service_reach True s \<and> is_working s \<and> (\<forall>s'. (service_step True)\<^sup>*\<^sup>* s s' \<longrightarrow> s' = s)"
proof -
  let ?e = "service_working\<lparr>sv_worker := Ended\<rparr>"
  let ?s = "native_stop_service ?e"
  have "service_step True service_working ?e"
    by (rule service_step.fail_early) (simp_all add: service_working_def service_defs service_initial_def)
  then have "service_reach True ?e" by (rule reach_step [OF reach_working])
  then have r: "service_reach True ?s"
    by (rule reach_step [OF _ service_step.stop]) (simp add: service_working_def service_defs service_initial_def)
  have "sv_worker ?s = Ended" "sv_caller ?s = Stop_Poll" "is_working ?s"
    by (simp_all add: service_working_def service_defs service_initial_def)
  with r service_stop_hangs [OF r] show ?thesis by blast
qed

text \<open>And when starting fails with the pair already there, the write may meet a descriptor that was closed, and the assertion ends the process.\<close>

lemma service_stop_aborts: "\<exists>s. service_reach True s \<and> sv_aborted s"
proof -
  let ?p = "worker_pair 7 service_working"
  let ?q = "native_stop_service ?p"
  let ?w = "stop_poll ?q"
  let ?c = "worker_close (?w\<lparr>sv_worker := Closing\<rparr>)"
  note defs = service_working_def service_defs service_initial_def
  have "service_reach True ?p" by (rule reach_step [OF reach_working service_step.pair]) (simp_all add: defs)
  then have "service_reach True ?q" by (rule reach_step [OF _ service_step.stop]) (simp add: defs)
  then have "service_reach True ?w" by (rule reach_step [OF _ service_step.poll]) (simp add: defs)
  then have "service_reach True (?w\<lparr>sv_worker := Closing\<rparr>)" by (rule reach_step [OF _ service_step.fail_late]) (simp_all add: defs)
  then have "service_reach True ?c" by (rule reach_step [OF _ service_step.close_event]) (simp add: defs)
  then have "service_reach True (stop_write 7 ?c)" by (rule reach_step [OF _ service_step.write_event]) (simp_all add: defs)
  moreover have "sv_aborted (stop_write 7 ?c)" by (simp add: defs)
  ultimately show ?thesis by blast
qed

end
