(* ===== verification/Spec2Isabelle.thy ===== *)
theory Spec2Isabelle
  imports Hev_List Hev_Ring_Buffer Hev_Ordered_Tree Hev_Mapped_DNS Hev_DNS_Handle
    Hev_Socks5_Client Hev_Socks5_Server Hev_Link Hev_Handshake Hev_Config Hev_Session
    Hev_TCP_Stream Hev_UDP_Queue Hev_Tunnel Hev_Main Hev_Device Hev_Service
begin

text \<open>
  The native tunnel of ProxyBox, in C under \<open>src/app/src/main/jni/hev-socks5-tunnel/src/\<close> (paths below are
  relative to it). It reads IP packets from a TUN device, lets lwIP turn them into TCP and UDP
  connections, and carries each connection to a SOCKS5 server. The library in \<open>core/\<close> also has the server's side.

  \<^bold>\<open>How the parts work together.\<close> The native service (\<open>hev-jni.c\<close>) or the command line starts \<open>hev-main.c\<close>, which
  reads the configuration and runs the tunnel (\<open>hev-socks5-tunnel.c\<close>). The tunnel sets up the device, one lwIP
  interface, an event pair and three tasks. lwIP calls the tunnel for a new connection; the tunnel creates a session,
  which is a SOCKS5 client with a node in the session set and a task of its own. The session connects,
  makes the handshake, and splices until its connection has ended, its timeout has passed, or it was told to end.
  Names are kept through fake addresses: a DNS query is answered by the mapped DNS cache, and the connection to a fake
  address is requested from the server by name.

  \<^bold>\<open>Data structures.\<close>
  \<^item> \<open>Hev_Prelude\<close>: machine integers, byte order, pointers and heaps (a map per struct; a dereference outside it is \<open>None\<close>).
  \<^item> \<open>Hev_List\<close>: \<open>misc/hev-list.[ch]\<close>, doubly linked lists in a heap of nodes; the contract \<open>node_sequence\<close>.
  \<^item> \<open>Hev_Ring_Buffer\<close>: \<open>misc/hev-ring-buffer.[ch]\<close> at 64 bit; the contract \<open>splice_queue\<close> on which the TCP session rests.
  \<^item> \<open>Hev_RBTree\<close>, \<open>Hev_RBTree_Insert\<close>, \<open>Hev_RBTree_Erase\<close>: \<open>core/src/hev-rbtree.[ch]\<close> at pointer level with colours in the parent
    word; \<open>Hev_Ordered_Tree\<close>: the walks its clients write themselves, and the contracts \<open>search_tree\<close> and \<open>keyed_tree\<close>.
  \<^item> \<open>Hev_Mapped_DNS\<close>, \<open>Hev_DNS_Handle\<close>: \<open>hev-mapped-dns.[ch]\<close>, the cache as tree, list and array, and the DNS messages.

  \<^bold>\<open>SOCKS5.\<close>
  \<^item> \<open>Hev_IO\<close>: programs as trees of system calls, their steps, misuse and resources; \<open>Hev_Link\<close>: two such programs over a stream.
  \<^item> \<open>Hev_Socks5_Addr\<close> (\<open>core/src/hev-socks5-misc.c\<close>, \<open>hev-socks5-proto.h\<close>), \<open>Hev_Socks5\<close> (\<open>hev-socks5.c\<close>, \<open>hev-socks5-tcp.c\<close>),
    \<open>Hev_Authenticator\<close> (users and their tree), \<open>Hev_Socks5_Client\<close> (\<open>hev-socks5-client*.c\<close>), \<open>Hev_Socks5_UDP\<close> (\<open>hev-socks5-udp.c\<close>),
    \<open>Hev_Socks5_Server\<close> (\<open>hev-socks5-server.c\<close>); \<open>Hev_Handshake\<close>: the client and the server against each other.

  \<^bold>\<open>The tunnel.\<close>
  \<^item> \<open>Hev_Config\<close>: \<open>hev-config.c\<close> over the document libyaml returns, with the accessors.
  \<^item> \<open>Hev_Session\<close>: \<open>hev-socks5-session.c\<close> and the conversions of \<open>misc/hev-utils.c\<close>; \<open>Hev_Session_TCP\<close>, \<open>Hev_TCP_Stream\<close>:
    \<open>hev-socks5-session-tcp.c\<close> and its streams; \<open>Hev_Session_UDP\<close>, \<open>Hev_UDP_Queue\<close>: \<open>hev-socks5-session-udp.c\<close> and its queue.
  \<^item> \<open>Hev_Tunnel_Sessions\<close>, \<open>Hev_Tunnel\<close>: \<open>hev-socks5-tunnel.c\<close>, the session set, the handlers, starting and stopping.
  \<^item> \<open>Hev_Device\<close>: \<open>hev-tunnel-linux.c\<close>, \<open>hev-tunnel.h\<close>; \<open>Hev_Main\<close>: \<open>hev-main.c\<close>, the loggers, limits and the pid file;
    \<open>Hev_Service\<close>: \<open>hev-jni.c\<close> with its worker thread.

  \<^bold>\<open>State and calls.\<close> A struct is a record, its pointers are addresses into a heap, and a routine that touches the heap returns
  \<open>None\<close> for an access C does not allow. A routine that calls the system, the task system, lwIP or the device is a tree of these
  calls (\<open>io\<close>, \<open>ses\<close>, \<open>udp\<close>, \<open>tun\<close>, \<open>dev\<close>), each with a continuation for its answer; a step relation gives the possible
  answers, their effects and which calls are misuse, and lets other tasks and lwIP act at the points where
  a task waits. Results hold for all answers and all interleavings. \<open>Hev_Device\<close> refines the device calls of \<open>Hev_Tunnel\<close>.

  \<^bold>\<open>What is shown.\<close> The list, ring buffer and tree implement sequences, byte streams and ordered trees, without invalid access and with
  termination. The cache refines a list in order of last use, the authenticator a finite map. Addresses, frames and
  datagrams are read back as they were written. Client and server complete the handshake on every schedule when
  they agree, and refuse it otherwise. Parsing any document keeps the configuration well-formed. Sessions and the server leak
  nothing on any path but one; the streams and datagrams of a session arrive in order and once, a
  terminated session ends, and destroying it frees what it holds. The session set is ordered by activity, stopping reaches every
  session, the tunnel's life returns what it takes, and stopping the service returns when its start succeeded. Some
  properties show where the code fails: a missing check, a mutex taken twice, a stop that waits for ever.

  \<^bold>\<open>Bounds and fuel.\<close> Loops over trees and lists are \<open>partial_function (option)\<close>, and the theorems show that they return. The walks
  \<open>terminate_all\<close>, \<open>destroy_frames\<close> and \<open>release_frames\<close> have the number of nodes as a bound, which is the counter the
  invariants tie to the list. The splicers run as long as data comes; their argument \<open>n\<close> (or fuel) cuts them off at an arbitrary
  iteration, the safety theorems hold for every \<open>n\<close>, and that a terminated session ends is shown for an explicit \<open>n\<close>.

  \<^bold>\<open>Not modelled.\<close> lwIP, libyaml, hev-task-system and wintun are third-party: what the code uses of them is a call of a step
  relation or a parameter. The TUN devices of other systems than Linux (\<open>hev-tunnel-freebsd.c\<close>, \<open>hev-tunnel-macos.c\<close>,
  \<open>hev-tunnel-netbsd.c\<close>, \<open>hev-tunnel-windows.c\<close>) repeat the same sequences of driver calls, \<open>misc/hev-exec.c\<close> only forks and
  executes a script, the registration of the native methods has no state. The Kotlin application is not C code. \<open>inet_pton\<close>,
  \<open>inet_ntop\<close> and the allocator are parameters. Timers are modelled as the possibility that a wait ends with a timeout.
\<close>

end
